(* ===== verification/Prelude.thy ===== *)
theory Prelude
  imports Main "HOL-Library.Word" "HOL-Library.Multiset" "HOL-Library.Monad_Syntax"
begin

text \<open>
  Shared ground of the development: the C types of the sources, checked memory accesses, and the
  generic facts on lists, options and words that the component theories use.

  C memory is modelled by lists. A read or a write outside the list is undefined behaviour in C; the
  accessors below answer \<open>None\<close> there, so that every model which touches memory returns an
  \<^typ>\<open>'a option\<close> and the theorem that it never returns \<open>None\<close> is its memory safety.
\<close>

unbundle bit_operations_syntax

section \<open>Types\<close>

type_synonym u8 = "8 word"
type_synonym u16 = "16 word"
type_synonym u32 = "32 word"
type_synonym u64 = "64 word"

abbreviation to_u8 :: "'a::len word \<Rightarrow> u8" where
  "to_u8 \<equiv> ucast"

abbreviation to_u32 :: "'a::len word \<Rightarrow> u32" where
  "to_u32 \<equiv> ucast"

named_theorems mem_simps \<open>facts that resolve checked memory accesses\<close>
named_theorems unat_simps \<open>bit operations as arithmetic on natural numbers\<close>
named_theorems mask_simps \<open>numeral masks as the generic mask operation\<close>

section \<open>Checked memory\<close>

definition rd :: "'a list \<Rightarrow> nat \<Rightarrow> 'a option" where
  "rd xs i = (if i < length xs then Some (xs ! i) else None)"

definition wr :: "'a list \<Rightarrow> nat \<Rightarrow> 'a \<Rightarrow> 'a list option" where
  "wr xs i v = (if i < length xs then Some (xs[i := v]) else None)"

text \<open>\<open>memcpy(dst + off, src, length src)\<close>, for a source that does not overlap the target.\<close>

definition blit :: "'a list \<Rightarrow> nat \<Rightarrow> 'a list \<Rightarrow> 'a list option" where
  "blit dst off src =
     (if off + length src \<le> length dst
      then Some (take off dst @ src @ drop (off + length src) dst) else None)"

text \<open>The bytes \<open>[off, off + n)\<close> of a memory block.\<close>

definition slice :: "'a list \<Rightarrow> nat \<Rightarrow> nat \<Rightarrow> 'a list option" where
  "slice xs off n = (if off + n \<le> length xs then Some (take n (drop off xs)) else None)"

lemma rd_Some [mem_simps]: "i < length xs \<Longrightarrow> rd xs i = Some (xs ! i)"
  by (simp add: rd_def)

lemma rd_eq_Some_iff: "rd xs i = Some v \<longleftrightarrow> i < length xs \<and> v = xs ! i"
  by (auto simp: rd_def)

lemma rd_eq_None_iff: "rd xs i = None \<longleftrightarrow> length xs \<le> i"
  by (auto simp: rd_def)

lemma wr_Some [mem_simps]: "i < length xs \<Longrightarrow> wr xs i v = Some (xs[i := v])"
  by (simp add: wr_def)

lemma wr_eq_Some_iff: "wr xs i v = Some ys \<longleftrightarrow> i < length xs \<and> ys = xs[i := v]"
  by (auto simp: wr_def)

lemma rd_bound: "rd xs i = Some v \<Longrightarrow> i < length xs"
  by (simp add: rd_eq_Some_iff)

lemma wr_length: "wr xs i v = Some ys \<Longrightarrow> length ys = length xs"
  by (auto simp: wr_eq_Some_iff)

lemma blit_Some [mem_simps]:
  "off + length src \<le> length dst \<Longrightarrow>
   blit dst off src = Some (take off dst @ src @ drop (off + length src) dst)"
  by (simp add: blit_def)

lemma blit_eq_Some_iff:
  "blit dst off src = Some ys \<longleftrightarrow>
   off + length src \<le> length dst \<and> ys = take off dst @ src @ drop (off + length src) dst"
  by (auto simp: blit_def)

lemma blit_length: "blit dst off src = Some ys \<Longrightarrow> length ys = length dst"
  by (auto simp: blit_eq_Some_iff)

lemma slice_Some [mem_simps]: "off + n \<le> length xs \<Longrightarrow> slice xs off n = Some (take n (drop off xs))"
  by (simp add: slice_def)

lemma slice_eq_Some_iff:
  "slice xs off n = Some ys \<longleftrightarrow> off + n \<le> length xs \<and> ys = take n (drop off xs)"
  by (auto simp: slice_def)

section \<open>Lists\<close>

definition swap :: "nat \<Rightarrow> nat \<Rightarrow> 'a list \<Rightarrow> 'a list" where
  "swap i j xs = xs[i := xs ! j, j := xs ! i]"

lemma length_swap [simp]: "length (swap i j xs) = length xs"
  by (simp add: swap_def)

lemma nth_swap:
  "i < length xs \<Longrightarrow> j < length xs \<Longrightarrow> k < length xs \<Longrightarrow>
   swap i j xs ! k = (if k = i then xs ! j else if k = j then xs ! i else xs ! k)"
  by (auto simp: swap_def nth_list_update)

lemma nth_swap_other: "k \<noteq> i \<Longrightarrow> k \<noteq> j \<Longrightarrow> swap i j xs ! k = xs ! k"
  by (simp add: swap_def)

lemma mset_swap': "i < length xs \<Longrightarrow> j < length xs \<Longrightarrow> mset (swap i j xs) = mset xs"
  unfolding swap_def by (rule Multiset.mset_swap)

lemma swap_same [simp]: "swap i i xs = xs"
  by (simp add: swap_def)

lemma take_drop_eq_nth_map:
  "off + n \<le> length xs \<Longrightarrow> take n (drop off xs) = map (\<lambda>i. xs ! (off + i)) [0..<n]"
  by (rule nth_equalityI) auto

section \<open>Words\<close>

lemma mod_offset: "d dvd a \<Longrightarrow> k < d \<Longrightarrow> (a + k) mod d = (k :: nat)"
  by (auto elim!: dvdE)

lemma mask_numerals [mask_simps]:
  "(1 :: 'a::len word) = mask 1" "(3 :: 'a::len word) = mask 2" "(7 :: 'a::len word) = mask 3"
  "(15 :: 'a::len word) = mask 4" "(31 :: 'a::len word) = mask 5" "(63 :: 'a::len word) = mask 6"
  "(127 :: 'a::len word) = mask 7" "(255 :: 'a::len word) = mask 8"
  by (simp_all add: mask_eq_exp_minus_1)

lemma bit_2p_numerals [mask_simps]:
  "bit (64 :: nat) n \<longleftrightarrow> n = 6" "bit (128 :: nat) n \<longleftrightarrow> n = 7"
  "bit (64 :: int) n \<longleftrightarrow> n = 6" "bit (128 :: int) n \<longleftrightarrow> n = 7"
  using bit_exp_iff [where 'a = nat, of 6 n] bit_exp_iff [where 'a = nat, of 7 n]
    bit_exp_iff [where 'a = int, of 6 n] bit_exp_iff [where 'a = int, of 7 n]
  by auto

lemma unat_u8_lt: "unat (b :: u8) < 256"
  using unsigned_less [of b] by simp

lemma unat_u32_lt: "unat (w :: u32) < 2 ^ 32"
  using unsigned_less [of w] by simp

lemma push_drop_or: "push_bit n (drop_bit n (c :: 'a::len word)) OR (c AND mask n) = c"
  by (rule bit_word_eqI) (auto simp: bit_simps)

lemma unat_of_nat_eq: "n < 2 ^ LENGTH('a) \<Longrightarrow> unat (word_of_nat n :: 'a::len word) = n"
  by (simp add: unat_of_nat)

lemma word_of_nat_unat_eq: "unat (w :: 'a::len word) = n \<Longrightarrow> w = word_of_nat n"
  by auto

text \<open>Bit operations read as arithmetic on \<^const>\<open>unat\<close>.\<close>

lemma unat_take_bit [unat_simps]: "unat (take_bit n (w :: 'a::len word)) = unat w mod 2 ^ n"
  by (subst unsigned_take_bit_eq) (simp add: take_bit_eq_mod)

lemma unat_and_mask [unat_simps]: "unat ((w :: 'a::len word) AND mask n) = unat w mod 2 ^ n"
  by (simp add: take_bit_eq_mask [symmetric] unat_take_bit)

lemma unat_drop_bit [unat_simps]: "unat (drop_bit n (w :: 'a::len word)) = unat w div 2 ^ n"
  by (subst unat_drop_bit_eq) (simp add: drop_bit_eq_div)

lemma unat_push_bit [unat_simps]:
  "unat (push_bit n (w :: 'a::len word)) = (unat w * 2 ^ n) mod 2 ^ LENGTH('a)"
  by (subst unsigned_push_bit_eq) (simp add: take_bit_eq_mod push_bit_eq_mult)

lemma unat_ucast [unat_simps]:
  "unat (ucast (w :: 'a::len word) :: 'b::len word) = unat w mod 2 ^ LENGTH('b)"
  by (simp add: unsigned_ucast_eq take_bit_eq_mod)

lemma take_bit_eq_self_word:
  fixes d :: "'a::len word"
  shows "unat d < 2 ^ m \<Longrightarrow> take_bit m d = d"
  by (simp add: word_unat_eq_iff unat_take_bit)

lemma unat_or_disjoint:
  fixes a b :: "'a::len word"
  assumes "unat a < 2 ^ m" and "take_bit m b = 0"
  shows "a OR b = a + b"
proof -
  have am: "take_bit m a = a" using assms(1) by (rule take_bit_eq_self_word)
  have "a AND b = 0"
  proof (rule bit_word_eqI)
    fix n
    have "bit a n \<Longrightarrow> n < m"
      using am by (metis bit_take_bit_iff)
    moreover have "n < m \<Longrightarrow> \<not> bit b n"
      using assms(2) by (metis bit_take_bit_iff bit_0_eq bot_apply bot_bool_def)
    ultimately show "bit (a AND b) n = bit 0 n" by (auto simp: bit_and_iff)
  qed
  then show ?thesis by (simp add: disjunctive_add_eq_or)
qed

end
