(* ===== verification/CUtils_UTF8.thy ===== *)
theory CUtils_UTF8
  imports Prelude
begin

text \<open>
  The UTF-8 encoder and decoder of \<open>cutils.c\<close> (\<open>unicode_to_utf8\<close>, \<open>unicode_from_utf8\<close>).
  Code points are 32-bit words, buffers are byte lists. The encoder's result is the list of bytes
  it stores at \<open>buf\<close> (its return value is the length; \<open>[]\<close> is the return value 0). The decoder
  reads the memory \<open>p\<close> through \<^const>\<open>rd\<close>: \<open>None\<close> is a read outside it, \<open>Some None\<close> the return
  value -1, and \<open>Some (Some (c, n))\<close> the character with the number of bytes by which \<open>*pp\<close> moves.
\<close>

section \<open>Encoder\<close>

definition cont_byte :: "nat \<Rightarrow> u32 \<Rightarrow> u8" where
  "cont_byte n c = to_u8 ((drop_bit n c AND 0x3f) OR 0x80)"

definition unicode_to_utf8 :: "u32 \<Rightarrow> u8 list" where
  "unicode_to_utf8 c =
     (if c < 0x80 then [to_u8 c]
      else if c < 0x800 then [to_u8 (drop_bit 6 c OR 0xc0), cont_byte 0 c]
      else if c < 0x10000 then [to_u8 (drop_bit 12 c OR 0xe0), cont_byte 6 c, cont_byte 0 c]
      else if c < 0x200000 then
        [to_u8 (drop_bit 18 c OR 0xf0), cont_byte 12 c, cont_byte 6 c, cont_byte 0 c]
      else if c < 0x4000000 then
        [to_u8 (drop_bit 24 c OR 0xf8), cont_byte 18 c, cont_byte 12 c, cont_byte 6 c, cont_byte 0 c]
      else if c < 0x80000000 then
        [to_u8 (drop_bit 30 c OR 0xfc), cont_byte 24 c, cont_byte 18 c, cont_byte 12 c,
         cont_byte 6 c, cont_byte 0 c]
      else [])"

section \<open>Decoder\<close>

definition utf8_min_code :: "u32 list" where
  "utf8_min_code = [0x80, 0x800, 0x10000, 0x200000, 0x4000000]"

definition utf8_first_code_mask :: "u8 list" where
  "utf8_first_code_mask = [0x1f, 0xf, 0x7, 0x3, 0x1]"

text \<open>The \<open>switch\<close> on the first byte: the number \<open>l\<close> of continuation bytes.\<close>

definition utf8_seq_len :: "u8 \<Rightarrow> nat option" where
  "utf8_seq_len c =
     (if 0xc0 \<le> c \<and> c \<le> 0xdf then Some 1
      else if 0xe0 \<le> c \<and> c \<le> 0xef then Some 2
      else if 0xf0 \<le> c \<and> c \<le> 0xf7 then Some 3
      else if 0xf8 \<le> c \<and> c \<le> 0xfb then Some 4
      else if 0xfc \<le> c \<and> c \<le> 0xfd then Some 5
      else None)"

text \<open>The loop over the continuation bytes, from position \<open>i\<close> with \<open>k\<close> bytes left.\<close>

fun utf8_cont :: "u8 list \<Rightarrow> nat \<Rightarrow> nat \<Rightarrow> u32 \<Rightarrow> u32 option option" where
  "utf8_cont p i 0 c = Some (Some c)"
| "utf8_cont p i (Suc k) c =
     (case rd p i of
        None \<Rightarrow> None
      | Some b \<Rightarrow>
          if b < 0x80 \<or> b \<ge> 0xc0 then Some None
          else utf8_cont p (Suc i) k (push_bit 6 c OR (to_u32 b AND 0x3f)))"

definition unicode_from_utf8 :: "u8 list \<Rightarrow> int \<Rightarrow> (u32 \<times> nat) option option" where
  "unicode_from_utf8 p max_len =
     (case rd p 0 of
        None \<Rightarrow> None
      | Some c \<Rightarrow>
          if c < 0x80 then Some (Some (to_u32 c, 1))
          else case utf8_seq_len c of
            None \<Rightarrow> Some None
          | Some l \<Rightarrow>
              if int l > max_len - 1 then Some None
              else case utf8_cont p 1 l (to_u32 (c AND utf8_first_code_mask ! (l - 1))) of
                None \<Rightarrow> None
              | Some None \<Rightarrow> Some None
              | Some (Some c') \<Rightarrow>
                  if c' < utf8_min_code ! (l - 1) then Some None else Some (Some (c', l + 1)))"

section \<open>Bytes\<close>

lemma cont_byte_bits: "cont_byte n c = take_bit 6 (to_u8 (drop_bit n c)) OR 0x80"
  unfolding cont_byte_def
  by (rule bit_word_eqI) (auto simp: bit_simps mask_simps)

lemma cont_byte_range: "\<not> (cont_byte n c < 0x80 \<or> cont_byte n c \<ge> 0xc0)"
proof -
  have "unat (take_bit 6 b OR 0x80) = unat b mod 64 + 0x80" for b :: u8
  proof -
    have "take_bit 6 b AND 0x80 = 0"
      by (rule bit_word_eqI) (auto simp: bit_simps mask_simps)
    then have "take_bit 6 b OR 0x80 = take_bit 6 b + 0x80"
      by (simp add: disjunctive_add_eq_or)
    then show ?thesis 
      by (simp add: unat_word_ariths unsigned_take_bit_eq take_bit_eq_mod)
  qed
  then show ?thesis by (simp add: cont_byte_bits word_less_nat_alt word_le_nat_alt)
qed

lemma cont_byte_payload: "to_u32 (cont_byte n c) AND 0x3f = drop_bit n c AND 0x3f"
  unfolding cont_byte_def
  by (rule bit_word_eqI) (auto simp: bit_simps mask_simps)

lemma payload_step: "push_bit 6 (drop_bit (n + 6) c) OR (drop_bit n c AND 0x3f) = drop_bit n (c :: u32)"
  by (rule bit_word_eqI) (auto simp: bit_simps mask_simps)

text \<open>The continuation bytes of \<open>c\<close>, most significant first.\<close>

fun cont_bytes :: "nat \<Rightarrow> u32 \<Rightarrow> u8 list" where
  "cont_bytes 0 c = []"
| "cont_bytes (Suc k) c = cont_byte (6 * k) c # cont_bytes k c"

lemma length_cont_bytes [simp]: "length (cont_bytes k c) = k"
  by (induction k) auto

lemma utf8_cont_cont_bytes:
  "take k (drop i p) = cont_bytes k c \<Longrightarrow> utf8_cont p i k (drop_bit (6 * k) c) = Some (Some c)"
proof (induction k arbitrary: i)
  case (Suc k)
  then have i: "i < length p"
    by (cases "i < length p") auto
  with Suc.prems have p: "p ! i = cont_byte (6 * k) c" "take k (drop (Suc i) p) = cont_bytes k c"
    by (auto simp: Cons_nth_drop_Suc [symmetric])
  show ?case
    using Suc.IH [OF p(2)] i cont_byte_range [of "6 * k" c]
    by (simp add: rd_def p(1) cont_byte_payload payload_step [of "6 * k", simplified add.commute] add.commute)
qed simp

section \<open>The first byte\<close>

lemma lead_byte:
  fixes d L :: u32
  assumes d: "unat d < 2 ^ m" and L: "take_bit m L = 0" "unat L + 2 ^ m \<le> 256"
  shows "unat (to_u8 (d OR L)) = unat L + unat d"
    and "to_u32 (to_u8 (d OR L) AND mask m) = d"
proof -
  have "d OR L = d + L" using d L(1) by (rule unat_or_disjoint)
  then have s: "unat (to_u8 (d OR L)) = unat L + unat d"
    using d L(2) by (simp add: unat_simps unat_word_ariths)
  then show "unat (to_u8 (d OR L)) = unat L + unat d" .
  have "2 ^ m dvd unat L"
    using L(1) by (simp add: word_unat_eq_iff unat_simps mod_eq_0_iff_dvd)
  then have "(unat L + unat d) mod 2 ^ m = unat d"
    using d by (metis mod_add_left_eq mod_less add_0 dvd_imp_mod_0)
  moreover have "unat L + unat d < 4294967296" using d L(2) by simp
  ultimately have "unat (to_u32 (to_u8 (d OR L) AND mask m)) = unat d"
    by (subst unat_ucast, subst unat_and_mask, subst s) simp
  then show "to_u32 (to_u8 (d OR L) AND mask m) = d" by (simp add: word_unat_eq_iff)
qed

text \<open>
  The five multi-byte forms, as one lemma: the sequence with \<open>l\<close> continuation bytes carries
  \<open>6 - l\<close> payload bits in its first byte (5 for \<open>l = 1\<close>, down to 1 for \<open>l = 5\<close>).
\<close>

definition utf8_lead :: "nat \<Rightarrow> u32" where
  "utf8_lead l = [0xc0, 0xe0, 0xf0, 0xf8, 0xfc] ! (l - 1)"

definition utf8_form :: "nat \<Rightarrow> u32 \<Rightarrow> u8 list" where
  "utf8_form l c = to_u8 (drop_bit (6 * l) c OR utf8_lead l) # cont_bytes l c"

lemma l_cases: "l \<in> {1..5} \<Longrightarrow> l = 1 \<or> l = 2 \<or> l = 3 \<or> l = 4 \<or> l = (5::nat)"
  by auto

lemma utf8_lead_facts:
  assumes "l \<in> {1..5}"
  shows "take_bit (6 - l) (utf8_lead l) = 0" and "unat (utf8_lead l) + 2 ^ (6 - l) \<le> 256"
    and "utf8_first_code_mask ! (l - 1) = mask (6 - l)"
    and "0x80 \<le> unat (utf8_lead l)"
  using l_cases [OF assms]
  by (auto simp: utf8_lead_def utf8_first_code_mask_def mask_eq_exp_minus_1 take_bit_eq_mod)

lemma utf8_seq_len_unat:
  "utf8_seq_len b =
     (let n = unat b in
      if 192 \<le> n \<and> n < 224 then Some 1 else if 224 \<le> n \<and> n < 240 then Some 2
      else if 240 \<le> n \<and> n < 248 then Some 3 else if 248 \<le> n \<and> n < 252 then Some 4
      else if 252 \<le> n \<and> n < 254 then Some 5 else None)"
proof -
  have "n \<le> 223 \<longleftrightarrow> n < 224" "n \<le> 239 \<longleftrightarrow> n < 240" "n \<le> 247 \<longleftrightarrow> n < 248" "n \<le> 251 \<longleftrightarrow> n < 252"
    "n \<le> 253 \<longleftrightarrow> n < 254" for n :: nat by arith+
  then show ?thesis by (simp add: utf8_seq_len_def Let_def word_le_nat_alt)
qed

lemma utf8_seq_len_range:
  assumes "l \<in> {1..5}"
  shows "utf8_seq_len b = Some l \<longleftrightarrow>
    unat (utf8_lead l) \<le> unat b \<and> unat b < unat (utf8_lead l) + 2 ^ (6 - l)"
  using l_cases [OF assms]
  by (elim disjE) (simp_all add: utf8_lead_def utf8_seq_len_unat Let_def)

lemma cont_bytes_numerals:
  "cont_bytes 1 c = [cont_byte 0 c]"
  "cont_bytes 2 c = [cont_byte 6 c, cont_byte 0 c]"
  "cont_bytes 3 c = [cont_byte 12 c, cont_byte 6 c, cont_byte 0 c]"
  "cont_bytes 4 c = [cont_byte 18 c, cont_byte 12 c, cont_byte 6 c, cont_byte 0 c]"
  "cont_bytes 5 c = [cont_byte 24 c, cont_byte 18 c, cont_byte 12 c, cont_byte 6 c, cont_byte 0 c]"
  by (simp_all add: eval_nat_numeral)

lemma unicode_to_utf8_form:
  assumes "l \<in> {1..5}" and "utf8_min_code ! (l - 1) \<le> c" and "unat c < 2 ^ (6 + 5 * l)"
  shows "unicode_to_utf8 c = utf8_form l c"
  using l_cases [OF assms(1)] assms(2,3)
  by (elim disjE) (simp_all add: unicode_to_utf8_def utf8_form_def utf8_lead_def utf8_min_code_def
      word_less_nat_alt word_le_nat_alt cont_bytes_numerals [simplified] cont_bytes_numerals)

lemma unicode_to_utf8_cases:
  assumes "unat c < 2 ^ 31"
  obtains "unat c < 0x80" "unicode_to_utf8 c = [to_u8 c]"
    | l where "l \<in> {1..5}" "utf8_min_code ! (l - 1) \<le> c" "unat c < 2 ^ (6 + 5 * l)"
        "unicode_to_utf8 c = utf8_form l c"
proof -
  consider "unat c < 0x80" | "0x80 \<le> unat c" "unat c < 0x800" | "0x800 \<le> unat c" "unat c < 0x10000"
    | "0x10000 \<le> unat c" "unat c < 0x200000" | "0x200000 \<le> unat c" "unat c < 0x4000000"
    | "0x4000000 \<le> unat c" "unat c < 0x80000000"
    using assms by (simp del: unat_eq_zero) linarith
  then show ?thesis
  proof cases
    case 1 then show ?thesis using that(1) by (simp add: unicode_to_utf8_def word_less_nat_alt)
  next
    case 2 then show ?thesis using that(2) [of 1] unicode_to_utf8_form [of 1 c]
      by (simp add: utf8_min_code_def word_le_nat_alt)
  next
    case 3 then show ?thesis using that(2) [of 2] unicode_to_utf8_form [of 2 c]
      by (simp add: utf8_min_code_def word_le_nat_alt)
  next
    case 4 then show ?thesis using that(2) [of 3] unicode_to_utf8_form [of 3 c]
      by (simp add: utf8_min_code_def word_le_nat_alt)
  next
    case 5 then show ?thesis using that(2) [of 4] unicode_to_utf8_form [of 4 c]
      by (simp add: utf8_min_code_def word_le_nat_alt)
  next
    case 6 then show ?thesis using that(2) [of 5] unicode_to_utf8_form [of 5 c]
      by (simp add: utf8_min_code_def word_le_nat_alt)
  qed
qed

section \<open>Round trip\<close>

lemma drop_bit_form_bound:
  fixes c :: u32
  assumes "l \<in> {1..5}" "unat c < 2 ^ (6 + 5 * l)"
  shows "unat (drop_bit (6 * l) c) < 2 ^ (6 - l)"
proof -
  have "6 + 5 * l = 6 * l + (6 - l)" using assms(1) by auto
  with assms(2) have "unat c < 2 ^ (6 * l + (6 - l))" by metis
  then have "unat c < 2 ^ (6 - l) * 2 ^ (6 * l)" by (simp only: power_add mult.commute)
  then show ?thesis by (simp add: unat_drop_bit less_mult_imp_div_less)
qed

lemma utf8_form_decode:
  assumes l: "l \<in> {1..5}" and c: "utf8_min_code ! (l - 1) \<le> c" "unat c < 2 ^ (6 + 5 * l)"
    and len: "int l < max_len"
  shows "unicode_from_utf8 (utf8_form l c @ rest) max_len = Some (Some (c, l + 1))"
proof -
  let ?b = "to_u8 (drop_bit (6 * l) c OR utf8_lead l)"
  let ?p = "utf8_form l c @ rest"
  note lead = lead_byte [OF drop_bit_form_bound [OF l c(2)] utf8_lead_facts(1,2) [OF l]]
  have b: "utf8_seq_len ?b = Some l" "\<not> ?b < 0x80"
    using lead(1) drop_bit_form_bound [OF l c(2)] utf8_lead_facts(4) [OF l]
    by (auto simp: utf8_seq_len_range [OF l] word_less_nat_alt)
  have m: "to_u32 (?b AND utf8_first_code_mask ! (l - 1)) = drop_bit (6 * l) c"
    using lead(2) utf8_lead_facts(3) [OF l] by simp
  have "take l (drop 1 ?p) = cont_bytes l c"
    by (simp add: utf8_form_def)
  from utf8_cont_cont_bytes [OF this] show ?thesis
    using b m len leD [OF c(1)] by (simp add: unicode_from_utf8_def utf8_form_def rd_def)
qed

lemma length_unicode_to_utf8_form: "length (utf8_form l c) = l + 1"
  by (simp add: utf8_form_def)

lemma utf8_ascii_decode:
  assumes "unat c < 0x80"
  shows "unicode_from_utf8 (to_u8 c # rest) max_len = Some (Some (c, 1))"
proof -
  have "unat (to_u8 c) = unat c" using assms by (simp add: unat_ucast)
  moreover have "to_u32 (to_u8 c) = c"
    using assms by (simp add: word_unat_eq_iff unat_ucast)
  ultimately show ?thesis using assms by (simp add: unicode_from_utf8_def rd_def word_less_nat_alt)
qed

lemma utf8_roundtrip_31:
  assumes "unat c < 2 ^ 31" and "int (length (unicode_to_utf8 c)) \<le> max_len"
  shows "unicode_from_utf8 (unicode_to_utf8 c @ rest) max_len =
    Some (Some (c, length (unicode_to_utf8 c)))"
  using assms(1)
proof (cases rule: unicode_to_utf8_cases)
  case 1
  then show ?thesis using utf8_ascii_decode by simp
next
  case (2 l)
  then show ?thesis
    using utf8_form_decode [of l c max_len rest] assms(2) by (simp add: length_unicode_to_utf8_form)
qed

section \<open>Decoding accepts only the shortest form\<close>

lemma step_or_plus:
  fixes c :: u32
  shows "push_bit 6 c OR (to_u32 b AND 0x3f) = (to_u32 b AND 0x3f) + push_bit 6 c"
proof -
  have "unat (to_u32 b AND mask 6) < 2 ^ 6" by (simp add: unat_simps)
  moreover have "take_bit 6 (push_bit 6 c) = 0"
    by (rule bit_word_eqI) (simp add: bit_simps)
  ultimately have "(to_u32 b AND mask 6) OR push_bit 6 c = (to_u32 b AND mask 6) + push_bit 6 c"
    by (rule unat_or_disjoint)
  then show ?thesis by (simp add: mask_eq_exp_minus_1 or.commute)
qed

lemma unat_step:
  fixes c :: u32
  assumes "unat c < 2 ^ 26"
  shows "unat (push_bit 6 c OR (to_u32 b AND 0x3f)) = 64 * unat c + unat (b :: u8) mod 64"
proof -
  have m: "unat (to_u32 b AND mask 6) = unat b mod 64"
    using unat_u8_lt [of b] by (simp add: unat_simps)
  have "unat (push_bit 6 c) = 64 * unat c" using assms by (simp add: unat_simps)
  with m have "unat ((to_u32 b AND mask 6) + push_bit 6 c) = 64 * unat c + unat b mod 64"
    using assms by (simp add: unat_word_ariths)
  then show ?thesis unfolding step_or_plus by (simp add: mask_eq_exp_minus_1)
qed

lemma cont_byte_eq:
  assumes "\<not> (b < 0x80 \<or> b \<ge> 0xc0)" and "unat c mod 64 = unat b mod 64"
  shows "cont_byte 0 c = b"
proof -
  have "unat (c AND mask 6) < 2 ^ 6" and z: "take_bit 6 (0x80 :: u32) = 0"
    by (simp_all add: unat_simps)
  from unat_or_disjoint [OF this]
  have "unat ((c AND mask 6) OR 0x80) = unat c mod 64 + 128"
    by (simp add: unat_simps unat_word_ariths)
  moreover have "128 \<le> unat b" "unat b < 192"
    using assms(1) by (auto simp: word_less_nat_alt word_le_nat_alt)
  then obtain k where "unat b = 128 + k" "k < 64" using le_Suc_ex by fastforce
  then have "unat b = unat b mod 64 + 128" by (simp add: mod_offset)
  ultimately have "unat (cont_byte 0 c) = unat b"
    using assms(2) unat_u8_lt [of b]
    by (simp add: cont_byte_def unat_ucast mask_eq_exp_minus_1)
  then show ?thesis by (simp add: word_unat_eq_iff)
qed

lemma utf8_cont_sound:
  assumes "utf8_cont p i k c0 = Some (Some c)" and "(unat c0 + 1) * 64 ^ k \<le> 2 ^ 32"
  shows "take k (drop i p) = cont_bytes k c \<and> drop_bit (6 * k) c = c0"
  using assms
proof (induction k arbitrary: i c0)
  case (Suc k)
  then obtain b where i: "i < length p" and b: "p ! i = b" "\<not> (b < 0x80 \<or> b \<ge> 0xc0)"
    and rec: "utf8_cont p (Suc i) k (push_bit 6 c0 OR (to_u32 b AND 0x3f)) = Some (Some c)"
    by (auto simp: rd_def split: if_splits)
  let ?c1 = "push_bit 6 c0 OR (to_u32 b AND 0x3f)"
  have "(unat c0 + 1) * 64 * 1 \<le> (unat c0 + 1) * 64 * 64 ^ k" by (rule mult_le_mono2) simp
  then have "(unat c0 + 1) * 64 \<le> 2 ^ 32" using Suc.prems(2) by (simp only: power_Suc mult.assoc mult_1_right)
  then have "unat c0 < 2 ^ 26" by simp
  note c1 = unat_step [OF this, of b]
  have "unat b mod 64 < 64" by simp
  then have "64 * unat c0 + unat b mod 64 + 1 \<le> (unat c0 + 1) * 64" by simp
  then have "(unat ?c1 + 1) * 64 ^ k \<le> (unat c0 + 1) * 64 * 64 ^ k"
    unfolding c1 by (rule mult_le_mono1)
  also have "\<dots> \<le> 2 ^ 32" using Suc.prems(2) by (simp only: power_Suc mult.assoc)
  finally have "(unat ?c1 + 1) * 64 ^ k \<le> 2 ^ 32" .
  with Suc.IH [OF rec] have IH: "take k (drop (Suc i) p) = cont_bytes k c" "drop_bit (6 * k) c = ?c1"
    by auto
  have "cont_byte (6 * k) c = cont_byte 0 ?c1"
    using IH(2) by (simp add: cont_byte_def)
  also have "\<dots> = b" using b(2) by (rule cont_byte_eq) (simp add: c1)
  finally have 1: "cont_byte (6 * k) c = b" .
  have "drop_bit (6 * Suc k) c = drop_bit 6 (drop_bit (6 * k) c)" by (simp add: add.commute)
  also have "\<dots> = c0" unfolding IH(2)
    by (subst word_unat_eq_iff, subst unat_drop_bit, subst c1) simp
  finally show ?case using 1 IH(1) i b(1) by (simp add: Cons_nth_drop_Suc [symmetric])
qed simp

lemma lead_byte_eq:
  assumes l: "l \<in> {1..5}" and b: "utf8_seq_len b = Some l"
  shows "to_u8 (to_u32 (b AND mask (6 - l)) OR utf8_lead l) = b"
    and "unat (to_u32 (b AND mask (6 - l))) < 2 ^ (6 - l)"
proof -
  let ?d = "to_u32 (b AND mask (6 - l))"
  have d: "unat ?d = unat b mod 2 ^ (6 - l)"
  proof -
    have "unat b mod 2 ^ (6 - l) < 4294967296"
      using unat_u8_lt [of b] mod_less_eq_dividend [of "unat b" "2 ^ (6 - l)"] by linarith
    then show ?thesis by (simp add: unat_simps)
  qed
  then show lt: "unat ?d < 2 ^ (6 - l)" by simp
  have "unat (utf8_lead l) + unat b mod 2 ^ (6 - l) = unat b"
  proof -
    obtain k where "unat b = unat (utf8_lead l) + k" "k < 2 ^ (6 - l)"
      using b unfolding utf8_seq_len_range [OF l] using le_Suc_ex by fastforce
    then show ?thesis using l_cases [OF l] by (elim disjE) (simp_all add: utf8_lead_def mod_offset)
  qed
  with lead_byte(1) [OF lt utf8_lead_facts(1,2) [OF l]] d
  show "to_u8 (?d OR utf8_lead l) = b" by (simp add: word_unat_eq_iff)
qed

lemma utf8_seq_len_5: "utf8_seq_len b = Some l \<Longrightarrow> l \<in> {1..5}"
  by (auto simp: utf8_seq_len_def split: if_splits)

lemma utf8_decode_sound:
  assumes "unicode_from_utf8 p max_len = Some (Some (c, n))"
  shows "take n p = unicode_to_utf8 c \<and> n = length (unicode_to_utf8 c) \<and> unat c < 2 ^ 31"
proof (cases "hd p < 0x80")
  case True
  with assms have "p \<noteq> []" "n = 1" "c = to_u32 (hd p)"
    by (auto simp: unicode_from_utf8_def rd_def hd_conv_nth split: if_splits option.splits)
  moreover have "unat (to_u32 (hd p)) = unat (hd p)" using unat_u8_lt [of "hd p"] by (simp add: unat_simps)
  ultimately show ?thesis using True
    by (cases p) (auto simp: unicode_to_utf8_def word_less_nat_alt word_unat_eq_iff unat_ucast)
next
  case False
  with assms obtain b l where b: "p \<noteq> []" "b = p ! 0" "utf8_seq_len b = Some l" "n = l + 1"
    and cont: "utf8_cont p 1 l (to_u32 (b AND utf8_first_code_mask ! (l - 1))) = Some (Some c)"
    and min: "utf8_min_code ! (l - 1) \<le> c"
    by (auto simp: unicode_from_utf8_def rd_def hd_conv_nth not_less split: if_splits option.splits)
  note l = utf8_seq_len_5 [OF b(3)]
  let ?d = "to_u32 (b AND mask (6 - l))"
  have "(unat ?d + 1) * 64 ^ l \<le> 2 ^ (6 - l) * 64 ^ l"
    using lead_byte_eq(2) [OF l b(3)] by (intro mult_le_mono1) simp
  also have "\<dots> \<le> 2 ^ 31" using l_cases [OF l] by (elim disjE) simp_all
  finally have bd: "(unat ?d + 1) * 64 ^ l \<le> 2 ^ 31" .
  with utf8_cont_sound [OF cont [unfolded utf8_lead_facts(3) [OF l]]]
  have s: "take l (drop 1 p) = cont_bytes l c" "drop_bit (6 * l) c = ?d" by auto
  have "unat c div 64 ^ l = unat (drop_bit (6 * l) c)" by (simp add: unat_drop_bit power_mult)
  with s(2) have "unat c div 64 ^ l = unat ?d" by metis
  then have "unat c < (unat ?d + 1) * 64 ^ l"
    by (metis Suc_eq_plus1 dividend_less_div_times mult.commute mult_Suc zero_less_numeral zero_less_power)
  moreover have "\<dots> \<le> 2 ^ (6 - l) * 64 ^ l"
    using lead_byte_eq(2) [OF l b(3)] by (intro mult_le_mono1) simp
  moreover have "\<dots> = 2 ^ (6 + 5 * l)" using l_cases [OF l] by (elim disjE) simp_all
  ultimately have "unat c < 2 ^ (6 + 5 * l)" by linarith
  with l min have "unicode_to_utf8 c = utf8_form l c" by (rule unicode_to_utf8_form)
  moreover have "utf8_form l c = take n p"
    using s lead_byte_eq(1) [OF l b(3)] b by (cases p) (auto simp: utf8_form_def)
  moreover have "length (utf8_form l c) = n" using b(4) by (simp add: length_unicode_to_utf8_form)
  moreover have "unat c < 2 ^ 31"
    using \<open>unat c < (unat ?d + 1) * 64 ^ l\<close> bd by linarith
  ultimately show ?thesis by simp
qed

section \<open>Reads stay inside the input\<close>

lemma utf8_cont_in_bounds: "i + k \<le> length p \<Longrightarrow> utf8_cont p i k c \<noteq> None"
  by (induction p i k c rule: utf8_cont.induct) (auto simp: rd_def)

lemma unicode_from_utf8_in_bounds:
  assumes "1 \<le> max_len" and "max_len \<le> int (length p)"
  shows "unicode_from_utf8 p max_len \<noteq> None"
proof -
  have "\<exists>y. utf8_cont p 1 l c = Some y" if "\<not> int l > max_len - 1" for l c
  proof -
    have "1 + l \<le> length p" using that assms by linarith
    then show ?thesis using utf8_cont_in_bounds [of 1 l p c] by blast
  qed
  note cont = this
  have "rd p 0 = Some (p ! 0)" using assms by (intro rd_Some) linarith
  then show ?thesis
    using cont by (auto simp: unicode_from_utf8_def split: option.split if_split) (metis option.distinct(1) One_nat_def)
qed

section \<open>Properties\<close>

text \<open>
  C12. Every code point below \<open>2\<^sup>3\<^sup>1\<close> that \<open>unicode_to_utf8\<close> encodes is decoded back by
  \<open>unicode_from_utf8\<close>, whatever bytes follow, as soon as \<open>max_len\<close> covers the encoding, and the
  read pointer moves by exactly the encoded length, which is between 1 and \<open>UTF8_CHAR_LEN_MAX = 6\<close>.
\<close>

theorem utf8_roundtrip:
  assumes "c < 0x80000000" and "int (length (unicode_to_utf8 c)) \<le> max_len"
  shows "unicode_from_utf8 (unicode_to_utf8 c @ rest) max_len =
      Some (Some (c, length (unicode_to_utf8 c)))
    \<and> 1 \<le> length (unicode_to_utf8 c) \<and> length (unicode_to_utf8 c) \<le> 6"
  using utf8_roundtrip_31 [of c max_len rest] assms
  by (simp add: word_less_nat_alt) (simp add: unicode_to_utf8_def word_less_nat_alt)

theorem utf8_roundtrip_witness:
  "unicode_from_utf8 (unicode_to_utf8 0x20AC @ [0x41]) 4 = Some (Some (0x20AC, 3))
   \<and> unicode_to_utf8 0x20AC = [0xE2, 0x82, 0xAC]"
proof -
  have e: "unicode_to_utf8 0x20AC = [0xE2, 0x82, 0xAC]" by code_simp
  have "(0x20AC :: u32) < 0x80000000" by simp
  moreover have "int (length (unicode_to_utf8 0x20AC)) \<le> 4" by (simp add: e)
  ultimately show ?thesis using utf8_roundtrip [of "0x20AC" 4 "[0x41]"] e by simp
qed

text \<open>
  C28. The decoder accepts the shortest form only: whenever it returns a character \<open>c\<close> after \<open>n\<close>
  bytes, those \<open>n\<close> bytes are the encoding \<open>unicode_to_utf8 c\<close> (overlong forms, stray
  continuation bytes and values of 32 bits are all rejected).
\<close>

theorem utf8_decode_canonical:
  assumes "unicode_from_utf8 p max_len = Some (Some (c, n))"
  shows "take n p = unicode_to_utf8 c \<and> n = length (unicode_to_utf8 c) \<and> c < 0x80000000"
proof -
  have "c < 0x80000000" using utf8_decode_sound [OF assms] by (simp add: word_less_nat_alt)
  then show ?thesis using utf8_decode_sound [OF assms] by blast
qed

theorem utf8_decode_canonical_witness:
  "unicode_from_utf8 [0xC3, 0xA9, 0x21] 3 = Some (Some (0xE9, 2))
   \<and> take 2 [0xC3, 0xA9, 0x21] = unicode_to_utf8 0xE9
   \<and> unicode_from_utf8 [0xC0, 0x80] 2 = Some None"
proof -
  have e: "unicode_from_utf8 [0xC3, 0xA9, 0x21] 3 = Some (Some (0xE9, 2))" by code_simp
  have "unicode_from_utf8 [0xC0, 0x80] 2 = Some None" by code_simp
  with utf8_decode_canonical [OF e] e show ?thesis by blast
qed

text \<open>
  The decoder never reads past \<open>max_len\<close> bytes: on any input of at least \<open>max_len \<ge> 1\<close> bytes
  it has no out-of-range read.
\<close>

theorem utf8_decode_memory_safe:
  assumes "1 \<le> max_len" and "max_len \<le> int (length p)"
  shows "unicode_from_utf8 p max_len \<noteq> None"
  using assms by (rule unicode_from_utf8_in_bounds)

theorem utf8_decode_memory_safe_witness: "unicode_from_utf8 [0xF0, 0x9F] 2 \<noteq> None"
  by (rule utf8_decode_memory_safe) simp_all

end
