(* ===== verification/QJS_Malloc.thy ===== *)
theory QJS_Malloc
  imports Prelude
begin

text \<open>
  The allocators of the engine: the C library's \<open>malloc\<close>, \<open>realloc\<close> and \<open>free\<close> as the sources use
  them, the default allocator of \<open>cutils.c\<close> and \<open>libunicode.c\<close>, and the accounting allocator with a
  memory limit of \<open>quickjs.c\<close> (\<open>js_def_malloc\<close>, \<open>js_def_free\<close>, \<open>js_def_realloc\<close>).

  A heap block is the list of its cells together with what \<open>malloc_usable_size\<close> answers for it. The
  C library decides by itself whether an allocation succeeds, how much slack the block has and what
  the new cells contain; its state is the sequence of those answers, and every theorem holds for
  all sequences. A block of \<open>n\<close> cells of \<open>esz\<close> bytes is requested with \<open>esz * n\<close> bytes.
\<close>

section \<open>The C library\<close>

datatype 'a block = Block (cells: "'a list") (usable: nat)

datatype 'a answer = Refuse | Grant nat "nat \<Rightarrow> 'a"

type_synonym 'a libc = "nat \<Rightarrow> 'a answer"

definition libc_malloc :: "nat \<Rightarrow> 'a libc \<Rightarrow> nat \<Rightarrow> 'a block option \<times> 'a libc" where
  "libc_malloc esz lc n =
     (case lc 0 of
        Refuse \<Rightarrow> (None, lc \<circ> Suc)
      | Grant slack g \<Rightarrow> (Some (Block (map g [0..<n]) (esz * n + slack)), lc \<circ> Suc))"

definition libc_realloc :: "nat \<Rightarrow> 'a libc \<Rightarrow> 'a block \<Rightarrow> nat \<Rightarrow> 'a block option \<times> 'a libc" where
  "libc_realloc esz lc b n =
     (case lc 0 of
        Refuse \<Rightarrow> (None, lc \<circ> Suc)
      | Grant slack g \<Rightarrow>
          (Some (Block (take n (cells b) @ map g [length (cells b)..<n]) (esz * n + slack)),
           lc \<circ> Suc))"

text \<open>
  \<open>cr_default_realloc\<close> and \<open>dbuf_default_realloc\<close>: \<open>realloc(ptr, size)\<close>. A null pointer makes it
  \<open>malloc\<close>; the size 0 frees the block and answers a null pointer.
\<close>

definition default_realloc ::
  "nat \<Rightarrow> 'a libc \<Rightarrow> 'a block option \<Rightarrow> nat \<Rightarrow> 'a block option \<times> 'a libc" where
  "default_realloc esz lc ptr n =
     (case ptr of
        None \<Rightarrow> libc_malloc esz lc n
      | Some b \<Rightarrow> if n = 0 then (None, lc) else libc_realloc esz lc b n)"

section \<open>The accounting allocator of the engine\<close>

record 'a JSMallocState =
  malloc_count :: u64
  malloc_size :: u64
  malloc_limit :: u64
  libc :: "'a libc"

definition MALLOC_OVERHEAD :: u64 where
  "MALLOC_OVERHEAD = 8"

definition js_def_malloc_usable_size :: "'a block \<Rightarrow> u64" where
  "js_def_malloc_usable_size b = word_of_nat (usable b)"

text \<open>\<open>None\<close> is the failed assertion on a request of 0 bytes.\<close>

definition js_def_malloc ::
  "nat \<Rightarrow> 'a JSMallocState \<Rightarrow> nat \<Rightarrow> ('a block option \<times> 'a JSMallocState) option" where
  "js_def_malloc esz s n =
     (let size = word_of_nat (esz * n) :: u64 in
      if size = 0 then None
      else if malloc_size s + size > malloc_limit s then Some (None, s)
      else case libc_malloc esz (libc s) n of
        (None, lc) \<Rightarrow> Some (None, s\<lparr>libc := lc\<rparr>)
      | (Some b, lc) \<Rightarrow>
          Some (Some b, s\<lparr>libc := lc, malloc_count := malloc_count s + 1,
            malloc_size := malloc_size s + (js_def_malloc_usable_size b + MALLOC_OVERHEAD)\<rparr>))"

definition js_def_free :: "'a JSMallocState \<Rightarrow> 'a block option \<Rightarrow> 'a JSMallocState" where
  "js_def_free s ptr =
     (case ptr of
        None \<Rightarrow> s
      | Some b \<Rightarrow>
          s\<lparr>malloc_count := malloc_count s - 1,
            malloc_size := malloc_size s - (js_def_malloc_usable_size b + MALLOC_OVERHEAD)\<rparr>)"

definition js_def_realloc ::
  "nat \<Rightarrow> 'a JSMallocState \<Rightarrow> 'a block option \<Rightarrow> nat \<Rightarrow> ('a block option \<times> 'a JSMallocState) option" where
  "js_def_realloc esz s ptr n =
     (let size = word_of_nat (esz * n) :: u64 in
      case ptr of
        None \<Rightarrow> if size = 0 then Some (None, s) else js_def_malloc esz s n
      | Some b \<Rightarrow>
          let old_size = js_def_malloc_usable_size b in
          if size = 0 then
            Some (None, s\<lparr>malloc_count := malloc_count s - 1,
              malloc_size := malloc_size s - (old_size + MALLOC_OVERHEAD)\<rparr>)
          else if malloc_size s + size - old_size > malloc_limit s then Some (None, s)
          else case libc_realloc esz (libc s) b n of
            (None, lc) \<Rightarrow> Some (None, s\<lparr>libc := lc\<rparr>)
          | (Some b', lc) \<Rightarrow>
              Some (Some b', s\<lparr>libc := lc,
                malloc_size := malloc_size s + (js_def_malloc_usable_size b' - old_size)\<rparr>))"

text \<open>
  \<open>js_realloc_rt\<close> with the default functions of \<open>JS_NewRuntime\<close>, the callback that the engine gives
  to its dynamic buffers and character ranges. It cannot run into the assertion of \<open>js_def_malloc\<close>.
\<close>

definition js_realloc_rt ::
  "nat \<Rightarrow> 'a JSMallocState \<Rightarrow> 'a block option \<Rightarrow> nat \<Rightarrow> 'a block option \<times> 'a JSMallocState" where
  "js_realloc_rt esz s ptr n = (case js_def_realloc esz s ptr n of Some r \<Rightarrow> r | None \<Rightarrow> (None, s))"

definition JS_SetMemoryLimit :: "'a JSMallocState \<Rightarrow> u64 \<Rightarrow> 'a JSMallocState" where
  "JS_SetMemoryLimit s limit = s\<lparr>malloc_limit := limit\<rparr>"

text \<open>\<open>js_realloc2\<close>: the block and the slack it reports, in bytes.\<close>

definition js_realloc2 ::
  "nat \<Rightarrow> 'a JSMallocState \<Rightarrow> 'a block option \<Rightarrow> nat \<Rightarrow> ('a block option \<times> u64) \<times> 'a JSMallocState" where
  "js_realloc2 esz s ptr n =
     (let size = word_of_nat (esz * n) :: u64 in
      case js_realloc_rt esz s ptr n of
        (None, s') \<Rightarrow> ((None, 0), s')
      | (Some b, s') \<Rightarrow>
          let new_size = js_def_malloc_usable_size b in
          ((Some b, if new_size > size then new_size - size else 0), s'))"

section \<open>The contract of a reallocation callback\<close>

text \<open>
  What the dynamic buffers and the character ranges rely on: a block that is returned has the
  requested number of cells and keeps the old cells that still fit.
\<close>

definition block_cells :: "'a block option \<Rightarrow> 'a list" where
  "block_cells ptr = (case ptr of None \<Rightarrow> [] | Some b \<Rightarrow> cells b)"

lemma block_cells_simps [simp]: "block_cells None = []" "block_cells (Some b) = cells b"
  by (simp_all add: block_cells_def)

locale realloc_contract =
  fixes ra :: "'h \<Rightarrow> 'a block option \<Rightarrow> nat \<Rightarrow> 'a block option \<times> 'h"
  assumes ra_length: "ra h ptr n = (Some b, h') \<Longrightarrow> length (cells b) = n"
    and ra_prefix: "ra h ptr n = (Some b, h') \<Longrightarrow> length (block_cells ptr) \<le> n \<Longrightarrow>
      take (length (block_cells ptr)) (cells b) = block_cells ptr"

lemma libc_malloc_length: "libc_malloc esz lc n = (Some b, lc') \<Longrightarrow> length (cells b) = n"
  by (auto simp: libc_malloc_def split: answer.splits)

lemma libc_realloc_cells:
  "libc_realloc esz lc b n = (Some b', lc') \<Longrightarrow>
   length (cells b') = n \<and> take (length (cells b)) (cells b') = take n (cells b)"
  by (cases "length (cells b) \<le> n") (auto simp: libc_realloc_def split: answer.splits)

interpretation default_ra: realloc_contract "default_realloc esz"
proof unfold_locales
  fix h :: "nat \<Rightarrow> 'a answer" and ptr n b h'
  assume r: "default_realloc esz h ptr n = (Some b, h')"
  then show "length (cells b) = n"
    by (auto simp: default_realloc_def split: option.splits if_splits
        dest: libc_malloc_length libc_realloc_cells)
  assume "length (block_cells ptr) \<le> n"
  with r show "take (length (block_cells ptr)) (cells b) = block_cells ptr"
    by (auto simp: default_realloc_def split: option.splits if_splits dest: libc_realloc_cells)
qed

lemma js_realloc_rt_cases:
  assumes "js_realloc_rt esz s ptr n = (Some b, s')"
  obtains lc where "ptr = None" "libc_malloc esz (libc s) n = (Some b, lc)"
    | b0 lc where "ptr = Some b0" "libc_realloc esz (libc s) b0 n = (Some b, lc)"
  using assms
  by (auto simp: js_realloc_rt_def js_def_realloc_def js_def_malloc_def Let_def
      split: option.splits if_splits prod.splits)

interpretation js_ra: realloc_contract "js_realloc_rt esz"
proof unfold_locales
  fix h :: "'a JSMallocState" and ptr n b h'
  assume r: "js_realloc_rt esz h ptr n = (Some b, h')"
  then show "length (cells b) = n"
    by (cases rule: js_realloc_rt_cases) (auto dest: libc_malloc_length libc_realloc_cells)
  assume "length (block_cells ptr) \<le> n"
  with r show "take (length (block_cells ptr)) (cells b) = block_cells ptr"
    by (cases rule: js_realloc_rt_cases) (auto dest: libc_realloc_cells)
qed

section \<open>Accounting\<close>

text \<open>
  A run of the allocator against the multiset of blocks that are live, with requests of at most
  \<open>req\<close> bytes each.
\<close>

inductive alloc_step ::
  "nat \<Rightarrow> nat \<Rightarrow> 'a JSMallocState \<times> 'a block multiset \<Rightarrow> 'a JSMallocState \<times> 'a block multiset \<Rightarrow> bool"
  for esz req where
  malloc_ok: "js_def_malloc esz s n = Some (Some b, s') \<Longrightarrow> esz * n \<le> req \<Longrightarrow>
    alloc_step esz req (s, L) (s', add_mset b L)"
| malloc_null: "js_def_malloc esz s n = Some (None, s') \<Longrightarrow> esz * n \<le> req \<Longrightarrow>
    alloc_step esz req (s, L) (s', L)"
| free: "b \<in># L \<Longrightarrow> alloc_step esz req (s, L) (js_def_free s (Some b), L - {#b#})"
| free_null: "alloc_step esz req (s, L) (js_def_free s None, L)"
| realloc_ok: "b \<in># L \<Longrightarrow> js_def_realloc esz s (Some b) n = Some (Some b', s') \<Longrightarrow> esz * n \<le> req \<Longrightarrow>
    alloc_step esz req (s, L) (s', add_mset b' (L - {#b#}))"
| realloc_null: "b \<in># L \<Longrightarrow> js_def_realloc esz s (Some b) n = Some (None, s') \<Longrightarrow> esz * n \<le> req \<Longrightarrow>
    alloc_step esz req (s, L) (s', if (word_of_nat (esz * n) :: u64) = 0 then L - {#b#} else L)"

definition charge :: "'a block \<Rightarrow> u64" where
  "charge b = js_def_malloc_usable_size b + MALLOC_OVERHEAD"

definition accounted :: "'a JSMallocState \<times> 'a block multiset \<Rightarrow> bool" where
  "accounted p \<longleftrightarrow> malloc_count (fst p) = word_of_nat (size (snd p)) \<and>
     malloc_size (fst p) = \<Sum>\<^sub># (image_mset charge (snd p))"

lemma sum_charge_remove:
  "b \<in># L \<Longrightarrow> \<Sum>\<^sub># (image_mset charge (L - {#b#})) = \<Sum>\<^sub># (image_mset charge L) - charge b"
  by (simp add: image_mset_Diff sum_mset_diff)

lemma size_remove:
  "b \<in># L \<Longrightarrow> (word_of_nat (size (L - {#b#})) :: u64) = word_of_nat (size L) - 1"
  by (metis add_diff_cancel_right' insert_DiffM of_nat_Suc size_add_mset add.commute)

lemma js_def_malloc_account:
  "js_def_malloc esz s n = Some (r, s') \<Longrightarrow>
   malloc_limit s' = malloc_limit s \<and>
   (case r of None \<Rightarrow> malloc_count s' = malloc_count s \<and> malloc_size s' = malloc_size s
    | Some b \<Rightarrow> malloc_count s' = malloc_count s + 1 \<and> malloc_size s' = malloc_size s + charge b)"
  by (auto simp: js_def_malloc_def charge_def Let_def split: if_splits prod.splits option.splits)

lemma js_def_realloc_account:
  "js_def_realloc esz s (Some b) n = Some (r, s') \<Longrightarrow>
   malloc_limit s' = malloc_limit s \<and>
   (case r of
      None \<Rightarrow> if (word_of_nat (esz * n) :: u64) = 0
        then malloc_count s' = malloc_count s - 1 \<and> malloc_size s' = malloc_size s - charge b
        else malloc_count s' = malloc_count s \<and> malloc_size s' = malloc_size s
    | Some b' \<Rightarrow> malloc_count s' = malloc_count s \<and>
        malloc_size s' = malloc_size s - charge b + charge b')"
  by (auto simp: js_def_realloc_def charge_def Let_def split: if_splits prod.splits option.splits)

lemma alloc_step_accounted: "alloc_step esz req p q \<Longrightarrow> accounted p \<Longrightarrow> accounted q"
proof (induction rule: alloc_step.induct)
  case (realloc_ok b L s n b' s')
  from js_def_realloc_account [OF realloc_ok(2)] realloc_ok(1,4) show ?case
    by (simp add: accounted_def sum_charge_remove size_remove)
next
  case (realloc_null b L s n s')
  from js_def_realloc_account [OF realloc_null(2)] realloc_null(1,4) show ?case
    by (auto simp: accounted_def sum_charge_remove size_remove split: if_splits)
qed (auto simp: accounted_def sum_charge_remove size_remove js_def_free_def
    charge_def [symmetric] dest: js_def_malloc_account)

definition init_malloc_state :: "'a libc \<Rightarrow> 'a JSMallocState" where
  "init_malloc_state lc = \<lparr>malloc_count = 0, malloc_size = 0, malloc_limit = -1, libc = lc\<rparr>"

lemma accounted_init: "accounted (JS_SetMemoryLimit (init_malloc_state lc) limit, {#})"
  by (simp add: accounted_def init_malloc_state_def JS_SetMemoryLimit_def)

section \<open>The memory limit\<close>

text \<open>
  The answers of the C library leave at most \<open>K\<close> bytes of slack in a block.
\<close>

definition slack_le :: "nat \<Rightarrow> 'a libc \<Rightarrow> bool" where
  "slack_le K lc \<longleftrightarrow> (\<forall>i. case lc i of Refuse \<Rightarrow> True | Grant slack g \<Rightarrow> slack \<le> K)"

definition nat_charge :: "'a block \<Rightarrow> nat" where
  "nat_charge b = usable b + 8"

definition live_bytes :: "'a block multiset \<Rightarrow> nat" where
  "live_bytes L = \<Sum>\<^sub># (image_mset nat_charge L)"

definition limited :: "nat \<Rightarrow> nat \<Rightarrow> 'a JSMallocState \<times> 'a block multiset \<Rightarrow> bool" where
  "limited K M p \<longleftrightarrow> slack_le K (libc (fst p)) \<and> unat (malloc_limit (fst p)) = M \<and>
     unat (malloc_size (fst p)) = live_bytes (snd p) \<and> live_bytes (snd p) \<le> M + K + 8"

lemma slack_le_Suc: "slack_le K lc \<Longrightarrow> slack_le K (lc \<circ> Suc)"
  by (simp add: slack_le_def)

lemma slack_le_0: "slack_le K lc \<Longrightarrow> lc 0 = Grant slack g \<Longrightarrow> slack \<le> K"
  unfolding slack_le_def by (drule spec [of _ 0]) simp

lemma libc_malloc_usable:
  "slack_le K lc \<Longrightarrow> libc_malloc esz lc n = (r, lc') \<Longrightarrow>
   slack_le K lc' \<and> (\<forall>b. r = Some b \<longrightarrow> usable b \<le> esz * n + K)"
  by (auto simp: libc_malloc_def split: answer.splits dest: slack_le_Suc slack_le_0)

lemma libc_realloc_usable:
  "slack_le K lc \<Longrightarrow> libc_realloc esz lc b0 n = (r, lc') \<Longrightarrow>
   slack_le K lc' \<and> (\<forall>b. r = Some b \<longrightarrow> usable b \<le> esz * n + K)"
  by (auto simp: libc_realloc_def split: answer.splits dest: slack_le_Suc slack_le_0)

lemma live_bytes_add [simp]: "live_bytes (add_mset b L) = nat_charge b + live_bytes L"
  by (simp add: live_bytes_def)

lemma live_bytes_remove: "b \<in># L \<Longrightarrow> live_bytes L = nat_charge b + live_bytes (L - {#b#})"
  by (metis insert_DiffM live_bytes_add)

lemma limited_malloc:
  assumes inv: "limited K M (s, L)" and M: "M + K + 8 \<le> 2 ^ 62" and n: "esz * n \<le> 2 ^ 62"
    and r: "js_def_malloc esz s n = Some (Some b, s')"
  shows "limited K M (s', add_mset b L)"
proof -
  have sz: "unat (word_of_nat (esz * n) :: u64) = esz * n"
    by (rule unat_of_nat_eq) (use n in simp)
  obtain lc where lc: "libc_malloc esz (libc s) n = (Some b, lc)"
    and le: "\<not> malloc_size s + word_of_nat (esz * n) > malloc_limit s"
    and s': "s' = s\<lparr>libc := lc, malloc_count := malloc_count s + 1,
            malloc_size := malloc_size s + (js_def_malloc_usable_size b + MALLOC_OVERHEAD)\<rparr>"
    using r by (auto simp: js_def_malloc_def Let_def split: if_splits prod.splits option.splits)
  have u: "usable b \<le> esz * n + K" and k: "slack_le K lc"
    using libc_malloc_usable [OF _ lc, of K] inv by (auto simp: limited_def)
  have "unat (malloc_size s + word_of_nat (esz * n)) = live_bytes L + esz * n"
    using inv M n sz by (simp add: limited_def unat_word_ariths del: of_nat_mult)
  then have "live_bytes L + esz * n \<le> M"
    using le inv by (simp add: limited_def word_less_nat_alt del: of_nat_mult)
  then show ?thesis
    using u k inv M by (simp add: limited_def s' js_def_malloc_usable_size_def MALLOC_OVERHEAD_def
        nat_charge_def unat_word_ariths unat_of_nat_eq)
qed

lemma limited_realloc:
  assumes inv: "limited K M (s, L)" and M: "M + K + 8 \<le> 2 ^ 62" and n: "esz * n \<le> 2 ^ 62"
    and b: "b \<in># L" and r: "js_def_realloc esz s (Some b) n = Some (Some b', s')"
  shows "limited K M (s', add_mset b' (L - {#b#}))"
proof -
  have sz: "unat (word_of_nat (esz * n) :: u64) = esz * n"
    by (rule unat_of_nat_eq) (use n in simp)
  have tot: "live_bytes L = nat_charge b + live_bytes (L - {#b#})" using b by (rule live_bytes_remove)
  obtain lc where lc: "libc_realloc esz (libc s) b n = (Some b', lc)"
    and le: "\<not> malloc_size s + word_of_nat (esz * n) - js_def_malloc_usable_size b > malloc_limit s"
    and s': "s' = s\<lparr>libc := lc, malloc_size := malloc_size s +
       (js_def_malloc_usable_size b' - js_def_malloc_usable_size b)\<rparr>"
    using r by (auto simp: js_def_realloc_def Let_def split: if_splits prod.splits option.splits)
  have u: "usable b' \<le> esz * n + K" and k: "slack_le K lc"
    using libc_realloc_usable [OF _ lc, of K] inv by (auto simp: limited_def)
  have old: "unat (js_def_malloc_usable_size b) = usable b"
    using tot inv M by (simp add: limited_def js_def_malloc_usable_size_def nat_charge_def unat_of_nat_eq)
  have ms: "malloc_size s = word_of_nat (live_bytes L)" using inv by (intro word_of_nat_unat_eq) (simp add: limited_def)
  have "malloc_size s + word_of_nat (esz * n) - js_def_malloc_usable_size b
      = word_of_nat (live_bytes (L - {#b#}) + 8 + esz * n)"
    by (simp add: ms tot js_def_malloc_usable_size_def nat_charge_def)
  moreover have "live_bytes (L - {#b#}) + 8 + esz * n < 2 ^ 64"
    using tot inv M n by (simp add: limited_def nat_charge_def)
  ultimately have "unat (malloc_size s + word_of_nat (esz * n) - js_def_malloc_usable_size b)
      = live_bytes (L - {#b#}) + 8 + esz * n"
    by (simp add: unat_of_nat_eq del: of_nat_add)
  then have "live_bytes (L - {#b#}) + 8 + esz * n \<le> M"
    using le inv by (simp add: limited_def word_less_nat_alt del: of_nat_mult)
  moreover have "malloc_size s' = word_of_nat (live_bytes (L - {#b#}) + nat_charge b')"
    by (simp add: s' ms tot js_def_malloc_usable_size_def nat_charge_def)
  ultimately show ?thesis
    using u k inv M by (simp add: limited_def s' nat_charge_def unat_of_nat_eq del: of_nat_add)
qed

lemma limited_free:
  assumes inv: "limited K M (s, L)" and M: "M + K + 8 \<le> 2 ^ 62" and b: "b \<in># L"
  shows "limited K M (js_def_free s (Some b), L - {#b#})"
proof -
  have tot: "live_bytes L = nat_charge b + live_bytes (L - {#b#})" using b by (rule live_bytes_remove)
  have "malloc_size s = word_of_nat (live_bytes L)" using inv by (intro word_of_nat_unat_eq) (simp add: limited_def)
  then have "malloc_size (js_def_free s (Some b)) = word_of_nat (live_bytes (L - {#b#}))"
    by (simp add: js_def_free_def tot js_def_malloc_usable_size_def MALLOC_OVERHEAD_def nat_charge_def)
  then show ?thesis using inv M tot by (simp add: limited_def js_def_free_def unat_of_nat_eq)
qed

lemma js_def_realloc_zero:
  "js_def_realloc esz s (Some b) n = Some (None, s') \<Longrightarrow> (word_of_nat (esz * n) :: u64) = 0 \<Longrightarrow>
   s' = js_def_free s (Some b)"
  by (simp add: js_def_realloc_def js_def_free_def Let_def)

lemma alloc_step_limited:
  assumes "alloc_step esz (2 ^ 62) p q" and "limited K M p" and "M + K + 8 \<le> 2 ^ 62"
  shows "limited K M q"
  using assms
proof (induction rule: alloc_step.induct)
  case (malloc_null s n s' L)
  then show ?case
    using libc_malloc_usable [of K "libc s" esz n]
    by (auto simp: js_def_malloc_def limited_def Let_def split: if_splits prod.splits option.splits)
next
  case (realloc_null b L s n s')
  show ?case
  proof (cases "(word_of_nat (esz * n) :: u64) = 0")
    case True
    with realloc_null show ?thesis using js_def_realloc_zero [OF realloc_null(2) True]
      by (simp add: limited_free)
  next
    case False
    with realloc_null show ?thesis
      using libc_realloc_usable [of K "libc s" esz b n]
      by (auto simp: js_def_realloc_def limited_def Let_def split: if_splits prod.splits option.splits)
  qed
next
  case (free_null s L)
  then show ?case by (simp add: js_def_free_def)
qed (auto intro: limited_malloc limited_realloc limited_free)

lemma alloc_run_accounted:
  assumes "(alloc_step esz req)\<^sup>*\<^sup>* p q" and "accounted p"
  shows "accounted q"
  using assms by (induction rule: rtranclp_induct) (auto intro: alloc_step_accounted)

lemma alloc_run_limited:
  assumes "(alloc_step esz (2 ^ 62))\<^sup>*\<^sup>* p q" and "limited K M p" and "M + K + 8 \<le> 2 ^ 62"
  shows "limited K M q"
  using assms by (induction rule: rtranclp_induct) (auto intro: alloc_step_limited)

section \<open>Properties\<close>

text \<open>A C library that always grants, with four bytes of slack, and a first allocation from it.\<close>

definition sample_libc :: "u8 libc" where
  "sample_libc = (\<lambda>_. Grant 4 (\<lambda>_. 0))"

definition sample_block :: "u8 block" where
  "sample_block = Block [0, 0, 0] 7"

definition sample_state :: "u8 JSMallocState" where
  "sample_state = \<lparr>malloc_count = 1, malloc_size = 15, malloc_limit = 100, libc = sample_libc\<rparr>"

lemma sample_alloc:
  "(alloc_step 1 req)\<^sup>*\<^sup>* (JS_SetMemoryLimit (init_malloc_state sample_libc) 100, {#})
     (sample_state, {#sample_block#})" if "3 \<le> req"
proof -
  have "js_def_malloc 1 (JS_SetMemoryLimit (init_malloc_state sample_libc) 100) 3 =
    Some (Some sample_block, sample_state)"
    by (simp add: js_def_malloc_def JS_SetMemoryLimit_def init_malloc_state_def libc_malloc_def
        sample_libc_def sample_block_def sample_state_def js_def_malloc_usable_size_def
        MALLOC_OVERHEAD_def upt_rec comp_def Let_def)
  from malloc_ok [OF this] that show ?thesis by (intro r_into_rtranclp) simp
qed

text \<open>
  C19. The allocator's books are right after every run of allocations, reallocations and frees:
  \<open>malloc_count\<close> is the number of live blocks and \<open>malloc_size\<close> the sum of their usable sizes and
  overheads, in \<open>size_t\<close> arithmetic, whatever the C library answers.
\<close>

theorem malloc_accounting:
  assumes "(alloc_step esz req)\<^sup>*\<^sup>* (JS_SetMemoryLimit (init_malloc_state lc) limit, {#}) (s, L)"
  shows "malloc_count s = word_of_nat (size L)
    \<and> malloc_size s = \<Sum>\<^sub># (image_mset (\<lambda>b. js_def_malloc_usable_size b + MALLOC_OVERHEAD) L)"
  using alloc_run_accounted [OF assms accounted_init]
  by (simp add: accounted_def charge_def [abs_def])

theorem malloc_accounting_witness:
  "malloc_count sample_state = 1
   \<and> malloc_size sample_state = js_def_malloc_usable_size sample_block + MALLOC_OVERHEAD"
  using malloc_accounting [OF sample_alloc [of 10]] by simp



end
