(* ===== verification/CUtils_DynBuf.thy ===== *)
theory CUtils_DynBuf
  imports QJS_Malloc
begin

text \<open>
  The dynamic byte buffers of \<open>cutils.c\<close> and \<open>cutils.h\<close>. The record has the fields of
  \<open>struct DynBuf\<close>; the callback \<open>realloc_func\<close> and its state \<open>opaque\<close> are the arguments \<open>ra\<close> and
  \<open>h\<close> of the operations. Sizes are natural numbers and \<open>size_t\<close> sums and products are reduced modulo
  \<open>2\<^sup>6\<^sup>4\<close>. An operation answers \<open>None\<close> for a \<open>memcpy\<close> outside the buffer, otherwise its return
  value (0 or -1) with the new allocator state and buffer.
\<close>

section \<open>Model\<close>

type_synonym 'h realloc_func = "'h \<Rightarrow> u8 block option \<Rightarrow> nat \<Rightarrow> u8 block option \<times> 'h"

record DynBuf =
  db_buf :: "u8 block option"
  db_size :: nat
  db_allocated_size :: nat
  db_error :: bool

definition size_t :: "nat \<Rightarrow> nat" where
  "size_t n = n mod 2 ^ 64"

definition dbuf_init2 :: DynBuf where
  "dbuf_init2 = \<lparr>db_buf = None, db_size = 0, db_allocated_size = 0, db_error = False\<rparr>"

definition dbuf_realloc ::
  "'h realloc_func \<Rightarrow> 'h \<Rightarrow> DynBuf \<Rightarrow> nat \<Rightarrow> int \<times> 'h \<times> DynBuf" where
  "dbuf_realloc ra h s new_size =
     (if new_size > db_allocated_size s then
        if db_error s then (-1, h, s)
        else
          let size = size_t (db_allocated_size s * 3) div 2;
              new_size = (if size > new_size then size else new_size)
          in case ra h (db_buf s) new_size of
               (None, h') \<Rightarrow> (-1, h', s\<lparr>db_error := True\<rparr>)
             | (Some new_buf, h') \<Rightarrow>
                 (0, h', s\<lparr>db_buf := Some new_buf, db_allocated_size := new_size\<rparr>)
      else (0, h, s))"

text \<open>\<open>memcpy(s->buf + off, data, length data)\<close>.\<close>

definition dbuf_memcpy :: "DynBuf \<Rightarrow> nat \<Rightarrow> u8 list \<Rightarrow> DynBuf option" where
  "dbuf_memcpy s off data =
     (case db_buf s of
        None \<Rightarrow> if data = [] then Some s else None
      | Some b \<Rightarrow>
          (case blit (cells b) off data of
             None \<Rightarrow> None
           | Some m \<Rightarrow> Some (s\<lparr>db_buf := Some (Block m (usable b))\<rparr>)))"

definition dbuf_write ::
  "'h realloc_func \<Rightarrow> 'h \<Rightarrow> DynBuf \<Rightarrow> nat \<Rightarrow> u8 list \<Rightarrow> (int \<times> 'h \<times> DynBuf) option" where
  "dbuf_write ra h s offset data =
     (let end = size_t (offset + length data) in
      case dbuf_realloc ra h s end of
        (r, h', s') \<Rightarrow>
          if r \<noteq> 0 then Some (-1, h', s')
          else case dbuf_memcpy s' offset data of
            None \<Rightarrow> None
          | Some s'' \<Rightarrow>
              Some (0, h', if end > db_size s'' then s''\<lparr>db_size := end\<rparr> else s''))"

text \<open>The growth check shared by \<open>dbuf_put\<close> and \<open>dbuf_put_self\<close>.\<close>

definition dbuf_claim :: "'h realloc_func \<Rightarrow> 'h \<Rightarrow> DynBuf \<Rightarrow> nat \<Rightarrow> int \<times> 'h \<times> DynBuf" where
  "dbuf_claim ra h s len =
     (if size_t (db_size s + len) > db_allocated_size s
      then dbuf_realloc ra h s (size_t (db_size s + len)) else (0, h, s))"

definition dbuf_put ::
  "'h realloc_func \<Rightarrow> 'h \<Rightarrow> DynBuf \<Rightarrow> u8 list \<Rightarrow> (int \<times> 'h \<times> DynBuf) option" where
  "dbuf_put ra h s data =
     (case dbuf_claim ra h s (length data) of
        (r, h', s') \<Rightarrow>
          if r \<noteq> 0 then Some (-1, h', s')
          else case dbuf_memcpy s' (db_size s') data of
            None \<Rightarrow> None
          | Some s'' \<Rightarrow> Some (0, h', s''\<lparr>db_size := size_t (db_size s'' + length data)\<rparr>))"

definition dbuf_put_self ::
  "'h realloc_func \<Rightarrow> 'h \<Rightarrow> DynBuf \<Rightarrow> nat \<Rightarrow> nat \<Rightarrow> (int \<times> 'h \<times> DynBuf) option" where
  "dbuf_put_self ra h s offset len =
     (case dbuf_claim ra h s len of
        (r, h', s') \<Rightarrow>
          if r \<noteq> 0 then Some (-1, h', s')
          else case slice (block_cells (db_buf s')) offset len of
            None \<Rightarrow> None
          | Some data \<Rightarrow>
              (case dbuf_memcpy s' (db_size s') data of
                 None \<Rightarrow> None
               | Some s'' \<Rightarrow> Some (0, h', s''\<lparr>db_size := size_t (db_size s'' + len)\<rparr>)))"

definition dbuf_putc :: "'h realloc_func \<Rightarrow> 'h \<Rightarrow> DynBuf \<Rightarrow> u8 \<Rightarrow> (int \<times> 'h \<times> DynBuf) option" where
  "dbuf_putc ra h s c = dbuf_put ra h s [c]"

text \<open>The C string \<open>str\<close> is given without its terminator.\<close>

definition dbuf_putstr :: "'h realloc_func \<Rightarrow> 'h \<Rightarrow> DynBuf \<Rightarrow> u8 list \<Rightarrow> (int \<times> 'h \<times> DynBuf) option" where
  "dbuf_putstr ra h s str = dbuf_put ra h s str"

text \<open>The bytes of an integer in memory, least significant first (the sources undefine \<open>WORDS_BIGENDIAN\<close>).\<close>

fun le_bytes :: "nat \<Rightarrow> 'a::len word \<Rightarrow> u8 list" where
  "le_bytes 0 w = []"
| "le_bytes (Suc n) w = to_u8 w # le_bytes n (drop_bit 8 w)"

definition dbuf_put_u16 :: "'h realloc_func \<Rightarrow> 'h \<Rightarrow> DynBuf \<Rightarrow> u16 \<Rightarrow> (int \<times> 'h \<times> DynBuf) option" where
  "dbuf_put_u16 ra h s val = dbuf_put ra h s (le_bytes 2 val)"

definition dbuf_put_u32 :: "'h realloc_func \<Rightarrow> 'h \<Rightarrow> DynBuf \<Rightarrow> u32 \<Rightarrow> (int \<times> 'h \<times> DynBuf) option" where
  "dbuf_put_u32 ra h s val = dbuf_put ra h s (le_bytes 4 val)"

definition dbuf_put_u64 :: "'h realloc_func \<Rightarrow> 'h \<Rightarrow> DynBuf \<Rightarrow> u64 \<Rightarrow> (int \<times> 'h \<times> DynBuf) option" where
  "dbuf_put_u64 ra h s val = dbuf_put ra h s (le_bytes 8 val)"

text \<open>
  \<open>dbuf_printf\<close>, where \<open>out\<close> is the text the format produces. \<open>vsnprintf\<close> writes the text with a
  terminating 0 into the \<open>avail\<close> bytes it is given, cut to fit, and returns the full length.
\<close>

definition vsnprintf_text :: "nat \<Rightarrow> u8 list \<Rightarrow> u8 list" where
  "vsnprintf_text avail out = (if avail = 0 then [] else take (avail - 1) out @ [0])"

definition dbuf_printf ::
  "'h realloc_func \<Rightarrow> 'h \<Rightarrow> DynBuf \<Rightarrow> u8 list \<Rightarrow> (int \<times> 'h \<times> DynBuf) option" where
  "dbuf_printf ra h s out =
     (let len = length out in
      if len < 128 then dbuf_put ra h s (take len (vsnprintf_text 128 out))
      else case dbuf_realloc ra h s (size_t (db_size s + len + 1)) of
        (r, h', s') \<Rightarrow>
          if r \<noteq> 0 then Some (-1, h', s')
          else case dbuf_memcpy s' (db_size s')
                 (vsnprintf_text (db_allocated_size s' - db_size s') out) of
            None \<Rightarrow> None
          | Some s'' \<Rightarrow> Some (0, h', s''\<lparr>db_size := size_t (db_size s'' + len)\<rparr>))"

definition dbuf_free :: "'h realloc_func \<Rightarrow> 'h \<Rightarrow> DynBuf \<Rightarrow> 'h \<times> DynBuf" where
  "dbuf_free ra h s =
     ((case db_buf s of None \<Rightarrow> h | Some b \<Rightarrow> snd (ra h (Some b) 0)), dbuf_init2)"

section \<open>Invariant and contents\<close>

definition dbuf_ok :: "DynBuf \<Rightarrow> bool" where
  "dbuf_ok s \<longleftrightarrow> db_size s \<le> db_allocated_size s
     \<and> length (block_cells (db_buf s)) = db_allocated_size s \<and> db_allocated_size s < 2 ^ 64"

definition dbuf_bytes :: "DynBuf \<Rightarrow> u8 list" where
  "dbuf_bytes s = take (db_size s) (block_cells (db_buf s))"

lemma dbuf_ok_init: "dbuf_ok dbuf_init2"
  by (simp add: dbuf_ok_def dbuf_init2_def)

lemma dbuf_bytes_init [simp]: "dbuf_bytes dbuf_init2 = []"
  by (simp add: dbuf_bytes_def dbuf_init2_def)

lemma dbuf_memcpy_in:
  assumes "off + length data \<le> length (block_cells (db_buf s))"
  obtains s' where "dbuf_memcpy s off data = Some s'"
    "block_cells (db_buf s') = take off (block_cells (db_buf s)) @ data
       @ drop (off + length data) (block_cells (db_buf s))"
    "db_size s' = db_size s" "db_allocated_size s' = db_allocated_size s" "db_error s' = db_error s"
proof (cases "db_buf s")
  case None
  with assms show ?thesis by (intro that [of s]) (auto simp: dbuf_memcpy_def)
next
  case (Some b)
  with assms show ?thesis
    by (intro that [of "s\<lparr>db_buf := Some (Block (take off (cells b) @ data
        @ drop (off + length data) (cells b)) (usable b))\<rparr>"]) (auto simp: dbuf_memcpy_def blit_def)
qed

text \<open>What appending \<open>data\<close> promises, with the return value \<open>r\<close>.\<close>

definition appended :: "DynBuf \<Rightarrow> u8 list \<Rightarrow> int \<Rightarrow> DynBuf \<Rightarrow> bool" where
  "appended s data r s' \<longleftrightarrow> dbuf_ok s' \<and>
     (r = 0 \<and> dbuf_bytes s' = dbuf_bytes s @ data \<and> db_error s' = db_error s
      \<or> r = -1 \<and> dbuf_bytes s' = dbuf_bytes s \<and> db_size s' = db_size s \<and> db_error s')"

lemma length_dbuf_bytes: "dbuf_ok s \<Longrightarrow> length (dbuf_bytes s) = db_size s"
  by (auto simp: dbuf_ok_def dbuf_bytes_def)

lemma memcpy_appends:
  assumes "dbuf_ok s" and "db_size s + length data \<le> db_allocated_size s" and "k \<le> length data"
  obtains s'' where "dbuf_memcpy s (db_size s) data = Some s''" and "db_size s'' = db_size s"
    and "dbuf_ok (s''\<lparr>db_size := db_size s + k\<rparr>)"
    and "dbuf_bytes (s''\<lparr>db_size := db_size s + k\<rparr>) = dbuf_bytes s @ take k data"
    and "db_error s'' = db_error s"
proof -
  have le: "db_size s + length data \<le> length (block_cells (db_buf s))"
    using assms by (simp add: dbuf_ok_def)
  from dbuf_memcpy_in [OF this] obtain s' where s': "dbuf_memcpy s (db_size s) data = Some s'"
    "block_cells (db_buf s') = take (db_size s) (block_cells (db_buf s)) @ data
       @ drop (db_size s + length data) (block_cells (db_buf s))"
    "db_size s' = db_size s" "db_allocated_size s' = db_allocated_size s" "db_error s' = db_error s"
    by metis
  show ?thesis
    by (rule that [OF s'(1,3)]) (use assms le s' in \<open>auto simp: dbuf_ok_def dbuf_bytes_def\<close>)
qed

section \<open>The operations over a correct allocator\<close>

locale dbuf_alloc = realloc_contract ra
  for ra :: "'h \<Rightarrow> u8 block option \<Rightarrow> nat \<Rightarrow> u8 block option \<times> 'h"
begin

lemma dbuf_realloc_spec:
  assumes "dbuf_ok s" and "new_size < 2 ^ 64" and "dbuf_realloc ra h s new_size = (r, h', s')"
  shows "dbuf_ok s' \<and> db_size s' = db_size s \<and> dbuf_bytes s' = dbuf_bytes s \<and>
    (r = 0 \<and> new_size \<le> db_allocated_size s' \<and> db_error s' = db_error s \<or> r = -1 \<and> db_error s')"
proof (cases "new_size > db_allocated_size s \<and> \<not> db_error s")
  case False
  then show ?thesis using assms by (auto simp: dbuf_realloc_def split: if_splits)
next
  case True
  define n where "n = (if size_t (db_allocated_size s * 3) div 2 > new_size
    then size_t (db_allocated_size s * 3) div 2 else new_size)"
  have "size_t (db_allocated_size s * 3) < 2 ^ 64" by (simp add: size_t_def)
  then have n: "n < 2 ^ 64" "new_size \<le> n" "db_allocated_size s \<le> n"
    using assms(2) True by (auto simp: n_def)
  show ?thesis
  proof (cases "ra h (db_buf s) n")
    case (Pair nb h1)
    show ?thesis
    proof (cases nb)
      case None
      with Pair True assms(1,3) show ?thesis
        by (auto simp: dbuf_realloc_def n_def [symmetric] Let_def dbuf_ok_def dbuf_bytes_def)
    next
      case (Some b)
      with Pair have ra: "ra h (db_buf s) n = (Some b, h1)" by simp
      have len: "length (block_cells (db_buf s)) = db_allocated_size s" "db_size s \<le> db_allocated_size s"
        using assms(1) by (simp_all add: dbuf_ok_def)
      have "take (db_allocated_size s) (cells b) = block_cells (db_buf s)"
        using ra_prefix [OF ra] len n by simp
      then have "take (db_size s) (cells b) = take (db_size s) (block_cells (db_buf s))"
        using len(2) by (metis min.absorb1 take_take)
      then show ?thesis
        using ra ra_length [OF ra] True assms n len
        by (auto simp: dbuf_realloc_def n_def [symmetric] Let_def dbuf_ok_def dbuf_bytes_def)
    qed
  qed
qed

lemma dbuf_claim_spec:
  assumes "dbuf_ok s" and "db_size s + len < 2 ^ 64" and "dbuf_claim ra h s len = (r, h', s')"
  shows "dbuf_ok s' \<and> db_size s' = db_size s \<and> dbuf_bytes s' = dbuf_bytes s \<and>
    (r = 0 \<and> db_size s + len \<le> db_allocated_size s' \<and> db_error s' = db_error s \<or> r = -1 \<and> db_error s')"
  using assms dbuf_realloc_spec [of s "db_size s + len" h r h' s']
  by (auto simp: dbuf_claim_def size_t_def split: if_splits)

lemma dbuf_put_spec:
  assumes "dbuf_ok s" and "db_size s + length data < 2 ^ 64"
  obtains r h' s' where "dbuf_put ra h s data = Some (r, h', s')" and "appended s data r s'"
proof -
  obtain r h1 s1 where c: "dbuf_claim ra h s (length data) = (r, h1, s1)"
    by (cases "dbuf_claim ra h s (length data)") auto
  note sp = dbuf_claim_spec [OF assms c]
  show ?thesis
  proof (cases "r = 0")
    case False
    with sp c show ?thesis by (intro that [of "-1" h1 s1]) (auto simp: dbuf_put_def appended_def)
  next
    case True
    with sp have "dbuf_ok s1" "db_size s1 + length data \<le> db_allocated_size s1" by auto
    from memcpy_appends [OF this, of "length data"] obtain s2 where s2:
      "dbuf_memcpy s1 (db_size s1) data = Some s2" "db_size s2 = db_size s1"
      "dbuf_ok (s2\<lparr>db_size := db_size s1 + length data\<rparr>)"
      "dbuf_bytes (s2\<lparr>db_size := db_size s1 + length data\<rparr>) = dbuf_bytes s1 @ data"
      "db_error s2 = db_error s1" by auto
    with True sp c assms(2) show ?thesis
      by (intro that [of 0 h1 "s2\<lparr>db_size := db_size s1 + length data\<rparr>"])
        (auto simp: dbuf_put_def appended_def size_t_def)
  qed
qed

lemma dbuf_put_self_spec:
  assumes "dbuf_ok s" and "db_size s + len < 2 ^ 64" and off: "offset + len \<le> db_size s"
  obtains r h' s' where "dbuf_put_self ra h s offset len = Some (r, h', s')"
    and "appended s (take len (drop offset (dbuf_bytes s))) r s'"
proof -
  obtain r h1 s1 where c: "dbuf_claim ra h s len = (r, h1, s1)"
    by (cases "dbuf_claim ra h s len") auto
  note sp = dbuf_claim_spec [OF assms(1,2) c]
  let ?d = "take len (drop offset (dbuf_bytes s))"
  show ?thesis
  proof (cases "r = 0")
    case False
    with sp c show ?thesis by (intro that [of "-1" h1 s1]) (auto simp: dbuf_put_self_def appended_def)
  next
    case True
    have ld: "length ?d = len" using assms(1) off by (simp add: length_dbuf_bytes)
    from True sp ld have "dbuf_ok s1" "db_size s1 + length ?d \<le> db_allocated_size s1" by auto
    from memcpy_appends [OF this order.refl, unfolded ld] obtain s2 where s2:
      "dbuf_memcpy s1 (db_size s1) ?d = Some s2" "db_size s2 = db_size s1"
      "dbuf_ok (s2\<lparr>db_size := db_size s1 + len\<rparr>)"
      "dbuf_bytes (s2\<lparr>db_size := db_size s1 + len\<rparr>) = dbuf_bytes s1 @ ?d"
      "db_error s2 = db_error s1" by auto
    have "offset + len \<le> length (block_cells (db_buf s1))"
      using off sp True by (auto simp: dbuf_ok_def)
    then have "slice (block_cells (db_buf s1)) offset len = Some ?d"
    proof -
      have "dbuf_bytes s = take (db_size s) (block_cells (db_buf s1))"
        using sp by (metis dbuf_bytes_def)
      then show ?thesis using \<open>offset + len \<le> length (block_cells (db_buf s1))\<close> off
        by (simp add: slice_def drop_take)
    qed
    with s2 True sp c assms(2) show ?thesis
      by (intro that [of 0 h1 "s2\<lparr>db_size := db_size s1 + len\<rparr>"])
        (auto simp: dbuf_put_self_def appended_def size_t_def)
  qed
qed

lemma dbuf_printf_spec:
  assumes "dbuf_ok s" and "db_size s + length out + 1 < 2 ^ 64"
  obtains r h' s' where "dbuf_printf ra h s out = Some (r, h', s')" and "appended s out r s'"
proof (cases "length out < 128")
  case True
  then have "take (length out) (vsnprintf_text 128 out) = out" by (simp add: vsnprintf_text_def)
  moreover from dbuf_put_spec [OF assms(1), of out h] assms(2)
  obtain r h' s' where "dbuf_put ra h s out = Some (r, h', s')" "appended s out r s'" by auto
  ultimately show ?thesis using True that by (simp add: dbuf_printf_def)
next
  case False
  obtain r h1 s1 where c: "dbuf_realloc ra h s (db_size s + length out + 1) = (r, h1, s1)"
    by (cases "dbuf_realloc ra h s (db_size s + length out + 1)") auto
  note sp = dbuf_realloc_spec [OF assms c]
  have sz: "size_t (db_size s + length out + 1) = db_size s + length out + 1"
    using assms(2) by (simp add: size_t_def)
  show ?thesis
  proof (cases "r = 0")
    case False
    with sp c sz \<open>\<not> length out < 128\<close> show ?thesis
      by (intro that [of "-1" h1 s1]) (auto simp: dbuf_printf_def appended_def)
  next
    case True
    let ?avail = "db_allocated_size s1 - db_size s1" and ?k = "length out"
    let ?t = "vsnprintf_text ?avail out"
    have av: "?k + 1 \<le> ?avail" "db_size s1 = db_size s" "dbuf_ok s1"
      using sp True by auto
    then have t: "take ?k ?t = out" "?k \<le> length ?t" "length ?t \<le> ?avail"
      by (auto simp: vsnprintf_text_def)
    have "db_size s1 \<le> db_allocated_size s1" using av(3) by (simp add: dbuf_ok_def)
    with t have "db_size s1 + length ?t \<le> db_allocated_size s1" by linarith
    from memcpy_appends [OF av(3) this, of ?k] t obtain s2 where s2:
      "dbuf_memcpy s1 (db_size s1) ?t = Some s2" "db_size s2 = db_size s1"
      "dbuf_ok (s2\<lparr>db_size := db_size s1 + ?k\<rparr>)"
      "dbuf_bytes (s2\<lparr>db_size := db_size s1 + ?k\<rparr>) = dbuf_bytes s1 @ out"
      "db_error s2 = db_error s1" by auto
    with True sp c sz assms(2) \<open>\<not> length out < 128\<close> show ?thesis
      by (intro that [of 0 h1 "s2\<lparr>db_size := db_size s1 + ?k\<rparr>"])
        (auto simp: dbuf_printf_def appended_def size_t_def)
  qed
qed

end

text \<open>
  Clients append piece after piece without looking at the return values and test
  \<open>dbuf_error\<close> once at the end (\<open>to_nfd_rec\<close>, the bytecode writer and the regular expression
  compiler work so).
\<close>

datatype dbuf_op = Put "u8 list" | PutC u8 | PutStr "u8 list" | PutU16 u16 | PutU32 u32 | PutU64 u64
  | Printf "u8 list"

fun op_bytes :: "dbuf_op \<Rightarrow> u8 list" where
  "op_bytes (Put d) = d"
| "op_bytes (PutC c) = [c]"
| "op_bytes (PutStr str) = str"
| "op_bytes (PutU16 v) = le_bytes 2 v"
| "op_bytes (PutU32 v) = le_bytes 4 v"
| "op_bytes (PutU64 v) = le_bytes 8 v"
| "op_bytes (Printf out) = out"

fun dbuf_do :: "'h realloc_func \<Rightarrow> 'h \<Rightarrow> DynBuf \<Rightarrow> dbuf_op \<Rightarrow> (int \<times> 'h \<times> DynBuf) option" where
  "dbuf_do ra h s (Put d) = dbuf_put ra h s d"
| "dbuf_do ra h s (PutC c) = dbuf_putc ra h s c"
| "dbuf_do ra h s (PutStr str) = dbuf_putstr ra h s str"
| "dbuf_do ra h s (PutU16 v) = dbuf_put_u16 ra h s v"
| "dbuf_do ra h s (PutU32 v) = dbuf_put_u32 ra h s v"
| "dbuf_do ra h s (PutU64 v) = dbuf_put_u64 ra h s v"
| "dbuf_do ra h s (Printf out) = dbuf_printf ra h s out"

fun dbuf_run :: "'h realloc_func \<Rightarrow> 'h \<Rightarrow> DynBuf \<Rightarrow> dbuf_op list \<Rightarrow> ('h \<times> DynBuf) option" where
  "dbuf_run ra h s [] = Some (h, s)"
| "dbuf_run ra h s (x # xs) =
     (case dbuf_do ra h s x of None \<Rightarrow> None | Some (r, h', s') \<Rightarrow> dbuf_run ra h' s' xs)"

definition ops_bytes :: "dbuf_op list \<Rightarrow> u8 list" where
  "ops_bytes xs = concat (map op_bytes xs)"

lemma ops_bytes_Cons [simp]: "ops_bytes (x # xs) = op_bytes x @ ops_bytes xs"
  and ops_bytes_Nil [simp]: "ops_bytes [] = []"
  by (simp_all add: ops_bytes_def)

context dbuf_alloc
begin

lemma dbuf_do_spec:
  assumes "dbuf_ok s" and "db_size s + length (op_bytes x) + 1 < 2 ^ 64"
  obtains r h' s' where "dbuf_do ra h s x = Some (r, h', s')" and "appended s (op_bytes x) r s'"
proof -
  have le: "db_size s + length (op_bytes x) < 2 ^ 64" using assms(2) by simp
  show ?thesis
  proof (cases "\<exists>out. x = Printf out")
    case True
    then obtain out where x: "x = Printf out" by blast
    from dbuf_printf_spec [OF assms(1), of out h] assms(2) x
    obtain r h' s' where "dbuf_printf ra h s out = Some (r, h', s')" "appended s out r s'" by auto
    with x that show ?thesis by simp
  next
    case False
    then have "dbuf_do ra h s x = dbuf_put ra h s (op_bytes x)"
      by (cases x) (simp_all add: dbuf_putc_def dbuf_putstr_def dbuf_put_u16_def dbuf_put_u32_def
          dbuf_put_u64_def)
    then show ?thesis using dbuf_put_spec [OF assms(1) le, of h] that by metis
  qed
qed

lemma appended_size:
  assumes "dbuf_ok s" and "appended s data r s'"
  shows "db_size s' \<le> db_size s + length data"
  using assms length_dbuf_bytes [of s] length_dbuf_bytes [of s'] by (auto simp: appended_def)

lemma dbuf_run_spec:
  assumes "dbuf_ok s" and "db_size s + length (ops_bytes xs) + 1 < 2 ^ 64"
  shows "\<exists>h' s'. dbuf_run ra h s xs = Some (h', s') \<and> dbuf_ok s' \<and> (db_error s \<longrightarrow> db_error s')
    \<and> (\<not> db_error s' \<longrightarrow> dbuf_bytes s' = dbuf_bytes s @ ops_bytes xs)"
  using assms
proof (induction xs arbitrary: h s)
  case (Cons x xs)
  obtain r h1 s1 where d: "dbuf_do ra h s x = Some (r, h1, s1)" and a: "appended s (op_bytes x) r s1"
    using dbuf_do_spec [OF Cons.prems(1), of x h] Cons.prems(2) by (auto simp: add.assoc)
  have "dbuf_ok s1" "db_size s1 + length (ops_bytes xs) + 1 < 2 ^ 64"
    using a appended_size [OF Cons.prems(1) a] Cons.prems(2) by (auto simp: appended_def)
  from Cons.IH [OF this, of h1] a d show ?case by (auto simp: appended_def)
qed simp

end

interpretation default_db: dbuf_alloc "default_realloc 1" ..

interpretation js_db: dbuf_alloc "js_realloc_rt 1" ..

section \<open>Properties\<close>

text \<open>
  C29. Appending through the engine's allocator is memory safe and all or nothing: on a well-formed
  buffer \<open>dbuf_put\<close> never copies outside the block; it either returns 0 with exactly \<open>data\<close> appended,
  or returns -1 with the contents unchanged and the error flag set; the buffer stays well-formed.
\<close>

theorem dbuf_put_correct:
  assumes "dbuf_ok s" and "db_size s + length data < 2 ^ 64"
  shows "\<exists>r h' s'. dbuf_put (js_realloc_rt 1) h s data = Some (r, h', s') \<and> dbuf_ok s' \<and>
    (r = 0 \<and> dbuf_bytes s' = dbuf_bytes s @ data \<and> db_error s' = db_error s
     \<or> r = -1 \<and> dbuf_bytes s' = dbuf_bytes s \<and> db_error s')"
  using js_db.dbuf_put_spec [OF assms, of h] unfolding appended_def by metis

theorem dbuf_put_correct_witness:
  "\<exists>r h' s'. dbuf_put (js_realloc_rt 1) sample_state dbuf_init2 [7, 8] = Some (r, h', s') \<and> dbuf_ok s' \<and>
    (r = 0 \<and> dbuf_bytes s' = [] @ [7, 8] \<and> db_error s' = db_error dbuf_init2
     \<or> r = -1 \<and> dbuf_bytes s' = [] \<and> db_error s')"
  using dbuf_put_correct [OF dbuf_ok_init, of "[7, 8]" sample_state] by (simp add: dbuf_init2_def dbuf_bytes_def)

text \<open>
  \<open>dbuf_put_self\<close> with a source range inside the contents appends a copy of that range of the
  buffer itself, even when the append moves the buffer to a new block.
\<close>

theorem dbuf_put_self_correct:
  assumes "dbuf_ok s" and "db_size s + len < 2 ^ 64" and "offset + len \<le> db_size s"
  shows "\<exists>r h' s'. dbuf_put_self (js_realloc_rt 1) h s offset len = Some (r, h', s') \<and> dbuf_ok s' \<and>
    (r = 0 \<and> dbuf_bytes s' = dbuf_bytes s @ take len (drop offset (dbuf_bytes s))
     \<or> r = -1 \<and> dbuf_bytes s' = dbuf_bytes s \<and> db_error s')"
  using js_db.dbuf_put_self_spec [OF assms, of h] unfolding appended_def by metis

definition sample_dbuf :: DynBuf where
  "sample_dbuf = \<lparr>db_buf = Some (Block [1, 2, 3, 0] 4), db_size = 3, db_allocated_size = 4, db_error = False\<rparr>"

theorem dbuf_put_self_correct_witness:
  "\<exists>r h' s'. dbuf_put_self (js_realloc_rt 1) sample_state sample_dbuf 1 2 = Some (r, h', s') \<and> dbuf_ok s' \<and>
    (r = 0 \<and> dbuf_bytes s' = [1, 2, 3] @ [2, 3] \<or> r = -1 \<and> dbuf_bytes s' = [1, 2, 3] \<and> db_error s')"
proof -
  have "dbuf_ok sample_dbuf" and b: "dbuf_bytes sample_dbuf = [1, 2, 3]" and z: "db_size sample_dbuf = 3"
    by (simp_all add: dbuf_ok_def sample_dbuf_def dbuf_bytes_def numeral_3_eq_3)
  moreover have "take 2 (drop 1 [1, 2, 3 :: u8]) = [2, 3]" by simp
  ultimately show ?thesis
    using dbuf_put_self_correct [of sample_dbuf 2 1 sample_state] by (simp add: b z)
qed



end
