(* ===== verification/CUtils_String.thy ===== *)
theory CUtils_String
  imports CUtils_DynBuf
begin

text \<open>
  The C string helpers of \<open>cutils.c\<close> and the inline helpers of \<open>cutils.h\<close>: minimum and maximum,
  unaligned little-endian loads and stores, byte swaps and hexadecimal digits. A C string is a
  memory block (a byte list) read from its start up to the first 0.
\<close>

section \<open>Strings\<close>

text \<open>\<open>strlen\<close>: \<open>None\<close> when the block has no terminator.\<close>

fun strlen :: "u8 list \<Rightarrow> nat option" where
  "strlen [] = None"
| "strlen (c # cs) = (if c = 0 then Some 0 else map_option Suc (strlen cs))"

text \<open>The copy loop of \<open>pstrcpy\<close>: \<open>q\<close> is the write index, \<open>p\<close> the read index.\<close>

function pstrcpy_loop :: "u8 list \<Rightarrow> nat \<Rightarrow> u8 list \<Rightarrow> nat \<Rightarrow> nat \<Rightarrow> u8 list option" where
  "pstrcpy_loop buf buf_size str q p =
     (case rd str p of
        None \<Rightarrow> None
      | Some c \<Rightarrow>
          if c = 0 \<or> q \<ge> buf_size - 1 then wr buf q 0
          else case wr buf q c of
            None \<Rightarrow> None
          | Some buf' \<Rightarrow> pstrcpy_loop buf' buf_size str (Suc q) (Suc p))"
  by pat_completeness auto
termination
  by (relation "measure (\<lambda>(buf, buf_size, str, q, p). length str - p)") (auto simp: rd_eq_Some_iff)

declare pstrcpy_loop.simps [simp del]

definition pstrcpy :: "u8 list \<Rightarrow> int \<Rightarrow> u8 list \<Rightarrow> u8 list option" where
  "pstrcpy buf buf_size str =
     (if buf_size \<le> 0 then Some buf else pstrcpy_loop buf (nat buf_size) str 0 0)"

definition pstrcat :: "u8 list \<Rightarrow> int \<Rightarrow> u8 list \<Rightarrow> u8 list option" where
  "pstrcat buf buf_size s =
     (case strlen buf of
        None \<Rightarrow> None
      | Some len \<Rightarrow>
          if int len < buf_size then
            map_option (\<lambda>tail. take len buf @ tail)
              (pstrcpy (drop len buf) (buf_size - int len) s)
          else Some buf)"

text \<open>\<open>strstart\<close> returns the index after the prefix, or \<open>Some None\<close> for the return value 0.\<close>

function strstart_loop :: "u8 list \<Rightarrow> u8 list \<Rightarrow> nat \<Rightarrow> nat option option" where
  "strstart_loop str val i =
     (case rd val i of
        None \<Rightarrow> None
      | Some q \<Rightarrow>
          if q = 0 then Some (Some i)
          else case rd str i of
            None \<Rightarrow> None
          | Some p \<Rightarrow> if p \<noteq> q then Some None else strstart_loop str val (Suc i))"
  by pat_completeness auto
termination
  by (relation "measure (\<lambda>(str, val, i). length val - i)") (auto simp: rd_eq_Some_iff)

declare strstart_loop.simps [simp del]

definition strstart :: "u8 list \<Rightarrow> u8 list \<Rightarrow> nat option option" where
  "strstart str val = strstart_loop str val 0"

definition has_suffix :: "u8 list \<Rightarrow> u8 list \<Rightarrow> bool option" where
  "has_suffix str suffix =
     (case (strlen str, strlen suffix) of
        (Some len, Some slen) \<Rightarrow>
          Some (len \<ge> slen \<and> take slen (drop (len - slen) str) = take slen suffix)
      | _ \<Rightarrow> None)"

section \<open>Inline helpers\<close>

definition max_int :: "int \<Rightarrow> int \<Rightarrow> int" where
  "max_int a b = (if a > b then a else b)"

definition min_int :: "int \<Rightarrow> int \<Rightarrow> int" where
  "min_int a b = (if a < b then a else b)"

definition max_uint32 :: "u32 \<Rightarrow> u32 \<Rightarrow> u32" where
  "max_uint32 a b = (if a > b then a else b)"

definition min_uint32 :: "u32 \<Rightarrow> u32 \<Rightarrow> u32" where
  "min_uint32 a b = (if a < b then a else b)"

text \<open>Loads of \<open>n\<close> bytes, least significant first; the \<open>packed\<close> structs make them unaligned.\<close>

fun le_word :: "u8 list \<Rightarrow> 'a::len word" where
  "le_word [] = 0"
| "le_word (b # bs) = ucast b OR push_bit 8 (le_word bs)"

definition get_u64 :: "u8 list \<Rightarrow> u64 option" where
  "get_u64 tab = map_option le_word (slice tab 0 8)"

definition get_u32 :: "u8 list \<Rightarrow> u32 option" where
  "get_u32 tab = map_option le_word (slice tab 0 4)"

definition get_u16 :: "u8 list \<Rightarrow> u32 option" where
  "get_u16 tab = map_option (\<lambda>bs. ucast (le_word bs :: u16)) (slice tab 0 2)"

definition get_i32 :: "u8 list \<Rightarrow> int option" where
  "get_i32 tab = map_option (\<lambda>bs. sint (le_word bs :: u32)) (slice tab 0 4)"

definition get_i16 :: "u8 list \<Rightarrow> int option" where
  "get_i16 tab = map_option (\<lambda>bs. sint (le_word bs :: u16)) (slice tab 0 2)"

definition get_i8 :: "u8 list \<Rightarrow> int option" where
  "get_i8 tab = map_option sint (rd tab 0)"

definition put_u64 :: "u8 list \<Rightarrow> u64 \<Rightarrow> u8 list option" where
  "put_u64 tab val = blit tab 0 (le_bytes 8 val)"

definition put_u32 :: "u8 list \<Rightarrow> u32 \<Rightarrow> u8 list option" where
  "put_u32 tab val = blit tab 0 (le_bytes 4 val)"

definition put_u16 :: "u8 list \<Rightarrow> u16 \<Rightarrow> u8 list option" where
  "put_u16 tab val = blit tab 0 (le_bytes 2 val)"

definition bswap16 :: "u16 \<Rightarrow> u16" where
  "bswap16 x = drop_bit 8 x OR push_bit 8 x"

definition bswap32 :: "u32 \<Rightarrow> u32" where
  "bswap32 v = drop_bit 24 (v AND 0xff000000) OR drop_bit 8 (v AND 0x00ff0000) OR
     push_bit 8 (v AND 0x0000ff00) OR push_bit 24 (v AND 0x000000ff)"

definition bswap64 :: "u64 \<Rightarrow> u64" where
  "bswap64 v =
     drop_bit 56 (v AND push_bit 56 0xff) OR drop_bit 40 (v AND push_bit 48 0xff) OR
     drop_bit 24 (v AND push_bit 40 0xff) OR drop_bit 8 (v AND push_bit 32 0xff) OR
     push_bit 8 (v AND push_bit 24 0xff) OR push_bit 24 (v AND push_bit 16 0xff) OR
     push_bit 40 (v AND push_bit 8 0xff) OR push_bit 56 (v AND push_bit 0 0xff)"

definition from_hex :: "int \<Rightarrow> int" where
  "from_hex c =
     (if c \<ge> 48 \<and> c \<le> 57 then c - 48
      else if c \<ge> 65 \<and> c \<le> 70 then c - 65 + 10
      else if c \<ge> 97 \<and> c \<le> 102 then c - 97 + 10
      else -1)"

section \<open>String lemmas\<close>

lemma strlen_append: "0 \<notin> set s \<Longrightarrow> strlen (s @ 0 # rest) = Some (length s)"
  by (induction s) auto

lemma pstrcpy_loop_eq:
  assumes "0 \<notin> set s" and "p \<le> length s" and "q < buf_size" and "buf_size \<le> length buf"
  shows "pstrcpy_loop buf buf_size (s @ 0 # rest) q p =
    (let t = take (buf_size - 1 - q) (drop p s)
     in Some (take q buf @ t @ [0] @ drop (q + length t + 1) buf))"
  using assms
proof (induction buf buf_size "s @ 0 # rest" q p rule: pstrcpy_loop.induct)
  case (1 buf buf_size q p)
  show ?case
  proof (cases "p = length s \<or> q \<ge> buf_size - 1")
    case True
    then have stop: "(s @ 0 # rest) ! p = 0 \<or> q \<ge> buf_size - 1" by auto
    from True have t: "take (buf_size - 1 - q) (drop p s) = []" by auto
    have "buf[q := 0] = take q buf @ 0 # drop (Suc q) buf"
      using "1.prems" by (intro upd_conv_take_nth_drop) simp
    then show ?thesis
      unfolding t using stop "1.prems" by (subst pstrcpy_loop.simps) (simp add: rd_def wr_def)
  next
    case False
    with "1.prems" have p: "p < length s" and q: "q < buf_size - 1" by auto
    let ?c = "s ! p"
    have c: "(s @ 0 # rest) ! p = ?c" "?c \<noteq> 0"
      using p "1.prems"(1) by (simp add: nth_append, metis nth_mem)
    have rd: "rd (s @ 0 # rest) p = Some ?c" using p c by (simp add: rd_def)
    have w: "wr buf q ?c = Some (buf[q := ?c])" using q "1.prems" by (simp add: wr_def)
    have IH: "pstrcpy_loop (buf[q := ?c]) buf_size (s @ 0 # rest) (Suc q) (Suc p) =
      (let t = take (buf_size - 1 - Suc q) (drop (Suc p) s)
       in Some (take (Suc q) (buf[q := ?c]) @ t @ [0] @ drop (Suc q + length t + 1) (buf[q := ?c])))"
      using p q c "1.prems" by (intro "1.hyps" [OF rd _ w]) auto
    have "drop p s = ?c # drop (Suc p) s" using p by (simp add: Cons_nth_drop_Suc)
    moreover have "buf_size - 1 - q = Suc (buf_size - 1 - Suc q)" using q by simp
    moreover have "take (Suc q) (buf[q := ?c]) = take q buf @ [?c]"
      using q "1.prems" by (simp add: take_Suc_conv_app_nth)
    ultimately show ?thesis
      using IH c q rd w by (simp add: pstrcpy_loop.simps [of buf _ _ q p] Let_def)
  qed
qed

lemma strstart_loop_eq:
  assumes "0 \<notin> set s" and "0 \<notin> set v" and "i \<le> length v" and "i \<le> length s" and "take i s = take i v"
  shows "strstart_loop (s @ 0 # rs) (v @ 0 # rv) i =
    Some (if take (length v) s = v then Some (length v) else None)"
  using assms
proof (induction "s @ 0 # rs" "v @ 0 # rv" i rule: strstart_loop.induct)
  case (1 i)
  show ?case
  proof (cases "i = length v")
    case True
    with "1.prems" show ?thesis by (subst strstart_loop.simps) (simp add: rd_def)
  next
    case False
    with "1.prems" have iv: "i < length v" by simp
    let ?q = "v ! i" and ?p = "(s @ 0 # rs) ! i"
    have q: "rd (v @ 0 # rv) i = Some ?q" "?q \<noteq> 0"
      using iv "1.prems"(2) by (simp add: rd_def nth_append, metis nth_mem)
    have p: "rd (s @ 0 # rs) i = Some ?p" using "1.prems"(4) by (simp add: rd_def)
    show ?thesis
    proof (cases "i < length s \<and> s ! i = ?q")
      case True
      then have "?p = ?q" by (simp add: nth_append)
      moreover have "take (Suc i) s = take (Suc i) v"
        using True iv "1.prems"(5) by (simp add: take_Suc_conv_app_nth)
      ultimately show ?thesis
        using "1.hyps" [OF q(1,2) p] True iv "1.prems" q p
        by (simp add: strstart_loop.simps [of _ _ i])
    next
      case neq: False
      then have "?p \<noteq> ?q" using q(2) "1.prems"(4) by (cases "i < length s") (auto simp: nth_append)
      moreover have "take (length v) s \<noteq> v"
      proof
        assume "take (length v) s = v"
        then have "i < length s" using iv by (metis length_take min_less_iff_conj)
        moreover have "s ! i = ?q" using \<open>take (length v) s = v\<close> iv by (metis nth_take)
        ultimately show False using neq by simp
      qed
      ultimately show ?thesis using q p by (simp add: strstart_loop.simps [of _ _ i])
    qed
  qed
qed

section \<open>Loads and stores\<close>

lemma length_le_bytes [simp]: "length (le_bytes n w) = n"
  by (induction n arbitrary: w) auto

lemma le_word_le_bytes: "le_word (le_bytes n (w :: 'a::len word)) = take_bit (8 * n) w"
proof (induction n arbitrary: w)
  case (Suc n)
  have "(ucast (to_u8 w) :: 'a word) OR push_bit 8 (take_bit (8 * n) (drop_bit 8 w)) = take_bit (8 * Suc n) w"
    by (rule bit_word_eqI) (auto simp: bit_simps)
  then show ?case using Suc.IH [of "drop_bit 8 w"] by simp
qed simp

lemma le_word_le_bytes_all:
  fixes w :: "'a::len word"
  shows "8 * n = LENGTH('a) \<Longrightarrow> le_word (le_bytes n w) = w"
  by (simp add: le_word_le_bytes)

lemma bit_bswap16: "n < 16 \<Longrightarrow> bit (bswap16 v) n = bit v (8 * (1 - n div 8) + n mod 8)"
proof -
  assume "n < 16"
  then consider "n < 8" | m where "n = m + 8" "m < 8"
    by (metis add.commute add_less_cancel_left le_Suc_ex linorder_not_less numeral_Bit0)
  then show ?thesis by cases (auto simp: bswap16_def bit_simps add.commute dest: bit_imp_le_length)
qed

lemma bswap32_masks:
  "bswap32 v = drop_bit 24 (v AND push_bit 24 (mask 8)) OR drop_bit 8 (v AND push_bit 16 (mask 8)) OR
     push_bit 8 (v AND push_bit 8 (mask 8)) OR push_bit 24 (v AND mask 8)"
  by (simp add: bswap32_def mask_eq_exp_minus_1)

lemma byte_cases4:
  assumes "n < (32::nat)"
  obtains m where "n = m" "m < 8" | m where "n = m + 8" "m < 8" | m where "n = m + 16" "m < 8"
    | m where "n = m + 24" "m < 8"
proof -
  have "n = n mod 8 + 8 * (n div 8)" "n mod 8 < 8" "n div 8 < 4" using assms by auto
  moreover have "n div 8 = 0 \<or> n div 8 = 1 \<or> n div 8 = 2 \<or> n div 8 = 3" using \<open>n div 8 < 4\<close> by linarith
  ultimately show ?thesis using that [of "n mod 8"] by (elim disjE) auto
qed

lemma bit_bswap32: "n < 32 \<Longrightarrow> bit (bswap32 v) n = bit v (8 * (3 - n div 8) + n mod 8)"
proof -
  assume "n < 32"
  then show ?thesis
  proof (cases rule: byte_cases4)
    case (1 m) then show ?thesis by (auto simp: bswap32_masks bit_simps add.commute)
  next
    case (2 m)
    moreover from 2 have "(m + 8) div 8 = 1" by simp
    ultimately show ?thesis by (auto simp: bswap32_masks bit_simps add.commute)
  next
    case (3 m)
    moreover from 3 have "(m + 16) div 8 = 2" "(m + 16) mod 8 = m"
      using div_mult_self1 [of 8 m 2] mod_mult_self1 [of m 2 8] by simp_all
    ultimately show ?thesis by (auto simp: bswap32_masks bit_simps add.commute)
  next
    case (4 m)
    moreover from 4 have "(m + 24) div 8 = 3" "(m + 24) mod 8 = m"
      using div_mult_self1 [of 8 m 3] mod_mult_self1 [of m 3 8] by simp_all
    ultimately show ?thesis by (auto simp: bswap32_masks bit_simps add.commute)
  qed
qed

lemma bswap32_bswap32: "bswap32 (bswap32 v) = v"
proof (rule bit_word_eqI)
  fix n assume "n < LENGTH(32)"
  then have n: "n < 32" by simp
  let ?k = "8 * (3 - n div 8) + n mod 8"
  have "?k < 32" "8 * (3 - ?k div 8) + ?k mod 8 = n" using n by auto
  then show "bit (bswap32 (bswap32 v)) n = bit v n" using n by (simp add: bit_bswap32)
qed

section \<open>Properties\<close>

text \<open>
  \<open>pstrcpy\<close> writes only inside the first \<open>buf_size\<close> bytes of the target and always terminates it:
  the result is the longest prefix of the source that fits, a 0, and the old bytes after it.
\<close>

theorem pstrcpy_correct:
  assumes "0 \<notin> set s" and "0 < buf_size" and "buf_size \<le> int (length buf)"
  shows "pstrcpy buf buf_size (s @ 0 # rest) =
    (let t = take (nat buf_size - 1) s in Some (t @ [0] @ drop (length t + 1) buf))"
  using assms pstrcpy_loop_eq [of s 0 0 "nat buf_size" buf rest] by (simp add: pstrcpy_def Let_def)

theorem pstrcpy_correct_witness:
  "pstrcpy [1, 1, 1, 1] 3 [65, 66, 67, 0] = Some [65, 66, 0, 1]"
  using pstrcpy_correct [of "[65, 66, 67]" 3 "[1, 1, 1, 1]" "[]"] by simp

text \<open>
  \<open>pstrcat\<close> on a terminated buffer keeps it terminated and never writes past \<open>buf_size\<close>: the
  string in the buffer becomes the concatenation, cut to \<open>buf_size - 1\<close> bytes.
\<close>

theorem pstrcat_correct:
  assumes "0 \<notin> set a" and "0 \<notin> set s" and "length a < nat buf_size"
    and "buf_size \<le> int (length (a @ 0 # b))"
  shows "\<exists>tail. pstrcat (a @ 0 # b) buf_size (s @ 0 # rest) =
      Some (take (nat buf_size - 1) (a @ s) @ 0 # tail)
    \<and> length (take (nat buf_size - 1) (a @ s) @ 0 # tail) = length (a @ 0 # b)"
proof -
  let ?n = "buf_size - int (length a)"
  have n: "0 < ?n" "?n \<le> int (length (0 # b))" using assms by auto
  have nn: "nat ?n - 1 = nat buf_size - 1 - length a" using assms(3) by simp
  define t where "t = take (nat ?n - 1) s"
  define u where "u = take (nat buf_size - 1) (a @ s)"
  have tb: "length t \<le> length b" using n by (auto simp: t_def)
  have u: "a @ t = u" using assms(3) unfolding t_def u_def nn by simp
  then have lu: "length u = length a + length t" by (metis length_append)
  have "pstrcpy (0 # b) ?n (s @ 0 # rest) = Some (t @ [0] @ drop (length t) b)"
    using pstrcpy_loop_eq [of s 0 0 "nat ?n" "0 # b" rest] assms(2) n
    by (simp add: pstrcpy_def Let_def t_def)
  then have "pstrcat (a @ 0 # b) buf_size (s @ 0 # rest) = Some ((a @ t) @ 0 # drop (length t) b)"
    using assms(1) n(1) by (simp add: pstrcat_def strlen_append)
  then show ?thesis
    unfolding u u_def [symmetric] using tb lu by (intro exI [of _ "drop (length t) b"]) simp
qed

theorem pstrcat_correct_witness:
  "\<exists>tail. pstrcat [65, 0, 9, 9] 3 [66, 67, 0] = Some (take 2 [65, 66, 67] @ 0 # tail)"
  using pstrcat_correct [of "[65]" "[66, 67]" 3 "[9, 9]" "[]"] by auto

text \<open>
  \<open>strstart\<close> on terminated strings decides the prefix relation, reads neither string past its
  terminator, and returns the position just after the prefix.
\<close>

theorem strstart_correct:
  assumes "0 \<notin> set s" and "0 \<notin> set v"
  shows "strstart (s @ 0 # rs) (v @ 0 # rv) = Some (if take (length v) s = v then Some (length v) else None)"
  using strstart_loop_eq [OF assms, of 0] by (simp add: strstart_def)

theorem strstart_correct_witness: "strstart [97, 98, 0] [97, 0, 5] = Some (Some 1)"
  using strstart_correct [of "[97, 98]" "[97]" "[]" "[5]"] by simp

end
