(* ===== verification/CUtils_Exchange.thy ===== *)
theory CUtils_Exchange
  imports Prelude
begin

text \<open>
  The exchange functions of the sort in \<open>cutils.c\<close>: ten ways to swap two byte ranges, and the choice
  between them by alignment and element size. Memory is a byte list, \<open>a\<close> and \<open>b\<close> are offsets into it.
  A load or store of a \<open>w\<close>-byte integer moves \<open>w\<close> bytes at once.
\<close>

section \<open>Model\<close>

text \<open>One step of every loop: swap the \<open>w\<close>-byte units at \<open>a\<close> and \<open>b\<close>.\<close>

definition exchange_unit :: "nat \<Rightarrow> u8 list \<Rightarrow> nat \<Rightarrow> nat \<Rightarrow> u8 list option" where
  "exchange_unit w mem a b =
     do {
       t \<leftarrow> slice mem a w;
       u \<leftarrow> slice mem b w;
       mem \<leftarrow> blit mem a u;
       blit mem b t
     }"

text \<open>The loop \<open>while (n-- != 0) exchange, advance both pointers by w\<close>.\<close>

fun exchange_units :: "nat \<Rightarrow> nat \<Rightarrow> u8 list \<Rightarrow> nat \<Rightarrow> nat \<Rightarrow> u8 list option" where
  "exchange_units w 0 mem a b = Some mem"
| "exchange_units w (Suc n) mem a b =
     do { mem \<leftarrow> exchange_unit w mem a b; exchange_units w n mem (a + w) (b + w) }"

type_synonym exchange_f = "u8 list \<Rightarrow> nat \<Rightarrow> nat \<Rightarrow> nat \<Rightarrow> u8 list option"

definition exchange_bytes :: exchange_f where
  "exchange_bytes mem a b sz = exchange_units 1 sz mem a b"

definition exchange_one_byte :: exchange_f where
  "exchange_one_byte mem a b sz = exchange_unit 1 mem a b"

definition exchange_int16s :: exchange_f where
  "exchange_int16s mem a b sz = exchange_units 2 (sz div 2) mem a b"

definition exchange_one_int16 :: exchange_f where
  "exchange_one_int16 mem a b sz = exchange_unit 2 mem a b"

definition exchange_int32s :: exchange_f where
  "exchange_int32s mem a b sz = exchange_units 4 (sz div 4) mem a b"

definition exchange_one_int32 :: exchange_f where
  "exchange_one_int32 mem a b sz = exchange_unit 4 mem a b"

definition exchange_int64s :: exchange_f where
  "exchange_int64s mem a b sz = exchange_units 8 (sz div 8) mem a b"

definition exchange_one_int64 :: exchange_f where
  "exchange_one_int64 mem a b sz = exchange_unit 8 mem a b"

text \<open>The 128-bit variants load both 64-bit halves before they store.\<close>

definition exchange_int128s :: exchange_f where
  "exchange_int128s mem a b sz = exchange_units 16 (sz div 16) mem a b"

definition exchange_one_int128 :: exchange_f where
  "exchange_one_int128 mem a b sz = exchange_unit 16 mem a b"

text \<open>\<open>base\<close> is the address of the array; only its four low bits matter.\<close>

definition exchange_func :: "u64 \<Rightarrow> u64 \<Rightarrow> exchange_f" where
  "exchange_func base sz =
     (let k = (base OR sz) AND 15 in
      if k = 0 then (if sz = 16 then exchange_one_int128 else exchange_int128s)
      else if k = 8 then (if sz = 8 then exchange_one_int64 else exchange_int64s)
      else if k = 4 \<or> k = 12 then (if sz = 4 then exchange_one_int32 else exchange_int32s)
      else if k = 2 \<or> k = 6 \<or> k = 10 \<or> k = 14
        then (if sz = 2 then exchange_one_int16 else exchange_int16s)
      else (if sz = 1 then exchange_one_byte else exchange_bytes))"

section \<open>Specification\<close>

definition swap_ranges :: "'a list \<Rightarrow> nat \<Rightarrow> nat \<Rightarrow> nat \<Rightarrow> 'a list" where
  "swap_ranges mem a b n =
     map (\<lambda>k. if a \<le> k \<and> k < a + n then mem ! (b + (k - a))
              else if b \<le> k \<and> k < b + n then mem ! (a + (k - b)) else mem ! k) [0..<length mem]"

definition disjoint_ranges :: "nat \<Rightarrow> nat \<Rightarrow> nat \<Rightarrow> bool" where
  "disjoint_ranges a b n \<longleftrightarrow> a + n \<le> b \<or> b + n \<le> a"

lemma length_swap_ranges [simp]: "length (swap_ranges mem a b n) = length mem"
  by (simp add: swap_ranges_def)

lemma nth_swap_ranges:
  "k < length mem \<Longrightarrow> swap_ranges mem a b n ! k =
    (if a \<le> k \<and> k < a + n then mem ! (b + (k - a))
     else if b \<le> k \<and> k < b + n then mem ! (a + (k - b)) else mem ! k)"
  by (simp add: swap_ranges_def)

lemma swap_ranges_0 [simp]: "swap_ranges mem a b 0 = mem"
  by (rule nth_equalityI) (auto simp: nth_swap_ranges)

lemma nth_blit:
  assumes "blit mem off src = Some m" and "k < length mem"
  shows "m ! k = (if off \<le> k \<and> k < off + length src then src ! (k - off) else mem ! k)"
  using assms by (auto simp: blit_eq_Some_iff nth_append min_def)

lemma exchange_unit_eq:
  assumes "a + w \<le> length mem" and "b + w \<le> length mem" and "disjoint_ranges a b w"
  shows "exchange_unit w mem a b = Some (swap_ranges mem a b w)"
proof -
  let ?t = "take w (drop a mem)" and ?u = "take w (drop b mem)"
  obtain m1 where m1: "blit mem a ?u = Some m1" using assms by (simp add: blit_def)
  then have l1: "length m1 = length mem" by (rule blit_length)
  obtain m2 where m2: "blit m1 b ?t = Some m2" using assms l1 by (simp add: blit_def)
  then have l2: "length m2 = length mem" using l1 blit_length by metis
  have "m2 = swap_ranges mem a b w"
  proof (rule nth_equalityI)
    fix k assume k: "k < length m2"
    show "m2 ! k = swap_ranges mem a b w ! k"
      using nth_blit [OF m2, of k] nth_blit [OF m1, of k] k l1 l2 assms
      by (auto simp: nth_swap_ranges disjoint_ranges_def)
  qed (simp add: l2)
  with m1 m2 assms show ?thesis by (simp add: exchange_unit_def slice_def)
qed

lemma swap_ranges_a:
  "i < n \<Longrightarrow> a + n \<le> length mem \<Longrightarrow> swap_ranges mem a b n ! (a + i) = mem ! (b + i)"
  by (simp add: nth_swap_ranges)

lemma swap_ranges_b:
  "i < n \<Longrightarrow> b + n \<le> length mem \<Longrightarrow> disjoint_ranges a b n \<Longrightarrow>
   swap_ranges mem a b n ! (b + i) = mem ! (a + i)"
  by (auto simp: nth_swap_ranges disjoint_ranges_def)

lemma swap_ranges_out:
  "k < length mem \<Longrightarrow> \<not> (a \<le> k \<and> k < a + n) \<Longrightarrow> \<not> (b \<le> k \<and> k < b + n) \<Longrightarrow>
   swap_ranges mem a b n ! k = mem ! k"
  by (auto simp: nth_swap_ranges)

lemma swap_rangesI:
  assumes "length m = length mem" and "a + n \<le> length mem" and "b + n \<le> length mem"
    and "disjoint_ranges a b n"
    and "\<And>i. i < n \<Longrightarrow> m ! (a + i) = mem ! (b + i)" and "\<And>i. i < n \<Longrightarrow> m ! (b + i) = mem ! (a + i)"
    and "\<And>k. k < length mem \<Longrightarrow> \<not> (a \<le> k \<and> k < a + n) \<Longrightarrow> \<not> (b \<le> k \<and> k < b + n) \<Longrightarrow> m ! k = mem ! k"
  shows "m = swap_ranges mem a b n"
proof (rule nth_equalityI)
  fix k assume "k < length m"
  with assms(1) have k: "k < length mem" by simp
  show "m ! k = swap_ranges mem a b n ! k"
    using assms(5) [of "k - a"] assms(6) [of "k - b"] assms(7) [OF k] k
    by (auto simp: nth_swap_ranges)
qed (simp add: assms(1))

lemma swap_ranges_step:
  assumes "a + w + n \<le> length mem" and "b + w + n \<le> length mem" and "disjoint_ranges a b (w + n)"
  shows "swap_ranges (swap_ranges mem a b w) (a + w) (b + w) n = swap_ranges mem a b (w + n)"
proof (rule swap_rangesI)
  let ?m = "swap_ranges mem a b w"
  let ?L = "swap_ranges ?m (a + w) (b + w) n"
  have dw: "disjoint_ranges a b w" and dn: "disjoint_ranges (a + w) (b + w) n"
    using assms(3) by (auto simp: disjoint_ranges_def)
  have d: "a + w + n \<le> b \<or> b + w + n \<le> a" using assms(3) by (auto simp: disjoint_ranges_def)
  fix i assume i: "i < w + n"
  show "?L ! (a + i) = mem ! (b + i)"
  proof (cases "i < w")
    case True
    have "?L ! (a + i) = ?m ! (a + i)" by (rule swap_ranges_out) (use d assms True in auto)
    with True assms show ?thesis by (simp add: swap_ranges_a)
  next
    case False
    then have "?L ! (a + w + (i - w)) = ?m ! (b + w + (i - w))"
      using assms i by (intro swap_ranges_a) auto
    also have "\<dots> = mem ! (b + w + (i - w))" by (rule swap_ranges_out) (use d assms i False in auto)
    finally show ?thesis using False by simp
  qed
  show "?L ! (b + i) = mem ! (a + i)"
  proof (cases "i < w")
    case True
    have "?L ! (b + i) = ?m ! (b + i)" by (rule swap_ranges_out) (use d assms True in auto)
    with True assms dw show ?thesis by (simp add: swap_ranges_b)
  next
    case False
    then have "?L ! (b + w + (i - w)) = ?m ! (a + w + (i - w))"
      using assms i dn by (intro swap_ranges_b) auto
    also have "\<dots> = mem ! (a + w + (i - w))" by (rule swap_ranges_out) (use d assms i False in auto)
    finally show ?thesis using False by simp
  qed
next
  fix k assume "k < length mem" "\<not> (a \<le> k \<and> k < a + (w + n))" "\<not> (b \<le> k \<and> k < b + (w + n))"
  then show "swap_ranges (swap_ranges mem a b w) (a + w) (b + w) n ! k = mem ! k"
    by (subst swap_ranges_out; (subst swap_ranges_out)?) auto
qed (use assms in auto)

lemma exchange_units_eq:
  assumes "a + w * n \<le> length mem" and "b + w * n \<le> length mem" and "disjoint_ranges a b (w * n)"
  shows "exchange_units w n mem a b = Some (swap_ranges mem a b (w * n))"
  using assms
proof (induction n arbitrary: mem a b)
  case (Suc n)
  have "exchange_unit w mem a b = Some (swap_ranges mem a b w)"
    using Suc.prems by (intro exchange_unit_eq) (auto simp: disjoint_ranges_def)
  moreover have "exchange_units w n (swap_ranges mem a b w) (a + w) (b + w) =
    Some (swap_ranges (swap_ranges mem a b w) (a + w) (b + w) (w * n))"
    using Suc.prems by (intro Suc.IH) (auto simp: disjoint_ranges_def)
  ultimately show ?case
    using swap_ranges_step [of a w "w * n" mem b] Suc.prems by (simp add: add.assoc)
qed simp

text \<open>Each variant swaps whole ranges as soon as its unit divides the length.\<close>

lemma exchange_loops_eq:
  assumes "a + n \<le> length mem" and "b + n \<le> length mem" and "disjoint_ranges a b n"
  shows "exchange_bytes mem a b n = Some (swap_ranges mem a b n)"
    and "2 dvd n \<Longrightarrow> exchange_int16s mem a b n = Some (swap_ranges mem a b n)"
    and "4 dvd n \<Longrightarrow> exchange_int32s mem a b n = Some (swap_ranges mem a b n)"
    and "8 dvd n \<Longrightarrow> exchange_int64s mem a b n = Some (swap_ranges mem a b n)"
    and "16 dvd n \<Longrightarrow> exchange_int128s mem a b n = Some (swap_ranges mem a b n)"
  using exchange_units_eq [of a 1 n mem b] exchange_units_eq [of a 2 "n div 2" mem b]
    exchange_units_eq [of a 4 "n div 4" mem b] exchange_units_eq [of a 8 "n div 8" mem b]
    exchange_units_eq [of a 16 "n div 16" mem b] assms
  by (auto simp: exchange_bytes_def exchange_int16s_def exchange_int32s_def exchange_int64s_def
      exchange_int128s_def)

lemma exchange_ones_eq:
  assumes "a + n \<le> length mem" and "b + n \<le> length mem" and "disjoint_ranges a b n"
  shows "n = 1 \<Longrightarrow> exchange_one_byte mem a b n = Some (swap_ranges mem a b n)"
    and "n = 2 \<Longrightarrow> exchange_one_int16 mem a b n = Some (swap_ranges mem a b n)"
    and "n = 4 \<Longrightarrow> exchange_one_int32 mem a b n = Some (swap_ranges mem a b n)"
    and "n = 8 \<Longrightarrow> exchange_one_int64 mem a b n = Some (swap_ranges mem a b n)"
    and "n = 16 \<Longrightarrow> exchange_one_int128 mem a b n = Some (swap_ranges mem a b n)"
  using exchange_unit_eq [OF assms]
  by (auto simp: exchange_one_byte_def exchange_one_int16_def exchange_one_int32_def
      exchange_one_int64_def exchange_one_int128_def)

text \<open>The four low bits of \<open>base | size\<close> bound the alignment of \<open>size\<close>.\<close>

lemma low_bits_dvd:
  fixes base sz :: u64
  assumes "take_bit j (base OR sz) = 0"
  shows "2 ^ j dvd unat sz"
proof -
  have "take_bit j base OR take_bit j sz = 0" using assms by simp
  then have "take_bit j sz = 0"
    by (metis or_eq_0_iff)
  then have "unat (take_bit j sz) = 0" by simp
  then show ?thesis by (simp add: unat_take_bit mod_eq_0_iff_dvd del: unat_eq_zero)
qed

lemma take_bit_and_15:
  fixes x :: u64
  assumes "j \<le> 4" and "x AND 15 = v"
  shows "take_bit j x = take_bit j v"
proof -
  have "take_bit j x = take_bit j (x AND mask 4)"
    using assms(1) by (auto intro!: bit_word_eqI simp: bit_simps)
  with assms(2) show ?thesis by (simp add: mask_eq_exp_minus_1)
qed

text \<open>
  \<open>exchange_func base x\<close> swaps any two disjoint ranges of \<open>n\<close> bytes, when \<open>n\<close> is a multiple of every
  power of two up to 16 that divides both the address and \<open>x\<close>, and is \<open>x\<close> itself if \<open>x\<close> is 1, 2, 4,
  8 or 16.
\<close>

lemma exchange_func_eq:
  assumes r: "a + n \<le> length mem" "b + n \<le> length mem" "disjoint_ranges a b n"
    and dvd: "\<And>j. j \<le> 4 \<Longrightarrow> take_bit j (base OR x) = 0 \<Longrightarrow> 2 ^ j dvd n"
    and one: "x \<in> {1, 2, 4, 8, 16} \<Longrightarrow> n = unat x"
  shows "exchange_func base x mem a b n = Some (swap_ranges mem a b n)"
proof -
  define k where "k = (base OR x) AND 15"
  have d: "2 ^ j dvd n" if "j \<le> 4" "k = v" "take_bit j v = 0" for j and v :: u64
  proof (rule dvd [OF that(1)])
    show "take_bit j (base OR x) = 0"
      using take_bit_and_15 [OF that(1) that(2) [unfolded k_def]] that(3) by (rule trans)
  qed
  note loops = exchange_loops_eq [OF r] and ones = exchange_ones_eq [OF r]
  have sel: "exchange_func base x = (
      if k = 0 then (if x = 16 then exchange_one_int128 else exchange_int128s)
      else if k = 8 then (if x = 8 then exchange_one_int64 else exchange_int64s)
      else if k = 4 \<or> k = 12 then (if x = 4 then exchange_one_int32 else exchange_int32s)
      else if k = 2 \<or> k = 6 \<or> k = 10 \<or> k = 14
        then (if x = 2 then exchange_one_int16 else exchange_int16s)
      else (if x = 1 then exchange_one_byte else exchange_bytes))"
    by (simp only: exchange_func_def Let_def k_def)
  consider "k = 0" | "k = 8" | "k = 4 \<or> k = 12" | "k = 2 \<or> k = 6 \<or> k = 10 \<or> k = 14"
    | "k \<notin> {0, 8, 4, 12, 2, 6, 10, 14}" by blast
  then show ?thesis
  proof cases
    case 1 then show ?thesis using d [of 4 0] one loops(5) ones(5) by (simp add: sel)
  next
    case 2 then show ?thesis using d [of 3 8] one loops(4) ones(4) by (simp add: sel)
  next
    case 3 then show ?thesis using d [of 2 4] d [of 2 12] one loops(3) ones(3) by (auto simp: sel)
  next
    case 4 then show ?thesis
      using d [of 1 2] d [of 1 6] d [of 1 10] d [of 1 14] one loops(2) ones(2) by (auto simp: sel)
  next
    case 5 then show ?thesis using one loops(1) ones(1) by (simp add: sel)
  qed
qed

section \<open>Properties\<close>

text \<open>
  C31. Whatever the alignment of the array and the element size, the function that \<open>exchange_func\<close>
  picks for single elements swaps two distinct elements byte for byte and touches nothing else.
\<close>

theorem exchange_element:
  assumes "sz \<noteq> 0" and "a + unat sz \<le> length mem" and "b + unat sz \<le> length mem"
    and "a + unat sz \<le> b \<or> b + unat sz \<le> a"
  shows "exchange_func base sz mem a b (unat sz) = Some (swap_ranges mem a b (unat sz))"
  using assms by (intro exchange_func_eq) (auto simp: disjoint_ranges_def intro: low_bits_dvd)

theorem exchange_element_witness:
  "exchange_func 4 6 [1, 2, 3, 4, 5, 6, 7, 8, 9, 10, 11, 12] 0 6 6
    = Some [7, 8, 9, 10, 11, 12, 1, 2, 3, 4, 5, 6]"
proof -
  let ?mem = "[1, 2, 3, 4, 5, 6, 7, 8, 9, 10, 11, 12] :: u8 list"
  have "exchange_func 4 6 ?mem 0 6 (unat (6 :: u64)) = Some (swap_ranges ?mem 0 6 (unat (6 :: u64)))"
    by (rule exchange_element) simp_all
  moreover have "swap_ranges ?mem 0 6 6 = [7, 8, 9, 10, 11, 12, 1, 2, 3, 4, 5, 6]" by code_simp
  ultimately show ?thesis by simp
qed

text \<open>
  The function that \<open>rqsort\<close> obtains from \<open>exchange_func(base, size | 128)\<close> for whole blocks swaps
  two disjoint runs of elements of equal length.
\<close>

theorem exchange_block:
  assumes "a + m * unat sz \<le> length mem" and "b + m * unat sz \<le> length mem"
    and "a + m * unat sz \<le> b \<or> b + m * unat sz \<le> a"
  shows "exchange_func base (sz OR 128) mem a b (m * unat sz) = Some (swap_ranges mem a b (m * unat sz))"
proof (rule exchange_func_eq)
  fix j :: nat
  assume j: "j \<le> 4" "take_bit j (base OR (sz OR 128)) = 0"
  then have "take_bit j ((base OR 128) OR sz) = 0" by (simp only: or.assoc or.commute or.left_commute)
  then have "2 ^ j dvd unat sz" by (rule low_bits_dvd)
  then show "2 ^ j dvd m * unat sz" by simp
next
  assume s: "sz OR 128 \<in> {1, 2, 4, 8, 16}"
  have "bit (sz OR 128) 7" by (simp add: bit_or_iff mask_simps)
  with s show "m * unat sz = unat (sz OR 128)"
    by (auto simp: bit_iff_odd simp flip: drop_bit_eq_div)
qed (use assms in \<open>auto simp: disjoint_ranges_def\<close>)

theorem exchange_block_witness:
  "exchange_func 1 (2 OR 128) [1, 2, 3, 4, 5, 6, 7, 8, 9] 0 5 4 = Some [6, 7, 8, 9, 5, 1, 2, 3, 4]"
proof -
  let ?mem = "[1, 2, 3, 4, 5, 6, 7, 8, 9] :: u8 list"
  have "exchange_func 1 (2 OR 128) ?mem 0 5 (2 * unat (2 :: u64)) =
    Some (swap_ranges ?mem 0 5 (2 * unat (2 :: u64)))"
    by (rule exchange_block) simp_all
  moreover have "swap_ranges ?mem 0 5 4 = [6, 7, 8, 9, 5, 1, 2, 3, 4]" by code_simp
  ultimately show ?thesis by simp
qed

end
