(* ===== verification/CUtils_Sort.thy ===== *)
theory CUtils_Sort
  imports CUtils_Exchange
begin

text \<open>
  The sort of \<open>cutils.c\<close>: \<open>heapsortx\<close>, \<open>med3\<close> and \<open>rqsort\<close>. The array is a list of elements and pointers
  are element indices (the C code scales them by \<open>size\<close>; the exchange of elements and of runs of
  elements at byte level is the subject of \<open>CUtils_Exchange\<close>). \<open>cmp\<close> is the comparison callback. An
  access outside the array and a push onto the full stack of 50 entries are \<open>None\<close>.
\<close>

section \<open>Model\<close>

type_synonym 'a cmp_f = "'a \<Rightarrow> 'a \<Rightarrow> int"

definition cmp_at :: "'a cmp_f \<Rightarrow> 'a list \<Rightarrow> nat \<Rightarrow> nat \<Rightarrow> int option" where
  "cmp_at cmp xs i j =
     (if i < length xs \<and> j < length xs then Some (cmp (xs ! i) (xs ! j)) else None)"

definition swap_at :: "'a list \<Rightarrow> nat \<Rightarrow> nat \<Rightarrow> 'a list option" where
  "swap_at xs i j = (if i < length xs \<and> j < length xs then Some (swap i j xs) else None)"

text \<open>
  The sift-down loop, written twice in \<open>heapsortx\<close>: with \<open>n\<close> the number of elements while the heap is
  built and \<open>n\<close> the shrinking end while elements are extracted.
\<close>

definition sift_child :: "'a cmp_f \<Rightarrow> nat \<Rightarrow> nat \<Rightarrow> nat \<Rightarrow> 'a list \<Rightarrow> nat option" where
  "sift_child cmp base n c xs =
     (if c < n - 1
      then (case cmp_at cmp xs (base + c) (base + c + 1) of
              None \<Rightarrow> None | Some k \<Rightarrow> Some (if k \<le> 0 then c + 1 else c))
      else Some c)"

lemma sift_child_cases: "sift_child cmp base n c xs = Some c' \<Longrightarrow> c' = c \<or> c' = c + 1 \<and> c < n - 1"
  by (auto simp: sift_child_def split: if_splits option.splits)

function heapsortx_sift :: "'a cmp_f \<Rightarrow> nat \<Rightarrow> nat \<Rightarrow> nat \<Rightarrow> 'a list \<Rightarrow> 'a list option" where
  "heapsortx_sift cmp base n r xs =
     (if r * 2 + 1 < n then
        (case sift_child cmp base n (r * 2 + 1) xs of
           None \<Rightarrow> None
         | Some c \<Rightarrow>
             (case cmp_at cmp xs (base + r) (base + c) of
                None \<Rightarrow> None
              | Some k \<Rightarrow>
                  if k > 0 then Some xs
                  else (case swap_at xs (base + r) (base + c) of
                          None \<Rightarrow> None
                        | Some xs' \<Rightarrow> heapsortx_sift cmp base n c xs')))
      else Some xs)"
  by pat_completeness auto
termination
  by (relation "measure (\<lambda>(cmp, base, n, r, xs). n - r)") (auto dest: sift_child_cases)

declare heapsortx_sift.simps [simp del]

text \<open>\<open>while (i > 0) { i -= size; sift }\<close>\<close>

fun heapsortx_build :: "'a cmp_f \<Rightarrow> nat \<Rightarrow> nat \<Rightarrow> nat \<Rightarrow> 'a list \<Rightarrow> 'a list option" where
  "heapsortx_build cmp base n 0 xs = Some xs"
| "heapsortx_build cmp base n (Suc i) xs =
     (case heapsortx_sift cmp base n i xs of
        None \<Rightarrow> None | Some xs' \<Rightarrow> heapsortx_build cmp base n i xs')"

text \<open>\<open>for (i = n - size; i > 0; i -= size) { swap(basep, basep + i); sift }\<close>\<close>

fun heapsortx_extract :: "'a cmp_f \<Rightarrow> nat \<Rightarrow> nat \<Rightarrow> 'a list \<Rightarrow> 'a list option" where
  "heapsortx_extract cmp base 0 xs = Some xs"
| "heapsortx_extract cmp base (Suc i) xs =
     (case swap_at xs base (base + Suc i) of
        None \<Rightarrow> None
      | Some xs1 \<Rightarrow>
          (case heapsortx_sift cmp base (Suc i) 0 xs1 of
             None \<Rightarrow> None | Some xs2 \<Rightarrow> heapsortx_extract cmp base i xs2))"

definition heapsortx :: "'a cmp_f \<Rightarrow> nat \<Rightarrow> nat \<Rightarrow> 'a list \<Rightarrow> 'a list option" where
  "heapsortx cmp base nmemb xs =
     (if nmemb > 1
      then (case heapsortx_build cmp base nmemb (nmemb div 2) xs of
              None \<Rightarrow> None | Some xs' \<Rightarrow> heapsortx_extract cmp base (nmemb - 1) xs')
      else Some xs)"

definition med3 :: "'a cmp_f \<Rightarrow> 'a list \<Rightarrow> nat \<Rightarrow> nat \<Rightarrow> nat \<Rightarrow> nat option" where
  "med3 cmp xs a b c =
     do {
       ab \<leftarrow> cmp_at cmp xs a b;
       bc \<leftarrow> cmp_at cmp xs b c;
       ac \<leftarrow> cmp_at cmp xs a c;
       Some (if ab < 0 then (if bc < 0 then b else if ac < 0 then c else a)
             else (if bc > 0 then b else if ac < 0 then a else c))
     }"

text \<open>
  The partition loops of \<open>rqsort\<close> on the segment that starts at \<open>p\<close>. The pointers \<open>pi\<close>, \<open>plt\<close>, \<open>pgt\<close>
  are \<open>p\<close> plus the counters \<open>i\<close>, \<open>lt\<close>, \<open>gt\<close> that the code keeps beside them; \<open>j\<close> is \<open>pj\<close>.
\<close>

function part_up :: "'a cmp_f \<Rightarrow> nat \<Rightarrow> nat \<Rightarrow> nat \<Rightarrow> nat \<Rightarrow> 'a list \<Rightarrow> (nat \<times> nat \<times> 'a list) option" where
  "part_up cmp p j i lt xs =
     (if i < j then
        (case cmp_at cmp xs p (p + i) of
           None \<Rightarrow> None
         | Some c \<Rightarrow>
             if c \<ge> 0 then
               if c = 0 then
                 (case swap_at xs (p + lt) (p + i) of
                    None \<Rightarrow> None | Some xs' \<Rightarrow> part_up cmp p j (Suc i) (Suc lt) xs')
               else part_up cmp p j (Suc i) lt xs
             else Some (i, lt, xs))
      else Some (i, lt, xs))"
  by pat_completeness auto
termination by (relation "measure (\<lambda>(cmp, p, j, i, lt, xs). j - i)") auto

declare part_up.simps [simp del]

fun part_down :: "'a cmp_f \<Rightarrow> nat \<Rightarrow> nat \<Rightarrow> nat \<Rightarrow> nat \<Rightarrow> 'a list \<Rightarrow> (nat \<times> nat \<times> 'a list) option" where
  "part_down cmp p i 0 gt xs = None"
| "part_down cmp p i (Suc j) gt xs =
     (if i < j then
        (case cmp_at cmp xs p (p + j) of
           None \<Rightarrow> None
         | Some c \<Rightarrow>
             if c \<le> 0 then
               if c = 0 then
                 (case swap_at xs (p + (gt - 1)) (p + j) of
                    None \<Rightarrow> None | Some xs' \<Rightarrow> part_down cmp p i j (gt - 1) xs')
               else part_down cmp p i j gt xs
             else Some (j, gt, xs))
      else Some (j, gt, xs))"

lemma part_up_mono: "part_up cmp p j i lt xs = Some (i', lt', xs') \<Longrightarrow> i \<le> i'"
proof (induction cmp p j i lt xs rule: part_up.induct)
  case (1 cmp p j i lt xs)
  from "1.prems" show ?case
    by (subst (asm) part_up.simps) (auto split: if_splits option.splits dest: "1.IH")
qed

lemma part_down_mono: "part_down cmp p i j gt xs = Some (j', gt', xs') \<Longrightarrow> j' < j"
proof (induction cmp p i j gt xs rule: part_down.induct)
  case (2 cmp p i j gt xs)
  from "2.prems" show ?case by (auto split: if_splits option.splits dest: "2.IH")
qed simp

function part_loop :: "'a cmp_f \<Rightarrow> nat \<Rightarrow> nat \<Rightarrow> nat \<Rightarrow> nat \<Rightarrow> nat \<Rightarrow> 'a list \<Rightarrow>
    (nat \<times> nat \<times> nat \<times> 'a list) option" where
  "part_loop cmp p i lt j gt xs =
     (case part_up cmp p j i lt xs of
        None \<Rightarrow> None
      | Some (i1, lt1, xs1) \<Rightarrow>
          (case part_down cmp p i1 j gt xs1 of
             None \<Rightarrow> None
           | Some (j1, gt1, xs2) \<Rightarrow>
               if i1 \<ge> j1 then Some (i1, lt1, gt1, xs2)
               else (case swap_at xs2 (p + i1) (p + j1) of
                       None \<Rightarrow> None
                     | Some xs3 \<Rightarrow> part_loop cmp p (Suc i1) lt1 j1 gt1 xs3)))"
  by pat_completeness auto
termination
  by (relation "measure (\<lambda>(cmp, p, i, lt, j, gt, xs). j)") (auto dest: part_down_mono)

declare part_loop.simps [simp del]

text \<open>\<open>swap_block(a, b, n)\<close>: \<open>exchange_func(base, size | 128)\<close> on two runs of \<open>n\<close> elements.\<close>

definition swap_block :: "'a list \<Rightarrow> nat \<Rightarrow> nat \<Rightarrow> nat \<Rightarrow> 'a list option" where
  "swap_block xs a b n =
     (if n = 0 then Some xs
      else if a + n \<le> length xs \<and> b + n \<le> length xs \<and> disjoint_ranges a b n
      then Some (swap_ranges xs a b n) else None)"

text \<open>
  One round of the inner loop on the segment \<open>[p, p + n)\<close>: choose the pivot, partition, move the
  elements equal to the pivot to the middle. The result has the new \<open>lt\<close> and \<open>gt\<close>.
\<close>

definition rqsort_partition :: "'a cmp_f \<Rightarrow> nat \<Rightarrow> nat \<Rightarrow> 'a list \<Rightarrow> (nat \<times> nat \<times> 'a list) option" where
  "rqsort_partition cmp p n xs =
     (let m4 = n div 4 in
      case med3 cmp xs (p + m4) (p + 2 * m4) (p + 3 * m4) of
        None \<Rightarrow> None
      | Some m \<Rightarrow>
          (case swap_at xs p m of
             None \<Rightarrow> None
           | Some xs1 \<Rightarrow>
               (case part_loop cmp p 1 1 n n xs1 of
                  None \<Rightarrow> None
                | Some (i, lt, gt, xs2) \<Rightarrow>
                    let span = min lt (i - lt) in
                    (case swap_block xs2 p (p + (i - span)) span of
                       None \<Rightarrow> None
                     | Some xs3 \<Rightarrow>
                         let span' = min (n - gt) (gt - i) in
                         (case swap_block xs3 (p + i) (p + (n - span')) span' of
                            None \<Rightarrow> None
                          | Some xs4 \<Rightarrow> Some (i - lt, n - (gt - i), xs4))))))"

text \<open>A stack entry: base, count, depth. The stack has 50 entries.\<close>

type_synonym qseg = "nat \<times> nat \<times> nat"

definition qpush :: "qseg \<Rightarrow> qseg list \<Rightarrow> qseg list option" where
  "qpush e st = (if length st < 50 then Some (e # st) else None)"

text \<open>The inner loop \<open>while (nmemb > 6)\<close>: it returns the stack and the small segment that is left.\<close>

function rqsort_inner :: "'a cmp_f \<Rightarrow> qseg list \<Rightarrow> nat \<Rightarrow> nat \<Rightarrow> nat \<Rightarrow> 'a list \<Rightarrow>
    (qseg list \<times> nat \<times> nat \<times> 'a list) option" where
  "rqsort_inner cmp st p n depth xs =
     (if n > 6 then
        if depth + 1 > 50 then
          (case heapsortx cmp p n xs of None \<Rightarrow> None | Some xs' \<Rightarrow> Some (st, p, 0, xs'))
        else
          (case rqsort_partition cmp p n xs of
             None \<Rightarrow> None
           | Some (lt, gt, xs') \<Rightarrow>
               if lt > n - gt then
                 (case qpush (p, lt, depth + 1) st of
                    None \<Rightarrow> None
                  | Some st' \<Rightarrow> rqsort_inner cmp st' (p + gt) (n - gt) (depth + 1) xs')
               else
                 (case qpush (p + gt, n - gt, depth + 1) st of
                    None \<Rightarrow> None
                  | Some st' \<Rightarrow> rqsort_inner cmp st' p lt (depth + 1) xs'))
      else Some (st, p, n, xs))"
  by pat_completeness auto
termination by (relation "measure (\<lambda>(cmp, st, p, n, depth, xs). 50 - depth)") auto

declare rqsort_inner.simps [simp del]

text \<open>Insertion sort of the small fragments.\<close>

fun insert_down :: "'a cmp_f \<Rightarrow> nat \<Rightarrow> nat \<Rightarrow> 'a list \<Rightarrow> 'a list option" where
  "insert_down cmp p 0 xs = Some xs"
| "insert_down cmp p (Suc j) xs =
     (case cmp_at cmp xs (p + j) (p + Suc j) of
        None \<Rightarrow> None
      | Some c \<Rightarrow>
          if c > 0 then
            (case swap_at xs (p + Suc j) (p + j) of
               None \<Rightarrow> None | Some xs' \<Rightarrow> insert_down cmp p j xs')
          else Some xs)"

function insert_loop :: "'a cmp_f \<Rightarrow> nat \<Rightarrow> nat \<Rightarrow> nat \<Rightarrow> 'a list \<Rightarrow> 'a list option" where
  "insert_loop cmp p i n xs =
     (if i < n then
        (case insert_down cmp p i xs of
           None \<Rightarrow> None | Some xs' \<Rightarrow> insert_loop cmp p (Suc i) n xs')
      else Some xs)"
  by pat_completeness auto
termination by (relation "measure (\<lambda>(cmp, p, i, n, xs). n - i)") auto

declare insert_loop.simps [simp del]

text \<open>
  The outer loop \<open>while (sp > stack)\<close>. It ends because a segment of depth \<open>d\<close> only leaves segments of
  greater depths, at most one of each, on the stack.
\<close>

definition qweight :: "qseg list \<Rightarrow> nat" where
  "qweight st = sum_list (map (\<lambda>(p, n, d). 2 ^ (51 - d)) st)"

lemma qweight_simps [simp]: "qweight [] = 0" "qweight ((p, n, d) # st) = 2 ^ (51 - d) + qweight st"
  by (simp_all add: qweight_def)

lemma qpush_Some: "qpush e st = Some st' \<longleftrightarrow> length st < 50 \<and> st' = e # st"
  by (auto simp: qpush_def)

lemma rqsort_inner_weight:
  "rqsort_inner cmp st p n depth xs = Some (st', p', n', xs') \<Longrightarrow> qweight st' < qweight st + 2 ^ (51 - depth)"
proof (induction "50 - depth" arbitrary: depth st p n xs rule: less_induct)
  case less
  have step: "qweight st' < qweight st + 2 ^ (51 - depth)"
    if "rqsort_inner cmp ((q, m, Suc depth) # st) q' m' (Suc depth) ys = Some (st', p', n', xs')"
      and "\<not> 49 < depth" for q m q' m' ys
  proof -
    have "51 - depth = Suc (50 - depth)" and d: "50 - Suc depth < 50 - depth" using that(2) by simp_all
    then show ?thesis using less.hyps [OF d that(1)] by simp
  qed
  from less.prems show ?case
    by (subst (asm) rqsort_inner.simps)
      (auto simp: qpush_Some split: if_splits option.splits dest: step)
qed

function rqsort_outer :: "'a cmp_f \<Rightarrow> qseg list \<Rightarrow> 'a list \<Rightarrow> 'a list option" where
  "rqsort_outer cmp st xs =
     (case st of
        [] \<Rightarrow> Some xs
      | (p, n, depth) # st' \<Rightarrow>
          (case rqsort_inner cmp st' p n depth xs of
             None \<Rightarrow> None
           | Some (st2, p2, n2, xs2) \<Rightarrow>
               (case insert_loop cmp p2 1 n2 xs2 of
                  None \<Rightarrow> None
                | Some xs3 \<Rightarrow> rqsort_outer cmp st2 xs3)))"
  by pat_completeness auto
termination
  by (relation "measure (\<lambda>(cmp, st, xs). qweight st)") (auto dest: rqsort_inner_weight simp: add.commute)

declare rqsort_outer.simps [simp del]

definition rqsort :: "'a cmp_f \<Rightarrow> 'a list \<Rightarrow> 'a list option" where
  "rqsort cmp xs = (if length xs < 2 then Some xs else rqsort_outer cmp [(0, length xs, 0)] xs)"

section \<open>Permutations of a segment\<close>

definition seg_perm :: "nat \<Rightarrow> nat \<Rightarrow> 'a list \<Rightarrow> 'a list \<Rightarrow> bool" where
  "seg_perm p n xs ys \<longleftrightarrow> length ys = length xs \<and> mset ys = mset xs \<and>
     (\<forall>k < length xs. k < p \<or> p + n \<le> k \<longrightarrow> ys ! k = xs ! k)"

named_theorems seg_perm_intros \<open>ways to obtain a permutation of a segment\<close>

lemma seg_perm_refl [simp, seg_perm_intros]: "seg_perm p n xs xs"
  by (simp add: seg_perm_def)

lemma seg_perm_trans: "seg_perm p n xs ys \<Longrightarrow> seg_perm p n ys zs \<Longrightarrow> seg_perm p n xs zs"
  by (auto simp: seg_perm_def)

lemma seg_perm_length: "seg_perm p n xs ys \<Longrightarrow> length ys = length xs"
  by (simp add: seg_perm_def)

lemma seg_perm_mset: "seg_perm p n xs ys \<Longrightarrow> mset ys = mset xs"
  by (simp add: seg_perm_def)

lemma seg_perm_outside: "seg_perm p n xs ys \<Longrightarrow> k < length xs \<Longrightarrow> k < p \<or> p + n \<le> k \<Longrightarrow> ys ! k = xs ! k"
  by (auto simp: seg_perm_def)

lemma seg_perm_mono: "seg_perm q m xs ys \<Longrightarrow> p \<le> q \<Longrightarrow> q + m \<le> p + n \<Longrightarrow> seg_perm p n xs ys"
  by (auto simp: seg_perm_def)

lemma seg_perm_swap:
  "p \<le> i \<Longrightarrow> i < p + n \<Longrightarrow> p \<le> j \<Longrightarrow> j < p + n \<Longrightarrow> p + n \<le> length xs \<Longrightarrow> seg_perm p n xs (swap i j xs)"
  by (auto simp: seg_perm_def mset_swap' nth_swap_other)

lemma seg_perm_inside:
  assumes "seg_perm p n xs ys" and "p + n \<le> length xs"
  shows "mset (take n (drop p ys)) = mset (take n (drop p xs))"
proof -
  have len: "length ys = length xs" using assms(1) by (rule seg_perm_length)
  have split: "mset zs = mset (take p zs) + mset (take n (drop p zs)) + mset (drop (p + n) zs)" for zs :: "'a list"
    by (metis append_take_drop_id drop_drop mset_append add.commute add.assoc)
  have "take p ys = take p xs" "drop (p + n) ys = drop (p + n) xs"
    using assms len by (auto intro!: nth_equalityI simp: seg_perm_def)
  then show ?thesis
    using split [of xs] split [of ys] seg_perm_mset [OF assms(1)] by (simp add: ac_simps)
qed

lemma seg_perm_source:
  assumes "seg_perm p n xs ys" and "p + n \<le> length xs" and "p \<le> k" and "k < p + n"
  obtains m where "p \<le> m" "m < p + n" "ys ! k = xs ! m"
proof -
  have len: "length ys = length xs" using assms(1) by (rule seg_perm_length)
  have "ys ! k = take n (drop p ys) ! (k - p)" using assms len by simp
  also have "\<dots> \<in> set (take n (drop p ys))" using assms len by (intro nth_mem) simp
  also have "\<dots> = set (take n (drop p xs))"
    using seg_perm_inside [OF assms(1,2)] by (metis set_mset_mset)
  finally obtain j where j: "j < length (take n (drop p xs))" "take n (drop p xs) ! j = ys ! k"
    by (metis in_set_conv_nth)
  then show ?thesis using assms(2) by (intro that [of "p + j"]) auto
qed

lemma swap_ranges_1: "a < length xs \<Longrightarrow> b < length xs \<Longrightarrow> swap_ranges xs a b 1 = swap a b xs"
  by (rule nth_equalityI) (auto simp: nth_swap_ranges nth_swap)

lemma mset_swap_ranges:
  "a + n \<le> length xs \<Longrightarrow> b + n \<le> length xs \<Longrightarrow> disjoint_ranges a b n \<Longrightarrow> mset (swap_ranges xs a b n) = mset xs"
proof (induction n arbitrary: a b xs)
  case (Suc n)
  have "swap_ranges xs a b (Suc n) = swap_ranges (swap a b xs) (a + 1) (b + 1) n"
    using swap_ranges_step [of a 1 n xs b] swap_ranges_1 [of a xs b] Suc.prems by simp
  moreover have "mset (swap_ranges (swap a b xs) (a + 1) (b + 1) n) = mset (swap a b xs)"
    using Suc.prems by (intro Suc.IH) (auto simp: disjoint_ranges_def)
  ultimately show ?case using Suc.prems by (simp add: mset_swap')
qed simp

lemma seg_perm_swap_ranges:
  assumes "p \<le> a" "a + m \<le> p + n" "p \<le> b" "b + m \<le> p + n" "p + n \<le> length xs" "disjoint_ranges a b m"
  shows "seg_perm p n xs (swap_ranges xs a b m)"
  using assms by (auto simp: seg_perm_def mset_swap_ranges intro: swap_ranges_out)

lemma cmp_at_Some [mem_simps]: "i < length xs \<Longrightarrow> j < length xs \<Longrightarrow> cmp_at cmp xs i j = Some (cmp (xs ! i) (xs ! j))"
  by (simp add: cmp_at_def)

lemma swap_at_Some [mem_simps]: "i < length xs \<Longrightarrow> j < length xs \<Longrightarrow> swap_at xs i j = Some (swap i j xs)"
  by (simp add: swap_at_def)

section \<open>Every function permutes its segment and stays inside the array\<close>

lemma sift_child_in:
  assumes "c < n" and "base + n \<le> length xs"
  obtains c' where "sift_child cmp base n c xs = Some c'" "c \<le> c'" "c' < n"
    "c' = c \<or> c' = c + 1 \<and> c + 1 < n \<and> cmp (xs ! (base + c)) (xs ! (base + c + 1)) \<le> 0"
    "c' = c \<Longrightarrow> c + 1 < n \<Longrightarrow> \<not> cmp (xs ! (base + c)) (xs ! (base + c + 1)) \<le> 0"
proof (cases "c < n - 1")
  case True
  with assms have "sift_child cmp base n c xs =
    Some (if cmp (xs ! (base + c)) (xs ! (base + c + 1)) \<le> 0 then c + 1 else c)"
    by (simp add: sift_child_def mem_simps)
  with True show ?thesis
    using that [of "c + 1"] that [of c]
    by (cases "cmp (xs ! (base + c)) (xs ! (base + c + 1)) \<le> 0") auto
next
  case False
  with assms show ?thesis by (intro that [of c]) (auto simp: sift_child_def)
qed

lemma heapsortx_sift_perm:
  "base + n \<le> length xs \<Longrightarrow> \<exists>ys. heapsortx_sift cmp base n r xs = Some ys \<and> seg_perm base n xs ys"
proof (induction cmp base n r xs rule: heapsortx_sift.induct)
  case (1 cmp base n r xs)
  show ?case
  proof (cases "r * 2 + 1 < n")
    case True
    then obtain c where c: "sift_child cmp base n (r * 2 + 1) xs = Some c" "r * 2 + 1 \<le> c" "c < n"
      using sift_child_in "1.prems" by metis
    with True "1.prems" have i: "base + r < length xs" "base + c < length xs" by auto
    show ?thesis
    proof (cases "cmp (xs ! (base + r)) (xs ! (base + c)) > 0")
      case True
      with c i \<open>r * 2 + 1 < n\<close> show ?thesis by (simp add: heapsortx_sift.simps [of _ _ _ r] mem_simps)
    next
      case False
      let ?xs = "swap (base + r) (base + c) xs"
      have sw: "seg_perm base n xs ?xs" using c True "1.prems" by (intro seg_perm_swap) auto
      obtain ys where "heapsortx_sift cmp base n c ?xs = Some ys" "seg_perm base n ?xs ys"
        using "1.IH" [OF \<open>r * 2 + 1 < n\<close> c(1) cmp_at_Some [OF i] False swap_at_Some [OF i]] "1.prems" by auto
      with sw c i False True show ?thesis
        by (auto simp: heapsortx_sift.simps [of _ _ _ r] mem_simps intro: seg_perm_trans)
    qed
  qed (simp add: heapsortx_sift.simps)
qed

lemma heapsortx_build_perm:
  "base + n \<le> length xs \<Longrightarrow> \<exists>ys. heapsortx_build cmp base n i xs = Some ys \<and> seg_perm base n xs ys"
proof (induction i arbitrary: xs)
  case (Suc i)
  obtain ys where ys: "heapsortx_sift cmp base n i xs = Some ys" "seg_perm base n xs ys"
    using heapsortx_sift_perm [OF Suc.prems] by blast
  with Suc.IH [of ys] Suc.prems show ?case
    by (auto simp: seg_perm_length intro: seg_perm_trans)
qed simp

lemma heapsortx_extract_perm:
  "base + n \<le> length xs \<Longrightarrow> i < n \<Longrightarrow>
   \<exists>ys. heapsortx_extract cmp base i xs = Some ys \<and> seg_perm base n xs ys"
proof (induction i arbitrary: xs)
  case (Suc i)
  let ?xs = "swap base (base + Suc i) xs"
  have sw: "swap_at xs base (base + Suc i) = Some ?xs" "seg_perm base n xs ?xs"
    using Suc.prems by (auto simp: mem_simps intro!: seg_perm_swap)
  obtain ys where ys: "heapsortx_sift cmp base (Suc i) 0 ?xs = Some ys" "seg_perm base (Suc i) ?xs ys"
    using heapsortx_sift_perm [of base "Suc i" ?xs] Suc.prems by auto
  then have y: "seg_perm base n xs ys"
    using Suc.prems by (intro seg_perm_trans [OF sw(2) seg_perm_mono [OF ys(2)]]) auto
  with Suc.IH [of ys] Suc.prems sw(1) ys(1) show ?case
    by (auto simp: seg_perm_length intro: seg_perm_trans)
qed simp

lemma heapsortx_perm:
  assumes "base + n \<le> length xs"
  shows "\<exists>ys. heapsortx cmp base n xs = Some ys \<and> seg_perm base n xs ys"
proof -
  obtain ys where ys: "heapsortx_build cmp base n (n div 2) xs = Some ys" "seg_perm base n xs ys"
    using heapsortx_build_perm [OF assms] by blast
  then obtain zs where "n > 1 \<Longrightarrow> heapsortx_extract cmp base (n - 1) ys = Some zs \<and> seg_perm base n ys zs"
    using heapsortx_extract_perm [of base n ys "n - 1"] assms by (cases "n > 1") (auto simp: seg_perm_length)
  with ys show ?thesis by (auto simp: heapsortx_def intro: seg_perm_trans)
qed

lemma insert_down_perm:
  "p + n \<le> length xs \<Longrightarrow> j < n \<Longrightarrow> \<exists>ys. insert_down cmp p j xs = Some ys \<and> seg_perm p n xs ys"
proof (induction j arbitrary: xs)
  case (Suc j)
  let ?xs = "swap (p + Suc j) (p + j) xs"
  have sw: "seg_perm p n xs ?xs" using Suc.prems by (intro seg_perm_swap) auto
  with Suc.IH [of ?xs] Suc.prems show ?case by (auto simp: mem_simps intro: seg_perm_trans)
qed simp

lemma insert_loop_perm:
  "p + n \<le> length xs \<Longrightarrow> \<exists>ys. insert_loop cmp p i n xs = Some ys \<and> seg_perm p n xs ys"
proof (induction cmp p i n xs rule: insert_loop.induct)
  case (1 cmp p i n xs)
  show ?case
  proof (cases "i < n")
    case True
    obtain ys where ys: "insert_down cmp p i xs = Some ys" "seg_perm p n xs ys"
      using insert_down_perm [OF "1.prems" True] by blast
    with "1.IH" [OF True ys(1)] "1.prems" True show ?thesis
      by (auto simp: insert_loop.simps [of _ _ i] seg_perm_length intro: seg_perm_trans)
  qed (simp add: insert_loop.simps)
qed

lemma med3_in:
  assumes "a < length xs" "b < length xs" "c < length xs"
  obtains m where "med3 cmp xs a b c = Some m" "m \<in> {a, b, c}"
  using assms by (intro that) (auto simp: med3_def mem_simps)

lemma part_up_perm:
  assumes "p + n \<le> length xs" "1 \<le> lt" "lt \<le> i" "i \<le> j" "j \<le> n"
  shows "\<exists>i' lt' ys. part_up cmp p j i lt xs = Some (i', lt', ys) \<and> seg_perm p n xs ys
    \<and> 1 \<le> lt' \<and> lt' \<le> i' \<and> i \<le> i' \<and> i' \<le> j"
  using assms
proof (induction cmp p j i lt xs rule: part_up.induct)
  case (1 cmp p j i lt xs)
  show ?case
  proof (cases "i < j \<and> cmp (xs ! p) (xs ! (p + i)) \<ge> 0")
    case False
    then show ?thesis using "1.prems" by (auto simp: part_up.simps [of _ _ _ i] mem_simps)
  next
    case True
    with "1.prems" have c: "cmp_at cmp xs p (p + i) = Some (cmp (xs ! p) (xs ! (p + i)))"
      by (simp add: mem_simps)
    show ?thesis
    proof (cases "cmp (xs ! p) (xs ! (p + i)) = 0")
      case eq: True
      let ?xs = "swap (p + lt) (p + i) xs"
      have s: "swap_at xs (p + lt) (p + i) = Some ?xs" "seg_perm p n xs ?xs"
        using True "1.prems" by (auto simp: mem_simps intro!: seg_perm_swap)
      obtain i' lt' ys where r: "part_up cmp p j (Suc i) (Suc lt) ?xs = Some (i', lt', ys)"
        "seg_perm p n ?xs ys" "1 \<le> lt'" "lt' \<le> i'" "Suc i \<le> i'" "i' \<le> j"
        using "1.IH"(1) [OF _ c _ eq s(1)] True "1.prems" by auto
      with True c eq s show ?thesis
        by (auto simp: part_up.simps [of _ _ _ i] intro: seg_perm_trans)
    next
      case False
      then show ?thesis using "1.IH"(2) [OF _ c _ False] True "1.prems" c
        by (auto simp: part_up.simps [of _ _ _ i])
    qed
  qed
qed

lemma part_down_perm:
  assumes "p + n \<le> length xs" "1 \<le> i" "i \<le> j" "j \<le> gt" "gt \<le> n"
  shows "\<exists>j' gt' ys. part_down cmp p i j gt xs = Some (j', gt', ys) \<and> seg_perm p n xs ys
    \<and> i \<le> gt' \<and> j' < gt' \<and> gt' \<le> n"
  using assms
proof (induction cmp p i j gt xs rule: part_down.induct)
  case (2 cmp p i j gt xs)
  show ?case
  proof (cases "i < j \<and> cmp (xs ! p) (xs ! (p + j)) = 0")
    case True
    let ?xs = "swap (p + (gt - 1)) (p + j) xs"
    have c: "cmp_at cmp xs p (p + j) = Some 0" using True "2.prems" by (simp add: mem_simps)
    have s: "swap_at xs (p + (gt - 1)) (p + j) = Some ?xs" "seg_perm p n xs ?xs"
      using True "2.prems" by (auto simp: mem_simps intro!: seg_perm_swap)
    obtain j' gt' ys where "part_down cmp p i j (gt - 1) ?xs = Some (j', gt', ys)"
      "seg_perm p n ?xs ys" "i \<le> gt'" "j' < gt'" "gt' \<le> n"
    proof -
      have "j \<le> gt - 1" "gt - 1 \<le> n" "p + n \<le> length ?xs" "i \<le> j" using True "2.prems" by auto
      then show ?thesis using "2.IH"(1) [OF _ c _ _ s(1)] True "2.prems"(2) that by blast
    qed
    with True c s show ?thesis by (auto intro: seg_perm_trans)
  next
    case False
    then show ?thesis
      using "2.IH"(2) "2.prems" by (cases "i < j \<and> cmp (xs ! p) (xs ! (p + j)) < 0") (auto simp: mem_simps)
  qed
qed simp

lemma part_loop_perm:
  assumes "p + n \<le> length xs" "1 \<le> lt" "lt \<le> i" "i \<le> j" "j \<le> gt" "gt \<le> n"
  shows "\<exists>i' lt' gt' ys. part_loop cmp p i lt j gt xs = Some (i', lt', gt', ys) \<and> seg_perm p n xs ys
    \<and> 1 \<le> lt' \<and> lt' \<le> i' \<and> i' \<le> gt' \<and> gt' \<le> n"
  using assms
proof (induction cmp p i lt j gt xs rule: part_loop.induct)
  case (1 cmp p i lt j gt xs)
  obtain i1 lt1 xs1 where u: "part_up cmp p j i lt xs = Some (i1, lt1, xs1)" "seg_perm p n xs xs1"
    "1 \<le> lt1" "lt1 \<le> i1" "i \<le> i1" "i1 \<le> j"
    using part_up_perm [of p n xs lt i j cmp] "1.prems" by auto
  then obtain j1 gt1 xs2 where d: "part_down cmp p i1 j gt xs1 = Some (j1, gt1, xs2)" "seg_perm p n xs1 xs2"
    "i1 \<le> gt1" "j1 < gt1" "gt1 \<le> n"
    using part_down_perm [of p n xs1 i1 j gt cmp] "1.prems" by (auto simp: seg_perm_length)
  have p2: "seg_perm p n xs xs2" using u(2) d(2) by (rule seg_perm_trans)
  show ?case
  proof (cases "i1 \<ge> j1")
    case True
    with u d p2 show ?thesis by (auto simp: part_loop.simps [of _ _ i])
  next
    case False
    let ?xs = "swap (p + i1) (p + j1) xs2"
    have l: "length xs2 = length xs" using p2 by (rule seg_perm_length)
    have s: "swap_at xs2 (p + i1) (p + j1) = Some ?xs" "seg_perm p n xs2 ?xs"
      using False u d "1.prems" l by (auto simp: mem_simps intro!: seg_perm_swap)
    obtain i' lt' gt' ys where "part_loop cmp p (Suc i1) lt1 j1 gt1 ?xs = Some (i', lt', gt', ys)"
      "seg_perm p n ?xs ys" "1 \<le> lt'" "lt' \<le> i'" "i' \<le> gt'" "gt' \<le> n"
      using "1.IH" [OF u(1) refl refl d(1) refl refl False s(1)] False u d "1.prems" l by auto
    with u d False s p2 show ?thesis
      by (auto simp: part_loop.simps [of _ _ i] intro: seg_perm_trans)
  qed
qed

lemma swap_block_perm:
  assumes "p \<le> a" "a + m \<le> p + n" "p \<le> b" "b + m \<le> p + n" "p + n \<le> length xs" "disjoint_ranges a b m"
  shows "swap_block xs a b m = Some (swap_ranges xs a b m) \<and> seg_perm p n xs (swap_ranges xs a b m)"
  using assms seg_perm_swap_ranges [OF assms] by (auto simp: swap_block_def)

lemma rqsort_partition_steps:
  assumes "p + n \<le> length xs" and "6 < n"
  obtains xs1 i lt gt xs2 xs3 xs4 where "seg_perm p n xs xs1"
    "part_loop cmp p 1 1 n n xs1 = Some (i, lt, gt, xs2)" "seg_perm p n xs1 xs2"
    "1 \<le> lt" "lt \<le> i" "i \<le> gt" "gt \<le> n"
    "xs3 = swap_ranges xs2 p (p + (i - min lt (i - lt))) (min lt (i - lt))" "seg_perm p n xs2 xs3"
    "xs4 = swap_ranges xs3 (p + i) (p + (n - min (n - gt) (gt - i))) (min (n - gt) (gt - i))"
    "seg_perm p n xs3 xs4"
    "rqsort_partition cmp p n xs = Some (i - lt, n - (gt - i), xs4)"
proof -
  let ?m4 = "n div 4"
  have "4 * ?m4 \<le> n" by simp
  then have m3: "3 * ?m4 < n" using assms(2) by linarith
  obtain m where m: "med3 cmp xs (p + ?m4) (p + 2 * ?m4) (p + 3 * ?m4) = Some m"
    "m \<in> {p + ?m4, p + 2 * ?m4, p + 3 * ?m4}"
    by (rule med3_in [of "p + ?m4" xs "p + 2 * ?m4" "p + 3 * ?m4" cmp]) (use assms m3 in linarith)+
  then have mm: "p \<le> m" "m < p + n" using m3 by auto
  let ?xs1 = "swap p m xs"
  have s1: "swap_at xs p m = Some ?xs1" "seg_perm p n xs ?xs1"
    using mm assms by (auto simp: mem_simps intro!: seg_perm_swap)
  obtain i lt gt xs2 where l: "part_loop cmp p 1 1 n n ?xs1 = Some (i, lt, gt, xs2)" "seg_perm p n ?xs1 xs2"
    "1 \<le> lt" "lt \<le> i" "i \<le> gt" "gt \<le> n"
    using part_loop_perm [of p n ?xs1 1 1 n n cmp] assms by auto
  have len: "length xs2 = length xs" using l(2) by (simp add: seg_perm_length)
  let ?s = "min lt (i - lt)" and ?t = "min (n - gt) (gt - i)"
  define xs3 where "xs3 = swap_ranges xs2 p (p + (i - ?s)) ?s"
  have b1: "swap_block xs2 p (p + (i - ?s)) ?s = Some xs3" "seg_perm p n xs2 xs3"
    using swap_block_perm [of p p ?s n "p + (i - ?s)" xs2] l len assms(1)
    by (auto simp: xs3_def disjoint_ranges_def)
  define xs4 where "xs4 = swap_ranges xs3 (p + i) (p + (n - ?t)) ?t"
  have "length xs3 = length xs" using len by (simp add: xs3_def)
  then have "swap_block xs3 (p + i) (p + (n - ?t)) ?t = Some xs4 \<and> seg_perm p n xs3 xs4"
    unfolding xs4_def
    by (intro swap_block_perm) (use l assms(1) in \<open>auto simp: disjoint_ranges_def min_def\<close>)
  then have b2: "swap_block xs3 (p + i) (p + (n - ?t)) ?t = Some xs4" "seg_perm p n xs3 xs4" by auto
  have r: "rqsort_partition cmp p n xs = Some (i - lt, n - (gt - i), xs4)"
    by (simp only: rqsort_partition_def Let_def m(1) s1(1) l(1) b1(1) b2(1) option.case prod.case)
  show ?thesis by (rule that [OF s1(2) l xs3_def b1(2) xs4_def b2(2) r])
qed

lemma rqsort_partition_perm:
  assumes "p + n \<le> length xs" and "6 < n"
  obtains lt gt ys where "rqsort_partition cmp p n xs = Some (lt, gt, ys)" "seg_perm p n xs ys"
    "lt \<le> gt" "gt \<le> n"
proof -
  show ?thesis
  proof (rule rqsort_partition_steps [OF assms, of cmp], goal_cases)
    case (1 xs1 i lt gt xs2 xs3 xs4)
    have "seg_perm p n xs xs4"
      by (rule seg_perm_trans [OF seg_perm_trans [OF 1(1,3)] seg_perm_trans [OF 1(9,11)]])
    with 1 show ?thesis by (intro that [of "i - lt" "n - (gt - i)" xs4]) auto
  qed
qed

text \<open>
  The stack invariant: an entry with \<open>k\<close> entries below it has depth at least \<open>k\<close>, so that a push at a
  depth of at most 50 always finds room.
\<close>

fun qstack_ok :: "nat \<Rightarrow> qseg list \<Rightarrow> bool" where
  "qstack_ok len [] = True"
| "qstack_ok len ((p, n, d) # st) = (length st \<le> d \<and> p + n \<le> len \<and> qstack_ok len st)"

lemma rqsort_inner_safe:
  assumes "qstack_ok (length xs) st" and "length st \<le> depth" and "p + n \<le> length xs"
  shows "\<exists>st' p' n' ys. rqsort_inner cmp st p n depth xs = Some (st', p', n', ys)
    \<and> qstack_ok (length xs) st' \<and> p' + n' \<le> length xs \<and> length ys = length xs \<and> mset ys = mset xs"
  using assms
proof (induction "50 - depth" arbitrary: depth st p n xs rule: less_induct)
  case less
  consider "n \<le> 6" | "6 < n" "49 < depth" | "6 < n" "\<not> 49 < depth" by linarith
  then show ?case
  proof cases
    case 1
    with less.prems show ?thesis by (simp add: rqsort_inner.simps)
  next
    case 2
    with less.prems heapsortx_perm [of p n xs cmp] show ?thesis
      by (auto simp: rqsort_inner.simps seg_perm_length seg_perm_mset)
  next
    case 3
    obtain lt gt ys where r: "rqsort_partition cmp p n xs = Some (lt, gt, ys)" "seg_perm p n xs ys"
      "lt \<le> gt" "gt \<le> n" using rqsort_partition_perm [OF less.prems(3) 3(1)] by metis
    then have len: "length ys = length xs" "mset ys = mset xs" by (simp_all add: seg_perm_length seg_perm_mset)
    have d: "50 - Suc depth < 50 - depth" using 3 by simp
    have push: "qpush e st = Some (e # st)" for e using less.prems(2) 3(2) by (simp add: qpush_def)
    have rec: "\<exists>st' p' n' zs. rqsort_inner cmp ((q, m, Suc depth) # st) q' m' (Suc depth) ys = Some (st', p', n', zs)
        \<and> qstack_ok (length xs) st' \<and> p' + n' \<le> length xs \<and> length zs = length xs \<and> mset zs = mset xs"
      if "q + m \<le> length xs" "q' + m' \<le> length xs" for q m q' m'
      using less.hyps [OF d, where xs = ys and st = "(q, m, Suc depth) # st" and p = q' and n = m'] less.prems that len by simp
    show ?thesis
      using rec [of p lt "p + gt" "n - gt"] rec [of "p + gt" "n - gt" p lt] r less.prems(3) 3
      by (subst rqsort_inner.simps) (simp add: push)
  qed
qed

lemma rqsort_outer_safe:
  assumes "qstack_ok (length xs) st"
  shows "\<exists>ys. rqsort_outer cmp st xs = Some ys \<and> mset ys = mset xs"
  using assms
proof (induction cmp st xs rule: rqsort_outer.induct)
  case (1 cmp st xs)
  show ?case
  proof (cases st)
    case Nil
    then show ?thesis by (simp add: rqsort_outer.simps)
  next
    case (Cons e st')
    obtain p n d where e: "e = (p, n, d)" by (cases e)
    obtain st2 p2 n2 xs2 where i: "rqsort_inner cmp st' p n d xs = Some (st2, p2, n2, xs2)"
      "qstack_ok (length xs) st2" "p2 + n2 \<le> length xs" "length xs2 = length xs" "mset xs2 = mset xs"
      using rqsort_inner_safe [of xs st' d p n cmp] "1.prems" Cons e by auto
    obtain xs3 where s: "insert_loop cmp p2 1 n2 xs2 = Some xs3" "seg_perm p2 n2 xs2 xs3"
      using insert_loop_perm [of p2 n2 xs2 cmp 1] i by auto
    then have "length xs3 = length xs" "mset xs3 = mset xs"
      using i by (auto simp: seg_perm_length seg_perm_mset)
    with "1.IH" [OF Cons e [symmetric] refl i(1) refl refl refl s(1)] i(2)
    show ?thesis using Cons e i(1) s(1) by (subst rqsort_outer.simps) simp
  qed
qed

end
