(* ===== verification/Sort_Order.thy ===== *)
theory Sort_Order
  imports CUtils_Sort
begin

text \<open>
  The order in which \<open>rqsort\<close> leaves the array when the comparison callback is a total preorder. The
  contract of a callback is the locale \<open>comparator\<close>; heap sort, insertion sort, the three-way partition
  and the loop over the pending segments are proved once inside it. The comparison callbacks of the
  typed arrays of \<open>quickjs.c\<close> are interpreted at the end.
\<close>

section \<open>The contract of a comparison callback\<close>

locale comparator =
  fixes cmp :: "'a \<Rightarrow> 'a \<Rightarrow> int"
  assumes anti: "cmp a b > 0 \<longleftrightarrow> cmp b a < 0"
    and trans: "cmp a b \<le> 0 \<Longrightarrow> cmp b c \<le> 0 \<Longrightarrow> cmp a c \<le> 0"
begin

definition le :: "'a \<Rightarrow> 'a \<Rightarrow> bool" where
  "le a b \<longleftrightarrow> cmp a b \<le> 0"

lemma le_refl [simp]: "le a a"
  using anti [of a a] by (auto simp: le_def)

lemma le_trans: "le a b \<Longrightarrow> le b c \<Longrightarrow> le a c"
  using trans by (simp add: le_def)

lemma not_le_imp_le: "\<not> le a b \<Longrightarrow> le b a"
  using anti [of a b] by (simp add: le_def)

lemma le_iff: "cmp a b \<le> 0 \<longleftrightarrow> le a b"
  by (simp add: le_def)

lemma cmp_pos_le: "cmp a b > 0 \<Longrightarrow> le b a"
  using anti [of a b] by (simp add: le_def)

lemma cmp_zero_le: "cmp a b = 0 \<Longrightarrow> le a b \<and> le b a"
  using anti [of b a] by (auto simp: le_def)

section \<open>Heap sort\<close>

text \<open>
  \<open>heap_from n k h x\<close>: among the first \<open>n\<close> elements every child of a node from \<open>k\<close> on, the hole \<open>h\<close>
  apart, is at most its parent, and the children of the hole are at most the parent of the hole.
\<close>

definition heap_from :: "nat \<Rightarrow> nat \<Rightarrow> (nat \<Rightarrow> 'a) \<Rightarrow> bool" where
  "heap_from n k x \<longleftrightarrow> (\<forall>c. 0 < c \<and> c < n \<and> k \<le> (c - 1) div 2 \<longrightarrow> le (x c) (x ((c - 1) div 2)))"

definition heap_hole :: "nat \<Rightarrow> nat \<Rightarrow> nat \<Rightarrow> (nat \<Rightarrow> 'a) \<Rightarrow> bool" where
  "heap_hole n k h x \<longleftrightarrow>
     (\<forall>c. 0 < c \<and> c < n \<and> k \<le> (c - 1) div 2 \<and> (c - 1) div 2 \<noteq> h \<longrightarrow> le (x c) (x ((c - 1) div 2))) \<and>
     (\<forall>c. 0 < c \<and> c < n \<and> (c - 1) div 2 = h \<and> 0 < h \<and> k \<le> (h - 1) div 2 \<longrightarrow> le (x c) (x ((h - 1) div 2)))"

lemma heap_hole_fill:
  assumes "heap_hole n k h x" and "\<And>c. 0 < c \<Longrightarrow> c < n \<Longrightarrow> (c - 1) div 2 = h \<Longrightarrow> le (x c) (x h)"
  shows "heap_from n k x"
  using assms unfolding heap_from_def heap_hole_def by blast

lemma heap_hole_down:
  assumes hole: "heap_hole n k h x" and k: "k \<le> h" and c: "0 < c" "c < n" "(c - 1) div 2 = h"
    and larger: "\<And>d. 0 < d \<Longrightarrow> d < n \<Longrightarrow> (d - 1) div 2 = h \<Longrightarrow> le (x d) (x c)"
    and up: "le (x h) (x c)"
    and y: "y h = x c" "y c = x h" "\<And>i. i < n \<Longrightarrow> i \<noteq> h \<Longrightarrow> i \<noteq> c \<Longrightarrow> y i = x i"
  shows "heap_hole n k c y"
proof -
  have hc: "h < c" using c by auto
  have down: "le (x d) (x c)" if "0 < d" "d < n" "(d - 1) div 2 = c" for d
    using hole that c k hc unfolding heap_hole_def by auto
  have "le (y d) (y ((d - 1) div 2))" if d: "0 < d" "d < n" "k \<le> (d - 1) div 2" "(d - 1) div 2 \<noteq> c" for d
  proof (cases "(d - 1) div 2 = h")
    case True
    with d larger [of d] up y hc show ?thesis by (cases "d = c") auto
  next
    case False
    let ?p = "(d - 1) div 2"
    have p: "?p < n" "?p < d" using d by auto
    have "le (x d) (x ?p)" using hole d False unfolding heap_hole_def by blast
    moreover have "d \<noteq> c" using False c by auto
    moreover have "le (x c) (x ?p)" if "d = h" using hole c that d unfolding heap_hole_def by blast
    ultimately show ?thesis using y p d False by (cases "d = h") auto
  qed
  moreover have "le (y d) (y ((c - 1) div 2))" if "0 < d" "d < n" "(d - 1) div 2 = c" for d
    using down [OF that] y c that hc by (auto simp: div_le_dividend)
  ultimately show ?thesis unfolding heap_hole_def by blast
qed

lemma children: "(c - 1) div 2 = r \<Longrightarrow> 0 < c \<Longrightarrow> c = r * 2 + 1 \<or> c = r * 2 + 2" for c r :: nat
  by auto

lemma heapsortx_sift_heap:
  assumes "base + n \<le> length xs" "heap_hole n k r (\<lambda>i. xs ! (base + i))" "k \<le> r"
    "heapsortx_sift cmp base n r xs = Some ys"
  shows "heap_from n k (\<lambda>i. ys ! (base + i))"
  using assms
proof (induction "n - r" arbitrary: r xs rule: less_induct)
  case less
  let ?x = "\<lambda>i. xs ! (base + i)"
  note [simp] = heapsortx_sift.simps [of _ _ _ r]
  show ?case
  proof (cases "r * 2 + 1 < n")
    case False
    with less.prems show ?thesis by (intro heap_hole_fill [of n k r]) (auto dest!: children)
  next
    case inner: True
    obtain c where c: "sift_child cmp base n (r * 2 + 1) xs = Some c" "r * 2 + 1 \<le> c" "c < n"
      "c = r * 2 + 1 \<or> c = r * 2 + 1 + 1 \<and> r * 2 + 1 + 1 < n \<and> cmp (?x (r * 2 + 1)) (xs ! (base + (r * 2 + 1) + 1)) \<le> 0"
      "c = r * 2 + 1 \<Longrightarrow> r * 2 + 1 + 1 < n \<Longrightarrow> \<not> cmp (?x (r * 2 + 1)) (xs ! (base + (r * 2 + 1) + 1)) \<le> 0"
      by (rule sift_child_in [OF inner less.prems(1), of cmp]) blast
    have larger: "le (?x d) (?x c)" if "0 < d" "d < n" "(d - 1) div 2 = r" for d
      using children [OF that(3,1)] c(4,5) that(2) by (auto simp: le_iff intro: not_le_imp_le)
    have cpar: "(c - 1) div 2 = r" using c(4) by auto
    have i: "base + r < length xs" "base + c < length xs" using c inner less.prems(1) by auto
    show ?thesis
    proof (cases "cmp (?x r) (?x c) > 0")
      case True
      then have "ys = xs" using less.prems(4) inner c(1) i by (simp add: mem_simps)
      moreover have "le (?x c) (?x r)" using True by (rule cmp_pos_le)
      ultimately show ?thesis using less.prems larger by (blast intro: heap_hole_fill le_trans)
    next
      case False
      let ?xs = "swap (base + r) (base + c) xs"
      have rec: "heapsortx_sift cmp base n c ?xs = Some ys"
        using less.prems(4) inner c(1) i False by (simp add: mem_simps)
      have "heap_hole n k c (\<lambda>i. ?xs ! (base + i))"
        by (rule heap_hole_down [OF less.prems(2,3) _ c(3) cpar larger])
          (use False i c less.prems(1) in \<open>auto simp: nth_swap le_def\<close>)
      then show ?thesis using less.hyps [OF _ _ _ _ rec] less.prems c by simp
    qed
  qed
qed

lemma heapsortx_build_heap:
  assumes "base + n \<le> length xs" "heap_from n i (\<lambda>i. xs ! (base + i))"
    "heapsortx_build cmp base n i xs = Some ys"
  shows "heap_from n 0 (\<lambda>i. ys ! (base + i))"
  using assms
proof (induction i arbitrary: xs)
  case (Suc i)
  obtain xs' where s: "heapsortx_sift cmp base n i xs = Some xs'" "seg_perm base n xs xs'"
    using heapsortx_sift_perm [OF Suc.prems(1)] by blast
  have "heap_hole n i i (\<lambda>i. xs ! (base + i))"
    using Suc.prems(2) by (auto simp: heap_from_def heap_hole_def)
  then have "heap_from n i (\<lambda>i. xs' ! (base + i))"
    using heapsortx_sift_heap [OF Suc.prems(1) _ _ s(1)] by simp
  with Suc.IH [of xs'] Suc.prems s seg_perm_length [OF s(2)] show ?case by simp
qed simp

lemma heap_root: "heap_from n 0 x \<Longrightarrow> c < n \<Longrightarrow> le (x c) (x 0)"
proof (induction c rule: less_induct)
  case (less c)
  show ?case
  proof (cases "c = 0")
    case False
    then have "le (x c) (x ((c - 1) div 2))" using less.prems by (simp add: heap_from_def)
    moreover have "le (x ((c - 1) div 2)) (x 0)" using less False by auto
    ultimately show ?thesis by (rule le_trans)
  qed simp
qed

text \<open>\<open>sorted_seg\<close> and \<open>sorted_above\<close>: a segment in order, and the part of it from \<open>m\<close> on in its final place.\<close>

definition sorted_above :: "nat \<Rightarrow> nat \<Rightarrow> nat \<Rightarrow> 'a list \<Rightarrow> bool" where
  "sorted_above p n m xs \<longleftrightarrow> (\<forall>a b. a < b \<and> b < n \<and> m \<le> b \<longrightarrow> le (xs ! (p + a)) (xs ! (p + b)))"

abbreviation "sorted_seg p n xs \<equiv> sorted_above p n 0 xs"

lemma sorted_above_perm:
  assumes "sorted_above p n m xs" "seg_perm p m xs ys" "p + n \<le> length xs" "m \<le> n"
  shows "sorted_above p n m ys"
  unfolding sorted_above_def
proof (intro allI impI, elim conjE)
  fix a b assume b: "a < b" "b < n" "m \<le> b"
  then have yb: "ys ! (p + b) = xs ! (p + b)" using assms by (auto intro: seg_perm_outside)
  show "le (ys ! (p + a)) (ys ! (p + b))"
  proof (cases "a < m")
    case True
    then obtain k where "p \<le> k" "k < p + m" "ys ! (p + a) = xs ! k"
      using seg_perm_source [OF assms(2), of "p + a"] assms(3,4) by auto
    moreover have "le (xs ! (p + (k - p))) (xs ! (p + b))"
      using assms(1) b \<open>p \<le> k\<close> \<open>k < p + m\<close> unfolding sorted_above_def by (metis less_diff_conv2 add.commute order_less_le_trans)
    ultimately show ?thesis using yb by simp
  next
    case False
    then have "ys ! (p + a) = xs ! (p + a)" using assms b by (auto intro: seg_perm_outside)
    then show ?thesis using assms(1) b yb by (simp add: sorted_above_def)
  qed
qed

lemma heapsortx_extract_sorted:
  assumes "base + n \<le> length xs" "i < n" "heap_from (Suc i) 0 (\<lambda>i. xs ! (base + i))"
    "sorted_above base n (Suc i) xs" "heapsortx_extract cmp base i xs = Some ys"
  shows "sorted_seg base n ys"
  using assms
proof (induction i arbitrary: xs)
  case 0
  then show ?case by (auto simp: sorted_above_def)
next
  case (Suc i)
  define xs1 where "xs1 = swap base (base + Suc i) xs"
  let ?xs = xs1
  have sw: "swap_at xs base (base + Suc i) = Some ?xs" using Suc.prems by (simp add: mem_simps xs1_def)
  have p1: "seg_perm base (Suc (Suc i)) xs ?xs" using Suc.prems unfolding xs1_def by (intro seg_perm_swap) auto
  have len: "length ?xs = length xs" by (simp add: xs1_def)
  obtain xs2 where s: "heapsortx_sift cmp base (Suc i) 0 ?xs = Some xs2" "seg_perm base (Suc i) ?xs xs2"
    using heapsortx_sift_perm [of base "Suc i" ?xs] Suc.prems len by auto
  have nth: "?xs ! (base + a) = (if a = 0 then xs ! (base + Suc i) else if a = Suc i then xs ! base else xs ! (base + a))"
    if "a < n" for a using that Suc.prems by (simp add: nth_swap xs1_def)
  have "heap_hole (Suc i) 0 0 (\<lambda>i. ?xs ! (base + i))"
    using Suc.prems(2,3) by (auto simp: heap_hole_def heap_from_def nth)
  then have h: "heap_from (Suc i) 0 (\<lambda>i. xs2 ! (base + i))"
    using heapsortx_sift_heap [OF _ _ _ s(1), of 0] Suc.prems len by simp
  have above: "sorted_above base n (Suc (Suc i)) ?xs"
    using Suc.prems by (intro sorted_above_perm [OF _ p1]) auto
  have "le (?xs ! (base + a)) (?xs ! (base + Suc i))" if "a < Suc i" for a
    using heap_root [OF Suc.prems(3), of a] heap_root [OF Suc.prems(3), of "Suc i"] that Suc.prems(2) nth [of "Suc i"]
    by (simp add: nth)
  with above have "sorted_above base n (Suc i) ?xs"
    unfolding sorted_above_def by (metis Suc_leI le_neq_implies_less)
  then have "sorted_above base n (Suc i) xs2"
    using Suc.prems len by (intro sorted_above_perm [OF _ s(2)]) auto
  then show ?case
    using Suc.IH [OF _ _ h] Suc.prems sw s len seg_perm_length [OF s(2)] by simp
qed

lemma heapsortx_sorted:
  assumes "base + n \<le> length xs" "heapsortx cmp base n xs = Some ys"
  shows "sorted_seg base n ys"
proof (cases "n > 1")
  case True
  obtain xs' where b: "heapsortx_build cmp base n (n div 2) xs = Some xs'" "seg_perm base n xs xs'"
    using heapsortx_build_perm [OF assms(1)] by blast
  have "heap_from n (n div 2) (\<lambda>i. xs ! (base + i))" by (auto simp: heap_from_def)
  then have "heap_from n 0 (\<lambda>i. xs' ! (base + i))"
    using heapsortx_build_heap [OF assms(1) _ b(1)] by simp
  moreover have "sorted_above base n n xs'" by (auto simp: sorted_above_def)
  ultimately show ?thesis
    using True assms b heapsortx_extract_sorted [of base n xs' "n - 1" ys] seg_perm_length [OF b(2)]
    by (simp add: heapsortx_def)
next
  case False
  then show ?thesis by (auto simp: sorted_above_def)
qed

section \<open>Insertion sort\<close>

text \<open>While the element at \<open>j\<close> moves down, the others up to \<open>i\<close> are in order and those above it are not smaller.\<close>

lemma insert_down_sorted:
  assumes "p + Suc i \<le> length xs" "j \<le> i"
    and "\<forall>a b. a < b \<and> b \<le> i \<and> a \<noteq> j \<and> b \<noteq> j \<longrightarrow> le (xs ! (p + a)) (xs ! (p + b))"
    and "\<forall>b. j < b \<and> b \<le> i \<longrightarrow> le (xs ! (p + j)) (xs ! (p + b))"
    and "insert_down cmp p j xs = Some ys"
  shows "sorted_seg p (Suc i) ys"
  using assms
proof (induction j arbitrary: xs)
  case 0
  then show ?case unfolding sorted_above_def insert_down.simps option.inject
    by (metis gr0I less_Suc_eq_le not_less0)
next
  case (Suc j)
  have in_mem: "p + j < length xs" "p + Suc j < length xs" using Suc.prems by auto
  show ?case
  proof (cases "cmp (xs ! (p + j)) (xs ! (p + Suc j)) > 0")
    case True
    define zs where "zs = swap (p + Suc j) (p + j) xs"
    have z: "zs ! (p + k) = (if k = Suc j then xs ! (p + j) else if k = j then xs ! (p + Suc j) else xs ! (p + k))"
      if "k \<le> i" for k using that Suc.prems by (simp add: zs_def nth_swap)
    have "le (xs ! (p + Suc j)) (xs ! (p + j))" using True by (rule cmp_pos_le)
    then have 2: "\<forall>b. j < b \<and> b \<le> i \<longrightarrow> le (zs ! (p + j)) (zs ! (p + b))"
      using Suc.prems(2,4) z by (metis Suc_lessI Suc_leD less_irrefl less_not_refl3 not_less_iff_gr_or_eq)
    have 1: "\<forall>a b. a < b \<and> b \<le> i \<and> a \<noteq> j \<and> b \<noteq> j \<longrightarrow> le (zs ! (p + a)) (zs ! (p + b))"
      using Suc.prems(2,3) z by (auto simp del: add_Suc_right)
    have "insert_down cmp p j zs = Some ys" using Suc.prems(5) True in_mem by (simp add: mem_simps zs_def)
    then show ?thesis using Suc.IH [of zs, OF _ _ 1 2] Suc.prems by (simp add: zs_def)
  next
    case False
    have ys: "ys = xs" using Suc.prems(5) False in_mem by (simp add: mem_simps)
    have step: "le (xs ! (p + j)) (xs ! (p + Suc j))" using False by (simp add: le_def)
    have "le (xs ! (p + a)) (xs ! (p + b))" if ab: "a < b" "b \<le> i" for a b
    proof -
      have "le (xs ! (p + a)) (xs ! (p + j))" if "a < Suc j"
        using Suc.prems(2,3) that by (cases "a = j") auto
      with step have "a < Suc j \<Longrightarrow> le (xs ! (p + a)) (xs ! (p + Suc j))" by (blast intro: le_trans)
      then show ?thesis using Suc.prems(3,4) ab by (cases "a = Suc j"; cases "b = Suc j") (auto simp del: add_Suc_right)
    qed
    then show ?thesis by (simp add: sorted_above_def ys)
  qed
qed

lemma insert_loop_sorted:
  assumes "p + n \<le> length xs" "sorted_seg p i xs" "insert_loop cmp p i n xs = Some ys" "i \<le> n"
  shows "sorted_seg p n ys"
  using assms
proof (induction "n - i" arbitrary: i xs)
  case 0
  then show ?case by (simp add: insert_loop.simps)
next
  case (Suc k)
  then have i: "i < n" by simp
  obtain xs1 where d: "insert_down cmp p i xs = Some xs1" "seg_perm p n xs xs1"
    using insert_down_perm [of p n xs i cmp] Suc.prems i by auto
  have "sorted_seg p (Suc i) xs1"
    using Suc.prems i by (intro insert_down_sorted [OF _ _ _ _ d(1)]) (auto simp: sorted_above_def)
  moreover have "insert_loop cmp p (Suc i) n xs1 = Some ys"
    using Suc.prems(3) i d by (simp add: insert_loop.simps [of _ _ i])
  ultimately show ?case
    using Suc.hyps(1) [of "Suc i" xs1] Suc.hyps(2) Suc.prems i seg_perm_length [OF d(2)] by simp
qed

section \<open>The three-way partition\<close>

text \<open>
  With \<open>v\<close> the pivot: \<open>class_is s p a b xs v\<close> says that the comparison of the pivot with every element
  of \<open>[p + a, p + b)\<close> has the sign \<open>s\<close> (1: smaller than the pivot, 0: equal, -1: greater).
\<close>

definition class_is :: "int \<Rightarrow> nat \<Rightarrow> nat \<Rightarrow> nat \<Rightarrow> 'a list \<Rightarrow> 'a \<Rightarrow> bool" where
  "class_is s p a b xs v \<longleftrightarrow> (\<forall>k. a \<le> k \<and> k < b \<longrightarrow> sgn (cmp v (xs ! (p + k))) = s)"

lemma class_is_low:
  "class_is s p a b xs v \<longleftrightarrow> (a < b \<longrightarrow> sgn (cmp v (xs ! (p + a))) = s) \<and> class_is s p (Suc a) b xs v"
  unfolding class_is_def by (metis Suc_leD Suc_leI le_neq_implies_less order_refl)

lemma part_up_class:
  assumes "p + n \<le> length xs" "1 \<le> lt" "lt \<le> i" "i \<le> j" "j \<le> n"
    and "xs ! p = v" "class_is 0 p 0 lt xs v" "class_is 1 p lt i xs v"
    and "part_up cmp p j i lt xs = Some (i', lt', ys)"
  shows "class_is 0 p 0 lt' ys v \<and> class_is 1 p lt' i' ys v \<and> ys ! p = v
    \<and> (\<forall>k. j \<le> k \<and> k < n \<longrightarrow> ys ! (p + k) = xs ! (p + k)) \<and> (i' = j \<or> cmp v (ys ! (p + i')) < 0)"
  using assms
proof (induction "j - i" arbitrary: i lt xs)
  case 0
  then show ?case by (simp add: part_up.simps [of _ _ _ i])
next
  case (Suc m)
  then have i: "i < j" and mem: "p < length xs" "p + i < length xs" "p + lt < length xs" by auto
  note unf = part_up.simps [of _ _ _ i]
  consider "cmp v (xs ! (p + i)) < 0" | "cmp v (xs ! (p + i)) = 0" | "cmp v (xs ! (p + i)) > 0" by linarith
  then show ?case
  proof cases
    case 1
    with Suc.prems i mem show ?thesis by (auto simp: unf mem_simps)
  next
    case 2
    define zs where "zs = swap (p + lt) (p + i) xs"
    have z: "zs ! (p + k) = (if k = lt then xs ! (p + i) else if k = i then xs ! (p + lt) else xs ! (p + k))"
      if "k < n" for k using that Suc.prems mem by (simp add: zs_def nth_swap)
    have zp: "zs ! p = v" using z [of 0] Suc.prems by (simp split: if_splits)
    have "class_is 0 p 0 (Suc lt) zs v" "class_is 1 p (Suc lt) (Suc i) zs v"
      using Suc.prems(3-8) i 2 unfolding class_is_def by (auto simp: z less_Suc_eq Suc_le_eq)
    moreover have "part_up cmp p j (Suc i) (Suc lt) zs = Some (i', lt', ys)"
      using Suc.prems i mem 2 by (simp add: unf mem_simps zs_def)
    ultimately show ?thesis
      using Suc.hyps(1) [of "Suc i" zs "Suc lt"] Suc.hyps(2) Suc.prems(1-5) i zp z by (auto simp: zs_def)
  next
    case 3
    have "class_is 1 p lt (Suc i) xs v" using Suc.prems(8) 3 by (auto simp: class_is_def less_Suc_eq)
    moreover have "part_up cmp p j (Suc i) lt xs = Some (i', lt', ys)"
      using Suc.prems i mem 3 by (simp add: unf mem_simps)
    ultimately show ?thesis using Suc.hyps(1) [of "Suc i" xs lt] Suc.hyps(2) Suc.prems i by auto
  qed
qed

lemma part_down_class:
  assumes "p + n \<le> length xs" "1 \<le> i" "i \<le> j" "j \<le> gt" "gt \<le> n"
    and "xs ! p = v" "class_is 0 p gt n xs v" "class_is (- 1) p j gt xs v"
    and "part_down cmp p i j gt xs = Some (j', gt', ys)"
  shows "class_is 0 p gt' n ys v \<and> class_is (- 1) p (Suc j') gt' ys v \<and> i \<le> Suc j' \<and> j' < j
    \<and> (\<forall>k. k \<le> i \<and> k < j \<longrightarrow> ys ! (p + k) = xs ! (p + k)) \<and> (\<forall>k<i. ys ! (p + k) = xs ! (p + k))
    \<and> (j' \<le> i \<or> cmp v (ys ! (p + j')) > 0)"
  using assms
proof (induction j arbitrary: gt xs)
  case 0
  then show ?case by simp
next
  case (Suc j)
  show ?case
  proof (cases "i < j")
    case False
    then have "ys = xs" "j' = j" "gt' = gt" using Suc.prems(9) by simp_all
    with False Suc.prems show ?thesis by simp
  next
    case i: True
    have mem: "p < length xs" "p + j < length xs" "p + (gt - 1) < length xs" using Suc.prems i by auto
    consider "cmp v (xs ! (p + j)) > 0" | "cmp v (xs ! (p + j)) = 0" | "cmp v (xs ! (p + j)) < 0" by linarith
    then show ?thesis
    proof cases
      case 1
      then have "ys = xs" "j' = j" "gt' = gt" using Suc.prems mem i by (simp_all add: mem_simps)
      with 1 i Suc.prems show ?thesis by simp
    next
      case 2
      obtain g where g: "gt = Suc g" using Suc.prems(4) by (cases gt) auto
      define zs where "zs = swap (p + g) (p + j) xs"
      have z: "zs ! (p + k) = (if k = g then xs ! (p + j) else if k = j then xs ! (p + g) else xs ! (p + k))"
        if "k < n" for k using that Suc.prems(1,4,5) g by (simp add: zs_def nth_swap)
      have zp: "zs ! p = v" using z [of 0] Suc.prems i g by (simp split: if_splits)
      have "class_is 0 p g n zs v" "class_is (- 1) p j g zs v"
        using Suc.prems(4-8) i 2 g unfolding class_is_low [of _ _ j] class_is_low [of _ _ g] class_is_def
        by (simp_all add: z)
      moreover have "part_down cmp p i j g zs = Some (j', gt', ys)"
        using Suc.prems i mem 2 g by (simp add: mem_simps zs_def)
      moreover have "zs ! (p + k) = xs ! (p + k)" if "k \<le> i" for k
        using z [of k] that i Suc.prems g by simp
      ultimately show ?thesis
        using Suc.IH [of zs g] Suc.prems(1-5) i zp g by (auto simp: zs_def)
    next
      case 3
      have "class_is (- 1) p j gt xs v"
        using Suc.prems(8) 3 class_is_low [of "- 1" p j] by simp
      moreover have "part_down cmp p i j gt xs = Some (j', gt', ys)"
        using Suc.prems i mem 3 by (simp add: mem_simps)
      ultimately show ?thesis using Suc.IH [of xs gt] Suc.prems i by auto
    qed
  qed
qed

lemma part_loop_class:
  assumes "p + n \<le> length xs" "1 \<le> lt" "lt \<le> i" "i \<le> j" "j \<le> gt" "gt \<le> n"
    and "xs ! p = v" "class_is 0 p 0 lt xs v" "class_is 1 p lt i xs v"
    and "class_is (- 1) p j gt xs v" "class_is 0 p gt n xs v"
    and "part_loop cmp p i lt j gt xs = Some (i', lt', gt', ys)"
  shows "class_is 0 p 0 lt' ys v \<and> class_is 1 p lt' i' ys v
    \<and> class_is (- 1) p i' gt' ys v \<and> class_is 0 p gt' n ys v"
  using assms
proof (induction j arbitrary: i lt gt xs rule: less_induct)
  case (less j)
  obtain i1 lt1 xs1 where u: "part_up cmp p j i lt xs = Some (i1, lt1, xs1)" "seg_perm p n xs xs1"
    "1 \<le> lt1" "lt1 \<le> i1" "i \<le> i1" "i1 \<le> j"
    using part_up_perm [of p n xs lt i j cmp] less.prems by auto
  have uc: "class_is 0 p 0 lt1 xs1 v" "class_is 1 p lt1 i1 xs1 v" "xs1 ! p = v"
    "\<forall>k. j \<le> k \<and> k < n \<longrightarrow> xs1 ! (p + k) = xs ! (p + k)" "i1 = j \<or> cmp v (xs1 ! (p + i1)) < 0"
    using part_up_class [OF less.prems(1-4) _ less.prems(7-9) u(1)] less.prems(5,6) by auto
  have uj: "class_is (- 1) p j gt xs1 v" "class_is 0 p gt n xs1 v"
    using uc(4) less.prems(5,6,10,11) by (auto simp: class_is_def)
  have len1: "length xs1 = length xs" using u(2) by (rule seg_perm_length)
  then obtain j1 gt1 xs2 where d: "part_down cmp p i1 j gt xs1 = Some (j1, gt1, xs2)" "seg_perm p n xs1 xs2"
    "i1 \<le> gt1" "j1 < gt1" "gt1 \<le> n"
    using part_down_perm [of p n xs1 i1 j gt cmp] less.prems u by auto
  have dc: "class_is 0 p gt1 n xs2 v" "class_is (- 1) p (Suc j1) gt1 xs2 v" "i1 \<le> Suc j1" "j1 < j"
    "\<forall>k. k \<le> i1 \<and> k < j \<longrightarrow> xs2 ! (p + k) = xs1 ! (p + k)" "\<forall>k<i1. xs2 ! (p + k) = xs1 ! (p + k)"
    "j1 \<le> i1 \<or> cmp v (xs2 ! (p + j1)) > 0"
    using part_down_class [OF _ _ u(6) less.prems(5,6) uc(3) uj(2,1) d(1)] len1 less.prems(1) u by auto
  have low: "class_is 0 p 0 lt1 xs2 v" "class_is 1 p lt1 i1 xs2 v" "xs2 ! p = v"
    using uc(1-3) dc(6) u(3,4) by (auto simp: class_is_def dest: spec [of _ 0])
  show ?case
  proof (cases "i1 \<ge> j1")
    case True
    then have r: "i' = i1" "lt' = lt1" "gt' = gt1" "ys = xs2"
      using less.prems(12) u(1) d(1) by (simp_all add: part_loop.simps [of _ _ i])
    have "class_is (- 1) p i1 gt1 xs2 v"
    proof (cases "i1 = j1")
      case True
      then have "cmp v (xs2 ! (p + i1)) < 0" using uc(5) dc(4,5) by auto
      then show ?thesis using dc(2) True class_is_low [of "- 1" p j1] by simp
    next
      case False
      with True dc(3) have "i1 = Suc j1" by simp
      then show ?thesis using dc(2) by simp
    qed
    then show ?thesis using r dc(1) low by simp
  next
    case False
    define zs where "zs = swap (p + i1) (p + j1) xs2"
    have len2: "length xs2 = length xs" using seg_perm_length [OF d(2)] len1 by simp
    have mem: "p + i1 < length xs2" "p + j1 < length xs2" using False d u less.prems len2 by auto
    have z: "zs ! (p + k) = (if k = i1 then xs2 ! (p + j1) else if k = j1 then xs2 ! (p + i1) else xs2 ! (p + k))"
      if "k < n" for k using that less.prems(1) len2 mem by (simp add: zs_def nth_swap)
    have gi: "cmp v (xs2 ! (p + i1)) < 0" using uc(5) dc(4,5) False by auto
    have lj: "cmp v (xs2 ! (p + j1)) > 0" using dc(7) False by auto
    have "class_is 0 p 0 lt1 zs v" using low(1) False u(4) d(4,5) by (auto simp: class_is_def z)
    moreover have "class_is 1 p lt1 (Suc i1) zs v"
      using low(2) lj False d(4,5) by (auto simp: class_is_def z less_Suc_eq)
    moreover have "class_is (- 1) p j1 gt1 zs v"
      using dc(2) gi False d(5) unfolding class_is_low [of _ _ j1] class_is_def by (simp add: z)
    moreover have "class_is 0 p gt1 n zs v" using dc(1) False d(4) by (auto simp: class_is_def z)
    moreover have "zs ! p = v" using low(3) z [of 0] u(3,4) d(4,5) False by (simp split: if_splits)
    moreover have "part_loop cmp p (Suc i1) lt1 j1 gt1 zs = Some (i', lt', gt', ys)"
      using less.prems(12) u(1) d(1) False mem by (simp add: part_loop.simps [of _ _ i] mem_simps zs_def)
    ultimately show ?thesis
      using less.IH [OF dc(4), of zs lt1 "Suc i1" gt1] less.prems(1) len2 u d False by (simp add: zs_def)
  qed
qed

text \<open>The two block exchanges: the elements equal to the pivot go to the middle.\<close>

lemma class_is_cong:
  "(\<And>k. a \<le> k \<Longrightarrow> k < b \<Longrightarrow> xs ! (p + k) = ys ! (p + k)) \<Longrightarrow> class_is s p a b xs v = class_is s p a b ys v"
  by (auto simp: class_is_def)

lemma class_is_append: "class_is s p a m xs v \<Longrightarrow> class_is s p m b xs v \<Longrightarrow> class_is s p a b xs v"
  unfolding class_is_def by (metis not_le)

lemma class_is_sub: "class_is s p a b xs v \<Longrightarrow> a \<le> a' \<Longrightarrow> b' \<le> b \<Longrightarrow> class_is s p a' b' xs v"
  by (auto simp: class_is_def)

text \<open>
  Exchanging the ends of two adjacent blocks of classes \<open>s\<close> and \<open>t\<close>, as many elements as the shorter
  one has, exchanges the blocks.
\<close>

lemma block_exchange:
  assumes len: "p + b \<le> length xs" and ab: "a \<le> m" "m \<le> b"
    and cl: "class_is s p a m xs v" "class_is t p m b xs v"
    and ys: "ys = swap_ranges xs (p + a) (p + (b - min (m - a) (b - m))) (min (m - a) (b - m))"
  shows "class_is t p a (a + (b - m)) ys v \<and> class_is s p (a + (b - m)) b ys v"
proof -
  define w where "w = min (m - a) (b - m)"
  have w: "a + w \<le> m" "m + w \<le> b" "w = m - a \<or> w = b - m" using ab by (auto simp: w_def)
  have ys': "ys = swap_ranges xs (p + a) (p + (b - w)) w" by (simp add: ys w_def)
  have dis: "disjoint_ranges (p + a) (p + (b - w)) w" using w by (auto simp: disjoint_ranges_def)
  have lo: "ys ! (p + k) = xs ! (p + (b - w + (k - a)))" if "a \<le> k" "k < a + w" for k
    using swap_ranges_a [of "k - a" w "p + a" xs "p + (b - w)"] that w len by (simp add: ys' ac_simps)
  have hi: "ys ! (p + k) = xs ! (p + (a + (k - (b - w))))" if "b - w \<le> k" "k < b" for k
    using swap_ranges_b [of "k - (b - w)" w "p + (b - w)" xs "p + a", OF _ _ dis] that w len
    by (simp add: ys' ac_simps)
  have mid: "ys ! (p + k) = xs ! (p + k)" if "a + w \<le> k" "k < b - w" for k
    unfolding ys' using that w len by (intro swap_ranges_out) auto
  have "sgn (cmp v (ys ! (p + k))) = t" if k: "a \<le> k" "k < a + (b - m)" for k
  proof (cases "k < a + w")
    case True
    then show ?thesis unfolding lo [OF k(1) True]
      by (intro cl(2) [unfolded class_is_def, rule_format]) (use k w in auto)
  next
    case False
    then have "m \<le> k" "k < b - w" using k w by auto
    then show ?thesis using mid [of k] cl(2) False by (simp add: class_is_def)
  qed
  moreover have "sgn (cmp v (ys ! (p + k))) = s" if k: "a + (b - m) \<le> k" "k < b" for k
  proof (cases "b - w \<le> k")
    case True
    then show ?thesis unfolding hi [OF True k(2)]
      by (intro cl(1) [unfolded class_is_def, rule_format]) (use k w True in auto)
  next
    case False
    then have "k < m" "a + w \<le> k" using k w by auto
    then show ?thesis using mid [of k] cl(1) False k by (simp add: class_is_def)
  qed
  ultimately show ?thesis unfolding class_is_def by blast
qed

lemma rqsort_partition_class:
  assumes "p + n \<le> length xs" and "6 < n" and r: "rqsort_partition cmp p n xs = Some (lt, gt, ys)"
  obtains v where "class_is 1 p 0 lt ys v" "class_is 0 p lt gt ys v" "class_is (- 1) p gt n ys v"
proof -
  obtain xs1 i lt0 gt0 xs2 xs3 xs4 where 1: "seg_perm p n xs xs1"
    "part_loop cmp p 1 1 n n xs1 = Some (i, lt0, gt0, xs2)" "seg_perm p n xs1 xs2"
    "1 \<le> lt0" "lt0 \<le> i" "i \<le> gt0" "gt0 \<le> n"
    "xs3 = swap_ranges xs2 p (p + (i - min lt0 (i - lt0))) (min lt0 (i - lt0))" "seg_perm p n xs2 xs3"
    "xs4 = swap_ranges xs3 (p + i) (p + (n - min (n - gt0) (gt0 - i))) (min (n - gt0) (gt0 - i))"
    "seg_perm p n xs3 xs4" "rqsort_partition cmp p n xs = Some (i - lt0, n - (gt0 - i), xs4)"
    by (rule rqsort_partition_steps [OF assms(1,2), of cmp])
  have len: "length xs1 = length xs" "length xs2 = length xs" "length xs3 = length xs"
    using 1(1,3,9) by (simp_all add: seg_perm_def)
  let ?v = "xs1 ! p"
  have r': "lt = i - lt0" "gt = n - (gt0 - i)" "ys = xs4" using r 1(12) by simp_all
  have "class_is 0 p 0 1 xs1 ?v" using le_refl [of ?v] anti [of ?v ?v] by (auto simp: class_is_def)
  then have c: "class_is 0 p 0 lt0 xs2 ?v" "class_is 1 p lt0 i xs2 ?v"
    "class_is (- 1) p i gt0 xs2 ?v" "class_is 0 p gt0 n xs2 ?v"
    using part_loop_class [of p n xs1 1 1 n n ?v, OF _ _ _ _ _ _ refl _ _ _ _ 1(2)] assms(1,2) len
    by (auto simp: class_is_def)
  have d: "class_is 1 p 0 (i - lt0) xs3 ?v" "class_is 0 p (i - lt0) i xs3 ?v"
    using block_exchange [of p i xs2 0 lt0 0 ?v 1 xs3] c(1,2) 1(5-8) len assms(1) by simp_all
  have "xs3 ! (p + k) = xs2 ! (p + k)" if "i \<le> k" "k < n" for k
    unfolding 1(8) using that 1(5) len assms(1) by (intro swap_ranges_out) auto
  then have e: "class_is (- 1) p i gt0 xs3 ?v" "class_is 0 p gt0 n xs3 ?v"
    using c(3,4) 1(6,7) by (auto simp: class_is_def)
  have f: "class_is 0 p i (i + (n - gt0)) xs4 ?v" "class_is (- 1) p (i + (n - gt0)) n xs4 ?v"
    using block_exchange [of p n xs3 i gt0 "- 1" ?v 0 xs4] e 1(6,7,10) len assms(1)
    by (simp_all add: min.commute)
  have "xs4 ! (p + k) = xs3 ! (p + k)" if "k < i" for k
    unfolding 1(10) using that 1(6,7) len assms(1) by (intro swap_ranges_out) auto
  then have g: "class_is 1 p 0 (i - lt0) xs4 ?v" "class_is 0 p (i - lt0) i xs4 ?v"
    using d by (auto simp: class_is_def)
  have "i + (n - gt0) = n - (gt0 - i)" using 1(6,7) by simp
  then show ?thesis using that f g class_is_append [OF g(2) f(1)] r' by simp
qed

section \<open>The loop over the pending segments\<close>

text \<open>
  Every pair of positions is in order or lies in one of the pending segments, which are pairwise disjoint.
\<close>

definition in_seg :: "qseg list \<Rightarrow> nat \<Rightarrow> nat \<Rightarrow> bool" where
  "in_seg segs i j \<longleftrightarrow> (\<exists>(p, n, d) \<in> set segs. p \<le> i \<and> j < p + n)"

definition sorted_but :: "qseg list \<Rightarrow> 'a list \<Rightarrow> bool" where
  "sorted_but segs xs \<longleftrightarrow> (\<forall>i j. i < j \<and> j < length xs \<longrightarrow> le (xs ! i) (xs ! j) \<or> in_seg segs i j)"

fun segs_disjoint :: "qseg list \<Rightarrow> bool" where
  "segs_disjoint [] = True"
| "segs_disjoint ((p, n, d) # segs) =
     ((\<forall>(p', n', d') \<in> set segs. p + n \<le> p' \<or> p' + n' \<le> p) \<and> segs_disjoint segs)"

lemma in_seg_Cons [simp]: "in_seg ((p, n, d) # segs) i j \<longleftrightarrow> p \<le> i \<and> j < p + n \<or> in_seg segs i j"
  by (auto simp: in_seg_def)

lemma sorted_but_perm:
  assumes "sorted_but ((p, n, d) # segs) xs" "segs_disjoint ((p, n, d) # segs)"
    "seg_perm p n xs ys" "p + n \<le> length xs"
  shows "sorted_but ((p, n, d) # segs) ys"
  unfolding sorted_but_def
proof (intro allI impI, elim conjE)
  fix i j assume ij: "i < j" "j < length ys"
  let ?in = "\<lambda>k. p \<le> k \<and> k < p + n"
  have len: "length ys = length xs" using assms(3) by (rule seg_perm_length)
  have out: "ys ! k = xs ! k" if "k < length xs" "\<not> ?in k" for k
    using seg_perm_outside [OF assms(3) that(1)] that(2) by linarith
  have src: "\<exists>m. ?in m \<and> ys ! k = xs ! m" if "?in k" for k
    using seg_perm_source [OF assms(3,4)] that by metis
  have sep: "\<not> in_seg segs a b" if "a < b" "?in a \<or> ?in b" for a b
    using assms(2) that by (fastforce simp: in_seg_def)
  have old: "le (xs ! a) (xs ! b) \<or> in_seg ((p, n, d) # segs) a b" if "a < b" "b < length xs" for a b
    using assms(1) that by (simp add: sorted_but_def)
  consider "?in i" "?in j" | "\<not> ?in i" "\<not> ?in j" | "?in i" "\<not> ?in j" | "\<not> ?in i" "?in j" by blast
  then show "le (ys ! i) (ys ! j) \<or> in_seg ((p, n, d) # segs) i j"
  proof cases
    case 2
    then show ?thesis using out [of i] out [of j] old [of i j] ij len by auto
  next
    case 3
    then obtain m where "?in m" "ys ! i = xs ! m" using src by blast
    then show ?thesis using 3 out [of j] old [of m j] sep [of m j] ij len by auto
  next
    case 4
    then obtain m where "?in m" "ys ! j = xs ! m" using src by blast
    then show ?thesis using 4 out [of i] old [of i m] sep [of i m] ij len assms(4) by auto
  qed auto
qed

lemma sorted_but_done:
  assumes "sorted_but ((p, n, d) # segs) xs" "sorted_seg p n xs"
  shows "sorted_but segs xs"
  unfolding sorted_but_def
proof (intro allI impI, elim conjE)
  fix i j assume "i < j" "j < length xs"
  moreover have "le (xs ! i) (xs ! j)" if "p \<le> i" "i < j" "j < p + n"
  proof -
    have "i - p < j - p" "j - p < n" "p + (i - p) = i" "p + (j - p) = j" using that by auto
    then show ?thesis using assms(2) unfolding sorted_above_def by (metis zero_le)
  qed
  ultimately show "le (xs ! i) (xs ! j) \<or> in_seg segs i j"
    using assms(1) by (auto simp: sorted_but_def)
qed

lemma class_le:
  assumes "class_is s p a b xs v" "class_is t p a' b' xs v" "a \<le> i" "i < b" "a' \<le> j" "j < b'"
    and "s > t \<or> s = 0 \<and> t = 0"
  shows "le (xs ! (p + i)) (xs ! (p + j))"
proof -
  have "sgn (cmp v (xs ! (p + i))) = s" "sgn (cmp v (xs ! (p + j))) = t"
    using assms by (auto simp: class_is_def)
  then have "cmp v (xs ! (p + i)) \<ge> 0" "cmp v (xs ! (p + j)) \<le> 0"
    using assms(7) by (auto simp: sgn_if split: if_splits)
  then have "le (xs ! (p + i)) v" "le v (xs ! (p + j))"
    using anti [of v "xs ! (p + i)"] anti [of "xs ! (p + i)" v] by (auto simp: le_def)
  then show ?thesis by (rule le_trans)
qed

lemma sorted_but_split:
  assumes "sorted_but ((p, n, d) # segs) xs" "lt \<le> gt" "gt \<le> n"
    and c: "class_is 1 p 0 lt xs v" "class_is 0 p lt gt xs v" "class_is (- 1) p gt n xs v"
  shows "sorted_but ((p, lt, d1) # (p + gt, n - gt, d2) # segs) xs"
  unfolding sorted_but_def
proof (intro allI impI, elim conjE)
  fix i j assume ij: "i < j" "j < length xs"
  have "le (xs ! (p + a)) (xs ! (p + b))" if "a < b" "b < n" "\<not> b < lt" "\<not> gt \<le> a" for a b
    using that assms(2,3) class_le [OF c(1,2), of a b] class_le [OF c(1,3), of a b]
      class_le [OF c(2,2), of a b] class_le [OF c(2,3), of a b] by (cases "a < lt"; cases "b < gt") auto
  from this [of "i - p" "j - p"]
  have "le (xs ! i) (xs ! j)" if "p \<le> i" "j < p + n" "\<not> j < p + lt" "\<not> p + gt \<le> i"
    using that ij by (simp add: not_less not_le less_diff_conv2 le_diff_conv2)
  moreover have "le (xs ! i) (xs ! j) \<or> p \<le> i \<and> j < p + n \<or> in_seg segs i j"
    using assms(1) ij by (simp add: sorted_but_def)
  ultimately show "le (xs ! i) (xs ! j) \<or> in_seg ((p, lt, d1) # (p + gt, n - gt, d2) # segs) i j"
    using assms(3) by auto
qed

lemma segs_disjoint_sub:
  "segs_disjoint ((p, n, d) # segs) \<Longrightarrow> p \<le> q \<Longrightarrow> q + m \<le> p + n \<Longrightarrow> segs_disjoint ((q, m, d') # segs)"
  by fastforce

lemma segs_disjoint_split:
  "segs_disjoint ((p, n, d) # segs) \<Longrightarrow> lt \<le> gt \<Longrightarrow> gt \<le> n
    \<Longrightarrow> segs_disjoint ((p, lt, d1) # (p + gt, n - gt, d2) # segs) \<and> segs_disjoint ((p + gt, n - gt, d2) # (p, lt, d1) # segs)"
  by fastforce

lemma sorted_but_commute: "sorted_but (e # e' # segs) xs \<longleftrightarrow> sorted_but (e' # e # segs) xs"
  by (auto simp: sorted_but_def in_seg_def)

lemma sorted_but_depth: "sorted_but ((p, n, d) # segs) xs \<longleftrightarrow> sorted_but ((p, n, d') # segs) xs"
  by (auto simp: sorted_but_def)

lemma rqsort_inner_sorted:
  assumes "sorted_but ((p, n, depth) # st) xs" "segs_disjoint ((p, n, depth) # st)" "p + n \<le> length xs"
    and "rqsort_inner cmp st p n depth xs = Some (st', p', n', ys)"
  shows "sorted_but ((p', n', 0) # st') ys \<and> segs_disjoint ((p', n', 0) # st')"
  using assms
proof (induction "50 - depth" arbitrary: depth st p n xs rule: less_induct)
  case less
  consider "n \<le> 6" | "6 < n" "49 < depth" | "6 < n" "\<not> 49 < depth" by linarith
  then show ?case
  proof cases
    case 1
    with less.prems show ?thesis
      using sorted_but_depth [of p n depth st xs 0] by (simp add: rqsort_inner.simps)
  next
    case 2
    obtain zs where h: "heapsortx cmp p n xs = Some zs" "seg_perm p n xs zs"
      using heapsortx_perm [OF less.prems(3)] by blast
    have "sorted_but ((p, n, depth) # st) zs" by (rule sorted_but_perm [OF less.prems(1,2) h(2) less.prems(3)])
    then have "sorted_but st zs" using heapsortx_sorted [OF less.prems(3) h(1)] by (rule sorted_but_done)
    then have "sorted_but ((p, 0, 0) # st) zs" by (auto simp: sorted_but_def)
    moreover have "segs_disjoint ((p, 0, 0) # st)" using segs_disjoint_sub [OF less.prems(2), of p 0 0] by simp
    ultimately show ?thesis using less.prems(4) 2 h(1) by (simp add: rqsort_inner.simps)
  next
    case 3
    obtain lt gt zs where r: "rqsort_partition cmp p n xs = Some (lt, gt, zs)" "seg_perm p n xs zs"
      "lt \<le> gt" "gt \<le> n" using rqsort_partition_perm [OF less.prems(3) 3(1)] by metis
    obtain v where c: "class_is 1 p 0 lt zs v" "class_is 0 p lt gt zs v" "class_is (- 1) p gt n zs v"
      using rqsort_partition_class [OF less.prems(3) 3(1) r(1)] by blast
    have d: "50 - Suc depth < 50 - depth" using 3 by simp
    have s: "sorted_but ((p, lt, Suc depth) # (p + gt, n - gt, Suc depth) # st) zs"
      using sorted_but_split [OF sorted_but_perm [OF less.prems(1,2) r(2) less.prems(3)] r(3,4) c] .
    note dj = segs_disjoint_split [OF less.prems(2) r(3,4), of "Suc depth" "Suc depth"]
    have len: "p + lt \<le> length zs" "p + gt + (n - gt) \<le> length zs"
      using less.prems(3) r by (auto simp: seg_perm_length)
    show ?thesis
    proof (cases "lt > n - gt")
      case True
      then have "rqsort_inner cmp ((p, lt, Suc depth) # st) (p + gt) (n - gt) (Suc depth) zs = Some (st', p', n', ys)"
        using less.prems(4) 3 r(1) by (subst (asm) rqsort_inner.simps) (simp add: qpush_def split: if_splits)
      then show ?thesis using less.hyps [OF d _ _ len(2)] s dj sorted_but_commute by blast
    next
      case False
      then have "rqsort_inner cmp ((p + gt, n - gt, Suc depth) # st) p lt (Suc depth) zs = Some (st', p', n', ys)"
        using less.prems(4) 3 r(1) by (subst (asm) rqsort_inner.simps) (simp add: qpush_def split: if_splits)
      then show ?thesis using less.hyps [OF d _ _ len(1)] s dj by blast
    qed
  qed
qed

lemma rqsort_outer_sorted:
  assumes "qstack_ok (length xs) st" "sorted_but st xs" "segs_disjoint st" "rqsort_outer cmp st xs = Some ys"
  shows "sorted_but [] ys"
  using assms
proof (induction "qweight st" arbitrary: st xs rule: less_induct)
  case less
  show ?case
  proof (cases st)
    case Nil
    with less.prems show ?thesis by (simp add: rqsort_outer.simps)
  next
    case (Cons e st')
    obtain p n d where e: "e = (p, n, d)" by (cases e)
    obtain st2 p2 n2 xs2 where i: "rqsort_inner cmp st' p n d xs = Some (st2, p2, n2, xs2)"
      "qstack_ok (length xs) st2" "p2 + n2 \<le> length xs" "length xs2 = length xs"
      using rqsort_inner_safe [of xs st' d p n cmp] less.prems(1) Cons e by auto
    have s: "sorted_but ((p2, n2, 0) # st2) xs2 \<and> segs_disjoint ((p2, n2, 0) # st2)"
      using rqsort_inner_sorted [OF _ _ _ i(1)] less.prems Cons e by simp
    obtain xs3 where l: "insert_loop cmp p2 1 n2 xs2 = Some xs3" "seg_perm p2 n2 xs2 xs3"
      using insert_loop_perm [of p2 n2 xs2 cmp 1] i by auto
    have "sorted_seg p2 n2 xs3"
    proof (cases "n2 = 0")
      case False
      then show ?thesis using insert_loop_sorted [OF _ _ l(1)] i by (simp add: sorted_above_def)
    qed (simp add: sorted_above_def)
    then have "sorted_but st2 xs3"
      using sorted_but_done [of p2 n2 0 st2 xs3] sorted_but_perm [OF _ _ l(2), of 0 st2] s i by simp
    moreover have "qweight st2 < qweight st"
      using rqsort_inner_weight [OF i(1)] Cons e by simp
    moreover have "rqsort_outer cmp st2 xs3 = Some ys"
      using less.prems(4) Cons e i(1) l(1) by (subst (asm) rqsort_outer.simps) simp
    ultimately show ?thesis
      using less.hyps [of st2 xs3] i s seg_perm_length [OF l(2)] by simp
  qed
qed

lemma rqsort_sorted:
  "\<exists>ys. rqsort cmp xs = Some ys \<and> mset ys = mset xs \<and> sorted_wrt (\<lambda>a b. cmp a b \<le> 0) ys"
proof (cases "length xs < 2")
  case True
  then have "sorted_wrt (\<lambda>a b. cmp a b \<le> 0) xs" by (cases xs) auto
  with True show ?thesis by (simp add: rqsort_def)
next
  case False
  have ok: "qstack_ok (length xs) [(0, length xs, 0)]" by simp
  then obtain ys where r: "rqsort_outer cmp [(0, length xs, 0)] xs = Some ys" "mset ys = mset xs"
    using rqsort_outer_safe by blast
  have "sorted_but [] ys"
    using rqsort_outer_sorted [OF ok _ _ r(1)] by (auto simp: sorted_but_def)
  then have "sorted_wrt (\<lambda>a b. cmp a b \<le> 0) ys"
    by (auto simp: sorted_but_def in_seg_def sorted_wrt_iff_nth_less le_def)
  with False r show ?thesis by (simp add: rqsort_def)
qed

end

section \<open>The comparison callbacks of the typed arrays\<close>

text \<open>
  The elements of a typed array are machine integers of the width of its class. The 8- and 16-bit
  callbacks subtract after promotion to \<open>int\<close>, which cannot overflow; the 32-bit ones compare.
\<close>

definition js_TA_cmp_int8 :: "8 word cmp_f" where
  "js_TA_cmp_int8 a b = sint a - sint b"

definition js_TA_cmp_uint8 :: "8 word cmp_f" where
  "js_TA_cmp_uint8 a b = uint a - uint b"

definition js_TA_cmp_int16 :: "16 word cmp_f" where
  "js_TA_cmp_int16 a b = sint a - sint b"

definition js_TA_cmp_uint16 :: "16 word cmp_f" where
  "js_TA_cmp_uint16 a b = uint a - uint b"

definition js_TA_cmp_int32 :: "32 word cmp_f" where
  "js_TA_cmp_int32 a b =
     (let x = sint a; y = sint b in of_bool (y < x) - of_bool (y > x))"

definition js_TA_cmp_uint32 :: "32 word cmp_f" where
  "js_TA_cmp_uint32 a b =
     (let x = uint a; y = uint b in of_bool (y < x) - of_bool (y > x))"

text \<open>
  A double is its 64-bit pattern: sign, 11 bits of exponent, 52 bits of fraction. Two numbers that are
  not NaN compare as their signed magnitudes do (\<open>+0\<close> and \<open>-0\<close> have the same magnitude 0).
\<close>

type_synonym f64 = "64 word"

definition f64_magnitude :: "f64 \<Rightarrow> int" where
  "f64_magnitude x = uint x mod 2 ^ 63"

definition isnan :: "f64 \<Rightarrow> bool" where
  "isnan x \<longleftrightarrow> f64_magnitude x > 0x7FF0000000000000"

definition signbit :: "f64 \<Rightarrow> bool" where
  "signbit x \<longleftrightarrow> uint x \<ge> 2 ^ 63"

definition f64_signed :: "f64 \<Rightarrow> int" where
  "f64_signed x = (if signbit x then - f64_magnitude x else f64_magnitude x)"

definition f64_less :: "f64 \<Rightarrow> f64 \<Rightarrow> bool" where
  "f64_less x y \<longleftrightarrow> \<not> isnan x \<and> \<not> isnan y \<and> f64_signed x < f64_signed y"

definition f64_is_zero :: "f64 \<Rightarrow> bool" where
  "f64_is_zero x \<longleftrightarrow> f64_magnitude x = 0"

definition js_cmp_doubles :: "f64 \<Rightarrow> f64 \<Rightarrow> int" where
  "js_cmp_doubles x y =
     (if isnan x then (if isnan y then 0 else 1)
      else if isnan y then -1
      else if f64_less x y then -1
      else if f64_less y x then 1
      else if \<not> f64_is_zero x then 0
      else if signbit x then (if signbit y then 0 else -1)
      else (if signbit y then 1 else 0))"

definition js_TA_cmp_float64 :: "f64 cmp_f" where
  "js_TA_cmp_float64 a b = js_cmp_doubles a b"

text \<open>The order it decides: numbers by value, \<open>-0\<close> before \<open>+0\<close>, all NaNs after.\<close>

definition f64_rank :: "f64 \<Rightarrow> int" where
  "f64_rank x = (if isnan x then 2 ^ 65
                 else 2 * f64_signed x + of_bool (f64_is_zero x \<and> \<not> signbit x))"

lemma f64_signed_zero: "f64_signed x = 0 \<longleftrightarrow> f64_is_zero x"
  by (simp add: f64_signed_def f64_is_zero_def)

lemma f64_rank_nan: "\<not> isnan x \<Longrightarrow> f64_rank x < 2 ^ 65"
proof -
  have "0 \<le> f64_magnitude x" "f64_magnitude x < 2 ^ 63" by (simp_all add: f64_magnitude_def)
  then show "\<not> isnan x \<Longrightarrow> f64_rank x < 2 ^ 65" by (simp add: f64_rank_def f64_signed_def of_bool_def)
qed

lemma js_cmp_doubles_rank: "js_cmp_doubles x y = sgn (f64_rank x - f64_rank y)"
proof (cases "isnan x \<or> isnan y")
  case True
  have nan: "isnan z \<Longrightarrow> f64_rank z = 2 ^ 65" for z by (simp add: f64_rank_def)
  consider "isnan x" "isnan y" | "isnan x" "f64_rank y < 2 ^ 65" "\<not> isnan y" | "isnan y" "f64_rank x < 2 ^ 65" "\<not> isnan x"
    using True f64_rank_nan [of x] f64_rank_nan [of y] by blast
  then show ?thesis by cases (simp_all add: js_cmp_doubles_def nan)
next
  case False
  then have r: "f64_rank x = 2 * f64_signed x + of_bool (f64_signed x = 0 \<and> \<not> signbit x)"
    "f64_rank y = 2 * f64_signed y + of_bool (f64_signed y = 0 \<and> \<not> signbit y)"
    by (simp_all add: f64_rank_def f64_signed_zero)
  have c: "js_cmp_doubles x y =
     (if f64_signed x < f64_signed y then -1 else if f64_signed y < f64_signed x then 1
      else if f64_signed x \<noteq> 0 then 0 else of_bool (signbit y) - of_bool (signbit x))"
    using False by (auto simp: js_cmp_doubles_def f64_less_def f64_signed_zero [symmetric])
  show ?thesis unfolding c r by (auto simp: sgn_if of_bool_def)
qed

lemma of_bool_cmp:
  "(of_bool (y < x) - of_bool (y > x) :: int) \<le> 0 \<longleftrightarrow> x \<le> y"
  "(0 :: int) < of_bool (y < x) - of_bool (y > x) \<longleftrightarrow> y < x"
  "(of_bool (y < x) - of_bool (y > x) :: int) < 0 \<longleftrightarrow> x < y" for x y :: int
  by (auto simp: of_bool_def)

named_theorems ta_cmp_defs \<open>the comparison callbacks of the typed arrays\<close>

lemmas ta_cmp_unfold [ta_cmp_defs] =
  js_TA_cmp_int8_def js_TA_cmp_uint8_def js_TA_cmp_int16_def js_TA_cmp_uint16_def
  js_TA_cmp_int32_def js_TA_cmp_uint32_def Let_def of_bool_cmp

interpretation ta_int8: comparator js_TA_cmp_int8 by unfold_locales (auto simp: ta_cmp_defs)

interpretation ta_uint8: comparator js_TA_cmp_uint8 by unfold_locales (auto simp: ta_cmp_defs)

interpretation ta_int16: comparator js_TA_cmp_int16 by unfold_locales (auto simp: ta_cmp_defs)

interpretation ta_uint16: comparator js_TA_cmp_uint16 by unfold_locales (auto simp: ta_cmp_defs)

interpretation ta_int32: comparator js_TA_cmp_int32 by unfold_locales (auto simp: ta_cmp_defs)

interpretation ta_uint32: comparator js_TA_cmp_uint32 by unfold_locales (auto simp: ta_cmp_defs)

lemma js_cmp_doubles_signs:
  "js_TA_cmp_float64 x y \<le> 0 \<longleftrightarrow> f64_rank x \<le> f64_rank y"
  "0 < js_TA_cmp_float64 x y \<longleftrightarrow> f64_rank y < f64_rank x"
  "js_TA_cmp_float64 x y < 0 \<longleftrightarrow> f64_rank x < f64_rank y"
  by (auto simp: js_TA_cmp_float64_def js_cmp_doubles_rank sgn_if)

interpretation ta_float64: comparator js_TA_cmp_float64 by unfold_locales (auto simp: js_cmp_doubles_signs)

text \<open>The signed order of the elements, as a list of integers.\<close>

lemma sorted_by_key:
  assumes "\<And>a b. cmp a b \<le> 0 \<longleftrightarrow> key a \<le> (key b :: int)"
    and "\<exists>ys. rqsort cmp xs = Some ys \<and> mset ys = mset xs \<and> sorted_wrt (\<lambda>a b. cmp a b \<le> 0) ys"
  shows "\<exists>ys. rqsort cmp xs = Some ys \<and> mset ys = mset xs \<and> sorted (map key ys)"
  using assms by (auto simp: sorted_map)


text \<open>
  Sorting a typed array of 32-bit signed elements with its default comparison leaves the same
  elements in increasing signed order, duplicates included.
\<close>

theorem rqsort_sorts_int32:
  "\<exists>ys. rqsort js_TA_cmp_int32 xs = Some ys \<and> mset ys = mset xs \<and> sorted (map sint ys)"
  by (rule sorted_by_key [OF _ ta_int32.rqsort_sorted]) (simp add: ta_cmp_defs not_less)

text \<open>
  C32. Sorting an array of doubles is correct although \<open><\<close> on doubles is not a total order: the result is
  ordered by value, with every \<open>-0\<close> before every \<open>+0\<close> and every NaN at the end.
\<close>

theorem rqsort_sorts_float64:
  "\<exists>ys. rqsort js_TA_cmp_float64 xs = Some ys \<and> mset ys = mset xs \<and> sorted (map f64_rank ys)"
  by (rule sorted_by_key [OF _ ta_float64.rqsort_sorted]) (simp add: js_cmp_doubles_signs)

text \<open>
  C3. Every callback whose sign is antisymmetric and whose non-positive part is transitive makes \<open>rqsort\<close>
  return the array sorted by it.
\<close>

theorem rqsort_sorts:
  assumes "\<And>a b. cmp a b > 0 \<longleftrightarrow> cmp b a < 0" and "\<And>a b c. cmp a b \<le> 0 \<Longrightarrow> cmp b c \<le> 0 \<Longrightarrow> cmp a c \<le> 0"
  shows "\<exists>ys. rqsort cmp xs = Some ys \<and> mset ys = mset xs \<and> sorted_wrt (\<lambda>a b. cmp a b \<le> 0) ys"
  using comparator.rqsort_sorted [of cmp xs] assms unfolding comparator_def by blast

theorem rqsort_sorts_witness:
  "\<exists>ys. rqsort js_TA_cmp_uint8 [200, 3, 7, 7, 250, 0, 9, 8] = Some ys
    \<and> mset ys = mset [200, 3, 7, 7, 250, 0, 9, 8] \<and> sorted_wrt (\<lambda>a b. js_TA_cmp_uint8 a b \<le> 0) ys"
  by (rule rqsort_sorts) (auto simp: ta_cmp_defs)

end
