(* ===== verification/Unicode_Index.thy ===== *)
theory Unicode_Index
  imports Unicode_Tables
begin

text \<open>
  The run-length coded property tables of \<open>libunicode.c\<close> and the lookup through their index
  (\<open>get_le24\<close>, \<open>get_index_pos\<close>, \<open>lre_is_in_table\<close> and its callers). A value of type \<open>uint32_t\<close> is a
  natural number and the sums that could leave its range are reduced modulo \<open>2\<^sup>3\<^sup>2\<close>; a pointer into a
  table is the rest of the table from there on. \<open>None\<close> is a read outside a table.
\<close>

section \<open>Model\<close>

definition add32 :: "nat \<Rightarrow> nat \<Rightarrow> nat" where
  "add32 a b = (a + b) mod 2 ^ 32"

definition get_le24 :: "u8 list \<Rightarrow> nat \<Rightarrow> nat option" where
  "get_le24 ptr off =
     do { b0 \<leftarrow> rd ptr off; b1 \<leftarrow> rd ptr (off + 1); b2 \<leftarrow> rd ptr (off + 2);
          Some (unat b0 + unat b1 * 2 ^ 8 + unat b2 * 2 ^ 16) }"

definition UNICODE_INDEX_BLOCK_LEN :: nat where
  "UNICODE_INDEX_BLOCK_LEN = 32"

text \<open>The binary search; its result is \<open>idx_min\<close>.\<close>

function index_search :: "nat \<Rightarrow> u8 list \<Rightarrow> nat \<Rightarrow> nat \<Rightarrow> nat option" where
  "index_search c index_table idx_min idx_max =
     (if idx_max - idx_min > 1 then
        let idx = (idx_max + idx_min) div 2 in
        case get_le24 index_table (idx * 3) of
          None \<Rightarrow> None
        | Some v \<Rightarrow>
            if c < v mod 2 ^ 21 then index_search c index_table idx_min idx
            else index_search c index_table idx idx_max
      else Some idx_min)"
  by pat_completeness auto
termination
  by (relation "measure (\<lambda>(c, t, lo, hi). hi - lo)") auto

declare index_search.simps [simp del]

text \<open>The position and the code point where the scan starts; \<open>Some None\<close> is the return value -1.\<close>

definition get_index_pos :: "nat \<Rightarrow> u8 list \<Rightarrow> nat \<Rightarrow> (nat \<times> nat) option option" where
  "get_index_pos c index_table index_table_len =
     do {
       v \<leftarrow> get_le24 index_table 0;
       if c < v mod 2 ^ 21 then Some (Some (0, 0))
       else do {
         code \<leftarrow> get_le24 index_table ((index_table_len - 1) * 3);
         if c \<ge> code then Some None
         else do {
           idx_min \<leftarrow> index_search c index_table 0 (index_table_len - 1);
           v \<leftarrow> get_le24 index_table (idx_min * 3);
           Some (Some ((idx_min + 1) * UNICODE_INDEX_BLOCK_LEN + v div 2 ^ 21, v mod 2 ^ 21))
         }
       }
     }"

text \<open>The loop of \<open>lre_is_in_table\<close>; \<open>p\<close> is the rest of the table at the pointer \<open>p\<close>.\<close>

fun in_table_scan :: "nat \<Rightarrow> u8 list \<Rightarrow> nat \<Rightarrow> bool \<Rightarrow> bool option" where
  "in_table_scan c [] code bit1 = None"
| "in_table_scan c (b0 # p) code bit1 =
     (let b = unat b0 in
      if b < 64 then
        let code1 = add32 code (b div 8 + 1) in
        if c < code1 then Some bit1
        else let code2 = add32 code1 (b mod 8 + 1) in
             if c < code2 then Some (\<not> bit1) else in_table_scan c p code2 bit1
      else if b \<ge> 0x80 then
        let code1 = add32 code (b - 0x80 + 1) in
        if c < code1 then Some bit1 else in_table_scan c p code1 (\<not> bit1)
      else if b < 0x60 then
        (case p of
           [] \<Rightarrow> None
         | p0 # p' \<Rightarrow>
             let code1 = add32 code ((b - 0x40) * 2 ^ 8 + unat p0 + 1) in
             if c < code1 then Some bit1 else in_table_scan c p' code1 (\<not> bit1))
      else
        (case p of
           p0 # p1 # p' \<Rightarrow>
             let code1 = add32 code ((b - 0x60) * 2 ^ 16 + unat p0 * 2 ^ 8 + unat p1 + 1) in
             if c < code1 then Some bit1 else in_table_scan c p' code1 (\<not> bit1)
         | _ \<Rightarrow> None))"

definition lre_is_in_table :: "nat \<Rightarrow> u8 list \<Rightarrow> u8 list \<Rightarrow> nat \<Rightarrow> bool option" where
  "lre_is_in_table c table index_table index_table_len =
     (case get_index_pos c index_table index_table_len of
        None \<Rightarrow> None
      | Some None \<Rightarrow> Some False
      | Some (Some (pos, code)) \<Rightarrow>
          if pos \<le> length table then in_table_scan c (drop pos table) code False else None)"

definition lre_is_case_ignorable :: "nat \<Rightarrow> bool option" where
  "lre_is_case_ignorable c =
     lre_is_in_table c unicode_prop_Case_Ignorable_table unicode_prop_Case_Ignorable_index
       (length unicode_prop_Case_Ignorable_index div 3)"

definition lre_is_id_start :: "nat \<Rightarrow> bool option" where
  "lre_is_id_start c =
     lre_is_in_table c unicode_prop_ID_Start_table unicode_prop_ID_Start_index
       (length unicode_prop_ID_Start_index div 3)"

definition lre_is_id_continue :: "nat \<Rightarrow> bool option" where
  "lre_is_id_continue c =
     (case lre_is_id_start c of
        None \<Rightarrow> None
      | Some True \<Rightarrow> Some True
      | Some False \<Rightarrow>
          lre_is_in_table c unicode_prop_ID_Continue1_table unicode_prop_ID_Continue1_index
            (length unicode_prop_ID_Continue1_index div 3))"

section \<open>The runs of a table\<close>

text \<open>
  The reference reading of a table, without index and without wrap-around: the code points where
  membership changes, starting outside the property. \<open>next_run\<close> decodes one entry to the lengths of its
  runs.
\<close>

fun next_run :: "u8 list \<Rightarrow> (nat list \<times> u8 list) option" where
  "next_run [] = None"
| "next_run (b0 # p) =
     (let b = unat b0 in
      if b < 64 then Some ([b div 8 + 1, b mod 8 + 1], p)
      else if b \<ge> 0x80 then Some ([b - 0x80 + 1], p)
      else if b < 0x60 then (case p of [] \<Rightarrow> None | p0 # p' \<Rightarrow> Some ([(b - 0x40) * 2 ^ 8 + unat p0 + 1], p'))
      else (case p of p0 # p1 # p' \<Rightarrow> Some ([(b - 0x60) * 2 ^ 16 + unat p0 * 2 ^ 8 + unat p1 + 1], p') | _ \<Rightarrow> None))"

lemma next_run_shorter: "next_run p = Some (ls, p') \<Longrightarrow> length p' < length p"
  by (cases p) (auto simp: Let_def split: if_splits list.splits)

fun run_scan :: "nat \<Rightarrow> nat \<Rightarrow> bool \<Rightarrow> nat list \<Rightarrow> bool + (nat \<times> bool)" where
  "run_scan c code bit1 [] = Inr (code, bit1)"
| "run_scan c code bit1 (l # ls) =
     (if c < add32 code l then Inl bit1 else run_scan c (add32 code l) (\<not> bit1) ls)"

lemma in_table_scan_step:
  "in_table_scan c p code bit1 =
     (case next_run p of
        None \<Rightarrow> None
      | Some (ls, p') \<Rightarrow>
          (case run_scan c code bit1 ls of
             Inl r \<Rightarrow> Some r | Inr (code', bit') \<Rightarrow> in_table_scan c p' code' bit'))"
  by (cases p) (auto simp: Let_def split: list.splits)

text \<open>The ends of the runs: the points where membership changes.\<close>

fun ends :: "nat \<Rightarrow> nat list \<Rightarrow> nat list" where
  "ends code [] = []"
| "ends code (l # ls) = (code + l) # ends (code + l) ls"

function run_points :: "u8 list \<Rightarrow> nat \<Rightarrow> nat list option" where
  "run_points p code =
     (if p = [] then Some []
      else case next_run p of
        None \<Rightarrow> None
      | Some (ls, p') \<Rightarrow>
          (case run_points p' (code + sum_list ls) of
             None \<Rightarrow> None | Some r \<Rightarrow> Some (ends code ls @ r)))"
  by pat_completeness auto
termination by (relation "measure (\<lambda>(p, code). length p)") (auto dest: next_run_shorter)

declare run_points.simps [simp del]

definition upto_count :: "nat list \<Rightarrow> nat \<Rightarrow> nat" where
  "upto_count es c = length (filter (\<lambda>e. e \<le> c) es)"

lemma upto_count_simps [simp]:
  "upto_count [] c = 0" "upto_count (e # es) c = (if e \<le> c then Suc (upto_count es c) else upto_count es c)"
  "upto_count (es @ fs) c = upto_count es c + upto_count fs c"
  by (simp_all add: upto_count_def)

lemma upto_count_none: "(\<And>e. e \<in> set es \<Longrightarrow> c < e) \<Longrightarrow> upto_count es c = 0"
  by (auto simp: upto_count_def filter_empty_conv not_le)

lemma ends_props:
  assumes "\<And>l. l \<in> set ls \<Longrightarrow> 0 < l"
  shows "sorted_wrt (<) (ends code ls) \<and> (\<forall>e \<in> set (ends code ls). code < e \<and> e \<le> code + sum_list ls)
    \<and> length (ends code ls) = length ls \<and> last (code # ends code ls) = code + sum_list ls"
  using assms
proof (induction ls arbitrary: code)
  case (Cons l ls)
  then have l: "0 < l" "\<And>l. l \<in> set ls \<Longrightarrow> 0 < l" by auto
  from Cons.IH [OF l(2), of "code + l"] l(1) show ?case by fastforce
qed simp

lemma next_run_pos: "next_run p = Some (ls, p') \<Longrightarrow> l \<in> set ls \<Longrightarrow> 0 < l"
  by (cases p) (auto simp: Let_def split: if_splits list.splits)

lemma run_points_props:
  "run_points p code = Some es \<Longrightarrow> sorted_wrt (<) es \<and> (\<forall>e \<in> set es. code < e)"
proof (induction p code arbitrary: es rule: run_points.induct)
  case (1 p code)
  show ?case
  proof (cases "p = []")
    case True
    with 1 show ?thesis by (simp add: run_points.simps)
  next
    case False
    then obtain ls p' r where n: "next_run p = Some (ls, p')" "run_points p' (code + sum_list ls) = Some r"
      "es = ends code ls @ r"
      using "1.prems" by (subst (asm) run_points.simps) (auto split: option.splits prod.splits)
    have IH: "sorted_wrt (<) r" "\<forall>e \<in> set r. code + sum_list ls < e"
      using "1.IH" [OF False n(1) refl n(2)] by auto
    note e = ends_props [of ls code, OF next_run_pos [OF n(1)]]
    show ?thesis using IH e n(3) by (force simp: sorted_wrt_append)
  qed
qed

lemma run_scan_ends:
  assumes "\<And>l. l \<in> set ls \<Longrightarrow> 0 < l" "code + sum_list ls < 2 ^ 32"
  shows "run_scan c code bit1 ls =
    (if c < code + sum_list ls \<and> ls \<noteq> [] then Inl (bit1 \<noteq> odd (upto_count (ends code ls) c))
     else Inr (code + sum_list ls, bit1 \<noteq> odd (length ls)))"
  using assms
proof (induction ls arbitrary: code bit1)
  case (Cons l ls)
  have a: "add32 code l = code + l" using Cons.prems(2) by (simp add: add32_def)
  have pos: "\<And>l. l \<in> set ls \<Longrightarrow> 0 < l" using Cons.prems(1) by simp
  have IH: "run_scan c (code + l) (\<not> bit1) ls =
    (if c < code + l + sum_list ls \<and> ls \<noteq> [] then Inl ((\<not> bit1) \<noteq> odd (upto_count (ends (code + l) ls) c))
     else Inr (code + l + sum_list ls, (\<not> bit1) \<noteq> odd (length ls)))"
    using Cons.prems by (intro Cons.IH) (auto simp: add.assoc)
  have none: "c < code + l \<Longrightarrow> upto_count (ends (code + l) ls) c = 0"
    using ends_props [OF pos, where code = "code + l"] by (intro upto_count_none) fastforce
  show ?case
  proof (cases "c < code + l")
    case True
    then show ?thesis using none by (simp add: a add.assoc [symmetric] trans_less_add1)
  next
    case False
    then show ?thesis using IH by (cases "ls = []") (auto simp: a add.assoc)
  qed
qed simp

lemma in_table_scan_points:
  assumes "run_points p code = Some es" "\<forall>e \<in> set es. e < 2 ^ 32" "code < 2 ^ 32"
  shows "in_table_scan c p code bit1 =
    (if c < last (code # es) \<and> es \<noteq> [] then Some (bit1 \<noteq> odd (upto_count es c)) else None)"
  using assms
proof (induction p code arbitrary: es bit1 rule: run_points.induct)
  case (1 p code)
  show ?case
  proof (cases "p = []")
    case True
    with 1 show ?thesis by (simp add: run_points.simps)
  next
    case False
    then obtain ls p' r where n: "next_run p = Some (ls, p')" "run_points p' (code + sum_list ls) = Some r"
      "es = ends code ls @ r"
      using "1.prems"(1) by (subst (asm) run_points.simps) (auto split: option.splits prod.splits)
    have pos: "\<And>l. l \<in> set ls \<Longrightarrow> 0 < l" by (rule next_run_pos [OF n(1)])
    have ne: "ls \<noteq> []" using n(1) by (cases p) (auto simp: Let_def split: if_splits list.splits)
    have e: "\<forall>e \<in> set (ends code ls). e \<le> code + sum_list ls" "length (ends code ls) = length ls"
      "last (code # ends code ls) = code + sum_list ls" using ends_props [of ls code, OF pos] by auto
    have l: "last (code # ends code ls) = code + sum_list ls" "ends code ls \<noteq> []" using e ne by auto
    then have s: "code + sum_list ls < 2 ^ 32" using "1.prems"(2) n(3) by (metis UnCI last.simps last_in_set set_append)
    have r: "\<forall>e \<in> set r. code + sum_list ls < e" using run_points_props [OF n(2)] by simp
    have IH: "in_table_scan c p' (code + sum_list ls) b =
      (if c < last ((code + sum_list ls) # r) \<and> r \<noteq> [] then Some (b \<noteq> odd (upto_count r c)) else None)" for b
      using "1.IH" [OF False n(1) refl n(2)] "1.prems"(2) n(3) s by simp
    have scan: "in_table_scan c p code bit1 =
      (if c < code + sum_list ls then Some (bit1 \<noteq> odd (upto_count (ends code ls) c))
       else in_table_scan c p' (code + sum_list ls) (bit1 \<noteq> odd (length ls)))"
      using ne by (subst in_table_scan_step) (simp add: n(1) run_scan_ends [OF pos s])
    show ?thesis
    proof (cases "c < code + sum_list ls")
      case True
      then have "upto_count r c = 0" using r by (intro upto_count_none) force
      moreover have "c < last (code # es)"
        using True r l n(3) last_in_set [of r] by (cases "r = []") fastforce+
      ultimately show ?thesis using True scan n(3) l(2) by simp
    next
      case False
      then have "upto_count (ends code ls) c = length ls"
        unfolding upto_count_def by (subst filter_True) (use e False in fastforce)+
      then show ?thesis using False scan IH n(3) l by (cases "r = []") auto
    qed
  qed
qed

section \<open>Tables whose index agrees with their runs\<close>

text \<open>
  \<open>index_chain\<close> walks once over the table and checks at the position of every index entry that the
  decoder arrives there, at the code point of the entry and outside the property; the last entry must not
  exceed the end of the last run.
\<close>

definition entry_len :: "u8 \<Rightarrow> nat" where
  "entry_len b = (if unat b < 64 \<or> unat b \<ge> 0x80 then 1 else if unat b < 0x60 then 2 else 3)"

function run_end_code :: "u8 list \<Rightarrow> nat \<Rightarrow> nat option" where
  "run_end_code p code =
     (if p = [] then Some code
      else case next_run p of None \<Rightarrow> None | Some (ls, p') \<Rightarrow> run_end_code p' (code + sum_list ls))"
  by pat_completeness auto
termination by (relation "measure (\<lambda>(p, code). length p)") (auto dest: next_run_shorter)

declare run_end_code.simps [simp del]

function index_chain :: "nat list \<Rightarrow> nat \<Rightarrow> u8 list \<Rightarrow> nat \<Rightarrow> nat \<Rightarrow> bool \<Rightarrow> bool" where
  "index_chain [] blk p pos code bit1 = False"
| "index_chain [v] blk p pos code bit1 =
     (case run_end_code p code of None \<Rightarrow> False | Some e \<Rightarrow> code < v \<and> v = e \<and> e < 2 ^ 32)"
| "index_chain (v # v' # vs) blk p pos code bit1 =
     (if pos = blk + v div 2 ^ 21
      then code = v mod 2 ^ 21 \<and> \<not> bit1 \<and> index_chain (v' # vs) (blk + 32) p pos code bit1
      else case p of
        [] \<Rightarrow> False
      | b # _ \<Rightarrow>
          (case next_run p of
             None \<Rightarrow> False
           | Some (ls, p') \<Rightarrow>
               index_chain (v # v' # vs) blk p' (pos + entry_len b) (code + sum_list ls)
                 (bit1 \<noteq> odd (length ls))))"
  by pat_completeness auto
termination
  by (relation "measures [\<lambda>(es, blk, p, pos, code, b). length es, \<lambda>(es, blk, p, pos, code, b). length p]")
    (auto simp del: next_run.simps dest: next_run_shorter)

declare index_chain.simps(3) [simp del]

lemma next_run_drop:
  "next_run (b # p) = Some (ls, p') \<Longrightarrow> p' = drop (entry_len b) (b # p) \<and> entry_len b \<le> length (b # p)"
  by (auto simp: Let_def entry_len_def split: if_splits list.splits)

lemma run_points_step:
  assumes "next_run p = Some (ls, p')" "run_points p' (code + sum_list ls) = Some es"
  shows "run_points p code = Some (ends code ls @ es)"
    and "last (code # ends code ls @ es) = last ((code + sum_list ls) # es)"
  using assms ends_props [of ls code, OF next_run_pos [OF assms(1)]]
  by (auto simp: run_points.simps [of p])

lemma run_end_code_points:
  "run_end_code p code = Some e \<Longrightarrow> \<exists>es. run_points p code = Some es \<and> last (code # es) = e"
proof (induction p code rule: run_end_code.induct)
  case (1 p code)
  show ?case
  proof (cases "p = []")
    case True
    with 1 show ?thesis by (simp add: run_points.simps run_end_code.simps)
  next
    case False
    then obtain ls p' where n: "next_run p = Some (ls, p')" "run_end_code p' (code + sum_list ls) = Some e"
      using "1.prems" by (subst (asm) run_end_code.simps) (auto split: option.splits prod.splits)
    then show ?thesis using "1.IH" [OF False n(1) refl n(2)] run_points_step [OF n(1)] by fastforce
  qed
qed

text \<open>From every entry of the index the scan gives what it gives from the start of the table.\<close>

definition entry_sound :: "nat list \<Rightarrow> nat \<Rightarrow> u8 list \<Rightarrow> nat \<Rightarrow> nat \<Rightarrow> bool \<Rightarrow> nat \<Rightarrow> bool" where
  "entry_sound es blk p pos code bit1 k \<longleftrightarrow>
     (let ck = es ! k mod 2 ^ 21; pk = blk + 32 * k + es ! k div 2 ^ 21 in
      code \<le> ck \<and> ck < last es \<and> pos \<le> pk \<and> pk \<le> pos + length p \<and>
      (\<forall>c. ck \<le> c \<longrightarrow> in_table_scan c p code bit1 = in_table_scan c (drop (pk - pos) p) ck False))"

lemma index_chain_sound:
  "index_chain es blk p pos code bit1 \<Longrightarrow>
   (\<exists>pts. run_points p code = Some pts \<and> last (code # pts) < 2 ^ 32 \<and> last es = last (code # pts)) \<and> code < last es
   \<and> (\<forall>k < length es - 1. entry_sound es blk p pos code bit1 k)"
proof (induction es blk p pos code bit1 rule: index_chain.induct)
  case (2 v blk p pos code bit1)
  then obtain e where e: "run_end_code p code = Some e" "code < v" "v = e" "e < 2 ^ 32"
    by (auto simp del: power_numeral split: option.splits)
  from run_end_code_points [OF e(1)] obtain es where "run_points p code = Some es" "last (code # es) = e" by blast
  with e(3,4) have "\<exists>pts. run_points p code = Some pts \<and> last (code # pts) < 2 ^ 32 \<and> v = last (code # pts)" by blast
  moreover have "last [v] = v" "length [v] - 1 = 0" by simp_all
  ultimately show ?case using e(2) by (metis not_less0)
next
  case (3 v v' vs blk p pos code bit1)
  show ?case
  proof (cases "pos = blk + v div 2 ^ 21")
    case True
    note IH = "3.IH"(1) [OF True]
    have h: "code = v mod 2 ^ 21" "\<not> bit1" "index_chain (v' # vs) (blk + 32) p pos code bit1"
      using "3.prems" True by (auto simp: index_chain.simps(3) [of v])
    note IH = IH [OF h(3)]
    have "entry_sound (v # v' # vs) blk p pos code bit1 k" if "k < Suc (length vs)" for k
    proof (cases k)
      case 0
      then show ?thesis using True h IH by (simp add: entry_sound_def Let_def)
    next
      case (Suc j)
      then have "entry_sound (v' # vs) (blk + 32) p pos code bit1 j" using IH that by simp
      then show ?thesis using Suc by (simp add: entry_sound_def Let_def ac_simps)
    qed
    then show ?thesis using IH by simp
  next
    case False
    then obtain b q where p: "p = b # q"
      using "3.prems" by (cases p) (auto simp: index_chain.simps(3) [of v])
    then obtain ls p' where n: "next_run p = Some (ls, p')"
      "index_chain (v # v' # vs) blk p' (pos + entry_len b) (code + sum_list ls) (bit1 \<noteq> odd (length ls))"
      using "3.prems" False p
      by (subst (asm) index_chain.simps(3)) (auto simp del: next_run.simps split: option.splits prod.splits)
    let ?code = "code + sum_list ls" and ?bit = "bit1 \<noteq> odd (length ls)" and ?pos = "pos + entry_len b"
    have IH: "\<exists>pts. run_points p' ?code = Some pts \<and> last (?code # pts) < 2 ^ 32 \<and> last (v # v' # vs) = last (?code # pts)"
      "?code < last (v # v' # vs)" "\<And>k. k < Suc (length vs) \<Longrightarrow> entry_sound (v # v' # vs) blk p' ?pos ?code ?bit k"
      using "3.IH"(2) [OF False p n(1) refl n(2)] by simp_all
    have s: "?code < 2 ^ 32" using IH(1,2) by force
    note pos = next_run_pos [OF n(1)]
    have scan: "in_table_scan c p code bit1 = in_table_scan c p' ?code ?bit" if "?code \<le> c" for c
      using that s by (subst in_table_scan_step) (simp add: n(1) run_scan_ends [OF pos])
    have d: "p' = drop (entry_len b) p" using next_run_drop n(1) p by blast
    have "entry_len b \<le> length p" using next_run_drop n(1) p by blast
    then have dd: "drop (pk - ?pos) p' = drop (pk - pos) p" "pk \<le> ?pos + length p' \<Longrightarrow> pk \<le> pos + length p"
      if "?pos \<le> pk" for pk using that d by auto
    have "entry_sound (v # v' # vs) blk p pos code bit1 k" if "k < Suc (length vs)" for k
      using IH(3) [OF that] dd scan unfolding entry_sound_def Let_def by (auto dest: le_trans)
    moreover obtain pts where "run_points p' ?code = Some pts" "last (?code # pts) < 2 ^ 32"
      "last (v # v' # vs) = last (?code # pts)" using IH(1) by blast
    ultimately show ?thesis using run_points_step [OF n(1), of code pts] IH(2) by auto
  qed
qed simp

section \<open>The lookup\<close>

fun index_entries :: "u8 list \<Rightarrow> nat list" where
  "index_entries (b0 # b1 # b2 # r) = (unat b0 + unat b1 * 2 ^ 8 + unat b2 * 2 ^ 16) # index_entries r"
| "index_entries r = []"

lemma index_entries_length: "length (index_entries t) = length t div 3"
  by (induction t rule: index_entries.induct) auto

lemma get_le24_entry: "k < length (index_entries t) \<Longrightarrow> get_le24 t (k * 3) = Some (index_entries t ! k)"
proof (induction t arbitrary: k rule: index_entries.induct)
  case (1 b0 b1 b2 r)
  show ?case
  proof (cases k)
    case 0
    then show ?thesis by (simp add: get_le24_def rd_def)
  next
    case (Suc j)
    have "rd (b0 # b1 # b2 # r) (Suc j * 3 + i) = rd r (j * 3 + i)" for i by (simp add: rd_def numeral_3_eq_3)
    from this [of 0] this [of 1] this [of 2] have "get_le24 (b0 # b1 # b2 # r) (Suc j * 3) = get_le24 r (j * 3)"
      by (simp only: get_le24_def add_0_right)
    then show ?thesis using 1 Suc by simp
  qed
qed simp_all

lemma index_search_in:
  assumes "lo < hi" "hi < length (index_entries t)" "index_entries t ! lo mod 2 ^ 21 \<le> c"
  shows "\<exists>k. index_search c t lo hi = Some k \<and> k < hi \<and> index_entries t ! k mod 2 ^ 21 \<le> c"
  using assms
proof (induction "hi - lo" arbitrary: lo hi rule: less_induct)
  case less
  let ?m = "(hi + lo) div 2"
  show ?case
  proof (cases "hi - lo > 1")
    case True
    then have m: "lo < ?m" "?m < hi" by auto
    then have g: "get_le24 t (?m * 3) = Some (index_entries t ! ?m)" using less.prems by (intro get_le24_entry) simp
    show ?thesis
    proof (cases "c < index_entries t ! ?m mod 2 ^ 21")
      case c: True
      have "index_search c t lo hi = index_search c t lo ?m"
        using True c g by (subst index_search.simps) (simp add: Let_def)
      moreover obtain k where "index_search c t lo ?m = Some k" "k < ?m" "index_entries t ! k mod 2 ^ 21 \<le> c"
      proof -
        have "?m - lo < hi - lo" "?m < length (index_entries t)" using m less.prems by linarith+
        then show ?thesis using less.hyps [of ?m lo] m(1) less.prems(3) that by blast
      qed
      ultimately show ?thesis using m(2) by auto
    next
      case c: False
      have "index_search c t lo hi = index_search c t ?m hi"
        using True c g by (subst index_search.simps) (simp add: Let_def)
      moreover have "hi - ?m < hi - lo" using m by linarith
      ultimately show ?thesis using less.hyps [of hi ?m] m(2) less.prems(2) c by simp
    qed
  next
    case False
    then show ?thesis using less.prems by (auto simp: index_search.simps [of _ _ lo])
  qed
qed

definition table_ok :: "u8 list \<Rightarrow> u8 list \<Rightarrow> bool" where
  "table_ok table index \<longleftrightarrow> 2 \<le> length (index_entries index) \<and>
     index_chain (index_entries index) 32 table 0 0 False"

text \<open>The end of a table: lookups from there on answer \<open>FALSE\<close>.\<close>

definition table_end :: "u8 list \<Rightarrow> nat" where
  "table_end index = last (index_entries index)"

lemma lre_is_in_table_eq:
  assumes "table_ok table index" "run_points table 0 = Some pts"
  shows "lre_is_in_table c table index (length index div 3) = Some (c < table_end index \<and> odd (upto_count pts c))"
proof -
  let ?es = "index_entries index"
  have n: "2 \<le> length ?es" and ch: "index_chain ?es 32 table 0 0 False" using assms(1) by (auto simp: table_ok_def)
  note s = index_chain_sound [OF ch]
  have pts: "last (0 # pts) < 2 ^ 32" "table_end index = last (0 # pts)" "0 < table_end index"
    using s assms(2) by (auto simp: table_end_def)
  then have ne: "pts \<noteq> []" by auto
  have "\<forall>e \<in> set pts. e < 2 ^ 32"
  proof
    fix e assume "e \<in> set pts"
    then have "e \<le> last pts" using run_points_props [OF assms(2)] ne
      by (auto simp: in_set_conv_nth last_conv_nth intro!: sorted_nth_mono strict_sorted_imp_sorted)
    then show "e < 2 ^ 32" using pts(1) ne by simp
  qed
  then have scan: "in_table_scan c table 0 False = Some (odd (upto_count pts c))" if "c < table_end index"
    using in_table_scan_points [OF assms(2)] that pts(2) ne by simp
  have e0: "get_le24 index 0 = Some (?es ! 0)" using get_le24_entry [of 0 index] n by (cases "index_entries index") auto
  have el: "get_le24 index ((length index div 3 - 1) * 3) = Some (table_end index)"
  proof -
    have "?es \<noteq> []" using n by auto
    moreover have "length index div 3 - 1 < length ?es" using n by (simp add: index_entries_length)
    ultimately show ?thesis
      using get_le24_entry [of "length index div 3 - 1" index]
      by (simp add: table_end_def last_conv_nth index_entries_length)
  qed
  have es: "entry_sound ?es 32 table 0 0 False k" if "k < length ?es - 1" for k using s that by blast
  show ?thesis
  proof (cases "c < ?es ! 0 mod 2 ^ 21")
    case True
    moreover have "?es ! 0 mod 2 ^ 21 < table_end index"
      using es [of 0] n by (simp add: entry_sound_def Let_def table_end_def)
    ultimately show ?thesis using scan e0 by (simp add: lre_is_in_table_def get_index_pos_def)
  next
    case lo: False
    show ?thesis
    proof (cases "c < table_end index")
      case True
      obtain k where k: "index_search c index 0 (length index div 3 - 1) = Some k" "k < length ?es - 1" "?es ! k mod 2 ^ 21 \<le> c"
        using index_search_in [of 0 "length index div 3 - 1" index c] n lo by (auto simp: index_entries_length)
      then have "get_le24 index (k * 3) = Some (?es ! k)" by (intro get_le24_entry) simp
      moreover have "in_table_scan c table 0 False = in_table_scan c (drop (32 + 32 * k + ?es ! k div 2 ^ 21) table) (?es ! k mod 2 ^ 21) False"
        "32 + 32 * k + ?es ! k div 2 ^ 21 \<le> length table"
        using es [OF k(2)] k(3) by (simp_all add: entry_sound_def Let_def)
      ultimately show ?thesis
        using scan True lo e0 el k(1) by (simp add: lre_is_in_table_def get_index_pos_def UNICODE_INDEX_BLOCK_LEN_def algebra_simps)
    next
      case False
      then show ?thesis using lo e0 el by (simp add: lre_is_in_table_def get_index_pos_def)
    qed
  qed
qed

lemma table_ok_points: "table_ok table index \<Longrightarrow> \<exists>pts. run_points table 0 = Some pts"
  using index_chain_sound unfolding table_ok_def by blast

lemma table_ok_end:
  assumes "table_ok table index" "run_points table 0 = Some pts"
  shows "table_end index = last (0 # pts)"
  using index_chain_sound assms unfolding table_ok_def table_end_def by fastforce

section \<open>The tables of the engine\<close>

text \<open>
  A table is checked block by block: \<open>blocks_ok\<close> decodes each block of the table between two index entries
  on its own and compares the end with the next entry.
\<close>

function block_walk :: "u8 list \<Rightarrow> nat \<Rightarrow> bool \<Rightarrow> (nat \<times> bool) option" where
  "block_walk p code bit1 =
     (if p = [] then Some (code, bit1)
      else case next_run p of
        None \<Rightarrow> None
      | Some (ls, p') \<Rightarrow> block_walk p' (code + sum_list ls) (bit1 \<noteq> odd (length ls)))"
  by pat_completeness auto
termination by (relation "measure (\<lambda>(p, code, b). length p)") (auto dest: next_run_shorter)

declare block_walk.simps [simp del]

fun blocks_ok :: "nat list \<Rightarrow> nat \<Rightarrow> u8 list list \<Rightarrow> nat \<Rightarrow> nat \<Rightarrow> bool" where
  "blocks_ok [v] blk [B] pos code =
     (case block_walk B code False of None \<Rightarrow> False | Some (e, _) \<Rightarrow> code < v \<and> v = e \<and> e < 2 ^ 32)"
| "blocks_ok (v # v' # vs) blk (B # Bs) pos code =
     (case block_walk B code False of
        None \<Rightarrow> False
      | Some (code', bit') \<Rightarrow>
          pos + length B = blk + v div 2 ^ 21 \<and> code' = v mod 2 ^ 21 \<and> \<not> bit' \<and>
          blocks_ok (v' # vs) (blk + 32) Bs (pos + length B) code')"
| "blocks_ok vs blk Bs pos code = False"

fun chunks :: "nat list \<Rightarrow> nat \<Rightarrow> nat \<Rightarrow> u8 list \<Rightarrow> u8 list list" where
  "chunks (v # v' # vs) blk pos xs =
     take (blk + v div 2 ^ 21 - pos) xs # chunks (v' # vs) (blk + 32) (blk + v div 2 ^ 21) (drop (blk + v div 2 ^ 21 - pos) xs)"
| "chunks vs blk pos xs = [xs]"

lemma concat_chunks: "concat (chunks vs blk pos xs) = xs"
  by (induction vs blk pos xs rule: chunks.induct) auto

lemma next_run_append: "next_run p = Some (ls, p') \<Longrightarrow> next_run (p @ q) = Some (ls, p' @ q)"
  by (cases p) (auto simp: Let_def split: if_splits list.splits)

lemma block_walk_end: "block_walk p code bit1 = Some (e, b) \<Longrightarrow> run_end_code p code = Some e"
proof (induction p code bit1 rule: block_walk.induct)
  case (1 p code bit1)
  then show ?case
    by (subst run_end_code.simps, subst (asm) (3) block_walk.simps) (auto split: if_splits option.splits prod.splits)
qed

lemma index_chain_block:
  assumes "block_walk B code bit1 = Some (code', bit')" "pos + length B = blk + v div 2 ^ 21"
    "index_chain (v # v' # vs) blk rest (pos + length B) code' bit'"
  shows "index_chain (v # v' # vs) blk (B @ rest) pos code bit1"
  using assms
proof (induction B code bit1 arbitrary: pos rule: block_walk.induct)
  case (1 p code bit1)
  show ?case
  proof (cases p)
    case Nil
    with 1 show ?thesis by (simp add: block_walk.simps)
  next
    case (Cons b q)
    then obtain ls p' where n: "next_run p = Some (ls, p')"
      "block_walk p' (code + sum_list ls) (bit1 \<noteq> odd (length ls)) = Some (code', bit')"
      using "1.prems"(1) by (subst (asm) block_walk.simps) (auto simp del: next_run.simps split: option.splits)
    have "p' = drop (entry_len b) p" "entry_len b \<le> length p" using next_run_drop n(1) Cons by blast+
    then have len: "pos + entry_len b + length p' = pos + length p" by simp
    have "index_chain (v # v' # vs) blk (p' @ rest) (pos + entry_len b) (code + sum_list ls) (bit1 \<noteq> odd (length ls))"
      using "1.IH" [OF _ n(1) refl n(2)] "1.prems"(2,3) len Cons by simp
    moreover have "pos \<noteq> blk + v div 2 ^ 21" using "1.prems"(2) Cons by simp
    ultimately show ?thesis using next_run_append [OF n(1), of rest] Cons
      by (subst index_chain.simps(3)) (simp del: next_run.simps)
  qed
qed

lemma blocks_ok_chain: "blocks_ok vs blk Bs pos code \<Longrightarrow> index_chain vs blk (concat Bs) pos code False"
proof (induction vs blk Bs pos code rule: blocks_ok.induct)
  case (1 v blk B pos code)
  then show ?case by (auto split: option.splits prod.splits dest: block_walk_end)
next
  case (2 v v' vs blk B Bs pos code)
  then obtain code' where b: "block_walk B code False = Some (code', False)" "pos + length B = blk + v div 2 ^ 21"
    "code' = v mod 2 ^ 21" "blocks_ok (v' # vs) (blk + 32) Bs (pos + length B) code'"
    by (auto split: option.splits prod.splits)
  then have "index_chain (v' # vs) (blk + 32) (concat Bs) (pos + length B) code' False"
    using "2.IH" [OF b(1) refl b(4)] by simp
  then have "index_chain (v # v' # vs) blk (concat Bs) (pos + length B) code' False"
    using b(2,3) by (subst index_chain.simps(3)) simp
  then show ?case using index_chain_block [OF b(1,2)] by simp
qed auto

definition table_check :: "u8 list \<Rightarrow> u8 list \<Rightarrow> bool" where
  "table_check table index \<longleftrightarrow> (let es = index_entries index in
     2 \<le> length es \<and> blocks_ok es 32 (chunks es 32 0 table) 0 0)"

lemma table_check_ok: "table_check table index \<Longrightarrow> table_ok table index"
  using blocks_ok_chain [of "index_entries index" 32 "chunks (index_entries index) 32 0 table" 0 0]
  by (simp add: table_check_def table_ok_def Let_def concat_chunks)

lemmas table_eval = table_check_def block_walk.simps Let_def

lemma table_ok_Cased1: "table_ok unicode_prop_Cased1_table unicode_prop_Cased1_index"
  unfolding unicode_prop_Cased1_table_def unicode_prop_Cased1_index_def
  by (rule table_check_ok) (simp add: table_eval)

lemma table_ok_Case_Ignorable: "table_ok unicode_prop_Case_Ignorable_table unicode_prop_Case_Ignorable_index"
  unfolding unicode_prop_Case_Ignorable_table_def unicode_prop_Case_Ignorable_index_def
  by (rule table_check_ok) (simp add: table_eval)

lemma table_ok_ID_Start: "table_ok unicode_prop_ID_Start_table unicode_prop_ID_Start_index"
  unfolding unicode_prop_ID_Start_table_def unicode_prop_ID_Start_index_def
  by (rule table_check_ok) (simp add: table_eval)

lemma table_ok_ID_Continue1: "table_ok unicode_prop_ID_Continue1_table unicode_prop_ID_Continue1_index"
  unfolding unicode_prop_ID_Continue1_table_def unicode_prop_ID_Continue1_index_def
  by (rule table_check_ok) (simp add: table_eval)

section \<open>Properties\<close>


text \<open>
  The three-way lookup of identifier characters, case-ignorable characters and identifier starts never
  reads outside a table: \<open>lre_is_id_continue\<close> and \<open>lre_is_case_ignorable\<close> return for every code point.
\<close>

theorem unicode_lookups_safe:
  "(\<exists>r. lre_is_id_continue c = Some r) \<and> (\<exists>r. lre_is_case_ignorable c = Some r)"
proof -
  have in_table: "\<exists>r. lre_is_in_table c table index (length index div 3) = Some r" if "table_ok table index" for table index
    using table_ok_points [OF that] lre_is_in_table_eq [OF that] by blast
  obtain r1 r2 r3 where
    "lre_is_in_table c unicode_prop_ID_Start_table unicode_prop_ID_Start_index (length unicode_prop_ID_Start_index div 3) = Some r1"
    "lre_is_in_table c unicode_prop_ID_Continue1_table unicode_prop_ID_Continue1_index (length unicode_prop_ID_Continue1_index div 3) = Some r2"
    "lre_is_in_table c unicode_prop_Case_Ignorable_table unicode_prop_Case_Ignorable_index (length unicode_prop_Case_Ignorable_index div 3) = Some r3"
    using in_table [OF table_ok_ID_Start] in_table [OF table_ok_ID_Continue1] in_table [OF table_ok_Case_Ignorable] by blast
  then show ?thesis
    by (cases r1) (simp_all only: lre_is_id_continue_def lre_is_id_start_def lre_is_case_ignorable_def option.case bool.case, auto)
qed

end
