(* ===== verification/Unicode_Case.thy ===== *)
theory Unicode_Case
  imports Unicode_Index
begin

text \<open>
  Case conversion of \<open>libunicode.c\<close> (\<open>lre_case_conv\<close>, \<open>lre_is_cased\<close>) over the tables of the source.
  A \<open>uint32_t\<close> is a natural number below \<open>2\<^sup>3\<^sup>2\<close>; \<open>None\<close> is a read outside a table. The result of
  \<open>lre_case_conv\<close> is the list \<open>res[0], ..., res[n - 1]\<close> where \<open>n\<close> is the value it returns.
\<close>

section \<open>Model\<close>

text \<open>The fields of an entry of \<open>case_conv_table1\<close>: 17 bits of code, 7 of length, 4 of type, 4 of data.\<close>

definition cc_code :: "nat \<Rightarrow> nat" where
  "cc_code v = v div 2 ^ (32 - 17)"

definition cc_len :: "nat \<Rightarrow> nat" where
  "cc_len v = (v div 2 ^ (32 - 17 - 7)) mod 2 ^ 7"

definition cc_type :: "nat \<Rightarrow> nat" where
  "cc_type v = (v div 2 ^ (32 - 17 - 7 - 4)) mod 2 ^ 4"

definition cc_data :: "nat \<Rightarrow> nat \<Rightarrow> nat" where
  "cc_data v v2 = (v mod 2 ^ 4) * 2 ^ 8 + v2"

definition LRE_CC_RES_LEN_MAX :: nat where
  "LRE_CC_RES_LEN_MAX = 3"

text \<open>The binary search over \<open>case_conv_table1\<close>: \<open>Some (Some idx)\<close> when it stops at an entry.\<close>

function case_search :: "nat \<Rightarrow> u32 list \<Rightarrow> int \<Rightarrow> int \<Rightarrow> nat option option" where
  "case_search c tab idx_min idx_max =
     (if idx_min \<le> idx_max then
        let idx = (idx_max + idx_min) div 2 in
        case (if idx < 0 then None else rd tab (nat idx)) of
          None \<Rightarrow> None
        | Some w \<Rightarrow>
            let v = unat w; code = cc_code v; len = cc_len v in
            if c < code then case_search c tab idx_min (idx - 1)
            else if c \<ge> code + len then case_search c tab (idx + 1) idx_max
            else Some (Some (nat idx))
      else Some None)"
  by pat_completeness auto
termination
  by (relation "measure (\<lambda>(c, tab, lo, hi). nat (hi - lo + 1))") (auto split: if_splits)

declare case_search.simps [simp del]

definition ext :: "nat \<Rightarrow> nat option" where
  "ext i = map_option unat (rd case_conv_ext i)"

text \<open>
  The \<open>switch\<close> on the type of the entry at \<open>idx\<close>. \<open>is_lower\<close> is 0 or 1; the subtraction of 1 in
  \<open>2 * is_lower - 1\<close> is modulo \<open>2\<^sup>3\<^sup>2\<close>.
\<close>

definition case_conv_run :: "nat \<Rightarrow> nat \<Rightarrow> nat \<Rightarrow> nat \<Rightarrow> nat \<Rightarrow> nat list option" where
  "case_conv_run c conv_type code ty data =
     (let is_lower = (if conv_type \<noteq> 0 then 1 else 0 :: nat) in
      if ty < 4 then
        if conv_type = ty mod 2 \<or> ty \<ge> 2 \<and> conv_type = 2
        then do { w \<leftarrow> rd case_conv_table1 data; Some [add32 (c - code) (cc_code (unat w))] }
        else Some [c]
      else if ty = 4 then
        let a = c - code in
        if a mod 2 \<noteq> 1 - is_lower then Some [c]
        else Some [add32 (if even a then a + 1 else a - 1) code]
      else if ty = 5 then
        let a = c - code in
        if a = 1 then Some [add32 c (2 * is_lower + (2 ^ 32 - 1))]
        else if a = (1 - is_lower) * 2 then Some [add32 c ((2 * is_lower + (2 ^ 32 - 1)) * 2)]
        else Some [c]
      else if ty = 6 then
        if is_lower = 0 then do { e \<leftarrow> ext (data div 2 ^ 6); Some [add32 (c - code) e, 0x399] }
        else do { e \<leftarrow> ext (data mod 2 ^ 6); Some [add32 (c - code) e] }
      else if ty = 7 then
        if conv_type = 1 then Some [c] else Some [add32 data (if conv_type = 2 then 0x20 else 0)]
      else if ty = 8 then
        if conv_type = 1 then Some [c]
        else do { e \<leftarrow> ext data; Some [add32 e (if conv_type = 2 then 1 else 0)] }
      else if ty = 9 \<or> ty = 10 then
        if is_lower \<noteq> ty - 9 then Some [c] else do { e \<leftarrow> ext data; Some [e] }
      else if ty = 11 \<or> ty = 12 then
        if conv_type \<noteq> ty - 11 then Some [c]
        else do { e0 \<leftarrow> ext (data div 2 ^ 6); e1 \<leftarrow> ext (data mod 2 ^ 6); Some [add32 (c - code) e0, e1] }
      else
        if conv_type \<noteq> 0 then Some [c]
        else do { e0 \<leftarrow> ext (data div 2 ^ 8); e1 \<leftarrow> ext (data div 2 ^ 4 mod 2 ^ 4); e2 \<leftarrow> ext (data mod 2 ^ 4);
                  Some [e0, e1, e2] })"

definition lre_case_conv :: "nat \<Rightarrow> nat \<Rightarrow> nat list option" where
  "lre_case_conv c conv_type =
     (if c < 128 then
        if conv_type \<noteq> 0 then Some [if 65 \<le> c \<and> c \<le> 90 then c - 65 + 97 else c]
        else Some [if 97 \<le> c \<and> c \<le> 122 then c - 97 + 65 else c]
      else case case_search c case_conv_table1 0 (int (length case_conv_table1) - 1) of
        None \<Rightarrow> None
      | Some None \<Rightarrow> Some [c]
      | Some (Some idx) \<Rightarrow>
          do {
            w \<leftarrow> rd case_conv_table1 idx;
            w2 \<leftarrow> rd case_conv_table2 idx;
            let v = unat w in case_conv_run c conv_type (cc_code v) (cc_type v) (cc_data v (unat w2))
          })"

definition lre_is_cased :: "nat \<Rightarrow> bool option" where
  "lre_is_cased c =
     (case case_search c case_conv_table1 0 (int (length case_conv_table1) - 1) of
        None \<Rightarrow> None
      | Some (Some _) \<Rightarrow> Some True
      | Some None \<Rightarrow>
          lre_is_in_table c unicode_prop_Cased1_table unicode_prop_Cased1_index
            (length unicode_prop_Cased1_index div 3))"

section \<open>The search\<close>

definition in_run :: "u32 \<Rightarrow> nat \<Rightarrow> bool" where
  "in_run w c \<longleftrightarrow> cc_code (unat w) \<le> c \<and> c < cc_code (unat w) + cc_len (unat w)"

text \<open>Runs that do not overlap and increase: what lies before an entry is below it.\<close>

fun runs_sorted :: "u32 list \<Rightarrow> bool" where
  "runs_sorted (w # w' # ws) = (cc_code (unat w) + cc_len (unat w) \<le> cc_code (unat w') \<and> runs_sorted (w' # ws))"
| "runs_sorted ws = True"

lemma runs_sorted_wrt:
  "runs_sorted ws \<Longrightarrow> sorted_wrt (\<lambda>w w'. cc_code (unat w) + cc_len (unat w) \<le> cc_code (unat w')) ws"
proof (induction ws rule: runs_sorted.induct)
  case (1 w w' ws)
  then show ?case by fastforce
qed auto

lemma case_search_spec:
  assumes s: "sorted_wrt (\<lambda>w w'. cc_code (unat w) + cc_len (unat w) \<le> cc_code (unat w')) tab"
    and "0 \<le> lo" "hi < int (length tab)"
  shows "(\<exists>i < length tab. case_search c tab lo hi = Some (Some i) \<and> in_run (tab ! i) c)
    \<or> case_search c tab lo hi = Some None \<and> (\<forall>i. lo \<le> int i \<and> int i \<le> hi \<longrightarrow> \<not> in_run (tab ! i) c)"
  using assms(2,3)
proof (induction "nat (hi - lo + 1)" arbitrary: lo hi rule: less_induct)
  case less
  show ?case
  proof (cases "lo \<le> hi")
    case False
    then show ?thesis by (auto simp: case_search.simps)
  next
    case True
    define m where "m = nat ((hi + lo) div 2)"
    have m: "int m = (hi + lo) div 2" "lo \<le> int m" "int m \<le> hi" "m < length tab" using True less.prems by (auto simp: m_def)
    let ?w = "tab ! m"
    have step: "case_search c tab lo hi =
      (if c < cc_code (unat ?w) then case_search c tab lo (int m - 1)
       else if c \<ge> cc_code (unat ?w) + cc_len (unat ?w) then case_search c tab (int m + 1) hi else Some (Some m))"
      using True m by (subst case_search.simps) (simp add: m(1) [symmetric] rd_def Let_def)
    consider (lo) "c < cc_code (unat ?w)" | (hi) "c \<ge> cc_code (unat ?w) + cc_len (unat ?w)" | (found) "in_run ?w c"
      by (force simp: in_run_def)
    then show ?thesis
    proof cases
      case lo
      have "\<not> in_run (tab ! i) c" if "m \<le> i" "int i \<le> hi" for i
        using lo that sorted_wrt_nth_less [OF s, of m i] less.prems by (cases "i = m") (auto simp: in_run_def)
      then have out: "\<not> in_run (tab ! i) c" if "int m - 1 < int i" "int i \<le> hi" for i using that by auto
      have "nat (int m - 1 - lo + 1) < nat (hi - lo + 1)" "int m - 1 < int (length tab)" using m True by auto
      from less.hyps [OF this(1) less.prems(1) this(2)] show ?thesis
        using step lo out by (metis linorder_not_le)
    next
      case hi
      have "\<not> in_run (tab ! i) c" if "i \<le> m" for i
        using hi that sorted_wrt_nth_less [OF s, of i m] m(4) by (cases "i = m") (auto simp: in_run_def)
      then have out: "\<not> in_run (tab ! i) c" if "int i < int m + 1" for i using that by auto
      have n: "nat (hi - (int m + 1) + 1) < nat (hi - lo + 1)" "0 \<le> int m + 1" "\<not> c < cc_code (unat ?w)" using m True hi by auto
      from less.hyps [OF n(1,2) less.prems(2)] show ?thesis
        using step hi out n(3) by (metis linorder_not_le)
    next
      case found
      then show ?thesis using step m by (auto simp: in_run_def)
    qed
  qed
qed

section \<open>The tables\<close>

text \<open>
  What \<open>case_conv_run\<close> needs of an entry: the indices it derives from the data are inside
  \<open>case_conv_table1\<close> and \<open>case_conv_ext\<close>, and the runs it maps to end below \<open>0x110000\<close>.
\<close>

definition run_ok :: "nat \<Rightarrow> nat \<Rightarrow> nat \<Rightarrow> nat \<Rightarrow> bool" where
  "run_ok code len ty data \<longleftrightarrow> code + len \<le> 0x110000 \<and>
     (if ty < 4 then data < 359
      else if ty = 4 then even len
      else if ty = 5 then len = 3 \<and> 0 < code
      else if ty = 6 \<or> ty = 11 \<or> ty = 12 then data div 2 ^ 6 < 58 \<and> data mod 2 ^ 6 < 58
      else if ty = 7 then True
      else if ty = 8 \<or> ty = 9 \<or> ty = 10 then data < 58
      else data div 2 ^ 8 < 58)"

fun table_runs_ok :: "u32 list \<Rightarrow> u8 list \<Rightarrow> bool" where
  "table_runs_ok (w # ws) (w2 # ws2) =
     (run_ok (cc_code (unat w)) (cc_len (unat w)) (cc_type (unat w)) (cc_data (unat w) (unat w2)) \<and> table_runs_ok ws ws2)"
| "table_runs_ok [] [] = True"
| "table_runs_ok _ _ = False"

lemmas cc_defs = cc_code_def cc_len_def cc_type_def cc_data_def

lemma runs_sorted_table: "runs_sorted case_conv_table1"
  unfolding case_conv_table1_def by (simp add: cc_defs)

lemma table_runs_ok_table: "table_runs_ok case_conv_table1 case_conv_table2"
  unfolding case_conv_table1_def case_conv_table2_def by (simp add: cc_defs run_ok_def)

lemma length_case_conv [simp]:
  "length case_conv_table1 = 359" "length case_conv_table2 = 359" "length case_conv_ext = 58"
  by (simp_all add: case_conv_table1_def case_conv_table2_def case_conv_ext_def)

lemma table_runs_ok_nth:
  "table_runs_ok ws ws2 \<Longrightarrow> i < length ws \<Longrightarrow>
   i < length ws2 \<and> run_ok (cc_code (unat (ws ! i))) (cc_len (unat (ws ! i))) (cc_type (unat (ws ! i))) (cc_data (unat (ws ! i)) (unat (ws2 ! i)))"
proof (induction ws ws2 arbitrary: i rule: table_runs_ok.induct)
  case (1 w ws w2 ws2)
  then show ?case by (cases i) auto
qed auto

lemma ext_in: "i < 58 \<Longrightarrow> \<exists>e < 2 ^ 16. ext i = Some e"
  using unsigned_less [of "case_conv_ext ! i"] by (auto simp: ext_def rd_def)

lemma cc_code_bound: "cc_code (unat (w :: u32)) < 2 ^ 17"
proof -
  have "unat w < 2 ^ 15 * 2 ^ 17" using unat_u32_lt [of w] by simp
  then show ?thesis by (simp add: cc_code_def less_mult_imp_div_less)
qed

lemma cc_len_bound: "cc_len v < 2 ^ 7"
  by (simp add: cc_len_def)

lemma cc_data_bound: "cc_data v (unat (w2 :: u8)) < 2 ^ 12"
  using unat_u8_lt [of w2] mod_less_divisor [of "2 ^ 4" v] by (simp add: cc_data_def) 

definition conv_fits :: "nat list \<Rightarrow> bool" where
  "conv_fits res \<longleftrightarrow> 1 \<le> length res \<and> length res \<le> LRE_CC_RES_LEN_MAX \<and> (\<forall>x \<in> set res. x \<le> 0x10FFFF)"

lemma add32_small: "a < 2 ^ 18 \<Longrightarrow> b < 2 ^ 18 \<Longrightarrow> add32 a b \<le> 0x10FFFF"
  by (simp add: add32_def)

lemma conv_fits_single [simp]: "conv_fits [x] \<longleftrightarrow> x \<le> 0x10FFFF"
  by (simp add: conv_fits_def LRE_CC_RES_LEN_MAX_def)

lemma ext_fits:
  assumes "i < 58" "d < 2 ^ 7"
  obtains e where "ext i = Some e" "add32 d e \<le> 0x10FFFF" "e \<le> 0x10FFFF" "add32 e 1 \<le> 0x10FFFF" "add32 e 0 \<le> 0x10FFFF"
proof -
  obtain e where "ext i = Some e" "e < 2 ^ 16" using ext_in [OF assms(1)] by blast
  then show ?thesis using assms(2) by (intro that [of e]) (auto intro!: add32_small)
qed

text \<open>The three letters of a \<open>RUN_TYPE_LSU\<close> run are mapped inside the run.\<close>

lemma lsu_wrap:
  "c + 1 < 2 ^ 32 \<Longrightarrow> add32 c (2 * 1 + (2 ^ 32 - 1)) = c + 1" "0 < c \<Longrightarrow> c < 2 ^ 32 \<Longrightarrow> add32 c (2 * 0 + (2 ^ 32 - 1)) = c - 1"
  "c + 2 < 2 ^ 32 \<Longrightarrow> add32 c ((2 * 1 + (2 ^ 32 - 1)) * 2) = c + 2"
  "2 \<le> c \<Longrightarrow> c < 2 ^ 32 \<Longrightarrow> add32 c ((2 * 0 + (2 ^ 32 - 1)) * 2) = c - 2"
proof -
  show "c + 1 < 2 ^ 32 \<Longrightarrow> add32 c (2 * 1 + (2 ^ 32 - 1)) = c + 1"
    using mod_offset [of "2 ^ 32" "2 ^ 32" "c + 1"] by (simp add: add32_def add.commute)
  show "add32 c (2 * 0 + (2 ^ 32 - 1)) = c - 1" if "0 < c" "c < 2 ^ 32"
    using mod_offset [of "2 ^ 32" "2 ^ 32" "c - 1"] that by (simp add: add32_def add.commute)
  show "c + 2 < 2 ^ 32 \<Longrightarrow> add32 c ((2 * 1 + (2 ^ 32 - 1)) * 2) = c + 2"
    using mod_offset [of "2 ^ 32" "2 ^ 33" "c + 2"] by (simp add: add32_def add.commute)
  show "add32 c ((2 * 0 + (2 ^ 32 - 1)) * 2) = c - 2" if "2 \<le> c" "c < 2 ^ 32"
    using mod_offset [of "2 ^ 32" "2 ^ 33" "c - 2"] that by (simp add: add32_def add.commute)
qed

lemma case_conv_run_fits:
  assumes ok: "run_ok code len ty data" and c: "code \<le> c" "c < code + len" and "len < 2 ^ 7" "code < 2 ^ 17" and "data < 2 ^ 12"
  shows "\<exists>res. case_conv_run c conv_type code ty data = Some res \<and> conv_fits res"
proof -
  have d: "c - code < 2 ^ 7" "c \<le> 0x10FFFF" using assms by (auto simp: run_ok_def)
  consider "ty < 4" | "ty = 4" | "ty = 5" | "ty = 6" | "ty = 7" | "ty = 8" | "ty = 9 \<or> ty = 10" | "ty = 11 \<or> ty = 12" | "ty > 12"
    by linarith
  then show ?thesis
  proof cases
    case 1
    then have "data < 359" using ok by (simp add: run_ok_def)
    then have "rd case_conv_table1 data = Some (case_conv_table1 ! data)" by (simp add: rd_def)
    moreover have "add32 (c - code) (cc_code (unat (case_conv_table1 ! data))) \<le> 0x10FFFF"
      using d(1) cc_code_bound [of "case_conv_table1 ! data"] by (intro add32_small) auto
    ultimately show ?thesis using 1 d(2) by (simp add: case_conv_run_def)
  next
    case 2
    have "add32 (if even (c - code) then c - code + 1 else c - code - 1) code \<le> 0x10FFFF"
      using d(1) assms(5) by (intro add32_small) auto
    then show ?thesis using 2 d(2) by (simp add: case_conv_run_def Let_def)
  next
    case 3
    then have "len = 3" "0 < code" "code + 3 \<le> 0x110000" using ok by (auto simp: run_ok_def)
    have w: "c - code = 1 \<Longrightarrow> add32 c (2 * 1 + (2 ^ 32 - 1)) \<le> 0x10FFFF" "c - code = 1 \<Longrightarrow> add32 c (2 * 0 + (2 ^ 32 - 1)) \<le> 0x10FFFF"
      "c - code = 0 \<Longrightarrow> add32 c ((2 * 1 + (2 ^ 32 - 1)) * 2) \<le> 0x10FFFF" "c - code = 2 \<Longrightarrow> add32 c ((2 * 0 + (2 ^ 32 - 1)) * 2) \<le> 0x10FFFF"
      using d(2) c \<open>code + 3 \<le> 0x110000\<close> lsu_wrap [of c] by simp_all
    show ?thesis
    proof (cases "conv_type = 0")
      case True
      then show ?thesis using 3 w d(2) by (simp add: case_conv_run_def Let_def del: mult_0_right mult_1_right)
    next
      case False
      then show ?thesis using 3 w d(2) by (simp add: case_conv_run_def Let_def)
    qed
  next
    case 4
    then have "data div 2 ^ 6 < 58" "data mod 2 ^ 6 < 58" using ok by (simp_all add: run_ok_def)
    then obtain e e' where "ext (data div 2 ^ 6) = Some e" "add32 (c - code) e \<le> 0x10FFFF"
      "ext (data mod 2 ^ 6) = Some e'" "add32 (c - code) e' \<le> 0x10FFFF" using ext_fits d(1) by metis
    then show ?thesis using 4 by (simp add: case_conv_run_def conv_fits_def LRE_CC_RES_LEN_MAX_def)
  next
    case 5
    have "add32 data 0x20 \<le> 0x10FFFF" "add32 data 0 \<le> 0x10FFFF" using assms(6) by (intro add32_small; simp)+
    then show ?thesis using 5 d(2) by (simp add: case_conv_run_def)
  next
    case 6
    then have "data < 58" using ok by (simp add: run_ok_def)
    then obtain e where "ext data = Some e" "add32 e 1 \<le> 0x10FFFF" "add32 e 0 \<le> 0x10FFFF" using ext_fits d(1) by metis
    then show ?thesis using 6 d(2) by (simp add: case_conv_run_def)
  next
    case 7
    then have "data < 58" using ok by (auto simp: run_ok_def)
    then obtain e where "ext data = Some e" "e \<le> 0x10FFFF" using ext_fits d(1) by metis
    then show ?thesis using 7 d(2) by (elim disjE) (simp_all add: case_conv_run_def)
  next
    case 8
    then have "data div 2 ^ 6 < 58" "data mod 2 ^ 6 < 58" using ok by (auto simp: run_ok_def)
    then obtain e e' where "ext (data div 2 ^ 6) = Some e" "add32 (c - code) e \<le> 0x10FFFF"
      "ext (data mod 2 ^ 6) = Some e'" "e' \<le> 0x10FFFF" using ext_fits d(1) by metis
    then show ?thesis using 8 d(2) by (elim disjE) (simp_all add: case_conv_run_def conv_fits_def LRE_CC_RES_LEN_MAX_def)
  next
    case 9
    then have "data div 2 ^ 8 < 58" using ok by (simp add: run_ok_def)
    then obtain e0 where "ext (data div 2 ^ 8) = Some e0" "e0 \<le> 0x10FFFF" using ext_fits d(1) by metis
    moreover have "\<exists>e. ext (n mod 2 ^ 4) = Some e \<and> e \<le> 0x10FFFF" for n
    proof -
      have "n mod 2 ^ 4 < 58" using mod_less_divisor [of "2 ^ 4" n] by simp
      then show ?thesis using ext_fits d(1) by metis
    qed
    then obtain e1 e2 where "ext (data div 2 ^ 4 mod 2 ^ 4) = Some e1" "e1 \<le> 0x10FFFF"
      "ext (data mod 2 ^ 4) = Some e2" "e2 \<le> 0x10FFFF" by meson
    ultimately show ?thesis using 9 d(2) by (simp add: case_conv_run_def conv_fits_def LRE_CC_RES_LEN_MAX_def)
  qed
qed

section \<open>Properties\<close>

lemmas case_table_search =
  case_search_spec [OF runs_sorted_wrt [OF runs_sorted_table], of 0 "int (length case_conv_table1) - 1"]

text \<open>
  C27. Case conversion is total on Unicode: for every code point and every conversion (upper, lower, fold)
  \<open>lre_case_conv\<close> terminates without reading outside its three tables, and returns one to
  \<open>LRE_CC_RES_LEN_MAX\<close> values, all of them code points.
\<close>

theorem lre_case_conv_fits:
  assumes "c \<le> 0x10FFFF"
  shows "\<exists>res. lre_case_conv c conv_type = Some res \<and> 1 \<le> length res \<and> length res \<le> LRE_CC_RES_LEN_MAX
    \<and> (\<forall>x \<in> set res. x \<le> 0x10FFFF)"
proof (cases "c < 128")
  case True
  then show ?thesis by (auto simp: lre_case_conv_def LRE_CC_RES_LEN_MAX_def)
next
  case False
  have "\<exists>res. lre_case_conv c conv_type = Some res \<and> conv_fits res"
  proof (cases "case_search c case_conv_table1 0 (int (length case_conv_table1) - 1) = Some None")
    case True
    then show ?thesis using False assms by (simp add: lre_case_conv_def)
  next
    case not_none: False
    then obtain i where i: "i < length case_conv_table1" "in_run (case_conv_table1 ! i) c"
      "case_search c case_conv_table1 0 (int (length case_conv_table1) - 1) = Some (Some i)"
      using case_table_search [of c] by auto
    define v where "v = unat (case_conv_table1 ! i)"
    define data where "data = cc_data v (unat (case_conv_table2 ! i))"
    have ok: "i < length case_conv_table2" "run_ok (cc_code v) (cc_len v) (cc_type v) data"
      using table_runs_ok_nth [OF table_runs_ok_table i(1)] by (simp_all add: v_def data_def)
    have eq: "lre_case_conv c conv_type = case_conv_run c conv_type (cc_code v) (cc_type v) data"
      using False i ok(1) by (simp add: lre_case_conv_def rd_def v_def data_def Let_def)
    show ?thesis unfolding eq
      by (rule case_conv_run_fits [OF ok(2)])
        (use i(2) cc_len_bound [of v] cc_code_bound [of "case_conv_table1 ! i"] cc_data_bound [of v "case_conv_table2 ! i"]
          in \<open>auto simp: in_run_def v_def [symmetric] data_def\<close>)
  qed
  then show ?thesis by (auto simp: conv_fits_def)
qed

theorem lre_case_conv_fits_witness:
  "\<exists>res. lre_case_conv 0xDF 0 = Some res \<and> 1 \<le> length res \<and> length res \<le> LRE_CC_RES_LEN_MAX
    \<and> (\<forall>x \<in> set res. x \<le> 0x10FFFF)"
  by (rule lre_case_conv_fits) simp

text \<open>
  \<open>lre_is_cased\<close> never leaves its tables and is exact: the binary search finds a run of
  \<open>case_conv_table1\<close> that contains the code point whenever there is one, and otherwise the property
  table decides.
\<close>

theorem lre_is_cased_eq:
  "\<exists>pts. run_points unicode_prop_Cased1_table 0 = Some pts \<and>
    (\<forall>c. lre_is_cased c = Some ((\<exists>w \<in> set case_conv_table1. in_run w c)
        \<or> c < table_end unicode_prop_Cased1_index \<and> odd (upto_count pts c)))"
proof -
  obtain pts where pts: "run_points unicode_prop_Cased1_table 0 = Some pts"
    using table_ok_points [OF table_ok_Cased1] by blast
  have "lre_is_cased c = Some ((\<exists>w \<in> set case_conv_table1. in_run w c)
      \<or> c < table_end unicode_prop_Cased1_index \<and> odd (upto_count pts c))" for c
  proof (cases "case_search c case_conv_table1 0 (int (length case_conv_table1) - 1) = Some None")
    case True
    then have "\<not> in_run (case_conv_table1 ! i) c" if "i < length case_conv_table1" for i
      using case_table_search [of c] that by auto
    then have "\<not> (\<exists>w \<in> set case_conv_table1. in_run w c)" by (metis in_set_conv_nth)
    then show ?thesis
      using True lre_is_in_table_eq [OF table_ok_Cased1 pts, of c] by (simp add: lre_is_cased_def)
  next
    case False
    then obtain i where i: "i < length case_conv_table1" "in_run (case_conv_table1 ! i) c"
      "case_search c case_conv_table1 0 (int (length case_conv_table1) - 1) = Some (Some i)"
      using case_table_search [of c] by auto
    then have "\<exists>w \<in> set case_conv_table1. in_run w c" by (meson nth_mem)
    then show ?thesis using i(3) by (simp add: lre_is_cased_def)
  qed
  with pts show ?thesis by blast
qed

end
