(* ===== verification/CharRange.thy ===== *)
theory CharRange
  imports QJS_Malloc
begin

text \<open>
  The character ranges of \<open>libunicode.c\<close> and \<open>libunicode.h\<close>: sets of code points as sorted lists of
  the points where membership changes. The record has the fields of \<open>struct CharRange\<close>; the callback
  \<open>realloc_func\<close> and its state are the arguments \<open>ra\<close> and \<open>h\<close>. Lengths and sizes are natural numbers.
  An operation answers \<open>None\<close> for an access outside the block of points, otherwise its return value
  (0 or -1) with the new allocator state and range.
\<close>

section \<open>Model\<close>

type_synonym 'h cr_realloc_func = "'h \<Rightarrow> u32 block option \<Rightarrow> nat \<Rightarrow> u32 block option \<times> 'h"

record CharRange =
  cr_len :: nat
  cr_size :: nat
  cr_points :: "u32 block option"

type_synonym 'h cr_result = "(int \<times> 'h \<times> CharRange) option"

datatype CharRangeOpEnum = CR_OP_UNION | CR_OP_INTER | CR_OP_XOR

definition cr_init :: CharRange where
  "cr_init = \<lparr>cr_len = 0, cr_size = 0, cr_points = None\<rparr>"

definition cr_free :: "'h cr_realloc_func \<Rightarrow> 'h \<Rightarrow> CharRange \<Rightarrow> 'h" where
  "cr_free ra h cr = snd (ra h (cr_points cr) 0)"

definition cr_realloc :: "'h cr_realloc_func \<Rightarrow> 'h \<Rightarrow> CharRange \<Rightarrow> nat \<Rightarrow> int \<times> 'h \<times> CharRange" where
  "cr_realloc ra h cr sz =
     (if sz > cr_size cr then
        let new_size = max sz (cr_size cr * 3 div 2) in
        case ra h (cr_points cr) new_size of
          (None, h') \<Rightarrow> (-1, h', cr)
        | (Some new_buf, h') \<Rightarrow> (0, h', cr\<lparr>cr_points := Some new_buf, cr_size := new_size\<rparr>)
      else (0, h, cr))"

text \<open>\<open>memcpy(cr->points + off, data, ...)\<close>; also the single stores \<open>cr->points[off] = v\<close>.\<close>

definition cr_store :: "CharRange \<Rightarrow> nat \<Rightarrow> u32 list \<Rightarrow> CharRange option" where
  "cr_store cr off data =
     (case cr_points cr of
        None \<Rightarrow> if data = [] then Some cr else None
      | Some b \<Rightarrow>
          (case blit (cells b) off data of
             None \<Rightarrow> None
           | Some m \<Rightarrow> Some (cr\<lparr>cr_points := Some (Block m (usable b))\<rparr>)))"

definition cr_copy :: "'h cr_realloc_func \<Rightarrow> 'h \<Rightarrow> CharRange \<Rightarrow> CharRange \<Rightarrow> 'h cr_result" where
  "cr_copy ra h cr cr1 =
     (case cr_realloc ra h cr (cr_len cr1) of
        (r, h', cr') \<Rightarrow>
          if r \<noteq> 0 then Some (-1, h', cr')
          else do {
            data \<leftarrow> slice (block_cells (cr_points cr1)) 0 (cr_len cr1);
            cr'' \<leftarrow> cr_store cr' 0 data;
            Some (0, h', cr''\<lparr>cr_len := cr_len cr1\<rparr>)
          })"

definition cr_add_point :: "'h cr_realloc_func \<Rightarrow> 'h \<Rightarrow> CharRange \<Rightarrow> u32 \<Rightarrow> 'h cr_result" where
  "cr_add_point ra h cr v =
     (case (if cr_len cr \<ge> cr_size cr then cr_realloc ra h cr (cr_len cr + 1) else (0, h, cr)) of
        (r, h', cr') \<Rightarrow>
          if r \<noteq> 0 then Some (-1, h', cr')
          else do {
            cr'' \<leftarrow> cr_store cr' (cr_len cr') [v];
            Some (0, h', cr''\<lparr>cr_len := cr_len cr'' + 1\<rparr>)
          })"

definition cr_add_interval :: "'h cr_realloc_func \<Rightarrow> 'h \<Rightarrow> CharRange \<Rightarrow> u32 \<Rightarrow> u32 \<Rightarrow> 'h cr_result" where
  "cr_add_interval ra h cr c1 c2 =
     (case (if cr_len cr + 2 > cr_size cr then cr_realloc ra h cr (cr_len cr + 2) else (0, h, cr)) of
        (r, h', cr') \<Rightarrow>
          if r \<noteq> 0 then Some (-1, h', cr')
          else do {
            cr1 \<leftarrow> cr_store cr' (cr_len cr') [c1];
            cr2 \<leftarrow> cr_store (cr1\<lparr>cr_len := cr_len cr1 + 1\<rparr>) (cr_len cr1 + 1) [c2];
            Some (0, h', cr2\<lparr>cr_len := cr_len cr2 + 1\<rparr>)
          })"

text \<open>\<open>while ((j + 3) < len && pt[j + 1] == pt[j + 2]) j += 2;\<close>\<close>

function compress_run :: "u32 list \<Rightarrow> nat \<Rightarrow> nat \<Rightarrow> nat option" where
  "compress_run pt len j =
     (if j + 3 < len then
        do { x \<leftarrow> rd pt (j + 1); y \<leftarrow> rd pt (j + 2);
             if x = y then compress_run pt len (j + 2) else Some j }
      else Some j)"
  by pat_completeness auto
termination by (relation "measure (\<lambda>(pt, len, j). len - j)") auto

declare compress_run.simps [simp del]

lemma compress_run_mono: "compress_run pt len j = Some j' \<Longrightarrow> j \<le> j'"
proof (induction pt len j rule: compress_run.induct)
  case (1 pt len j)
  from "1.prems" show ?case
    by (subst (asm) compress_run.simps)
      (auto split: if_splits bind_splits dest: "1.IH")
qed

text \<open>The outer loop of \<open>cr_compress\<close>, in place: reads at \<open>i\<close> and \<open>j\<close>, writes at \<open>k\<close>.\<close>

function compress_loop :: "u32 list \<Rightarrow> nat \<Rightarrow> nat \<Rightarrow> nat \<Rightarrow> (u32 list \<times> nat) option" where
  "compress_loop pt len i k =
     (if i + 1 < len then
        (case (rd pt i, rd pt (i + 1)) of
           (Some x, Some x') \<Rightarrow>
             if x = x' then compress_loop pt len (i + 2) k
             else
               (case compress_run pt len i of
                  None \<Rightarrow> None
                | Some j \<Rightarrow>
                    (case wr pt k x of
                       None \<Rightarrow> None
                     | Some pt1 \<Rightarrow>
                         (case rd pt1 (j + 1) of
                            None \<Rightarrow> None
                          | Some y \<Rightarrow>
                              (case wr pt1 (k + 1) y of
                                 None \<Rightarrow> None
                               | Some pt2 \<Rightarrow> compress_loop pt2 len (j + 2) (k + 2)))))
         | _ \<Rightarrow> None)
      else Some (pt, k))"
  by pat_completeness auto
termination
  by (relation "measure (\<lambda>(pt, len, i, k). len - i)") (auto dest!: compress_run_mono)

declare compress_loop.simps [simp del]

definition cr_compress :: "CharRange \<Rightarrow> CharRange option" where
  "cr_compress cr =
     (case compress_loop (block_cells (cr_points cr)) (cr_len cr) 0 0 of
        None \<Rightarrow> None
      | Some (pt, k) \<Rightarrow>
          Some (cr\<lparr>cr_len := k,
            cr_points := map_option (\<lambda>b. Block pt (usable b)) (cr_points cr)\<rparr>))"

text \<open>The next point of \<open>a\<close> or \<open>b\<close> in increasing order, with the indices after it.\<close>

definition cr_op_next :: "u32 list \<Rightarrow> u32 list \<Rightarrow> nat \<Rightarrow> nat \<Rightarrow> (u32 \<times> nat \<times> nat) option" where
  "cr_op_next a_pt b_pt a_idx b_idx =
     (if a_idx < length a_pt \<and> b_idx < length b_pt then
        if a_pt ! a_idx < b_pt ! b_idx then Some (a_pt ! a_idx, a_idx + 1, b_idx)
        else if a_pt ! a_idx = b_pt ! b_idx then Some (a_pt ! a_idx, a_idx + 1, b_idx + 1)
        else Some (b_pt ! b_idx, a_idx, b_idx + 1)
      else if a_idx < length a_pt then Some (a_pt ! a_idx, a_idx + 1, b_idx)
      else if b_idx < length b_pt then Some (b_pt ! b_idx, a_idx, b_idx + 1)
      else None)"

fun cr_op_in :: "CharRangeOpEnum \<Rightarrow> bool \<Rightarrow> bool \<Rightarrow> bool" where
  "cr_op_in CR_OP_UNION p q = (p \<or> q)"
| "cr_op_in CR_OP_INTER p q = (p \<and> q)"
| "cr_op_in CR_OP_XOR p q = (p \<noteq> q)"

function cr_op_loop ::
  "'h cr_realloc_func \<Rightarrow> 'h \<Rightarrow> CharRange \<Rightarrow> u32 list \<Rightarrow> u32 list \<Rightarrow> CharRangeOpEnum \<Rightarrow> nat \<Rightarrow> nat \<Rightarrow> 'h cr_result" where
  "cr_op_loop ra h cr a_pt b_pt op a_idx b_idx =
     (case cr_op_next a_pt b_pt a_idx b_idx of
        None \<Rightarrow> Some (0, h, cr)
      | Some (v, a_idx', b_idx') \<Rightarrow>
          if cr_op_in op (odd a_idx') (odd b_idx') \<noteq> odd (cr_len cr)
          then (case cr_add_point ra h cr v of
                  None \<Rightarrow> None
                | Some (r, h', cr') \<Rightarrow>
                    if r \<noteq> 0 then Some (-1, h', cr')
                    else cr_op_loop ra h' cr' a_pt b_pt op a_idx' b_idx')
          else cr_op_loop ra h cr a_pt b_pt op a_idx' b_idx')"
  by pat_completeness auto
termination
  by (relation "measure (\<lambda>(ra, h, cr, a, b, op, i, j). (length a - i) + (length b - j))")
    (auto simp: cr_op_next_def split: if_splits)

declare cr_op_loop.simps [simp del]

definition cr_op ::
  "'h cr_realloc_func \<Rightarrow> 'h \<Rightarrow> CharRange \<Rightarrow> u32 list \<Rightarrow> u32 list \<Rightarrow> CharRangeOpEnum \<Rightarrow> 'h cr_result" where
  "cr_op ra h cr a_pt b_pt op =
     (case cr_op_loop ra h cr a_pt b_pt op 0 0 of
        None \<Rightarrow> None
      | Some (r, h', cr') \<Rightarrow>
          if r \<noteq> 0 then Some (-1, h', cr')
          else (case cr_compress cr' of None \<Rightarrow> None | Some cr'' \<Rightarrow> Some (0, h', cr'')))"

text \<open>The points of a range, as the caller of \<open>cr_op\<close> passes them (\<open>cr->points\<close>, \<open>cr->len\<close>).\<close>

definition cr_pts :: "CharRange \<Rightarrow> u32 list" where
  "cr_pts cr = take (cr_len cr) (block_cells (cr_points cr))"

definition cr_union1 :: "'h cr_realloc_func \<Rightarrow> 'h \<Rightarrow> CharRange \<Rightarrow> u32 list \<Rightarrow> 'h cr_result" where
  "cr_union1 ra h cr b_pt =
     (case cr_op ra h (cr\<lparr>cr_len := 0, cr_size := 0, cr_points := None\<rparr>) (cr_pts cr) b_pt CR_OP_UNION of
        None \<Rightarrow> None
      | Some (ret, h', cr') \<Rightarrow> Some (ret, cr_free ra h' cr, cr'))"

definition cr_union_interval :: "'h cr_realloc_func \<Rightarrow> 'h \<Rightarrow> CharRange \<Rightarrow> u32 \<Rightarrow> u32 \<Rightarrow> 'h cr_result" where
  "cr_union_interval ra h cr c1 c2 = cr_union1 ra h cr [c1, c2 + 1]"

definition UINT32_MAX :: u32 where
  "UINT32_MAX = 0xFFFFFFFF"

definition cr_invert :: "'h cr_realloc_func \<Rightarrow> 'h \<Rightarrow> CharRange \<Rightarrow> 'h cr_result" where
  "cr_invert ra h cr =
     (let len = cr_len cr in
      case cr_realloc ra h cr (len + 2) of
        (r, h', cr1) \<Rightarrow>
          if r \<noteq> 0 then Some (-1, h', cr1)
          else do {
            data \<leftarrow> slice (block_cells (cr_points cr1)) 0 len;
            cr2 \<leftarrow> cr_store cr1 1 data;
            cr3 \<leftarrow> cr_store cr2 0 [0];
            cr4 \<leftarrow> cr_store cr3 (len + 1) [UINT32_MAX];
            cr5 \<leftarrow> cr_compress (cr4\<lparr>cr_len := len + 2\<rparr>);
            Some (0, h', cr5)
          })"

section \<open>The set of a list of points\<close>

text \<open>
  A code point is in the range when the number of points up to it is odd: for sorted points this is
  the union of the intervals \<open>[p\<^sub>0, p\<^sub>1)\<close>, \<open>[p\<^sub>2, p\<^sub>3)\<close>, ...
\<close>

definition below :: "u32 list \<Rightarrow> u32 \<Rightarrow> nat" where
  "below xs c = length (filter (\<lambda>p. p \<le> c) xs)"

definition cr_mem :: "u32 list \<Rightarrow> u32 \<Rightarrow> bool" where
  "cr_mem xs c \<longleftrightarrow> odd (below xs c)"

lemma below_simps [simp]:
  "below [] c = 0" "below (x # xs) c = (if x \<le> c then Suc (below xs c) else below xs c)"
  "below (xs @ ys) c = below xs c + below ys c"
  by (simp_all add: below_def)

lemma below_none: "(\<And>x. x \<in> set xs \<Longrightarrow> c < x) \<Longrightarrow> below xs c = 0"
  by (force simp: below_def filter_empty_conv not_le)

lemma below_all: "below xs (- 1) = length xs"
  by (induction xs) (auto simp: word_order.extremum)

lemma cr_mem_intervals: "sorted (a # b # xs) \<Longrightarrow> cr_mem (a # b # xs) c \<longleftrightarrow> a \<le> c \<and> c < b \<or> cr_mem xs c"
proof -
  assume s: "sorted (a # b # xs)"
  then have "c < b \<Longrightarrow> below xs c = 0" by (intro below_none) (auto dest: order.strict_trans2)
  with s show ?thesis by (auto simp: cr_mem_def not_le not_less)
qed

section \<open>Compression\<close>

text \<open>What \<open>cr_compress\<close> computes: empty intervals are dropped, adjacent ones joined.\<close>

fun run_end :: "u32 \<Rightarrow> u32 list \<Rightarrow> u32 \<times> u32 list" where
  "run_end e (x # y # r) = (if e = x then run_end y r else (e, x # y # r))"
| "run_end e r = (e, r)"

lemma run_end_length: "length (snd (run_end e r)) \<le> length r"
  by (induction e r rule: run_end.induct) auto

function (sequential) compress :: "u32 list \<Rightarrow> u32 list" where
  "compress (x # y # r) =
     (if x = y then compress r else x # fst (run_end y r) # compress (snd (run_end y r)))"
| "compress r = []"
  by pat_completeness auto
termination
  by (relation "measure length") (auto simp: run_end_length less_Suc_eq_le intro: le_SucI)

declare compress.simps(1) [simp del]

lemma run_end_spec:
  assumes "sorted (e # r)" "even (length r)" "run_end e r = (e', r')"
  shows "e \<le> e' \<and> sorted (e' # r') \<and> even (length r') \<and> (r' = [] \<or> e' < hd r')
    \<and> (\<forall>c. odd (below (e # r) c) = odd (below (e' # r') c)) \<and> set r' \<subseteq> set r \<and> e' \<in> set (e # r)"
  using assms
proof (induction e r rule: run_end.induct)
  case (1 e x y r)
  show ?case
  proof (cases "e = x")
    case True
    then have "e \<le> y" "y \<le> e' \<and> sorted (e' # r') \<and> even (length r') \<and> (r' = [] \<or> e' < hd r')
        \<and> (\<forall>c. odd (below (y # r) c) = odd (below (e' # r') c)) \<and> set r' \<subseteq> set r \<and> e' \<in> set (y # r)"
      using 1 by auto
    moreover have "odd (below (e # x # y # r) c) = odd (below (y # r) c)" for c using True by simp
    ultimately show ?thesis by auto
  next
    case False
    with "1.prems" show ?thesis by auto
  qed
qed auto

lemma compress_spec:
  assumes "sorted xs" "even (length xs)"
  shows "sorted_wrt (<) (compress xs) \<and> even (length (compress xs))
    \<and> (\<forall>c. cr_mem (compress xs) c = cr_mem xs c) \<and> set (compress xs) \<subseteq> set xs"
  using assms
proof (induction xs rule: compress.induct)
  case (1 x y r)
  show ?case
  proof (cases "x = y")
    case True
    with 1 show ?thesis by (auto simp: compress.simps cr_mem_def)
  next
    case False
    obtain e r' where r: "run_end y r = (e, r')" by fastforce
    have s: "y \<le> e" "sorted (e # r')" "even (length r')" "r' = [] \<or> e < hd r'"
      "\<forall>c. odd (below (y # r) c) = odd (below (e # r') c)" "set r' \<subseteq> set r" "e \<in> set (y # r)"
      using run_end_spec [of y r, OF _ _ r] "1.prems" by auto
    have IH: "sorted_wrt (<) (compress r')" "even (length (compress r'))" "set (compress r') \<subseteq> set r'"
      "\<forall>c. cr_mem (compress r') c = cr_mem r' c"
      using "1.IH"(2) [OF False] r s by auto
    have lt: "x < e" using False s(1) "1.prems"(1) by auto
    have "\<forall>z \<in> set r'. e < z" using s(2,4) by (cases r') auto
    with IH lt have st: "sorted_wrt (<) (x # e # compress r')" by force
    have "cr_mem (x # e # compress r') c = cr_mem (x # y # r) c" for c
      using IH(4) s(5) by (auto simp: cr_mem_def split: if_splits)
    then show ?thesis using st IH r s(6,7) False by (auto simp: compress.simps)
  qed
qed (auto simp: cr_mem_def)

text \<open>The loops of the code compute it in place.\<close>

lemma compress_run_eq:
  assumes "len \<le> length pt" "j + 1 < len" "even (len - j)"
  shows "\<exists>j'. compress_run pt len j = Some j' \<and> j \<le> j' \<and> j' + 1 < len \<and> even (len - j')
    \<and> run_end (pt ! (j + 1)) (drop (j + 2) (take len pt)) = (pt ! (j' + 1), drop (j' + 2) (take len pt))"
  using assms
proof (induction "len - j" arbitrary: j rule: less_induct)
  case less
  show ?case
  proof (cases "j + 3 < len")
    case False
    with less.prems(2,3) have "len = j + 2" by presburger
    then have "drop (j + 2) (take len pt) = []" by simp
    then show ?thesis using False less.prems by (simp add: compress_run.simps)
  next
    case True
    have d: "drop (j + 2) (take len pt) = pt ! (j + 2) # pt ! (j + 3) # drop (j + 4) (take len pt)"
      using True less.prems(1) by (simp add: Cons_nth_drop_Suc [symmetric] eval_nat_numeral)
    show ?thesis
    proof (cases "pt ! (j + 1) = pt ! (j + 2)")
      case eq: True
      have e: "compress_run pt len j = compress_run pt len (j + 2)"
        using True eq less.prems(1) by (subst compress_run.simps) (simp add: rd_def)
      have "len - (j + 2) < len - j" "even (len - (j + 2))" using True less.prems(3) by auto
      then show ?thesis using less.hyps [of "j + 2"] True eq less.prems(1) e d
        by (auto simp: eval_nat_numeral)
    next
      case False
      then have "compress_run pt len j = Some j"
        using True less.prems(1) by (subst compress_run.simps) (simp add: rd_def)
      then show ?thesis using False d less.prems by auto
    qed
  qed
qed

lemma take_wr_pair:
  "k + 1 < length pt \<Longrightarrow> take (k + 2) (pt[k := x, k + 1 := y]) = take k pt @ [x, y]"
  by (rule nth_equalityI) (auto simp: nth_append nth_list_update less_Suc_eq)

lemma compress_loop_eq:
  assumes "len \<le> length pt" "k \<le> i" "i \<le> len" "even (len - i)"
  shows "\<exists>pt' k'. compress_loop pt len i k = Some (pt', k') \<and> length pt' = length pt \<and> k' \<le> len
    \<and> take k' pt' = take k pt @ compress (drop i (take len pt))"
  using assms
proof (induction "len - i" arbitrary: i k pt rule: less_induct)
  case less
  show ?case
  proof (cases "i + 1 < len")
    case False
    with less.prems(3,4) have "i = len" by presburger
    then show ?thesis using less.prems by (simp add: compress_loop.simps)
  next
    case True
    have d: "drop i (take len pt) = pt ! i # pt ! (i + 1) # drop (i + 2) (take len pt)"
      using True less.prems(1) by (simp add: Cons_nth_drop_Suc [symmetric] eval_nat_numeral)
    show ?thesis
    proof (cases "pt ! i = pt ! (i + 1)")
      case eq: True
      have "compress_loop pt len i k = compress_loop pt len (i + 2) k"
        using True eq less.prems(1) by (subst compress_loop.simps) (simp add: rd_def)
      moreover have "compress (drop i (take len pt)) = compress (drop (i + 2) (take len pt))"
        using d eq by (simp add: compress.simps)
      moreover have "len - (i + 2) < len - i" "even (len - (i + 2))" using True less.prems(4) by auto
      ultimately show ?thesis using less.hyps [of "i + 2" pt k] True less.prems by auto
    next
      case False
      obtain j where j: "compress_run pt len i = Some j" "i \<le> j" "j + 1 < len" "even (len - j)"
        "run_end (pt ! (i + 1)) (drop (i + 2) (take len pt)) = (pt ! (j + 1), drop (j + 2) (take len pt))"
        using compress_run_eq [OF less.prems(1) True less.prems(4)] by blast
      define pt2 where "pt2 = pt[k := pt ! i, k + 1 := pt[k := pt ! i] ! (j + 1)]"
      have "k \<noteq> j + 1" using less.prems(2) j(2) by simp
      then have y: "pt[k := pt ! i] ! (j + 1) = pt ! (j + 1)" by simp
      have l: "compress_loop pt len i k = compress_loop pt2 len (j + 2) (k + 2)"
        using True False j(1,2,3) less.prems(1,2) by (subst compress_loop.simps) (simp add: rd_def wr_def pt2_def)
      have c: "compress (drop i (take len pt)) = pt ! i # pt ! (j + 1) # compress (drop (j + 2) (take len pt))"
        using d False j(5) by (simp add: compress.simps)
      have t: "take (k + 2) pt2 = take k pt @ [pt ! i, pt ! (j + 1)]"
        unfolding pt2_def y using less.prems j by (intro take_wr_pair) auto
      have dr: "drop (j + 2) (take len pt2) = drop (j + 2) (take len pt)"
        unfolding pt2_def using less.prems(2) j(2)
        by (simp add: drop_take drop_update_cancel)
      have "len - (j + 2) < len - i" "even (len - (j + 2))" "length pt2 = length pt"
        using j True by (auto simp: pt2_def)
      then show ?thesis
        using less.hyps [of "j + 2" pt2 "k + 2"] less.prems j l c t dr by auto
    qed
  qed
qed

section \<open>The merge of two ranges\<close>

text \<open>
  The points that \<open>cr_op\<close> adds after it has consumed \<open>i\<close> and \<open>j\<close> points, when \<open>par\<close> is the parity of
  the result so far.
\<close>

function cr_op_points :: "CharRangeOpEnum \<Rightarrow> u32 list \<Rightarrow> u32 list \<Rightarrow> nat \<Rightarrow> nat \<Rightarrow> bool \<Rightarrow> u32 list" where
  "cr_op_points op a b i j par =
     (case cr_op_next a b i j of
        None \<Rightarrow> []
      | Some (v, i', j') \<Rightarrow>
          if cr_op_in op (odd i') (odd j') \<noteq> par then v # cr_op_points op a b i' j' (\<not> par)
          else cr_op_points op a b i' j' par)"
  by pat_completeness auto
termination
  by (relation "measure (\<lambda>(op, a, b, i, j, par). (length a - i) + (length b - j))")
    (auto simp: cr_op_next_def split: if_splits)

declare cr_op_points.simps [simp del]

lemma cr_op_next_None: "cr_op_next a b i j = None \<longleftrightarrow> length a \<le> i \<and> length b \<le> j"
  by (auto simp: cr_op_next_def)

lemma cr_op_next_cases:
  assumes "cr_op_next a b i j = Some (v, i', j')"
  obtains (both) "i < length a" "j < length b" "b ! j = v" "a ! i = v" "i' = Suc i" "j' = Suc j"
    | (left) "i < length a" "a ! i = v" "j < length b \<Longrightarrow> v < b ! j" "i' = Suc i" "j' = j"
    | (right) "j < length b" "b ! j = v" "i < length a \<Longrightarrow> v < a ! i" "i' = i" "j' = Suc j"
proof -
  consider (1) "i < length a" "j < length b" "a ! i = b ! j" | (2) "i < length a" "j < length b \<longrightarrow> a ! i < b ! j"
    | (3) "j < length b" "i < length a \<longrightarrow> b ! j < a ! i" | (4) "\<not> i < length a" "\<not> j < length b"
    by (meson linorder_less_linear)
  then show ?thesis
  proof cases
    case 1
    show ?thesis by (rule both) (use assms 1 in \<open>simp_all add: cr_op_next_def\<close>)
  next
    case 2
    then have "v = a ! i \<and> i' = Suc i \<and> j' = j"
      using assms by (cases "j < length b") (simp_all add: cr_op_next_def)
    with 2 show ?thesis by (intro left) simp_all
  next
    case 3
    then have "i < length a \<Longrightarrow> \<not> a ! i < b ! j \<and> a ! i \<noteq> b ! j" by auto
    then have "v = b ! j \<and> i' = i \<and> j' = Suc j"
      using assms 3(1) by (cases "i < length a") (simp_all add: cr_op_next_def)
    with 3 show ?thesis by (intro right) simp_all
  next
    case 4
    then show ?thesis using assms by (simp add: cr_op_next_def)
  qed
qed

lemma sorted_drop_ge:
  assumes "sorted xs" "i < length xs \<Longrightarrow> v \<le> xs ! i" "x \<in> set (drop i xs)"
  shows "v \<le> x"
proof -
  have "\<exists>k. x = xs ! (i + k) \<and> i + k < length xs"
    using assms(3) by (auto simp: in_set_conv_nth less_diff_conv add.commute [of i])
  then obtain k where k: "x = xs ! (i + k)" "i + k < length xs" by blast
  then have "xs ! i \<le> x" using assms(1) by (simp add: sorted_nth_mono)
  then show ?thesis using assms(2) k(2) by (meson add_lessD1 order_trans)
qed

lemma below_drop: "i < length xs \<Longrightarrow> below (drop i xs) c = (if xs ! i \<le> c then 1 else 0) + below (drop (Suc i) xs) c"
  by (simp add: Cons_nth_drop_Suc [symmetric])

text \<open>What one step consumes, seen from a code point below the new point and from one that is not.\<close>

lemma cr_op_next_step:
  assumes "cr_op_next a b i j = Some (v, i', j')" "sorted a" "sorted b"
  shows "\<And>c. c < v \<Longrightarrow> below (drop i a) c = 0 \<and> below (drop j b) c = 0"
    and "\<And>c. v \<le> c \<Longrightarrow> i + below (drop i a) c = i' + below (drop i' a) c \<and> j + below (drop j b) c = j' + below (drop j' b) c"
    and "set (drop i' a) \<subseteq> set (drop i a)" "set (drop j' b) \<subseteq> set (drop j b)" "v \<in> set (drop i a) \<union> set (drop j b)"
proof -
  have i: "i < length a \<Longrightarrow> v \<le> a ! i" and j: "j < length b \<Longrightarrow> v \<le> b ! j"
    using assms(1) by (auto elim!: cr_op_next_cases intro: less_imp_le)
  show "below (drop i a) c = 0 \<and> below (drop j b) c = 0" if "c < v" for c
    using sorted_drop_ge [OF assms(2) i] sorted_drop_ge [OF assms(3) j] that
    by (auto intro!: below_none dest: order.strict_trans2)
  show "i + below (drop i a) c = i' + below (drop i' a) c \<and> j + below (drop j b) c = j' + below (drop j' b) c"
    if "v \<le> c" for c
    using assms(1) that by (cases rule: cr_op_next_cases) (simp_all add: below_drop)
  show "set (drop i' a) \<subseteq> set (drop i a)" "set (drop j' b) \<subseteq> set (drop j b)"
    using assms(1) set_drop_subset_set_drop [of i "Suc i" a] set_drop_subset_set_drop [of j "Suc j" b]
    by (cases rule: cr_op_next_cases; simp)+
  show "v \<in> set (drop i a) \<union> set (drop j b)"
    using assms(1) by (cases rule: cr_op_next_cases) (auto simp: Cons_nth_drop_Suc [symmetric])
qed

lemma cr_op_points_spec:
  assumes "sorted a" "sorted b" "par = cr_op_in op (odd i) (odd j)"
  shows "sorted (cr_op_points op a b i j par)
    \<and> set (cr_op_points op a b i j par) \<subseteq> set (drop i a) \<union> set (drop j b)
    \<and> (\<forall>c. (par \<noteq> odd (below (cr_op_points op a b i j par) c))
         = cr_op_in op (odd (i + below (drop i a) c)) (odd (j + below (drop j b) c)))"
  using assms(3)
proof (induction "(length a - i) + (length b - j)" arbitrary: i j par rule: less_induct)
  case less
  show ?case
  proof (cases "cr_op_next a b i j")
    case None
    then have "cr_op_points op a b i j par = []" by (simp add: cr_op_points.simps [of _ _ _ i])
    with None show ?thesis using less.prems by (simp add: cr_op_next_None)
  next
    case (Some n)
    obtain v i' j' where n: "n = (v, i', j')" by (cases n)
    note st = cr_op_next_step [OF Some [unfolded n] assms(1,2)]
    have dec: "(length a - i') + (length b - j') < (length a - i) + (length b - j)"
      using Some n by (auto elim!: cr_op_next_cases)
    define par' where "par' = cr_op_in op (odd i') (odd j')"
    define R where "R = cr_op_points op a b i' j' par'"
    have IH: "sorted R" "set R \<subseteq> set (drop i' a) \<union> set (drop j' b)"
      "(par' \<noteq> odd (below R c)) = cr_op_in op (odd (i' + below (drop i' a) c)) (odd (j' + below (drop j' b) c))" for c
      using less.hyps [OF dec par'_def] unfolding R_def by blast+
    have e: "cr_op_points op a b i j par = (if par' \<noteq> par then v # R else R)"
      using Some n unfolding R_def by (subst cr_op_points.simps) (auto simp: par'_def)
    have ge: "v \<le> x" if "x \<in> set R" for x
    proof (rule ccontr)
      assume "\<not> v \<le> x"
      then have "below (drop i a) x = 0" "below (drop j b) x = 0" using st(1) by (auto simp: not_le)
      then show False using that IH(2) st(3,4) by (fastforce simp: below_def filter_empty_conv)
    qed
    have "below R c = 0" if "c < v" for c using ge that by (intro below_none) (auto dest: order.strict_trans2)
    then have "(par \<noteq> odd (below (if par' \<noteq> par then v # R else R) c))
      = cr_op_in op (odd (i + below (drop i a) c)) (odd (j + below (drop j b) c))" for c
      using IH(3) [of c] st(1,2) [of c] less.prems by (cases "v \<le> c") (auto simp: not_le)
    moreover have "sorted (if par' \<noteq> par then v # R else R)" using IH(1) ge by simp
    moreover have "set (if par' \<noteq> par then v # R else R) \<subseteq> set (drop i a) \<union> set (drop j b)"
      using IH(2) st(3-5) by auto
    ultimately show ?thesis unfolding e by blast
  qed
qed

text \<open>The points of the union, the intersection or the symmetric difference.\<close>

definition cr_op_list :: "CharRangeOpEnum \<Rightarrow> u32 list \<Rightarrow> u32 list \<Rightarrow> u32 list" where
  "cr_op_list op a b = compress (cr_op_points op a b 0 0 False)"

definition cr_valid :: "u32 list \<Rightarrow> bool" where
  "cr_valid xs \<longleftrightarrow> sorted xs \<and> even (length xs)"

lemma cr_op_points_valid:
  assumes "cr_valid a" "cr_valid b"
  shows "cr_valid (cr_op_points op a b 0 0 False)"
    and "cr_mem (cr_op_points op a b 0 0 False) c = cr_op_in op (cr_mem a c) (cr_mem b c)"
proof -
  have in0: "False = cr_op_in op (odd (0 :: nat)) (odd (0 :: nat))" by (cases op) auto
  have "sorted (cr_op_points op a b 0 0 False)"
    "\<forall>c. odd (below (cr_op_points op a b 0 0 False) c) = cr_op_in op (odd (below a c)) (odd (below b c))"
    using cr_op_points_spec [of a b False op 0 0, OF _ _ in0] assms by (simp_all add: cr_valid_def)
  moreover from this(2) have "odd (length (cr_op_points op a b 0 0 False)) = cr_op_in op (odd (length a)) (odd (length b))"
    by (metis below_all)
  ultimately show "cr_valid (cr_op_points op a b 0 0 False)"
    "cr_mem (cr_op_points op a b 0 0 False) c = cr_op_in op (cr_mem a c) (cr_mem b c)"
    using assms by (cases op; simp add: cr_valid_def cr_mem_def)+
qed

definition cr_canonical :: "u32 list \<Rightarrow> bool" where
  "cr_canonical xs \<longleftrightarrow> sorted_wrt (<) xs \<and> even (length xs)"

lemma cr_canonical_valid: "cr_canonical xs \<Longrightarrow> cr_valid xs"
  by (auto simp: cr_canonical_def cr_valid_def strict_sorted_imp_sorted)

lemma compress_canonical: "cr_valid xs \<Longrightarrow> cr_canonical (compress xs)"
  and compress_mem: "cr_valid xs \<Longrightarrow> cr_mem (compress xs) c = cr_mem xs c"
  using compress_spec [of xs] by (auto simp: cr_valid_def cr_canonical_def)

section \<open>Invariant, and the operations over a correct allocator\<close>

definition cr_ok :: "CharRange \<Rightarrow> bool" where
  "cr_ok cr \<longleftrightarrow> cr_len cr \<le> cr_size cr \<and> length (block_cells (cr_points cr)) = cr_size cr"

lemma cr_ok_init [simp]: "cr_ok cr_init" "cr_pts cr_init = []"
  by (simp_all add: cr_ok_def cr_init_def cr_pts_def)

lemma length_cr_pts: "cr_ok cr \<Longrightarrow> length (cr_pts cr) = cr_len cr"
  by (auto simp: cr_ok_def cr_pts_def)

lemma cr_compress_eq:
  assumes "cr_ok cr" "even (cr_len cr)"
  shows "\<exists>cr'. cr_compress cr = Some cr' \<and> cr_ok cr' \<and> cr_pts cr' = compress (cr_pts cr)"
proof -
  obtain pt k where "compress_loop (block_cells (cr_points cr)) (cr_len cr) 0 0 = Some (pt, k)"
    "length pt = length (block_cells (cr_points cr))" "k \<le> cr_len cr" "take k pt = compress (cr_pts cr)"
    using compress_loop_eq [of "cr_len cr" "block_cells (cr_points cr)" 0 0] assms
    by (auto simp: cr_ok_def cr_pts_def)
  then show ?thesis
    using assms by (cases "cr_points cr") (auto simp: cr_compress_def cr_ok_def cr_pts_def)
qed

lemma cr_store_cells:
  assumes "off + length data \<le> length (block_cells (cr_points cr))"
  obtains cr' where "cr_store cr off data = Some cr'" "cr_len cr' = cr_len cr" "cr_size cr' = cr_size cr"
    "block_cells (cr_points cr') = take off (block_cells (cr_points cr)) @ data
       @ drop (off + length data) (block_cells (cr_points cr))"
proof (cases "cr_points cr")
  case None
  with assms show ?thesis by (intro that [of cr]) (auto simp: cr_store_def)
next
  case (Some b)
  with assms show ?thesis
    by (intro that [of "cr\<lparr>cr_points := Some (Block (take off (cells b) @ data
        @ drop (off + length data) (cells b)) (usable b))\<rparr>"]) (auto simp: cr_store_def blit_def)
qed

lemma cr_store_append:
  assumes "cr_ok cr" "cr_len cr + length data \<le> cr_size cr"
  obtains cr' where "cr_store cr (cr_len cr) data = Some cr'" "cr_len cr' = cr_len cr" "cr_size cr' = cr_size cr"
    "cr_ok (cr'\<lparr>cr_len := cr_len cr + length data\<rparr>)"
    "cr_pts (cr'\<lparr>cr_len := cr_len cr + length data\<rparr>) = cr_pts cr @ data"
proof (rule cr_store_cells [of "cr_len cr" data cr])
  show "cr_len cr + length data \<le> length (block_cells (cr_points cr))" using assms by (simp add: cr_ok_def)
next
  fix cr' assume s: "cr_store cr (cr_len cr) data = Some cr'" "cr_len cr' = cr_len cr" "cr_size cr' = cr_size cr"
    "block_cells (cr_points cr') = take (cr_len cr) (block_cells (cr_points cr)) @ data
       @ drop (cr_len cr + length data) (block_cells (cr_points cr))"
  show ?thesis by (rule that [OF s(1-3)]) (use s assms in \<open>auto simp: cr_ok_def cr_pts_def\<close>)
qed

text \<open>The outcome of an operation that should leave the points \<open>pts\<close>.\<close>

definition cr_yields :: "u32 list \<Rightarrow> 'h cr_result \<Rightarrow> bool" where
  "cr_yields pts res \<longleftrightarrow> (\<exists>r h cr. res = Some (r, h, cr) \<and> cr_ok cr \<and> (r = 0 \<and> cr_pts cr = pts \<or> r = -1))"

locale cr_alloc = realloc_contract ra
  for ra :: "'h \<Rightarrow> u32 block option \<Rightarrow> nat \<Rightarrow> u32 block option \<times> 'h"
begin

lemma cr_realloc_spec:
  assumes "cr_ok cr" "cr_realloc ra h cr n = (r, h', cr')"
  shows "cr_ok cr' \<and> cr_len cr' = cr_len cr \<and> cr_pts cr' = cr_pts cr \<and> (r = 0 \<and> n \<le> cr_size cr' \<or> r = -1)"
proof (cases "n > cr_size cr")
  case False
  with assms show ?thesis by (auto simp: cr_realloc_def)
next
  case True
  let ?n = "max n (cr_size cr * 3 div 2)"
  obtain nb h1 where p: "ra h (cr_points cr) ?n = (nb, h1)" by fastforce
  show ?thesis
  proof (cases nb)
    case None
    with True p assms show ?thesis by (auto simp: cr_realloc_def)
  next
    case (Some b)
    have len: "length (block_cells (cr_points cr)) = cr_size cr" "cr_len cr \<le> cr_size cr"
      using assms(1) by (simp_all add: cr_ok_def)
    have "take (cr_size cr) (cells b) = block_cells (cr_points cr)" "length (cells b) = ?n"
      using ra_prefix [of h "cr_points cr" ?n b h1] ra_length [of h "cr_points cr" ?n b h1] p Some len True by auto
    moreover from this have "take (cr_len cr) (cells b) = take (cr_len cr) (block_cells (cr_points cr))"
      using len(2) by (metis min.absorb1 take_take)
    ultimately show ?thesis using p Some True assms len by (auto simp: cr_realloc_def Let_def cr_ok_def cr_pts_def)
  qed
qed

lemma cr_grow_spec:
  assumes "cr_ok cr" "(if P then cr_realloc ra h cr n else (0, h, cr)) = (r, h', cr')" "\<not> P \<Longrightarrow> n \<le> cr_size cr"
  shows "cr_ok cr' \<and> cr_len cr' = cr_len cr \<and> cr_pts cr' = cr_pts cr \<and> (r = 0 \<and> n \<le> cr_size cr' \<or> r = -1)"
  using assms cr_realloc_spec [of cr h n r h' cr'] by (cases P) auto

lemma cr_add_point_spec:
  assumes "cr_ok cr"
  shows "cr_yields (cr_pts cr @ [v]) (cr_add_point ra h cr v)"
proof -
  let ?g = "if cr_len cr \<ge> cr_size cr then cr_realloc ra h cr (cr_len cr + 1) else (0, h, cr)"
  obtain r h1 cr1 where g: "?g = (r, h1, cr1)" using prod_cases3 by blast
  have s: "cr_ok cr1" "cr_len cr1 = cr_len cr" "cr_pts cr1 = cr_pts cr" "r = 0 \<and> cr_len cr + 1 \<le> cr_size cr1 \<or> r = -1"
    using cr_grow_spec [OF assms g] by auto
  show ?thesis
  proof (cases "r = 0")
    case True
    obtain cr2 where "cr_store cr1 (cr_len cr1) [v] = Some cr2" "cr_len cr2 = cr_len cr1"
      "cr_ok (cr2\<lparr>cr_len := cr_len cr1 + 1\<rparr>)" "cr_pts (cr2\<lparr>cr_len := cr_len cr1 + 1\<rparr>) = cr_pts cr1 @ [v]"
      using cr_store_append [of cr1 "[v]"] s True by auto
    then show ?thesis unfolding cr_add_point_def g cr_yields_def using True s by simp
  next
    case False
    then show ?thesis unfolding cr_add_point_def g cr_yields_def using s by auto
  qed
qed

lemma cr_add_interval_spec:
  assumes "cr_ok cr"
  shows "cr_yields (cr_pts cr @ [c1, c2]) (cr_add_interval ra h cr c1 c2)"
proof -
  let ?g = "if cr_len cr + 2 > cr_size cr then cr_realloc ra h cr (cr_len cr + 2) else (0, h, cr)"
  obtain r h1 cr1 where g: "?g = (r, h1, cr1)" using prod_cases3 by blast
  have s: "cr_ok cr1" "cr_len cr1 = cr_len cr" "cr_pts cr1 = cr_pts cr" "r = 0 \<and> cr_len cr + 2 \<le> cr_size cr1 \<or> r = -1"
    using cr_grow_spec [OF assms g] by auto
  show ?thesis
  proof (cases "r = 0")
    case True
    obtain cr2 where 2: "cr_store cr1 (cr_len cr1) [c1] = Some cr2" "cr_len cr2 = cr_len cr1" "cr_size cr2 = cr_size cr1"
      "cr_ok (cr2\<lparr>cr_len := cr_len cr1 + 1\<rparr>)" "cr_pts (cr2\<lparr>cr_len := cr_len cr1 + 1\<rparr>) = cr_pts cr1 @ [c1]"
      using cr_store_append [of cr1 "[c1]"] s True by auto
    let ?cr = "cr2\<lparr>cr_len := cr_len cr1 + 1\<rparr>"
    obtain cr3 where "cr_store ?cr (cr_len cr1 + 1) [c2] = Some cr3" "cr_len cr3 = cr_len cr1 + 1"
      "cr_ok (cr3\<lparr>cr_len := cr_len cr1 + 2\<rparr>)" "cr_pts (cr3\<lparr>cr_len := cr_len cr1 + 2\<rparr>) = cr_pts cr1 @ [c1, c2]"
      using cr_store_append [of ?cr "[c2]"] 2 s True by auto
    then show ?thesis unfolding cr_add_interval_def g cr_yields_def using 2 True s by simp
  next
    case False
    then show ?thesis unfolding cr_add_interval_def g cr_yields_def using s by auto
  qed
qed

lemma cr_copy_spec:
  assumes "cr_ok cr" "cr_ok cr1"
  shows "cr_yields (cr_pts cr1) (cr_copy ra h cr cr1)"
proof -
  obtain r h1 cr2 where g: "cr_realloc ra h cr (cr_len cr1) = (r, h1, cr2)" using prod_cases3 by blast
  note s = cr_realloc_spec [OF assms(1) g]
  have sl: "slice (block_cells (cr_points cr1)) 0 (cr_len cr1) = Some (cr_pts cr1)"
    using assms(2) by (simp add: slice_def cr_ok_def cr_pts_def)
  show ?thesis
  proof (cases "r = 0")
    case True
    have "0 + length (cr_pts cr1) \<le> length (block_cells (cr_points cr2))"
      using s True assms(2) by (auto simp: cr_ok_def length_cr_pts)
    then obtain cr3 where "cr_store cr2 0 (cr_pts cr1) = Some cr3" "cr_size cr3 = cr_size cr2"
      "block_cells (cr_points cr3) = cr_pts cr1 @ drop (length (cr_pts cr1)) (block_cells (cr_points cr2))"
      using cr_store_cells [of 0 "cr_pts cr1" cr2] by auto
    then show ?thesis unfolding cr_copy_def g cr_yields_def using True s sl assms(2)
      by (auto simp: cr_ok_def cr_pts_def)
  next
    case False
    then show ?thesis unfolding cr_copy_def g cr_yields_def using s by auto
  qed
qed

lemma cr_op_loop_eq:
  assumes "cr_ok cr"
  shows "cr_yields (cr_pts cr @ cr_op_points op a b i j (odd (cr_len cr))) (cr_op_loop ra h cr a b op i j)"
  using assms
proof (induction "(length a - i) + (length b - j)" arbitrary: h cr i j rule: less_induct)
  case less
  show ?case
  proof (cases "cr_op_next a b i j")
    case None
    then have "cr_op_loop ra h cr a b op i j = Some (0, h, cr)" "cr_op_points op a b i j (odd (cr_len cr)) = []"
      by (simp_all add: cr_op_loop.simps [of _ _ _ _ _ _ i] cr_op_points.simps [of _ _ _ i])
    then show ?thesis using less.prems by (simp add: cr_yields_def)
  next
    case (Some n)
    obtain v i' j' where n: "n = (v, i', j')" by (cases n)
    have dec: "(length a - i') + (length b - j') < (length a - i) + (length b - j)"
      using Some n by (auto elim!: cr_op_next_cases)
    note unf = cr_op_loop.simps [of ra h cr a b op i j, unfolded Some n option.case prod.case]
    note pts = cr_op_points.simps [of op a b i j, unfolded Some n option.case prod.case]
    show ?thesis
    proof (cases "cr_op_in op (odd i') (odd j') = odd (cr_len cr)")
      case True
      then show ?thesis using less.hyps [OF dec less.prems] by (simp add: unf pts)
    next
      case False
      obtain r h1 cr1 where p: "cr_add_point ra h cr v = Some (r, h1, cr1)" "cr_ok cr1"
        "r = 0 \<and> cr_pts cr1 = cr_pts cr @ [v] \<or> r = -1"
        using cr_add_point_spec [OF less.prems] unfolding cr_yields_def by blast
      show ?thesis
      proof (cases "r = 0")
        case True
        then have "cr_pts cr1 = cr_pts cr @ [v]" using p(3) by simp
        moreover from this have "cr_len cr1 = Suc (cr_len cr)"
          using length_cr_pts [OF p(2)] length_cr_pts [OF less.prems] by simp
        ultimately show ?thesis
          using less.hyps [OF dec p(2), of h1] False True p(1) by (simp add: unf pts)
      next
        case False
        then show ?thesis
          using \<open>cr_op_in op (odd i') (odd j') \<noteq> odd (cr_len cr)\<close> p by (simp add: unf cr_yields_def)
      qed
    qed
  qed
qed

lemma cr_op_eq:
  assumes "cr_ok cr" "cr_pts cr = []" "cr_valid a" "cr_valid b"
  shows "cr_yields (cr_op_list op a b) (cr_op ra h cr a b op)"
proof -
  have len: "cr_len cr = 0" using length_cr_pts [OF assms(1)] assms(2) by simp
  obtain r h1 cr1 where l: "cr_op_loop ra h cr a b op 0 0 = Some (r, h1, cr1)" "cr_ok cr1"
    "r = 0 \<and> cr_pts cr1 = cr_op_points op a b 0 0 False \<or> r = -1"
    using cr_op_loop_eq [OF assms(1), of op a b 0 0 h] len assms(2) unfolding cr_yields_def by auto
  show ?thesis
  proof (cases "r = 0")
    case True
    then have p: "cr_pts cr1 = cr_op_points op a b 0 0 False" using l(3) by simp
    then have "even (cr_len cr1)"
      using cr_op_points_valid(1) [OF assms(3,4), of op] length_cr_pts [OF l(2)] by (simp add: cr_valid_def)
    then show ?thesis
      using cr_compress_eq [OF l(2)] True p l(1) by (auto simp: cr_op_def cr_yields_def cr_op_list_def)
  next
    case False
    then show ?thesis using l by (auto simp: cr_op_def cr_yields_def)
  qed
qed

lemma cr_union1_eq:
  assumes "cr_valid (cr_pts cr)" "cr_valid b"
  shows "cr_yields (cr_op_list CR_OP_UNION (cr_pts cr) b) (cr_union1 ra h cr b)"
proof -
  let ?cr = "cr\<lparr>cr_len := 0, cr_size := 0, cr_points := None\<rparr>"
  have "cr_ok ?cr" "cr_pts ?cr = []" by (simp_all add: cr_ok_def cr_pts_def)
  from cr_op_eq [OF this assms, of CR_OP_UNION h] show ?thesis
    by (auto simp: cr_union1_def cr_yields_def)
qed

lemma cr_invert_eq:
  assumes "cr_ok cr" "cr_valid (cr_pts cr)"
  shows "cr_yields (compress (0 # cr_pts cr @ [UINT32_MAX])) (cr_invert ra h cr)"
proof -
  obtain r h1 cr1 where g: "cr_realloc ra h cr (cr_len cr + 2) = (r, h1, cr1)" using prod_cases3 by blast
  have s: "cr_ok cr1" "cr_len cr1 = cr_len cr" "cr_pts cr1 = cr_pts cr" "r = 0 \<and> cr_len cr + 2 \<le> cr_size cr1 \<or> r = -1"
    using cr_realloc_spec [OF assms(1) g] by auto
  show ?thesis
  proof (cases "r = 0")
    case True
    let ?n = "cr_len cr" and ?p = "cr_pts cr"
    have lp: "length ?p = ?n" using assms(1) by (rule length_cr_pts)
    have l1: "?n + 2 \<le> length (block_cells (cr_points cr1))" using s True by (simp add: cr_ok_def)
    have sl: "slice (block_cells (cr_points cr1)) 0 ?n = Some ?p"
      using l1 s(2,3) by (simp add: slice_def cr_pts_def)
    obtain cr2 where 2: "cr_store cr1 1 ?p = Some cr2" "cr_size cr2 = cr_size cr1"
      "block_cells (cr_points cr2) = take 1 (block_cells (cr_points cr1)) @ ?p @ drop (1 + ?n) (block_cells (cr_points cr1))"
      using cr_store_cells [of 1 ?p cr1] l1 lp by auto
    obtain cr3 where 3: "cr_store cr2 0 [0] = Some cr3" "cr_size cr3 = cr_size cr1"
      "block_cells (cr_points cr3) = [0] @ ?p @ drop (1 + ?n) (block_cells (cr_points cr1))"
      using cr_store_cells [of 0 "[0]" cr2] 2 l1 lp by auto
    obtain cr4 where 4: "cr_store cr3 (?n + 1) [UINT32_MAX] = Some cr4" "cr_size cr4 = cr_size cr1"
      "block_cells (cr_points cr4) = (0 # ?p) @ [UINT32_MAX] @ drop (?n + 2) (block_cells (cr_points cr1))"
    proof (rule cr_store_cells [of "?n + 1" "[UINT32_MAX]" cr3])
      show "?n + 1 + length [UINT32_MAX] \<le> length (block_cells (cr_points cr3))" using 3(3) l1 lp by simp
    next
      fix cr' assume "cr_store cr3 (?n + 1) [UINT32_MAX] = Some cr'" "cr_size cr' = cr_size cr3"
        "block_cells (cr_points cr') = take (?n + 1) (block_cells (cr_points cr3)) @ [UINT32_MAX]
          @ drop (?n + 1 + length [UINT32_MAX]) (block_cells (cr_points cr3))"
      then show ?thesis using 3(2,3) lp by (intro that [of cr']) simp_all
    qed
    let ?cr = "cr4\<lparr>cr_len := ?n + 2\<rparr>"
    have "cr_ok ?cr" "cr_pts ?cr = 0 # ?p @ [UINT32_MAX]" "even (cr_len ?cr)"
      using 4 l1 lp s(1) assms(2) by (auto simp: cr_ok_def cr_pts_def cr_valid_def)
    then obtain cr5 where "cr_compress ?cr = Some cr5" "cr_ok cr5" "cr_pts cr5 = compress (0 # ?p @ [UINT32_MAX])"
      using cr_compress_eq [of ?cr] by auto
    then show ?thesis unfolding cr_invert_def Let_def g cr_yields_def using True sl 2(1) 3(1) 4(1) by simp
  next
    case False
    then show ?thesis unfolding cr_invert_def Let_def g cr_yields_def using s by auto
  qed
qed

end

interpretation default_cr: cr_alloc "default_realloc 4" ..

interpretation js_cr: cr_alloc "js_realloc_rt 4" ..

section \<open>Properties\<close>

lemma cr_op_list_spec:
  assumes "cr_valid a" "cr_valid b"
  shows "cr_canonical (cr_op_list op a b)" "cr_mem (cr_op_list op a b) c = cr_op_in op (cr_mem a c) (cr_mem b c)"
  using cr_op_points_valid [OF assms, of op] compress_canonical compress_mem by (simp_all add: cr_op_list_def)

lemma cr_invert_points:
  assumes "cr_valid xs"
  shows "cr_canonical (compress (0 # xs @ [UINT32_MAX]))"
    and "c \<noteq> UINT32_MAX \<Longrightarrow> cr_mem (compress (0 # xs @ [UINT32_MAX])) c \<longleftrightarrow> \<not> cr_mem xs c"
proof -
  have top: "UINT32_MAX = - 1" by (simp add: UINT32_MAX_def)
  have v: "cr_valid (0 # xs @ [UINT32_MAX])"
    using assms by (auto simp: cr_valid_def sorted_append top word_order.extremum)
  show "cr_canonical (compress (0 # xs @ [UINT32_MAX]))" by (rule compress_canonical [OF v])
  assume "c \<noteq> UINT32_MAX"
  then have "\<not> UINT32_MAX \<le> c" by (simp add: top word_order.extremum_unique)
  then show "cr_mem (compress (0 # xs @ [UINT32_MAX])) c \<longleftrightarrow> \<not> cr_mem xs c"
    unfolding compress_mem [OF v] by (simp add: cr_mem_def)
qed





text \<open>
  Adding the interval \<open>[c1, c2]\<close> with \<open>cr_union_interval\<close> adds exactly its code points, unless \<open>c2\<close> is
  \<open>UINT32_MAX\<close>, where the end point \<open>c2 + 1\<close> wraps around to 0.
\<close>

theorem cr_union_interval_correct:
  assumes "cr_valid (cr_pts cr)" "c1 \<le> c2" "c2 \<noteq> UINT32_MAX"
  shows "\<exists>r h' cr'. cr_union_interval (js_realloc_rt 4) h cr c1 c2 = Some (r, h', cr') \<and> cr_ok cr'
    \<and> (r = -1 \<or> r = 0 \<and> cr_canonical (cr_pts cr')
         \<and> (\<forall>c. cr_mem (cr_pts cr') c = (cr_mem (cr_pts cr) c \<or> c1 \<le> c \<and> c \<le> c2)))"
proof -
  have "UINT32_MAX = - 1" by (simp add: UINT32_MAX_def)
  then have "1 + c2 \<noteq> 0" using assms(3) by (metis add.commute eq_neg_iff_add_eq_0)
  then have "unat (c2 + 1) = Suc (unat c2)" using unatSuc [of c2] by (simp add: add.commute)
  then have lt: "c < c2 + 1 \<longleftrightarrow> c \<le> c2" for c by (simp add: word_less_nat_alt word_le_nat_alt less_Suc_eq_le)
  then have b: "cr_valid [c1, c2 + 1]" using assms(2) by (auto simp: cr_valid_def intro: less_imp_le)
  have "cr_mem [c1, c2 + 1] c \<longleftrightarrow> c1 \<le> c \<and> c \<le> c2" for c
    using b cr_mem_intervals [of c1 "c2 + 1" "[]" c] lt [of c] by (simp add: cr_valid_def cr_mem_def)
  then show ?thesis
    using js_cr.cr_union1_eq [OF assms(1) b, of h] cr_op_list_spec [OF assms(1) b, of CR_OP_UNION]
    unfolding cr_yields_def cr_union_interval_def by auto
qed

theorem cr_union_interval_correct_witness:
  "\<exists>r h' cr'. cr_union_interval (js_realloc_rt 4)
      \<lparr>malloc_count = 0, malloc_size = 0, malloc_limit = 1000, libc = \<lambda>_. Grant 0 (\<lambda>_. 7)\<rparr> cr_init 65 90 = Some (r, h', cr') \<and> cr_ok cr'
    \<and> (r = -1 \<or> r = 0 \<and> cr_canonical (cr_pts cr')
         \<and> (\<forall>c. cr_mem (cr_pts cr') c = (cr_mem (cr_pts cr_init) c \<or> 65 \<le> c \<and> c \<le> 90)))"
  by (rule cr_union_interval_correct) (simp_all add: cr_valid_def UINT32_MAX_def)

end
