(* ===== verification/Unicode_Prop_Tables.thy ===== *)
theory Unicode_Prop_Tables
  imports Unicode_Tables
begin

text \<open>
  The tables of \<open>libunicode-table.h\<close> for general categories, scripts and binary properties, with the
  tables of their names, as they are in the source.
\<close>

definition unicode_prop_Hyphen_table :: "u8 list" where
  "unicode_prop_Hyphen_table =
     [0xac, 0x80, 0xfe, 0x80, 0x44, 0xdb, 0x80, 0x52, 0x7a, 0x80, 0x48, 8, 0x81, 0x4e, 4, 0x80, 0x42, 0xe2, 0x80, 0x60,
      0xcd, 0x66, 0x80, 0x40, 0xa8, 0x80, 0xd6, 0x80]"

definition unicode_prop_Other_Math_table :: "u8 list" where
  "unicode_prop_Other_Math_table =
     [0xdd, 0x80, 0x43, 0x70, 0x11, 0x80, 0x99, 9, 0x81, 0x5c, 0x1f, 0x80, 0x9a, 0x82, 0x8a, 0x80, 0x9f, 0x83, 0x97, 0x81,
      0x8d, 0x81, 0xc0, 0x8c, 0x18, 0x11, 0x1c, 0x91, 3, 1, 0x89, 0, 0x14, 0x28, 0x11, 9, 2, 5, 0x13, 0x24,
      0xca, 0x21, 0x18, 8, 8, 0, 0x21, 0xb, 0xb, 0x91, 9, 0, 6, 0, 0x29, 0x41, 0x21, 0x83, 0x40, 0xa7,
      8, 0x80, 0x97, 0x80, 0x90, 0x80, 0x41, 0xbc, 0x81, 0x8b, 0x88, 0x24, 0x21, 9, 0x14, 0x8d, 0, 1, 0x85, 0x97,
      0x81, 0xb8, 0, 0x80, 0x9c, 0x83, 0x88, 0x81, 0x41, 0x55, 0x81, 0x9e, 0x89, 0x41, 0x92, 0x95, 0xbe, 0x83, 0x9f, 0x81,
      0x60, 0xd4, 0x62, 0, 3, 0x80, 0x40, 0xd2, 0, 0x80, 0x60, 0xd4, 0xc0, 0xd4, 0x80, 0xc6, 1, 8, 9, 0xb,
      0x80, 0x8b, 0, 6, 0x80, 0xc0, 3, 0xf, 6, 0x80, 0x9b, 3, 4, 0, 0x16, 0x80, 0x41, 0x53, 0x81, 0x98,
      0x80, 0x98, 0x80, 0x9e, 0x80, 0x98, 0x80, 0x9e, 0x80, 0x98, 0x80, 0x9e, 0x80, 0x98, 0x80, 0x9e, 0x80, 0x98, 7, 0x81,
      0xb1, 0x55, 0xff, 0x18, 0x9a, 1, 0, 8, 0x80, 0x89, 3, 0, 0, 0x28, 0x18, 0, 0, 2, 1, 0,
      8, 0, 0, 0, 0, 1, 0, 0xb, 6, 3, 3, 0, 0x80, 0x89, 0x80, 0x90, 0x22, 4, 0x80, 0x90]"

definition unicode_prop_Other_Alphabetic_table :: "u8 list" where
  "unicode_prop_Other_Alphabetic_table =
     [0x43, 0x44, 0x80, 0x42, 0x69, 0x8d, 0, 1, 1, 0, 0xc7, 0x8a, 0xaf, 0x8c, 6, 0x8f, 0x80, 0xe4, 0x33, 0x19,
      0xb, 0x80, 0xa2, 0x80, 0x9d, 0x8f, 0xe5, 0x8a, 0xe4, 0xa, 0x88, 2, 3, 0x40, 0xa6, 0x8b, 0x16, 0x85, 0x93, 0xb5,
      9, 0x8e, 1, 0x22, 0x89, 0x81, 0x9c, 0x82, 0xb9, 0x31, 9, 0x81, 0x89, 0x80, 0x89, 0x81, 0x9c, 0x82, 0xb9, 0x23,
      9, 0xb, 0x80, 0x9d, 0xa, 0x80, 0x8a, 0x82, 0xb9, 0x38, 0x10, 0x81, 0x94, 0x81, 0x95, 0x13, 0x82, 0xb9, 0x31, 9,
      0x81, 0x88, 0x81, 0x89, 0x81, 0x9d, 0x80, 0xba, 0x22, 0x10, 0x82, 0x89, 0x80, 0xa7, 0x83, 0xb9, 0x30, 0x10, 0x17, 0x81,
      0x8a, 0x81, 0x9c, 0x82, 0xb9, 0x30, 0x10, 0x17, 0x81, 0x8a, 0x81, 0x9b, 0x83, 0xb9, 0x30, 0x10, 0x82, 0x89, 0x80, 0x89,
      0x81, 0x9d, 0x81, 0xca, 0x28, 0, 0x87, 0x91, 0x81, 0xbc, 1, 0x86, 0x91, 0x80, 0xe2, 1, 0x28, 0x81, 0x8f, 0x80,
      0x40, 0xa2, 0x90, 0x8a, 0x8a, 0x80, 0xa3, 0xed, 0x8b, 0, 0xb, 0x96, 0x1b, 0x10, 0x11, 0x32, 0x83, 0x8c, 0x8b, 0,
      0x89, 0x83, 0x46, 0x73, 0x81, 0x9d, 0x81, 0x9d, 0x81, 0x9d, 0x81, 0xc1, 0x92, 0x40, 0xbb, 0x81, 0xa1, 0x80, 0xf5, 0x8b,
      0x83, 0x88, 0x40, 0xdd, 0x84, 0xb8, 0x89, 0x81, 0x93, 0x40, 0x8a, 0x84, 0xaf, 0x8e, 0xbb, 0x82, 0x9d, 0x88, 9, 0xb8,
      0x8a, 0xb1, 0x92, 0x41, 0xaf, 0x8d, 0x46, 0xc0, 0xb3, 0x48, 0xf5, 0x9f, 0x60, 0x78, 0x73, 0x87, 0xa1, 0x81, 0x41, 0x61,
      7, 0x80, 0x96, 0x84, 0xd7, 0x81, 0xb1, 0x8f, 0, 0xb8, 0x80, 0xa5, 0x84, 0x9b, 0x8b, 0xac, 0x83, 0xaf, 0x8b, 0xa4,
      0x80, 0xc2, 0x8d, 0x8b, 7, 0x81, 0xac, 0x82, 0xb1, 0, 0x11, 0xc, 0x80, 0xab, 0x24, 0x80, 0x40, 0xec, 0x87, 0x60,
      0x4f, 0x32, 0x80, 0x48, 0x56, 0x84, 0x46, 0x85, 0x10, 0xc, 0x83, 0x43, 0x13, 0x83, 0x42, 0xd7, 0x82, 0xb4, 0x8d, 0xbb,
      0x80, 0xac, 0x88, 0xc6, 0x82, 0xa3, 0x8b, 0x91, 0x81, 0xb8, 0x82, 0xaf, 0x8c, 0xeb, 0x88, 8, 0x28, 0x40, 0x9f, 0x89,
      0x96, 0x83, 0xb9, 0x31, 9, 0x81, 0x89, 0x80, 0x89, 0x81, 0x40, 0xd0, 0x8c, 2, 0xe9, 0x91, 0x40, 0xec, 0x31, 0x86,
      0x9c, 0x81, 0xd1, 0x8e, 0, 0xe9, 0x8a, 0xe6, 0x8d, 0x41, 0, 0x8c, 0x41, 0x97, 0x31, 0x2b, 0x80, 0x9b, 0x89, 0xa9,
      0x20, 0x83, 0x91, 0x8a, 0xad, 0x8d, 0x41, 0x96, 0x38, 0x86, 0xd2, 0x95, 0x80, 0x8d, 0xf9, 0x2a, 0, 8, 0x10, 2,
      0x80, 0xc1, 0x20, 8, 0x83, 0x41, 0x5b, 0x83, 0x60, 0x50, 0x57, 0, 0xb6, 0x33, 0x60, 0x4d, 0xa, 0x80, 0x60, 0x23,
      0x60, 0x30, 0x90, 0xe, 1, 4, 0x49, 0x1b, 0x80, 0x47, 0xe7, 0x99, 0x85, 0x99, 0x85, 0x99]"

definition unicode_prop_Other_Lowercase_table :: "u8 list" where
  "unicode_prop_Other_Lowercase_table =
     [0x40, 0xa9, 0x80, 0x8e, 0x80, 0x41, 0xf4, 0x88, 0x31, 0x9d, 0x84, 0xdf, 0x80, 0xb3, 0x80, 0x59, 0xb0, 0xbe, 0x8c, 0x80,
      0xa1, 0xa4, 0x42, 0xb0, 0x80, 0x8c, 0x80, 0x8f, 0x8c, 0x40, 0xd2, 0x8f, 0x43, 0x4f, 0x99, 0x47, 0x91, 0x81, 0x60, 0x7a,
      0x1d, 0x81, 0x40, 0xd1, 0x80, 0x40, 0x86, 0x81, 0x43, 0x61, 0x83]"

definition unicode_prop_Other_Uppercase_table :: "u8 list" where
  "unicode_prop_Other_Uppercase_table =
     [0x60, 0x21, 0x5f, 0x8f, 0x43, 0x45, 0x99, 0x61, 0xcc, 0x5f, 0x99, 0x85, 0x99, 0x85, 0x99]"

definition unicode_prop_Other_Grapheme_Extend_table :: "u8 list" where
  "unicode_prop_Other_Grapheme_Extend_table =
     [0x49, 0xbd, 0x80, 0x97, 0x80, 0x41, 0x65, 0x80, 0x97, 0x80, 0xe5, 0x80, 0x97, 0x80, 0x40, 0xe9, 0x80, 0x91, 0x81, 0xe6,
      0x80, 0x97, 0x80, 0xf6, 0x80, 0x8e, 0x80, 0x4d, 0x54, 0x80, 0x44, 0xd5, 0x80, 0x50, 0x20, 0x81, 0x60, 0xcf, 0x6d, 0x81,
      0x53, 0x9d, 0x80, 0x97, 0x80, 0x41, 0x57, 0x80, 0x8b, 0x80, 0x40, 0xf0, 0x80, 0x60, 0xbb, 0xb4, 7, 0x84, 0x6c, 0x2e,
      0xac, 0xdf]"

definition unicode_prop_Other_Default_Ignorable_Code_Point_table :: "u8 list" where
  "unicode_prop_Other_Default_Ignorable_Code_Point_table =
     [0x43, 0x4e, 0x80, 0x4e, 0xe, 0x81, 0x46, 0x52, 0x81, 0x48, 0xae, 0x80, 0x50, 0xfd, 0x80, 0x60, 0xce, 0x3a, 0x80, 0xce,
      0x88, 0x6d, 0, 6, 0, 0x9d, 0xdf, 0xff, 0x40, 0xef, 0x4e, 0xf]"

definition unicode_prop_Other_ID_Start_table :: "u8 list" where
  "unicode_prop_Other_ID_Start_table =
     [0x58, 0x84, 0x81, 0x48, 0x90, 0x80, 0x94, 0x80, 0x4f, 0x6b, 0x81]"

definition unicode_prop_Other_ID_Continue_table :: "u8 list" where
  "unicode_prop_Other_ID_Continue_table =
     [0x40, 0xb6, 0x80, 0x42, 0xce, 0x80, 0x4f, 0xe0, 0x88, 0x46, 0x67, 0x80]"

definition unicode_prop_Prepended_Concatenation_Mark_table :: "u8 list" where
  "unicode_prop_Prepended_Concatenation_Mark_table =
     [0x45, 0xff, 0x85, 0x40, 0xd6, 0x80, 0xb0, 0x80, 0x41, 0xd1, 0x80, 0x61, 7, 0xd9, 0x80, 0x8e, 0x80]"

definition unicode_prop_XID_Start1_table :: "u8 list" where
  "unicode_prop_XID_Start1_table =
     [0x43, 0x79, 0x80, 0x4a, 0xb7, 0x80, 0xfe, 0x80, 0x60, 0x21, 0xe6, 0x81, 0x60, 0xcb, 0xc0, 0x85, 0x41, 0x95, 0x81, 0xf3,
      0, 0, 0, 0, 0, 0, 0, 0x80, 0x41, 0x1e, 0x81]"

definition unicode_prop_XID_Continue1_table :: "u8 list" where
  "unicode_prop_XID_Continue1_table =
     [0x43, 0x79, 0x80, 0x60, 0x2d, 0x1f, 0x81, 0x60, 0xcb, 0xc0, 0x85, 0x41, 0x95, 0x81, 0xf3, 0, 0, 0, 0, 0,
      0, 0, 0x80]"

definition unicode_prop_Changes_When_Titlecased1_table :: "u8 list" where
  "unicode_prop_Changes_When_Titlecased1_table =
     [0x41, 0xc3, 8, 8, 0x81, 0xa4, 0x81, 0x4e, 0xdc, 0xaa, 0xa, 0x4e, 0x87, 0x3f, 0x3f, 0x87, 0x8b, 0x80, 0x8e, 0x80,
      0xae, 0x80]"

definition unicode_prop_Changes_When_Casefolded1_table :: "u8 list" where
  "unicode_prop_Changes_When_Casefolded1_table =
     [0x40, 0xde, 0x80, 0xcf, 0x80, 0x97, 0x80, 0x44, 0x3c, 0x80, 0x59, 0x11, 0x80, 0x40, 0xe4, 0x3f, 0x3f, 0x87, 0x89, 0x11,
      5, 2, 0x11, 0x80, 0xa9, 0x11, 0x80, 0x60, 0xdb, 7, 0x86, 0x8b, 0x84]"

definition unicode_prop_Changes_When_NFKC_Casefolded1_table :: "u8 list" where
  "unicode_prop_Changes_When_NFKC_Casefolded1_table =
     [0x40, 0x9f, 6, 0, 1, 0, 1, 0x12, 0x10, 0x82, 0x9f, 0x80, 0xcf, 1, 0x80, 0x8b, 7, 0x80, 0xfb, 1,
      1, 0x80, 0xa5, 0x80, 0x40, 0xbb, 0x88, 0x9e, 0x29, 0x84, 0xda, 8, 0x81, 0x89, 0x80, 0xa3, 4, 2, 4, 8,
      0x80, 0xc9, 0x82, 0x9c, 0x80, 0x41, 0x93, 0x80, 0x40, 0x93, 0x80, 0xd7, 0x83, 0x42, 0xde, 0x87, 0xfb, 8, 0x80, 0xd2,
      1, 0x80, 0xa1, 0x11, 0x80, 0x40, 0xfc, 0x81, 0x42, 0xd4, 0x80, 0xfe, 0x80, 0xa7, 0x81, 0xad, 0x80, 0xb5, 0x80, 0x88,
      3, 3, 3, 0x80, 0x8b, 0x80, 0x88, 0, 0x26, 0x80, 0x90, 0x80, 0x88, 3, 3, 3, 0x80, 0x8b, 0x80, 0x41,
      0x41, 0x80, 0xe1, 0x81, 0x46, 0x52, 0x81, 0xd4, 0x83, 0x45, 0x1c, 0x10, 0x8a, 0x80, 0x91, 0x80, 0x9b, 0x8c, 0x80, 0xa1,
      0xa4, 0x40, 0xd9, 0x80, 0x40, 0xd5, 0, 0, 0, 0, 0, 0, 1, 0x3f, 0x3f, 0x87, 0x89, 0x11, 4, 0,
      0x29, 4, 0x12, 0x80, 0x88, 0x12, 0x80, 0x88, 0x11, 0x11, 4, 8, 0x8f, 0, 0x20, 0x8b, 0x12, 0x2a, 8, 0xb,
      0, 7, 0x82, 0x8c, 6, 0x92, 0x81, 0x9a, 0x80, 0x8c, 0x8a, 0x80, 0xd6, 0x18, 0x10, 0x8a, 1, 0xc, 0xa, 0,
      0x10, 0x11, 2, 6, 5, 0x1c, 0x85, 0x8f, 0x8f, 0x8f, 0x88, 0x80, 0x40, 0xa1, 8, 0x81, 0x40, 0xf7, 0x81, 0x41,
      0x34, 0xd5, 0x99, 0x9a, 0x45, 0x20, 0x80, 0xe6, 0x82, 0xe4, 0x80, 0x41, 0x9e, 0x81, 0x40, 0xf0, 0x80, 0x41, 0x2e, 0x80,
      0xd2, 0x80, 0x8b, 0x40, 0xd5, 0xa9, 0x80, 0xb4, 0, 0x82, 0xdf, 9, 0x80, 0xde, 0x80, 0xb0, 0xdd, 0x82, 0x8d, 0xdf,
      0x9e, 0x80, 0xa7, 0x87, 0xae, 0x80, 0x41, 0x7f, 0x60, 0x72, 0x9b, 0x81, 0x40, 0xd1, 0x80, 0x40, 0x86, 0x81, 0x43, 0x61,
      0x83, 0x60, 0x4d, 0x9f, 0x41, 0xd, 8, 0, 0x81, 0x89, 0, 0, 9, 0x82, 0xc3, 0x81, 0xe9, 0xa5, 0x86, 0x8b,
      0x24, 0, 0x97, 4, 0, 1, 1, 0x80, 0xeb, 0xa0, 0x41, 0x6a, 0x91, 0xbf, 0x81, 0xb5, 0xa7, 0x8c, 0x82, 0x99,
      0x95, 0x94, 0x81, 0x8b, 0x80, 0x92, 3, 0x1a, 0, 0x80, 0x40, 0x86, 8, 0x80, 0x9f, 0x99, 0x40, 0x83, 0x15, 0xd,
      0xd, 0xa, 0x16, 6, 0x80, 0x88, 0x60, 0xbc, 0xa6, 0x83, 0x54, 0xb9, 0x86, 0x8d, 0x87, 0xbf, 0x85, 0x42, 0x3e, 0xd4,
      0x80, 0xc6, 1, 8, 9, 0xb, 0x80, 0x8b, 0, 6, 0x80, 0xc0, 3, 0xf, 6, 0x80, 0x9b, 3, 4, 0,
      0x16, 0x80, 0x41, 0x53, 0x81, 0x41, 0x23, 0x81, 0xb1, 0x55, 0xff, 0x18, 0x9a, 1, 0, 8, 0x80, 0x89, 3, 0,
      0, 0x28, 0x18, 0, 0, 2, 1, 0, 8, 0, 0, 0, 0, 1, 0, 0xb, 6, 3, 3, 0,
      0x80, 0x89, 0x80, 0x90, 0x22, 4, 0x80, 0x90, 0x42, 0x43, 0x8a, 0x84, 0x9e, 0x80, 0x9f, 0x99, 0x82, 0xa2, 0x80, 0xee,
      0x82, 0x8c, 0xab, 0x83, 0x88, 0x31, 0x61, 5, 0xad, 0x42, 0x1d, 0x6b, 5, 0xe1, 0x4f, 0xff]"

definition unicode_prop_ASCII_Hex_Digit_table :: "u8 list" where
  "unicode_prop_ASCII_Hex_Digit_table =
     [0xaf, 0x89, 0x35, 0x99, 0x85]"

definition unicode_prop_Bidi_Control_table :: "u8 list" where
  "unicode_prop_Bidi_Control_table =
     [0x46, 0x1b, 0x80, 0x59, 0xf0, 0x81, 0x99, 0x84, 0xb6, 0x83]"

definition unicode_prop_Dash_table :: "u8 list" where
  "unicode_prop_Dash_table =
     [0xac, 0x80, 0x45, 0x5b, 0x80, 0xb2, 0x80, 0x4e, 0x40, 0x80, 0x44, 4, 0x80, 0x48, 8, 0x85, 0xbc, 0x80, 0xa6, 0x80,
      0x8e, 0x80, 0x41, 0x85, 0x80, 0x4c, 3, 1, 0x80, 0x9e, 0xb, 0x80, 0x41, 0xda, 0x80, 0x92, 0x80, 0xee, 0x80, 0x60,
      0xcd, 0x8f, 0x81, 0xa4, 0x80, 0x89, 0x80, 0x40, 0xa8, 0x80]"

definition unicode_prop_Deprecated_table :: "u8 list" where
  "unicode_prop_Deprecated_table =
     [0x41, 0x48, 0x80, 0x45, 0x28, 0x80, 0x49, 2, 0, 0x80, 0x48, 0x28, 0x81, 0x48, 0xc4, 0x85, 0x42, 0xb8, 0x81, 0x6d,
      0xdc, 0xd5, 0x80]"

definition unicode_prop_Diacritic_table :: "u8 list" where
  "unicode_prop_Diacritic_table =
     [0xdd, 0, 0x80, 0xc6, 5, 3, 1, 0x81, 0x41, 0xf6, 0x40, 0x9e, 7, 0x25, 0x90, 0xb, 0x80, 0x88, 0x81, 0x40,
      0xfc, 0x84, 0x40, 0xd0, 0x80, 0xb6, 0x90, 0x80, 0x9a, 0, 1, 0, 0x40, 0x85, 0x3b, 0x81, 0x40, 0x85, 0xb, 0xa,
      0x82, 0xc2, 0x9a, 0xda, 0x8a, 0xb9, 0x8a, 0xa1, 0x81, 0x40, 0xc8, 0x9b, 0xbc, 0x80, 0x8f, 2, 0x83, 0x9b, 0x80, 0xc9,
      0x80, 0x8f, 0x80, 0xed, 0x80, 0x8f, 0x80, 0xed, 0x80, 0x8f, 0x80, 0xae, 0x82, 0xbb, 0x80, 0x8f, 0x80, 0xfe, 0x80, 0xfe,
      0x80, 0xed, 0x80, 0x8f, 0x80, 0xec, 0x81, 0x8f, 0x80, 0xfb, 0x80, 0xfb, 0x28, 0x80, 0xea, 0x80, 0x8c, 0x84, 0xca, 0x81,
      0x9a, 0, 0, 3, 0x81, 0xc1, 0x10, 0x81, 0xbd, 0x80, 0xef, 0, 0x81, 0xa7, 0xb, 0x84, 0x98, 0x30, 0x80, 0x89,
      0x81, 0x42, 0xc0, 0x82, 0x44, 0x68, 0x8a, 0x88, 0x80, 0x41, 0x5a, 0x82, 0x41, 0x38, 0x39, 0x80, 0xaf, 0x8d, 0xf5, 0x80,
      0x8e, 0x80, 0xa5, 0x88, 0xb5, 0x81, 0x40, 0x89, 0x81, 0xbf, 0x85, 0xd1, 0x98, 0x18, 0x28, 0xa, 0xb1, 0xbe, 0xd8, 0x8b,
      0xa4, 0x22, 0x82, 0x41, 0xbc, 0, 0x82, 0x8a, 0x82, 0x8c, 0x82, 0x8c, 0x82, 0x8c, 0x81, 0x4c, 0xef, 0x82, 0x41, 0x3c,
      0x80, 0x41, 0xf9, 0x85, 0xe8, 0x83, 0xde, 0x80, 0x60, 0x75, 0x71, 0x80, 0x8b, 8, 0x80, 0x9b, 0x81, 0xd1, 0x81, 0x8d,
      0xa1, 0xe5, 0x82, 0xec, 0x81, 0x40, 0xc9, 0x80, 0x9a, 0x91, 0xb8, 0x83, 0xa3, 0x80, 0xde, 0x80, 0x8b, 0x80, 0xa3, 0x80,
      0x40, 0x94, 0x82, 0xc0, 0x83, 0xb2, 0x80, 0xe3, 0x84, 0x40, 0x8b, 0x81, 0x60, 0x4f, 0x2f, 0x80, 0x43, 0, 0x8f, 0x41,
      0xd, 0, 0x80, 0xae, 0x80, 0xac, 0x81, 0xc2, 0x80, 0x42, 0xfb, 0x80, 0x48, 3, 0x81, 0x42, 0x3a, 0x85, 0x42, 0x1d,
      0x8a, 0x41, 0x67, 0x81, 0xf7, 0x81, 0xbd, 0x80, 0xcb, 0x80, 0x88, 0x82, 0xe7, 0x81, 0x40, 0xb1, 0x81, 0xd0, 0x80, 0x8f,
      0x80, 0x97, 0x32, 0x84, 0x40, 0xcc, 2, 0x80, 0xfa, 0x81, 0x40, 0xfa, 0x81, 0xfd, 0x80, 0xf5, 0x81, 0xf2, 0x80, 0x41,
      0xc, 0x81, 0x41, 0xa4, 0x80, 0xd2, 0x80, 0x91, 0x80, 0xd0, 0x80, 0x41, 0xa4, 0x80, 0x41, 1, 0, 0x81, 0xd0, 0x80,
      0x60, 0x4d, 0x57, 0x84, 0xba, 0x86, 0x44, 0x57, 0x90, 0x60, 0x61, 0xc6, 0x12, 0x2f, 0x39, 0x86, 0x9d, 0x83, 0x4f, 0x81,
      0x86, 0x41, 0xb4, 0x83, 0x45, 0xdf, 0x86, 0xec, 0x10, 0x82]"

definition unicode_prop_Extender_table :: "u8 list" where
  "unicode_prop_Extender_table =
     [0x40, 0xb6, 0x80, 0x42, 0x17, 0x81, 0x43, 0x6d, 0x80, 0x41, 0xb8, 0x80, 0x46, 0x4a, 0x80, 0xfe, 0x80, 0x49, 0x42, 0x80,
      0xb7, 0x80, 0x42, 0x62, 0x80, 0x41, 0x8d, 0x80, 0xc3, 0x80, 0x53, 0x88, 0x80, 0xaa, 0x84, 0xe6, 0x81, 0xdc, 0x82, 0x60,
      0x6f, 0x15, 0x80, 0x45, 0xf5, 0x80, 0x43, 0xc1, 0x80, 0x95, 0x80, 0x40, 0x88, 0x80, 0xeb, 0x80, 0x94, 0x81, 0x60, 0x54,
      0x7a, 0x80, 0x53, 0xeb, 0x80, 0x42, 0x67, 0x82, 0x44, 0xce, 0x80, 0x60, 0x50, 0xa8, 0x81, 0x44, 0x9b, 8, 0x80, 0x60,
      0x71, 0x57, 0x81, 0x48, 5, 0x82]"

definition unicode_prop_Hex_Digit_table :: "u8 list" where
  "unicode_prop_Hex_Digit_table =
     [0xaf, 0x89, 0x35, 0x99, 0x85, 0x60, 0xfe, 0xa8, 0x89, 0x35, 0x99, 0x85]"

definition unicode_prop_IDS_Binary_Operator_table :: "u8 list" where
  "unicode_prop_IDS_Binary_Operator_table =
     [0x60, 0x2f, 0xef, 9, 0x87]"

definition unicode_prop_IDS_Trinary_Operator_table :: "u8 list" where
  "unicode_prop_IDS_Trinary_Operator_table =
     [0x60, 0x2f, 0xf1, 0x81]"

definition unicode_prop_Ideographic_table :: "u8 list" where
  "unicode_prop_Ideographic_table =
     [0x60, 0x30, 5, 0x81, 0x98, 0x88, 0x8d, 0x82, 0x43, 0xc4, 0x59, 0xb5, 0xc9, 0x60, 0x51, 0xef, 0x60, 0x59, 0xf, 0x41,
      0x6d, 0x81, 0xe9, 0x60, 0x75, 0x25, 0x57, 0xf7, 0x87, 0x42, 0xf2, 0x60, 0x26, 0x7c, 0x41, 0x8b, 0x60, 0x4d, 3, 0x60,
      0xa6, 0xd6, 0xa8, 0x50, 0x34, 0x8a, 0x40, 0xdd, 0x81, 0x56, 0x81, 0x8d, 0x5d, 0x30, 0x4c, 0x1e, 0x42, 0x1d]"

definition unicode_prop_Join_Control_table :: "u8 list" where
  "unicode_prop_Join_Control_table =
     [0x60, 0x20, 0xb, 0x81]"

definition unicode_prop_Logical_Order_Exception_table :: "u8 list" where
  "unicode_prop_Logical_Order_Exception_table =
     [0x4e, 0x3f, 0x84, 0xfa, 0x84, 0x4a, 0xef, 0x11, 0x80, 0x60, 0x90, 0xf9, 9, 0, 0x81]"

definition unicode_prop_Noncharacter_Code_Point_table :: "u8 list" where
  "unicode_prop_Noncharacter_Code_Point_table =
     [0x60, 0xfd, 0xcf, 0x9f, 0x42, 0xd, 0x81, 0x60, 0xff, 0xfd, 0x81, 0x60, 0xff, 0xfd, 0x81, 0x60, 0xff, 0xfd, 0x81, 0x60,
      0xff, 0xfd, 0x81, 0x60, 0xff, 0xfd, 0x81, 0x60, 0xff, 0xfd, 0x81, 0x60, 0xff, 0xfd, 0x81, 0x60, 0xff, 0xfd, 0x81, 0x60,
      0xff, 0xfd, 0x81, 0x60, 0xff, 0xfd, 0x81, 0x60, 0xff, 0xfd, 0x81, 0x60, 0xff, 0xfd, 0x81, 0x60, 0xff, 0xfd, 0x81, 0x60,
      0xff, 0xfd, 0x81, 0x60, 0xff, 0xfd, 0x81, 0x60, 0xff, 0xfd, 0x81]"

definition unicode_prop_Pattern_Syntax_table :: "u8 list" where
  "unicode_prop_Pattern_Syntax_table =
     [0xa0, 0x8e, 0x89, 0x86, 0x99, 0x18, 0x80, 0x99, 0x83, 0xa1, 0x30, 0, 8, 0, 0xb, 3, 2, 0x80, 0x96, 0x80,
      0x9e, 0x80, 0x5f, 0x17, 0x97, 0x87, 0x8e, 0x81, 0x92, 0x80, 0x89, 0x41, 0x30, 0x42, 0xcf, 0x40, 0x9f, 0x42, 0x75, 0x9d,
      0x44, 0x6b, 0x41, 0xff, 0xff, 0x41, 0x80, 0x13, 0x98, 0x8e, 0x80, 0x60, 0xcd, 0xc, 0x81, 0x41, 4, 0x81]"

definition unicode_prop_Pattern_White_Space_table :: "u8 list" where
  "unicode_prop_Pattern_White_Space_table =
     [0x88, 0x84, 0x91, 0x80, 0xe3, 0x80, 0x5f, 0x87, 0x81, 0x97, 0x81]"

definition unicode_prop_Quotation_Mark_table :: "u8 list" where
  "unicode_prop_Quotation_Mark_table =
     [0xa1, 3, 0x80, 0x40, 0x82, 0x80, 0x8e, 0x80, 0x5f, 0x5b, 0x87, 0x98, 0x81, 0x4e, 6, 0x80, 0x41, 0xc8, 0x83, 0x8c,
      0x82, 0x60, 0xce, 0x20, 0x83, 0x40, 0xbc, 3, 0x80, 0xd9, 0x81]"

definition unicode_prop_Radical_table :: "u8 list" where
  "unicode_prop_Radical_table =
     [0x60, 0x2e, 0x7f, 0x99, 0x80, 0xd8, 0x8b, 0x40, 0xd5]"

definition unicode_prop_Regional_Indicator_table :: "u8 list" where
  "unicode_prop_Regional_Indicator_table =
     [0x61, 0xf1, 0xe5, 0x99]"

definition unicode_prop_Sentence_Terminal_table :: "u8 list" where
  "unicode_prop_Sentence_Terminal_table =
     [0xa0, 0x80, 0x8b, 0x80, 0x8f, 0x80, 0x45, 0x48, 0x80, 0x40, 0x93, 0x81, 0x40, 0xb3, 0x80, 0xaa, 0x82, 0x40, 0xf5, 0x80,
      0xbc, 0, 2, 0x81, 0x41, 0x24, 0x81, 0x46, 0xe3, 0x81, 0x43, 0x15, 3, 0x81, 0x43, 4, 0x80, 0x40, 0xc5, 0x81,
      0x40, 0xcb, 4, 0x80, 0x41, 0x39, 0x81, 0x41, 0x61, 0x83, 0x40, 0xad, 9, 0x81, 0x40, 0xda, 0x81, 0xc0, 0x81, 0x43,
      0xbb, 0x81, 0x88, 0x82, 0x4d, 0xe3, 0x80, 0x8c, 0x80, 0x41, 0xc4, 0x80, 0x60, 0x74, 0xfb, 0x80, 0x41, 0xd, 0x81, 0x40,
      0xe2, 2, 0x80, 0x41, 0x7d, 0x81, 0xd5, 0x81, 0xde, 0x80, 0x40, 0x97, 0x81, 0x40, 0x92, 0x82, 0x40, 0x8f, 0x81, 0x40,
      0xf8, 0x80, 0x60, 0x52, 0x65, 2, 0x81, 0x40, 0xa8, 0x80, 0x8b, 0x80, 0x8f, 0x80, 0xc0, 0x80, 0x4a, 0xf3, 0x81, 0x44,
      0xfc, 0x84, 0x40, 0xec, 0x81, 0xf4, 0x83, 0xfe, 0x82, 0x40, 0x80, 0xd, 0x80, 0x8f, 0x81, 0xd7, 8, 0x81, 0xeb, 0x80,
      0x41, 0xa0, 0x81, 0x41, 0x74, 0xc, 0x8e, 0xe8, 0x81, 0x40, 0xf8, 0x82, 0x43, 2, 0x81, 0xd6, 0x81, 0x41, 0xa3, 0x81,
      0x42, 0xb3, 0x81, 0x60, 0x4b, 0x74, 0x81, 0x40, 0x84, 0x80, 0xc0, 0x81, 0x8a, 0x80, 0x43, 0x52, 0x80, 0x60, 0x4e, 5,
      0x80, 0x5d, 0xe7, 0x80]"

definition unicode_prop_Soft_Dotted_table :: "u8 list" where
  "unicode_prop_Soft_Dotted_table =
     [0xe8, 0x81, 0x40, 0xc3, 0x80, 0x41, 0x18, 0x80, 0x9d, 0x80, 0xb3, 0x80, 0x93, 0x80, 0x41, 0x3f, 0x80, 0xe1, 0, 0x80,
      0x59, 8, 0x80, 0xb2, 0x80, 0x8c, 2, 0x80, 0x40, 0x83, 0x80, 0x40, 0x9c, 0x80, 0x41, 0xa4, 0x80, 0x40, 0xd5, 0x81,
      0x4b, 0x31, 0x80, 0x61, 0xa7, 0xa4, 0x81, 0xb1, 0x81, 0xb1, 0x81, 0xb1, 0x81, 0xb1, 0x81, 0xb1, 0x81, 0xb1, 0x81, 0xb1,
      0x81, 0xb1, 0x81, 0xb1, 0x81, 0xb1, 0x81, 0xb1, 0x81, 0xb1, 0x81]"

definition unicode_prop_Terminal_Punctuation_table :: "u8 list" where
  "unicode_prop_Terminal_Punctuation_table =
     [0xa0, 0x80, 0x89, 0, 0x80, 0x8a, 0xa, 0x80, 0x43, 0x3d, 7, 0x80, 0x42, 0, 0x80, 0xb8, 0x80, 0xc7, 0x80, 0x8d,
      1, 0x81, 0x40, 0xb3, 0x80, 0xaa, 0x8a, 0, 0x40, 0xea, 0x81, 0xb5, 0x8e, 0x9e, 0x80, 0x41, 4, 0x81, 0x44, 0xf3,
      0x81, 0x40, 0xab, 3, 0x85, 0x41, 0x36, 0x81, 0x43, 0x14, 0x87, 0x43, 4, 0x80, 0xfb, 0x82, 0xc6, 0x81, 0x40, 0x9c,
      0x12, 0x80, 0xa6, 0x19, 0x81, 0x41, 0x39, 0x81, 0x41, 0x61, 0x83, 0x40, 0xad, 8, 0x82, 0x40, 0xda, 0x84, 0xbd, 0x81,
      0x43, 0xbb, 0x81, 0x88, 0x82, 0x4d, 0xe3, 0x80, 0x8c, 3, 0x80, 0x89, 0, 0x81, 0x41, 0xb0, 0x81, 0x60, 0x74, 0xfa,
      0x81, 0x41, 0xc, 0x82, 0x40, 0xe2, 0x84, 0x41, 0x7d, 0x81, 0xd5, 0x81, 0xde, 0x80, 0x40, 0x96, 0x82, 0x40, 0x92, 0x82,
      0xfe, 0x80, 0x8f, 0x81, 0x40, 0xf8, 0x80, 0x60, 0x52, 0x63, 0x10, 0x83, 0x40, 0xa8, 0x80, 0x89, 0, 0x80, 0x8a, 0xa,
      0x80, 0xc0, 1, 0x80, 0x44, 0x39, 0x80, 0xaf, 0x80, 0x44, 0x85, 0x80, 0x40, 0xc6, 0x80, 0x41, 0x35, 0x81, 0x40, 0x97,
      0x85, 0xc3, 0x85, 0xd8, 0x83, 0x43, 0xb7, 0x84, 0x40, 0xec, 0x86, 0xef, 0x83, 0xfe, 0x82, 0x40, 0x80, 0xd, 0x80, 0x8f,
      0x81, 0xd7, 0x84, 0xeb, 0x80, 0x41, 0xa0, 0x82, 0x8c, 0x80, 0x41, 0x65, 0x1a, 0x8e, 0xe8, 0x81, 0x40, 0xf8, 0x82, 0x43,
      2, 0x81, 0xd6, 0xb, 0x81, 0x41, 0x9d, 0x82, 0xac, 0x80, 0x42, 0x84, 0x81, 0x45, 0x76, 0x84, 0x60, 0x45, 0xf8, 0x81,
      0x40, 0x84, 0x80, 0xc0, 0x82, 0x89, 0x80, 0x43, 0x51, 0x81, 0x60, 0x4e, 5, 0x80, 0x5d, 0xe6, 0x83]"

definition unicode_prop_Unified_Ideograph_table :: "u8 list" where
  "unicode_prop_Unified_Ideograph_table =
     [0x60, 0x33, 0xff, 0x59, 0xb5, 0xc9, 0x60, 0x51, 0xef, 0x60, 0x5a, 0x1d, 8, 0, 0x81, 0x89, 0, 0, 9, 0x82,
      0x61, 5, 0xd5, 0x60, 0xa6, 0xd6, 0xa8, 0x50, 0x34, 0x8a, 0x40, 0xdd, 0x81, 0x56, 0x81, 0x8d, 0x5d, 0x30]"

definition unicode_prop_Variation_Selector_table :: "u8 list" where
  "unicode_prop_Variation_Selector_table =
     [0x58, 0xa, 0x82, 0x60, 0xe5, 0xf1, 0x8f, 0x6d, 2, 0xef, 0x40, 0xef]"

definition unicode_prop_White_Space_table :: "u8 list" where
  "unicode_prop_White_Space_table =
     [0x88, 0x84, 0x91, 0x80, 0xe3, 0x80, 0x99, 0x80, 0x55, 0xde, 0x80, 0x49, 0x7e, 0x8a, 0x9c, 0xc, 0x80, 0xae, 0x80, 0x4f,
      0x9f, 0x80]"

definition unicode_prop_Bidi_Mirrored_table :: "u8 list" where
  "unicode_prop_Bidi_Mirrored_table =
     [0xa7, 0x81, 0x91, 0, 0x80, 0x9b, 0, 0x80, 0x9c, 0, 0x80, 0xac, 0x80, 0x8e, 0x80, 0x4e, 0x7d, 0x83, 0x47, 0x5c,
      0x81, 0x49, 0x9b, 0x81, 0x89, 0x81, 0xb5, 0x81, 0x8d, 0x81, 0x40, 0xb0, 0x80, 0x40, 0xbf, 0x1a, 0x2a, 2, 0xa, 0x18,
      0x18, 0, 3, 0x88, 0x20, 0x80, 0x91, 0x23, 0x88, 8, 0, 0x39, 0x9e, 0xb, 0x20, 0x88, 9, 0x92, 0x21, 0x88,
      0x21, 0xb, 0x97, 0x81, 0x8f, 0x3b, 0x93, 0xe, 0x81, 0x44, 0x3c, 0x8d, 0xc9, 1, 0x18, 8, 0x14, 0x1c, 0x12, 0x8d,
      0x41, 0x92, 0x95, 0xd, 0x80, 0x8d, 0x38, 0x35, 0x10, 0x1c, 1, 0xc, 0x18, 2, 9, 0x89, 0x29, 0x81, 0x8b, 0x92,
      3, 8, 0, 8, 3, 0x21, 0x2a, 0x97, 0x81, 0x8a, 0xb, 0x18, 9, 0xb, 0xaa, 0xf, 0x80, 0xa7, 0x20, 0,
      0x14, 0x22, 0x18, 0x14, 0, 0x40, 0xff, 0x80, 0x42, 2, 0x1a, 8, 0x81, 0x8d, 9, 0x89, 0x41, 0xdd, 0x89, 0xf,
      0x60, 0xce, 0x3c, 0x2c, 0x81, 0x40, 0xa1, 0x81, 0x91, 0, 0x80, 0x9b, 0, 0x80, 0x9c, 0, 0, 8, 0x81, 0x60,
      0xd7, 0x76, 0x80, 0xb8, 0x80, 0xb8, 0x80, 0xb8, 0x80, 0xb8, 0x80]"

definition unicode_prop_Emoji_table :: "u8 list" where
  "unicode_prop_Emoji_table =
     [0xa2, 5, 4, 0x89, 0xee, 3, 0x80, 0x5f, 0x8c, 0x80, 0x8b, 0x80, 0x40, 0xd7, 0x80, 0x95, 0x80, 0xd9, 0x85, 0x8e,
      0x81, 0x41, 0x6e, 0x81, 0x8b, 0x80, 0x40, 0xa5, 0x80, 0x98, 0x8a, 0x1a, 0x40, 0xc6, 0x80, 0x40, 0xe6, 0x81, 0x89, 0x80,
      0x88, 0x80, 0xb9, 0x18, 0x84, 0x88, 1, 1, 9, 3, 1, 0, 9, 2, 2, 0xf, 0x14, 0, 4, 0x8b,
      0x8a, 9, 0, 8, 0x80, 0x91, 1, 0x81, 0x91, 0x28, 0, 0xa, 0xf, 0xb, 0x81, 0x8a, 0xc, 9, 4, 8,
      0, 0x81, 0x93, 0xc, 0x28, 0x19, 3, 1, 1, 0x28, 1, 0, 0, 5, 2, 5, 0x80, 0x89, 0x81, 0x8e,
      1, 3, 0, 3, 0x10, 0x80, 0x8a, 0x81, 0xaf, 0x82, 0x88, 0x80, 0x8d, 0x80, 0x8d, 0x80, 0x41, 0x73, 0x81, 0x41,
      0xce, 0x82, 0x92, 0x81, 0xb2, 3, 0x80, 0x44, 0xd9, 0x80, 0x8b, 0x80, 0x42, 0x58, 0, 0x80, 0x61, 0xbd, 0x69, 0x80,
      0x40, 0xc9, 0x80, 0x40, 0x9f, 0x81, 0x8b, 0x81, 0x8d, 1, 0x89, 0xca, 0x99, 1, 0x96, 0x80, 0x93, 1, 0x88, 0x94,
      0x81, 0x40, 0xad, 0xa1, 0x81, 0xef, 9, 2, 0x81, 0xd2, 0xa, 0x80, 0x41, 6, 0x80, 0xbe, 0x8a, 0x28, 0x97, 0x31,
      0xf, 0x8b, 1, 0x19, 3, 0x81, 0x8c, 9, 7, 0x81, 0x88, 4, 0x82, 0x8b, 0x17, 0x11, 0, 3, 5, 2,
      5, 0xd5, 0xaf, 0xc5, 0x27, 8, 0x89, 0x2a, 0, 0xa, 1, 0x87, 0x40, 0xe4, 0x8b, 0x41, 0x20, 0xad, 0x80, 0x89,
      0x80, 0xaa, 3, 0x82, 0xa8, 0xd, 0x82, 0x9c, 0x81, 0xb2, 0xef, 0x1b, 0x14, 0x82, 0x8c, 0x85]"

definition unicode_prop_Emoji_Component_table :: "u8 list" where
  "unicode_prop_Emoji_Component_table =
     [0xa2, 5, 4, 0x89, 0x5f, 0xd2, 0x80, 0x40, 0xd4, 0x80, 0x60, 0xdd, 0x2a, 0x80, 0x60, 0xf3, 0xd5, 0x99, 0x41, 0xfa,
      0x84, 0x45, 0xaf, 0x83, 0x6c, 6, 0x6b, 0xdf]"

definition unicode_prop_Emoji_Modifier_table :: "u8 list" where
  "unicode_prop_Emoji_Modifier_table =
     [0x61, 0xf3, 0xfa, 0x84]"

definition unicode_prop_Emoji_Modifier_Base_table :: "u8 list" where
  "unicode_prop_Emoji_Modifier_Base_table =
     [0x60, 0x26, 0x1c, 0x80, 0x40, 0xda, 0x80, 0x8f, 0x83, 0x61, 0xcc, 0x76, 0x80, 0xbb, 0x11, 1, 0x82, 0xf4, 9, 0x8a,
      0x94, 0x92, 0x10, 0x1a, 2, 0x30, 0, 0x97, 0x80, 0x40, 0xc8, 0xb, 0x80, 0x94, 3, 0x81, 0x40, 0xad, 0x12, 0x84,
      0xd2, 0x80, 0x8f, 0x82, 0x88, 0x80, 0x8a, 0x80, 0x42, 0x41, 7, 0x3d, 0x80, 0x88, 0x89, 0xa, 0xf5, 8, 8, 0x80,
      0x90, 0x10, 0x8c]"

definition unicode_prop_Emoji_Presentation_table :: "u8 list" where
  "unicode_prop_Emoji_Presentation_table =
     [0x60, 0x23, 0x19, 0x81, 0x40, 0xcc, 0x1a, 1, 0x80, 0x42, 8, 0x81, 0x94, 0x81, 0xb1, 0x8b, 0xaa, 0x80, 0x92, 0x80,
      0x8c, 7, 0x81, 0x90, 0xc, 0xf, 4, 0x80, 0x94, 6, 8, 3, 1, 6, 3, 0x81, 0x9b, 0x80, 0xa2, 0,
      3, 0x10, 0x80, 0xbc, 0x82, 0x97, 0x80, 0x8d, 0x80, 0x43, 0x5a, 0x81, 0xb2, 3, 0x80, 0x61, 0xc4, 0xad, 0x80, 0x40,
      0xc9, 0x80, 0x40, 0xbd, 1, 0x89, 0xca, 0x99, 0, 0x97, 0x80, 0x93, 1, 0x20, 0x82, 0x94, 0x81, 0x40, 0xad, 0xa0,
      0x8b, 0x88, 0x80, 0xc5, 0x80, 0x95, 0x8b, 0xaa, 0x1c, 0x8b, 0x90, 0x10, 0x82, 0xc6, 0, 0x80, 0x40, 0xba, 0x81, 0xbe,
      0x8c, 0x18, 0x97, 0x91, 0x80, 0x99, 0x81, 0x8c, 0x80, 0xd5, 0xd4, 0xaf, 0xc5, 0x28, 0x12, 8, 0x94, 0xe, 0x86, 0x40,
      0xe4, 0x8b, 0x41, 0x20, 0xad, 0x80, 0x89, 0x80, 0xaa, 3, 0x82, 0xa8, 0xd, 0x82, 0x9c, 0x81, 0xb2, 0xef, 0x1b, 0x14,
      0x82, 0x8c, 0x85]"

definition unicode_prop_Extended_Pictographic_table :: "u8 list" where
  "unicode_prop_Extended_Pictographic_table =
     [0x40, 0xa8, 3, 0x80, 0x5f, 0x8c, 0x80, 0x8b, 0x80, 0x40, 0xd7, 0x80, 0x95, 0x80, 0xd9, 0x85, 0x8e, 0x81, 0x41, 0x6e,
      0x81, 0x8b, 0x80, 0xde, 0x80, 0xc5, 0x80, 0x98, 0x8a, 0x1a, 0x40, 0xc6, 0x80, 0x40, 0xe6, 0x81, 0x89, 0x80, 0x88, 0x80,
      0xb9, 0x18, 0x28, 0x8b, 0x80, 0xf1, 0x89, 0xf5, 0x81, 0x8a, 0, 0, 0x28, 0x10, 0x28, 0x89, 0x81, 0x8e, 1, 3,
      0, 3, 0x10, 0x80, 0x8a, 0x84, 0xac, 0x82, 0x88, 0x80, 0x8d, 0x80, 0x8d, 0x80, 0x41, 0x73, 0x81, 0x41, 0xce, 0x82,
      0x92, 0x81, 0xb2, 3, 0x80, 0x44, 0xd9, 0x80, 0x8b, 0x80, 0x42, 0x58, 0, 0x80, 0x61, 0xbd, 0x65, 0x40, 0xff, 0x8c,
      0x82, 0x9e, 0x80, 0xbb, 0x85, 0x8b, 0x81, 0x8d, 1, 0x89, 0x91, 0xb8, 0x9a, 0x8e, 0x89, 0x80, 0x93, 1, 0x88, 3,
      0x88, 0x41, 0xb1, 0x84, 0x41, 0x3d, 0x87, 0x41, 9, 0xaf, 0xff, 0xf3, 0x8b, 0xd4, 0xaa, 0x8b, 0x83, 0xb7, 0x87, 0x89,
      0x85, 0xa7, 0x87, 0x9d, 0xd1, 0x8b, 0xae, 0x80, 0x89, 0x80, 0x46, 0xb6]"

definition unicode_prop_Default_Ignorable_Code_Point_table :: "u8 list" where
  "unicode_prop_Default_Ignorable_Code_Point_table =
     [0x40, 0xac, 0x80, 0x42, 0xa0, 0x80, 0x42, 0xcb, 0x80, 0x4b, 0x41, 0x81, 0x46, 0x52, 0x81, 0xd4, 0x83, 0x47, 0xfb, 0x84,
      0x99, 0x84, 0xb0, 0x8f, 0x50, 0xf3, 0x80, 0x60, 0xcc, 0x9a, 0x8f, 0x40, 0xee, 0x80, 0x40, 0x9f, 0x80, 0xce, 0x88, 0x60,
      0xbc, 0xa6, 0x83, 0x54, 0xce, 0x87, 0x6c, 0x2e, 0x84, 0x4f, 0xff]"

text \<open>The three long tables, cut between entries.\<close>

definition unicode_gc_table_0 :: "u8 list" where
  "unicode_gc_table_0 =
     [0xfa, 0x18, 0x17, 0x56, 0xd, 0x56, 0x12, 0x13, 0x16, 0xc, 0x16, 0x11, 0x36, 0xe9, 2, 0x36, 0x4c, 0x36, 0xe1, 0x12,
      0x12, 0x16, 0x13, 0xe, 0x10, 0xe, 0xe2, 0x12, 0x12, 0xc, 0x13, 0xc, 0xfa, 0x19, 0x17, 0x16, 0x6d, 0xf, 0x16, 0xe,
      0xf, 5, 0x14, 0xc, 0x1b, 0xf, 0xe, 0xf, 0xc, 0x2b, 0xe, 2, 0x36, 0xe, 0xb, 5, 0x15, 0x4b, 0x16, 0xe1,
      0xf, 0xc, 0xc1, 0xe2, 0x10]"

definition unicode_gc_table_1 :: "u8 list" where
  "unicode_gc_table_1 =
     [0xc, 0xe2, 0, 0xff, 0x30, 2, 0xff, 8, 2, 0xff, 0x27, 0xbf, 0x22, 0x21, 2, 0x5f, 0x5f, 0x21, 0x22, 0x61,
      2, 0x21, 2, 0x41, 0x42, 0x21, 2, 0x21, 2, 0x9f, 0x7f, 2, 0x5f, 0x5f, 0x21, 2, 0x5f, 0x3f, 2, 5,
      0x3f, 0x22, 0x65, 1, 3, 2, 1, 3, 2, 1, 3, 2, 0xff, 8, 2, 0xff, 0xa, 2, 1, 3,
      2, 0x5f, 0x21, 2]"

definition unicode_gc_table_2 :: "u8 list" where
  "unicode_gc_table_2 =
     [0xff, 0x32, 0xa2, 0x21, 2, 0x21, 0x22, 0x5f, 0x41, 2, 0xff, 0, 0xe2, 0x3c, 5, 0xe2, 0x13, 0xe4, 0xa, 0x6e,
      0xe4, 4, 0xee, 6, 0x84, 0xce, 4, 0xe, 4, 0xee, 9, 0xe6, 0x68, 0x7f, 4, 0xe, 0x3f, 0x20, 4, 0x42,
      0x16, 1, 0x60, 0x2e, 1, 0x16, 0x41, 0, 1, 0, 0x21, 2, 0xe1, 9, 0, 0xe1, 1, 0xe2, 0x1b, 0x3f,
      2, 0x41, 0x42, 0xff, 0x10]"

definition unicode_gc_table_3 :: "u8 list" where
  "unicode_gc_table_3 =
     [0x62, 0x3f, 0xc, 0x5f, 0x3f, 2, 0xe1, 0x2b, 0xe2, 0x28, 0xff, 0x1a, 0xf, 0x86, 0x28, 0xff, 0x2f, 0xff, 6, 2,
      0xff, 0x58, 0, 0xe1, 0x1e, 0x20, 4, 0xb6, 0xe2, 0x21, 0x16, 0x11, 0x20, 0x2f, 0xd, 0, 0xe6, 0x25, 0x11, 6,
      0x16, 0x26, 0x16, 0x26, 0x16, 6, 0xe0, 0, 0xe5, 0x13, 0x60, 0x65, 0x36, 0xe0, 3, 0xbb, 0x4c, 0x36, 0xd, 0x36,
      0x2f, 0xe6, 3, 0x16]"

definition unicode_gc_table_4 :: "u8 list" where
  "unicode_gc_table_4 =
     [0x1b, 0, 0x36, 0xe5, 0x18, 4, 0xe5, 2, 0xe6, 0xd, 0xe9, 2, 0x76, 0x25, 6, 0xe5, 0x5b, 0x16, 5, 0xc6,
      0x1b, 0xf, 0xa6, 0x24, 0x26, 0xf, 0x66, 0x25, 0xe9, 2, 0x45, 0x2f, 5, 0xf6, 6, 0, 0x1b, 5, 6, 0xe5,
      0x16, 0xe6, 0x13, 0x20, 0xe5, 0x51, 0xe6, 3, 5, 0xe0, 6, 0xe9, 2, 0xe5, 0x19, 0xe6, 1, 0x24, 0xf, 0x56,
      4, 0x20, 6, 0x2d]"

definition unicode_gc_table_5 :: "u8 list" where
  "unicode_gc_table_5 =
     [0xe5, 0xe, 0x66, 4, 0xe6, 1, 4, 0x46, 4, 0x86, 0x20, 0xf6, 7, 0, 0xe5, 0x11, 0x46, 0x20, 0x16, 0,
      0xe5, 3, 0xe0, 0x2d, 0xe5, 0xd, 0, 0xe5, 0, 0xe0, 0xd, 0xe6, 7, 0x1b, 0xe6, 0x18, 7, 0xe5, 0x2e, 6,
      7, 6, 5, 0x47, 0xe6, 0, 0x67, 6, 0x27, 5, 0xc6, 0xe5, 2, 0x26, 0x36, 0xe9, 2, 0x16, 4, 0xe5,
      7, 6, 0x27, 0]"

definition unicode_gc_table_6 :: "u8 list" where
  "unicode_gc_table_6 =
     [0xe5, 0, 0x20, 0x25, 0x20, 0xe5, 0xe, 0, 0xc5, 0, 5, 0x40, 0x65, 0x20, 6, 5, 0x47, 0x66, 0x20, 0x27,
      0x20, 0x27, 6, 5, 0xe0, 0, 7, 0x60, 0x25, 0, 0x45, 0x26, 0x20, 0xe9, 2, 0x25, 0x2d, 0xab, 0xf, 0xd,
      5, 0x16, 6, 0x20, 0x26, 7, 0, 0xa5, 0x60, 0x25, 0x20, 0xe5, 0xe, 0, 0xc5, 0, 0x25, 0, 0x25, 0,
      0x25, 0x20, 6, 0]"

definition unicode_gc_table_7 :: "u8 list" where
  "unicode_gc_table_7 =
     [0x47, 0x26, 0x60, 0x26, 0x20, 0x46, 0x40, 6, 0xc0, 0x65, 0, 5, 0xc0, 0xe9, 2, 0x26, 0x45, 6, 0x16, 0xe0,
      2, 0x26, 7, 0, 0xe5, 1, 0, 0x45, 0, 0xe5, 0xe, 0, 0xc5, 0, 0x25, 0, 0x85, 0x20, 6, 5,
      0x47, 0x86, 0, 0x26, 7, 0, 0x27, 6, 0x20, 5, 0xe0, 7, 0x25, 0x26, 0x20, 0xe9, 2, 0x16, 0xd, 0xc0,
      5, 0xa6, 0, 6]"

definition unicode_gc_table_8 :: "u8 list" where
  "unicode_gc_table_8 =
     [0x27, 0, 0xe5, 0, 0x20, 0x25, 0x20, 0xe5, 0xe, 0, 0xc5, 0, 0x25, 0, 0x85, 0x20, 6, 5, 7, 6,
      7, 0x66, 0x20, 0x27, 0x20, 0x27, 6, 0xe0, 0, 6, 7, 0x60, 0x25, 0, 0x45, 0x26, 0x20, 0xe9, 2, 0xf,
      5, 0xab, 0xe0, 2, 6, 5, 0, 0xa5, 0x40, 0x45, 0, 0x65, 0x40, 0x25, 0, 5, 0, 0x25, 0x40, 0x25,
      0x40, 0x45, 0x40, 0xe5, 4]"

definition unicode_gc_table_9 :: "u8 list" where
  "unicode_gc_table_9 =
     [0x60, 0x27, 6, 0x27, 0x40, 0x47, 0, 0x47, 6, 0x20, 5, 0xa0, 7, 0xe0, 6, 0xe9, 2, 0x4b, 0xaf, 0xd,
      0xf, 0x80, 6, 0x47, 6, 0xe5, 0, 0, 0x45, 0, 0xe5, 0xf, 0, 0xe5, 8, 0x40, 5, 0x46, 0x67, 0,
      0x46, 0, 0x66, 0xc0, 0x26, 0, 0x45, 0x80, 0x25, 0x26, 0x20, 0xe9, 2, 0xc0, 0x16, 0xcb, 0xf, 5, 6, 0x27,
      0x16, 0xe5, 0, 0]"

definition unicode_gc_table_10 :: "u8 list" where
  "unicode_gc_table_10 =
     [0x45, 0, 0xe5, 0xf, 0, 0xe5, 2, 0, 0x85, 0x20, 6, 5, 7, 6, 0x87, 0, 6, 0x27, 0, 0x27,
      0x26, 0xc0, 0x27, 0xc0, 5, 0, 0x25, 0x26, 0x20, 0xe9, 2, 0, 0x25, 0xe0, 5, 0x26, 0x27, 0, 0xe5, 0,
      0, 0x45, 0, 0xe5, 0x21, 0x26, 5, 0x47, 0x66, 0, 0x47, 0, 0x47, 6, 5, 0xf, 0x60, 0x45, 7, 0xcb,
      0x45, 0x26, 0x20, 0xe9, 2]"

definition unicode_gc_table_11 :: "u8 list" where
  "unicode_gc_table_11 =
     [0xeb, 1, 0xf, 0xa5, 0x20, 0x27, 0, 0xe5, 0xa, 0x40, 0xe5, 0x10, 0, 0xe5, 1, 0, 5, 0x20, 0xc5, 0x40,
      6, 0x60, 0x47, 0x46, 0, 6, 0, 0xe7, 0, 0xa0, 0xe9, 2, 0x20, 0x27, 0x16, 0xe0, 4, 0xe5, 0x28, 6,
      0x25, 0xc6, 0x60, 0xd, 0xa5, 4, 0xe6, 0, 0x16, 0xe9, 2, 0x36, 0xe0, 0x1d, 0x25, 0, 5, 0, 0x85, 0,
      0xe5, 0x10, 0, 5]"

definition unicode_gc_table_12 :: "u8 list" where
  "unicode_gc_table_12 =
     [0, 0xe5, 2, 6, 0x25, 0xe6, 1, 5, 0x20, 0x85, 0, 4, 0, 0xa6, 0x20, 0xe9, 2, 0x20, 0x65, 0xe0,
      0x18, 5, 0x4f, 0xf6, 7, 0xf, 0x16, 0x4f, 0x26, 0xaf, 0xe9, 2, 0xeb, 2, 0xf, 6, 0xf, 6, 0xf, 6,
      0x12, 0x13, 0x12, 0x13, 0x27, 0xe5, 0, 0, 0xe5, 0x1c, 0x60, 0xe6, 6, 7, 0x86, 0x16, 0x26, 0x85, 0xe6, 3,
      0, 0xe6, 0x1c, 0]"

definition unicode_gc_table_13 :: "u8 list" where
  "unicode_gc_table_13 =
     [0xef, 0, 6, 0xaf, 0, 0x2f, 0x96, 0x6f, 0x36, 0xe0, 0x1d, 0xe5, 0x23, 0x27, 0x66, 7, 0xa6, 7, 0x26, 0x27,
      0x26, 5, 0xe9, 2, 0xb6, 0xa5, 0x27, 0x26, 0x65, 0x46, 5, 0x47, 0x25, 0xc7, 0x45, 0x66, 0xe5, 5, 6, 0x27,
      0x26, 0xa7, 6, 5, 7, 0xe9, 2, 0x47, 6, 0x2f, 0xe1, 0x1e, 0, 1, 0x80, 1, 0x20, 0xe2, 0x23, 0x16,
      4, 0x42, 0xe5, 0x80, 0xc1]"

definition unicode_gc_table_14 :: "u8 list" where
  "unicode_gc_table_14 =
     [0, 0x65, 0x20, 0xc5, 0, 5, 0, 0x65, 0x20, 0xe5, 0x21, 0, 0x65, 0x20, 0xe5, 0x19, 0, 0x65, 0x20, 0xc5,
      0, 5, 0, 0x65, 0x20, 0xe5, 7, 0, 0xe5, 0x31, 0, 0x65, 0x20, 0xe5, 0x3b, 0x20, 0x46, 0xf6, 1, 0xeb,
      0xc, 0x40, 0xe5, 8, 0xef, 2, 0xa0, 0xe1, 0x4e, 0x20, 0xa2, 0x20, 0x11, 0xe5, 0x81, 0xe4, 0xf, 0x16, 0xe5, 9,
      0x17, 0xe5, 0x12, 0x12]"

definition unicode_gc_table_15 :: "u8 list" where
  "unicode_gc_table_15 =
     [0x13, 0x40, 0xe5, 0x43, 0x56, 0x4a, 0xe5, 0, 0xc0, 0xe5, 5, 0, 0x65, 0x46, 0xe0, 3, 0xe5, 0xa, 0x46, 0x36,
      0xe0, 1, 0xe5, 0xa, 0x26, 0xe0, 4, 0xe5, 5, 0, 0x45, 0, 0x26, 0xe0, 4, 0xe5, 0x2c, 0x26, 7, 0xc6,
      0xe7, 0, 6, 0x27, 0xe6, 3, 0x56, 4, 0x56, 0xd, 5, 6, 0x20, 0xe9, 2, 0xa0, 0xeb, 2, 0xa0, 0xb6,
      0x11, 0x76, 0x46, 0x1b]"

definition unicode_gc_table_16 :: "u8 list" where
  "unicode_gc_table_16 =
     [0, 0xe9, 2, 0xa0, 0xe5, 0x1b, 4, 0xe5, 0x2d, 0xc0, 0x85, 0x26, 0xe5, 0x1a, 6, 5, 0x80, 0xe5, 0x3e, 0xe0,
      2, 0xe5, 0x17, 0, 0x46, 0x67, 0x26, 0x47, 0x60, 0x27, 6, 0xa7, 0x46, 0x60, 0xf, 0x40, 0x36, 0xe9, 2, 0xe5,
      0x16, 0x20, 0x85, 0xe0, 3, 0xe5, 0x24, 0x60, 0xe5, 0x12, 0xa0, 0xe9, 2, 0xb, 0x40, 0xef, 0x1a, 0xe5, 0xf, 0x26,
      0x27, 6, 0x20, 0x36]"

definition unicode_gc_table_17 :: "u8 list" where
  "unicode_gc_table_17 =
     [0xe5, 0x2d, 7, 6, 7, 0xc6, 0, 6, 7, 6, 0x27, 0xe6, 0, 0xa7, 0xe6, 2, 0x20, 6, 0xe9, 2,
      0xa0, 0xe9, 2, 0xa0, 0xd6, 4, 0xb6, 0x20, 0xe6, 6, 8, 0xe0, 0x39, 0x66, 7, 0xe5, 0x27, 6, 7, 0x86,
      7, 6, 0x87, 6, 0x27, 0xc5, 0x60, 0xe9, 2, 0xd6, 0xef, 2, 0xe6, 1, 0xef, 1, 0x40, 0x26, 7, 0xe5,
      0x16, 7, 0x66, 0x27]"

definition unicode_gc_table_18 :: "u8 list" where
  "unicode_gc_table_18 =
     [0x26, 7, 0x46, 0x25, 0xe9, 2, 0xe5, 0x24, 6, 7, 0x26, 0x47, 6, 7, 0x46, 0x27, 0xe0, 0, 0x76, 0xe5,
      0x1c, 0xe7, 0, 0xe6, 0, 0x27, 0x26, 0x40, 0x96, 0xe9, 2, 0x40, 0x45, 0xe9, 2, 0xe5, 0x16, 0xa4, 0x36, 0xe2,
      1, 0xc0, 0xe1, 0x23, 0x20, 0x41, 0xf6, 0, 0xe0, 0, 0x46, 0x16, 0xe6, 5, 7, 0xc6, 0x65, 6, 0xa5, 6,
      0x25, 7, 0x26, 5]"

definition unicode_gc_table_19 :: "u8 list" where
  "unicode_gc_table_19 =
     [0x80, 0xe2, 0x24, 0xe4, 0x37, 0xe2, 5, 4, 0xe2, 0x1a, 0xe4, 0x1d, 0xe6, 0x32, 0, 0x86, 0xff, 0x80, 0xe, 0xe2,
      0, 0xff, 0x5a, 0xe2, 0, 0xe1, 0, 0xa2, 0x20, 0xa1, 0x20, 0xe2, 0, 0xe1, 0, 0xe2, 0, 0xe1, 0, 0xa2,
      0x20, 0xa1, 0x20, 0xe2, 0, 0, 1, 0, 1, 0, 1, 0, 0x3f, 0xc2, 0xe1, 0, 0xe2, 6, 0x20, 0xe2,
      0, 0xe3, 0, 0xe2, 0]"

definition unicode_gc_table_20 :: "u8 list" where
  "unicode_gc_table_20 =
     [0xe3, 0, 0xe2, 0, 0xe3, 0, 0x82, 0, 0x22, 0x61, 3, 0xe, 2, 0x4e, 0x42, 0, 0x22, 0x61, 3, 0x4e,
      0x62, 0x20, 0x22, 0x61, 0, 0x4e, 0xe2, 0, 0x81, 0x4e, 0x20, 0x42, 0, 0x22, 0x61, 3, 0x2e, 0, 0xf7, 3,
      0x9b, 0xb1, 0x36, 0x14, 0x15, 0x12, 0x34, 0x15, 0x12, 0x14, 0xf6, 0, 0x18, 0x19, 0x9b, 0x17, 0xf6, 1, 0x14, 0x15,
      0x76, 0x30, 0x56, 0xc]"

definition unicode_gc_table_21 :: "u8 list" where
  "unicode_gc_table_21 =
     [0x12, 0x13, 0xf6, 3, 0xc, 0x16, 0x10, 0xf6, 2, 0x17, 0x9b, 0, 0xfb, 2, 0xb, 4, 0x20, 0xab, 0x4c, 0x12,
      0x13, 4, 0xeb, 2, 0x4c, 0x12, 0x13, 0, 0xe4, 5, 0x40, 0xed, 0x18, 0xe0, 8, 0xe6, 5, 0x68, 6, 0x48,
      0xe6, 4, 0xe0, 7, 0x2f, 1, 0x6f, 1, 0x2f, 2, 0x41, 0x22, 0x41, 2, 0xf, 1, 0x2f, 0xc, 0x81, 0xaf,
      1, 0xf, 1, 0xf]"

definition unicode_gc_table_22 :: "u8 list" where
  "unicode_gc_table_22 =
     [1, 0xf, 0x61, 0xf, 2, 0x61, 2, 0x65, 2, 0x2f, 0x22, 0x21, 0x8c, 0x3f, 0x42, 0xf, 0xc, 0x2f, 2, 0xf,
      0xeb, 8, 0xea, 0x1b, 0x3f, 0x6a, 0xb, 0x2f, 0x60, 0x8c, 0x8f, 0x2c, 0x6f, 0xc, 0x2f, 0xc, 0x2f, 0xc, 0xcf, 0xc,
      0xef, 0x17, 0x2c, 0x2f, 0xc, 0xf, 0xc, 0xef, 0x17, 0xec, 0x80, 0x84, 0xef, 0, 0x12, 0x13, 0x12, 0x13, 0xef, 0xc,
      0x2c, 0xcf, 0x12, 0x13]"

definition unicode_gc_table_23 :: "u8 list" where
  "unicode_gc_table_23 =
     [0xef, 0x49, 0xc, 0xef, 0x16, 0xec, 0x11, 0xef, 0x20, 0xac, 0xef, 0x3d, 0xe0, 0x11, 0xef, 3, 0xe0, 0xd, 0xeb, 0x34,
      0xef, 0x46, 0xeb, 0xe, 0xef, 0x80, 0x2f, 0xc, 0xef, 1, 0xc, 0xef, 0x2e, 0xec, 0, 0xef, 0x67, 0xc, 0xef, 0x80,
      0x70, 0x12, 0x13, 0x12, 0x13, 0x12, 0x13, 0x12, 0x13, 0x12, 0x13, 0x12, 0x13, 0x12, 0x13, 0xeb, 0x16, 0xef, 0x24, 0x8c,
      0x12, 0x13, 0xec, 0x17]"

definition unicode_gc_table_24 :: "u8 list" where
  "unicode_gc_table_24 =
     [0x12, 0x13, 0x12, 0x13, 0x12, 0x13, 0x12, 0x13, 0x12, 0x13, 0xec, 8, 0xef, 0x80, 0x78, 0xec, 0x7b, 0x12, 0x13, 0x12,
      0x13, 0x12, 0x13, 0x12, 0x13, 0x12, 0x13, 0x12, 0x13, 0x12, 0x13, 0x12, 0x13, 0x12, 0x13, 0x12, 0x13, 0x12, 0x13, 0xec,
      0x37, 0x12, 0x13, 0x12, 0x13, 0xec, 0x18, 0x12, 0x13, 0xec, 0x80, 0x7a, 0xef, 0x28, 0xec, 0xd, 0x2f, 0xac, 0xef, 0x1f,
      0x20, 0xef, 0x18, 0x20]"

definition unicode_gc_table_25 :: "u8 list" where
  "unicode_gc_table_25 =
     [0xef, 0x60, 0xe1, 0x27, 0, 0xe2, 0x27, 0, 0x5f, 0x21, 0x22, 0xdf, 0x41, 2, 0x3f, 2, 0x3f, 0x82, 0x24, 0x41,
      2, 0xff, 0x5a, 2, 0xaf, 0x7f, 0x46, 0x3f, 0x80, 0x76, 0xb, 0x36, 0xe2, 0x1e, 0, 2, 0x80, 2, 0x20, 0xe5,
      0x30, 0xc0, 4, 0x16, 0xe0, 6, 6, 0xe5, 0xf, 0xe0, 1, 0xc5, 0, 0xc5, 0, 0xc5, 0, 0xc5, 0, 0xc5,
      0, 0xc5, 0, 0xc5]"

definition unicode_gc_table_26 :: "u8 list" where
  "unicode_gc_table_26 =
     [0, 0xc5, 0, 0xe6, 0x18, 0x36, 0x14, 0x15, 0x14, 0x15, 0x56, 0x14, 0x15, 0x16, 0x14, 0x15, 0xf6, 1, 0x11, 0x36,
      0x11, 0x16, 0x14, 0x15, 0x36, 0x14, 0x15, 0x12, 0x13, 0x12, 0x13, 0x12, 0x13, 0x12, 0x13, 0x96, 4, 0xf6, 2, 0x31,
      0x76, 0x11, 0x16, 0x12, 0xf6, 5, 0xe0, 0x28, 0xef, 0x12, 0, 0xef, 0x51, 0xe0, 4, 0xef, 0x80, 0x4e, 0xe0, 0x12,
      0xef, 4, 0x60, 0x17]"

definition unicode_gc_table_27 :: "u8 list" where
  "unicode_gc_table_27 =
     [0x56, 0xf, 4, 5, 0xa, 0x12, 0x13, 0x12, 0x13, 0x12, 0x13, 0x12, 0x13, 0x12, 0x13, 0x2f, 0x12, 0x13, 0x12, 0x13,
      0x12, 0x13, 0x12, 0x13, 0x11, 0x12, 0x33, 0xf, 0xea, 1, 0x66, 0x27, 0x11, 0x84, 0x2f, 0x4a, 4, 5, 0x16, 0x2f,
      0, 0xe5, 0x4e, 0x20, 0x26, 0x2e, 0x24, 5, 0x11, 0xe5, 0x52, 0x16, 0x44, 5, 0x80, 0xe5, 0x23, 0, 0xe5, 0x56,
      0, 0x2f, 0x6b, 0xef, 2]"

definition unicode_gc_table_28 :: "u8 list" where
  "unicode_gc_table_28 =
     [0xe5, 0x13, 0x80, 0xef, 0x1c, 0xe0, 4, 0xe5, 8, 0xef, 0x17, 0, 0xeb, 2, 0xef, 0x16, 0xeb, 0, 0xf, 0xeb,
      7, 0xef, 0x18, 0xeb, 2, 0xef, 0x1f, 0xeb, 7, 0xef, 0x80, 0xb8, 0xe5, 0x99, 0x2e, 0xe0, 2, 0xef, 0x38, 0xe5,
      0xc0, 0x11, 0x68, 0xe0, 8, 0xe5, 0xd, 4, 0xe5, 0x83, 0xef, 0x40, 0xef, 0x2f, 0xe0, 1, 0xe5, 0x20, 0xa4, 0x36,
      0xe5, 0x80, 0x84, 4]"

definition unicode_gc_table_29 :: "u8 list" where
  "unicode_gc_table_29 =
     [0x56, 0xe5, 8, 0xe9, 2, 0x25, 0xe0, 0xc, 0xff, 0x26, 5, 6, 0x48, 0x16, 0xe6, 2, 0x16, 4, 0xff, 0x14,
      0x24, 0x26, 0xe5, 0x3e, 0xea, 2, 0x26, 0xb6, 0xe0, 0, 0xee, 0xf, 0xe4, 1, 0x2e, 0xff, 6, 0x22, 0xff, 0x36,
      4, 0xe2, 0, 0x9f, 0xff, 2, 4, 0x2e, 0x7f, 5, 0x7f, 0x22, 0xff, 0xd, 0x61, 2, 0x81, 2, 0xff, 2,
      0x20, 0x5f, 0x21, 0xe0, 0x28]"

definition unicode_gc_table_30 :: "u8 list" where
  "unicode_gc_table_30 =
     [5, 0x24, 2, 0xc5, 6, 0x45, 6, 0x65, 6, 0xe5, 0xf, 0x27, 0x26, 7, 0x6f, 0x60, 0xab, 0x2f, 0xd, 0xf,
      0xa0, 0xe5, 0x2c, 0x76, 0xe0, 0, 0x27, 0xe5, 0x2a, 0xe7, 8, 0x26, 0xe0, 0, 0x36, 0xe9, 2, 0xa0, 0xe6, 0xa,
      0xa5, 0x56, 5, 0x16, 0x25, 6, 0xe9, 2, 0xe5, 0x14, 0xe6, 0, 0x36, 0xe5, 0xf, 0xe6, 3, 0x27, 0xe0, 3,
      0x16, 0xe5, 0x15, 0x40]"

definition unicode_gc_table_31 :: "u8 list" where
  "unicode_gc_table_31 =
     [0x46, 7, 0xe5, 0x27, 6, 0x27, 0x66, 0x27, 0x26, 0x47, 0xf6, 5, 0, 4, 0xe9, 2, 0x60, 0x36, 0x85, 6,
      4, 0xe5, 1, 0xe9, 2, 0x85, 0, 0xe5, 0x21, 0xa6, 0x27, 0x26, 0x27, 0x26, 0xe0, 1, 0x45, 6, 0xe5, 0,
      6, 7, 0x20, 0xe9, 2, 0x20, 0x76, 0xe5, 8, 4, 0xa5, 0x4f, 5, 7, 6, 7, 0xe5, 0x2a, 6, 5,
      0x46, 0x25, 0x26, 0x85]"

definition unicode_gc_table_32 :: "u8 list" where
  "unicode_gc_table_32 =
     [0x26, 5, 6, 5, 0xe0, 0x10, 0x25, 4, 0x36, 0xe5, 3, 7, 0x26, 0x27, 0x36, 5, 0x24, 7, 6, 0xe0,
      2, 0xa5, 0x20, 0xa5, 0x20, 0xa5, 0xe0, 1, 0xc5, 0, 0xc5, 0, 0xe2, 0x23, 0xe, 0x64, 0xe2, 0, 0xe0, 0,
      0xe2, 0x48, 0xe5, 0x1b, 0x27, 6, 0x27, 6, 0x27, 0x16, 7, 6, 0x20, 0xe9, 2, 0xa0, 0xe5, 0xab, 0x1c, 0xe0,
      4, 0xe5, 0xf, 0x60]"

definition unicode_gc_table_33 :: "u8 list" where
  "unicode_gc_table_33 =
     [0xe5, 0x29, 0x60, 0xfc, 0x87, 0x78, 0xfd, 0x98, 0x78, 0xe5, 0x80, 0xe6, 0x20, 0xe5, 0x62, 0xe0, 0x1e, 0xc2, 0xe0, 4,
      0x82, 0x80, 5, 6, 0xe5, 2, 0xc, 0xe5, 5, 0, 0x85, 0, 5, 0, 0x25, 0, 0x25, 0, 0xe5, 0x64,
      0xee, 8, 0xe0, 9, 0xe5, 0x80, 0xe3, 0x13, 0x12, 0xe0, 8, 0xe5, 0x38, 0x20, 0xe5, 0x2e, 0xe0, 0x20, 0xe5, 4,
      0xd, 0xf, 0x20, 0xe6, 8]"

definition unicode_gc_table_34 :: "u8 list" where
  "unicode_gc_table_34 =
     [0xd6, 0x12, 0x13, 0x16, 0xa0, 0xe6, 8, 0x16, 0x31, 0x30, 0x12, 0x13, 0x12, 0x13, 0x12, 0x13, 0x12, 0x13, 0x12, 0x13,
      0x12, 0x13, 0x12, 0x13, 0x12, 0x13, 0x36, 0x12, 0x13, 0x76, 0x50, 0x56, 0, 0x76, 0x11, 0x12, 0x13, 0x12, 0x13, 0x12,
      0x13, 0x56, 0xc, 0x11, 0x4c, 0, 0x16, 0xd, 0x36, 0x60, 0x85, 0, 0xe5, 0x7f, 0x20, 0x1b, 0, 0x56, 0xd, 0x56,
      0x12, 0x13, 0x16, 0xc]"

definition unicode_gc_table_35 :: "u8 list" where
  "unicode_gc_table_35 =
     [0x16, 0x11, 0x36, 0xe9, 2, 0x36, 0x4c, 0x36, 0xe1, 0x12, 0x12, 0x16, 0x13, 0xe, 0x10, 0xe, 0xe2, 0x12, 0x12, 0xc,
      0x13, 0xc, 0x12, 0x13, 0x16, 0x12, 0x13, 0x36, 0xe5, 2, 4, 0xe5, 0x25, 0x24, 0xe5, 0x17, 0x40, 0xa5, 0x20, 0xa5,
      0x20, 0xa5, 0x20, 0x45, 0x40, 0x2d, 0xc, 0xe, 0xf, 0x2d, 0, 0xf, 0x6c, 0x2f, 0xe0, 2, 0x5b, 0x2f, 0x20, 0xe5,
      4, 0, 0xe5, 0x12]"

definition unicode_gc_table_36 :: "u8 list" where
  "unicode_gc_table_36 =
     [0, 0xe5, 0xb, 0, 0x25, 0, 0xe5, 7, 0x20, 0xe5, 6, 0xe0, 0x1a, 0xe5, 0x73, 0x80, 0x56, 0x60, 0xeb, 0x25,
      0x40, 0xef, 1, 0xea, 0x2d, 0x6b, 0xef, 9, 0x2b, 0x4f, 0, 0xef, 4, 0x60, 0xf, 0xe0, 0x27, 0xef, 0x25, 6,
      0xe0, 0x7a, 0xe5, 0x15, 0x40, 0xe5, 0x29, 0xe0, 7, 6, 0xeb, 0x13, 0x60, 0xe5, 0x18, 0x6b, 0xe0, 1, 0xe5, 0xc,
      0xa, 0xe5, 0, 0xa]"

definition unicode_gc_table_37 :: "u8 list" where
  "unicode_gc_table_37 =
     [0x80, 0xe5, 0x1e, 0x86, 0x80, 0xe5, 0x16, 0, 0x16, 0xe5, 0x1c, 0x60, 0xe5, 0, 0x16, 0x8a, 0xe0, 0x22, 0xe1, 0x20,
      0xe2, 0x20, 0xe5, 0x46, 0x20, 0xe9, 2, 0xa0, 0xe1, 0x1c, 0x60, 0xe2, 0x1c, 0x60, 0xe5, 0x20, 0xe0, 0, 0xe5, 0x2c,
      0xe0, 3, 0x16, 0xe0, 0x80, 8, 0xe5, 0x80, 0xaf, 0xe0, 1, 0xe5, 0xe, 0xe0, 2, 0xe5, 0, 0xe0, 0x80, 0x10,
      0xa5, 0x20, 5, 0]"

definition unicode_gc_table_38 :: "u8 list" where
  "unicode_gc_table_38 =
     [0xe5, 0x24, 0, 0x25, 0x40, 5, 0x20, 0xe5, 0xf, 0, 0x16, 0xeb, 0, 0xe5, 0xf, 0x2f, 0xcb, 0xe5, 0x17, 0xe0,
      0, 0xeb, 1, 0xe0, 0x28, 0xe5, 0xb, 0, 0x25, 0x80, 0x8b, 0xe5, 0xe, 0xab, 0x40, 0x16, 0xe5, 0x12, 0x80, 0x16,
      0xe0, 0x38, 0xe5, 0x30, 0x60, 0x2b, 0x25, 0xeb, 8, 0x20, 0xeb, 0x26, 5, 0x46, 0, 0x26, 0x80, 0x66, 0x65, 0,
      0x45, 0, 0xe5, 0x15]"

definition unicode_gc_table_39 :: "u8 list" where
  "unicode_gc_table_39 =
     [0x20, 0x46, 0x60, 6, 0xeb, 1, 0xc0, 0xf6, 1, 0xc0, 0xe5, 0x15, 0x2b, 0x16, 0xe5, 0x15, 0x4b, 0xe0, 0x18, 0xe5,
      0, 0xf, 0xe5, 0x14, 0x26, 0x60, 0x8b, 0xd6, 0xe0, 1, 0xe5, 0x2e, 0x40, 0xd6, 0xe5, 0xe, 0x20, 0xeb, 0, 0xe5,
      0xb, 0x80, 0xeb, 0, 0xe5, 0xa, 0xc0, 0x76, 0xe0, 4, 0xcb, 0xe0, 0x48, 0xe5, 0x41, 0xe0, 0x2f, 0xe1, 0x2b, 0xe0,
      5, 0xe2, 0x2b, 0xc0]"

definition unicode_gc_table_40 :: "u8 list" where
  "unicode_gc_table_40 =
     [0xab, 0xe5, 0x1c, 0x66, 0xe0, 0, 0xe9, 2, 0xe0, 0x80, 0x9e, 0xeb, 0x17, 0xe0, 0x79, 0xe5, 0x15, 0xeb, 2, 5,
      0xe0, 0, 0xe5, 0xe, 0xe6, 3, 0x6b, 0x96, 0xe0, 0x7e, 0xe5, 0xf, 0xe0, 1, 7, 6, 7, 0xe5, 0x2d, 0xe6,
      7, 0xd6, 0x60, 0xeb, 0xc, 0xe9, 2, 0xe0, 7, 0x46, 7, 0xe5, 0x25, 0x47, 0x66, 0x27, 0x26, 0x36, 0x1b, 0x76,
      0xe0, 3, 0x1b, 0x20]"

definition unicode_gc_table_41 :: "u8 list" where
  "unicode_gc_table_41 =
     [0xe5, 0x11, 0xc0, 0xe9, 2, 0xa0, 0x46, 0xe5, 0x1c, 0x86, 7, 0xe6, 0, 0, 0xe9, 2, 0x76, 5, 0x27, 0xe0,
      1, 0xe5, 0x1b, 6, 0x36, 5, 0xe0, 1, 0x26, 7, 0xe5, 0x28, 0x47, 0xe6, 1, 0x27, 0x65, 0x76, 0x66, 0x16,
      0x20, 0xe9, 2, 5, 0x16, 5, 0x56, 0, 0xeb, 0xc, 0xe0, 3, 0xe5, 0xa, 0, 0xe5, 0x11, 0x47, 0x46, 0x27,
      6, 7, 0x26, 0xb6]"

definition unicode_gc_table_42 :: "u8 list" where
  "unicode_gc_table_42 =
     [6, 0xe0, 0x39, 0xc5, 0, 5, 0, 0x65, 0, 0xe5, 7, 0, 0xe5, 2, 0x16, 0xa0, 0xe5, 0x27, 6, 0x47,
      0xe6, 0, 0x80, 0xe9, 2, 0xa0, 0x26, 0x27, 0, 0xe5, 0, 0x20, 0x25, 0x20, 0xe5, 0xe, 0, 0xc5, 0, 0x25,
      0, 0x85, 0, 0x26, 5, 0x27, 6, 0x67, 0x20, 0x27, 0x20, 0x47, 0x20, 5, 0xa0, 7, 0x80, 0x85, 0x27, 0x20,
      0xc6, 0x40, 0x86, 0xe0, 0x80, 3]"

definition unicode_gc_table_43 :: "u8 list" where
  "unicode_gc_table_43 =
     [0xe5, 0x2d, 0x47, 0xe6, 0, 0x27, 0x46, 7, 6, 0x65, 0x96, 0xe9, 2, 0, 0x16, 0, 0x16, 6, 5, 0xe0,
      0x18, 0xe5, 0x28, 0x47, 0xa6, 7, 6, 0x67, 0x26, 7, 0x26, 0x25, 0x16, 5, 0xe0, 0, 0xe9, 2, 0xe0, 0x80,
      0x1e, 0xe5, 0x27, 0x47, 0x66, 0x20, 0x67, 0x26, 7, 0x26, 0xf6, 0xf, 0x65, 0x26, 0xe0, 0x1a, 0xe5, 0x28, 0x47, 0xe6,
      0, 0x27, 6, 7]"

definition unicode_gc_table_44 :: "u8 list" where
  "unicode_gc_table_44 =
     [0x26, 0x56, 5, 0xe0, 3, 0xe9, 2, 0xa0, 0xf6, 5, 0xe0, 0xb, 0xe5, 0x23, 6, 7, 6, 0x27, 0xa6, 7,
      6, 5, 0xc0, 0xe9, 2, 0xe0, 0x2e, 0xe5, 0x13, 0x20, 0x46, 0x27, 0x66, 7, 0x86, 0x60, 0xe9, 2, 0x2b, 0x56,
      0xf, 0xe0, 0x80, 0x38, 0xe5, 0x24, 0x47, 0xe6, 1, 7, 0x26, 0x16, 0xe0, 0x5c, 0xe1, 0x18, 0xe2, 0x18, 0xe9, 2,
      0xeb, 1, 0xe0, 4]"

definition unicode_gc_table_45 :: "u8 list" where
  "unicode_gc_table_45 =
     [5, 0xe0, 0x80, 0x18, 0xe5, 0, 0x20, 0xe5, 0x1f, 0x47, 0x66, 0x20, 0x26, 0x67, 6, 5, 0x16, 5, 7, 0xe0,
      0x13, 5, 0xe6, 2, 0xe5, 0x20, 0xa6, 7, 5, 0x66, 0xf6, 0, 6, 0xe0, 0, 5, 0xa6, 0x27, 0x46, 0xe5,
      0x26, 0xe6, 5, 7, 0x26, 0x56, 5, 0x96, 0xe0, 0x15, 0xe5, 0x31, 0xe0, 0x80, 0x7f, 0xe5, 1, 0, 0xe5, 0x1d,
      7, 0xc6, 0, 0xa6]"

definition unicode_gc_table_46 :: "u8 list" where
  "unicode_gc_table_46 =
     [7, 6, 5, 0x96, 0xe0, 2, 0xe9, 2, 0xeb, 0xb, 0x40, 0x36, 0xe5, 0x16, 0x20, 0xe6, 0xe, 0, 7, 0xc6,
      7, 0x26, 7, 0x26, 0xe0, 0x41, 0xc5, 0, 0x25, 0, 0xe5, 0x1e, 0xa6, 0x40, 6, 0, 0x26, 0, 0xc6, 5,
      6, 0xe0, 0, 0xe9, 2, 0xa0, 0xa5, 0, 0x25, 0, 0xe5, 0x18, 0x87, 0, 0x26, 0, 0x27, 6, 7, 6,
      5, 0xc0, 0xe9, 2]"

definition unicode_gc_table_47 :: "u8 list" where
  "unicode_gc_table_47 =
     [0xe0, 0x80, 0xae, 0xe5, 0xb, 0x26, 0x27, 0x36, 0xe0, 0x80, 0x3f, 0xeb, 0xd, 0xef, 0, 0x6d, 0xef, 9, 0xe0, 5,
      0x16, 0xe5, 0x83, 0x12, 0xe0, 0x5e, 0xea, 0x67, 0, 0x96, 0xe0, 3, 0xe5, 0x80, 0x3c, 0xe0, 0x8a, 0x34, 0xe5, 0x83,
      0xa7, 0, 0xfb, 1, 0xe0, 0x8f, 0x3f, 0xe5, 0x81, 0xbf, 0xe0, 0xa1, 0x31, 0xe5, 0x81, 0xb1, 0xc0, 0xe5, 0x17, 0,
      0xe9, 2, 0x60, 0x36]"

definition unicode_gc_table_48 :: "u8 list" where
  "unicode_gc_table_48 =
     [0xe0, 0x58, 0xe5, 0x16, 0x20, 0x86, 0x16, 0xe0, 2, 0xe5, 0x28, 0xc6, 0x96, 0x6f, 0x64, 0x16, 0xf, 0xe0, 2, 0xe9,
      2, 0, 0xcb, 0, 0xe5, 0xd, 0x80, 0xe5, 0xb, 0xe0, 0x82, 0x28, 0xe1, 0x18, 0xe2, 0x18, 0xeb, 0xf, 0x76, 0xe0,
      0x5d, 0xe5, 0x43, 0x60, 6, 5, 0xe7, 0x2f, 0xc0, 0x66, 0xe4, 5, 0xe0, 0x38, 0x24, 0x16, 4, 0xe0, 0x14, 0xe5,
      0x97, 0x70, 0xe0, 0]"

definition unicode_gc_table_49 :: "u8 list" where
  "unicode_gc_table_49 =
     [0xe5, 0x82, 0x6b, 0xe0, 0xa4, 0x85, 0xe5, 0x80, 0x97, 0xe0, 0x29, 0x45, 0xe0, 9, 0x65, 0xe0, 0, 0xe5, 0x81, 4,
      0xe0, 0x88, 0x7c, 0xe5, 0x63, 0x80, 0xe5, 5, 0x40, 0xe5, 1, 0xc0, 0xe5, 2, 0x20, 0xf, 0x26, 0x16, 0x7b, 0xe0,
      0x92, 0xd4, 0xef, 0x80, 0x6e, 0xe0, 2, 0xef, 0x1f, 0x20, 0xef, 0x34, 0x27, 0x46, 0x4f, 0xa7, 0xfb, 0, 0xe6, 0,
      0x2f, 0xc6, 0xef, 0x16]"

definition unicode_gc_table_50 :: "u8 list" where
  "unicode_gc_table_50 =
     [0x66, 0xef, 0x33, 0xe0, 0xf, 0xef, 0x3a, 0x46, 0xf, 0xe0, 0x80, 0x12, 0xeb, 0xc, 0xe0, 4, 0xef, 0x4f, 0xe0, 1,
      0xeb, 0x11, 0xe0, 0x7f, 0xe1, 0x12, 0xe2, 0x12, 0xe1, 0x12, 0xc2, 0, 0xe2, 0xa, 0xe1, 0x12, 0xe2, 0x12, 1, 0,
      0x21, 0x20, 1, 0x20, 0x21, 0x20, 0x61, 0, 0xe1, 0, 0x62, 0, 2, 0, 0xc2, 0, 0xe2, 3, 0xe1, 0x12,
      0xe2, 0x12, 0x21, 0]"

definition unicode_gc_table_51 :: "u8 list" where
  "unicode_gc_table_51 =
     [0x61, 0x20, 0xe1, 0, 0, 0xc1, 0, 0xe2, 0x12, 0x21, 0, 0x61, 0, 0x81, 0, 1, 0x40, 0xc1, 0, 0xe2,
      0x12, 0xe1, 0x12, 0xe2, 0x12, 0xe1, 0x12, 0xe2, 0x12, 0xe1, 0x12, 0xe2, 0x12, 0xe1, 0x12, 0xe2, 0x12, 0xe1, 0x12, 0xe2,
      0x12, 0xe1, 0x12, 0xe2, 0x14, 0x20, 0xe1, 0x11, 0xc, 0xe2, 0x11, 0xc, 0xa2, 0xe1, 0x11, 0xc, 0xe2, 0x11, 0xc, 0xa2,
      0xe1, 0x11, 0xc, 0xe2, 0x11]"

definition unicode_gc_table_52 :: "u8 list" where
  "unicode_gc_table_52 =
     [0xc, 0xa2, 0xe1, 0x11, 0xc, 0xe2, 0x11, 0xc, 0xa2, 0xe1, 0x11, 0xc, 0xe2, 0x11, 0xc, 0xa2, 0x3f, 0x20, 0xe9, 0x2a,
      0xef, 0x81, 0x78, 0xe6, 0x2f, 0x6f, 0xe6, 0x2a, 0xef, 0, 6, 0xef, 6, 6, 0x2f, 0x96, 0xe0, 7, 0x86, 0,
      0xe6, 7, 0xe0, 0x84, 0xc8, 0xc6, 0, 0xe6, 9, 0x20, 0xc6, 0, 0x26, 0, 0x86, 0xe0, 0x80, 0x4d, 0xe5, 0x25,
      0x40, 0xc6, 0xc4, 0x20]"

definition unicode_gc_table_53 :: "u8 list" where
  "unicode_gc_table_53 =
     [0xe9, 2, 0x60, 5, 0xf, 0xe0, 0x80, 0xe8, 0xe5, 0x24, 0x66, 0xe9, 2, 0x80, 0xd, 0xe0, 0x84, 0x78, 0xe5, 0x80,
      0x3d, 0x20, 0xeb, 1, 0xc6, 0xe0, 0x21, 0xe1, 0x1a, 0xe2, 0x1a, 0xc6, 4, 0x60, 0xe9, 2, 0x60, 0x36, 0xe0, 0x82,
      0x89, 0xeb, 0x33, 0xf, 0x4b, 0xd, 0x6b, 0xe0, 0x44, 0xeb, 0x25, 0xf, 0xeb, 7, 0xe0, 0x80, 0x3a, 0x65, 0, 0xe5,
      0x13, 0, 0x25, 0]"

definition unicode_gc_table_54 :: "u8 list" where
  "unicode_gc_table_54 =
     [5, 0x20, 5, 0, 0xe5, 2, 0, 0x65, 0, 5, 0, 5, 0xa0, 5, 0x60, 5, 0, 5, 0, 5,
      0, 0x45, 0, 0x25, 0, 5, 0x20, 5, 0, 5, 0, 5, 0, 5, 0, 5, 0, 0x25, 0, 5,
      0x20, 0x65, 0, 0xc5, 0, 0x65, 0, 0x65, 0, 5, 0, 0xe5, 2, 0, 0xe5, 9, 0x80, 0x45, 0, 0x85,
      0, 0xe5, 9, 0xe0, 0x2c]"

definition unicode_gc_table_55 :: "u8 list" where
  "unicode_gc_table_55 =
     [0x2c, 0xe0, 0x80, 0x86, 0xef, 0x24, 0x60, 0xef, 0x5c, 0xe0, 4, 0xef, 7, 0x20, 0xef, 7, 0, 0xef, 7, 0,
      0xef, 0x1d, 0xe0, 2, 0xeb, 5, 0x40, 0xef, 0x55, 0x40, 0xef, 0x35, 0xe0, 0x31, 0xef, 0x15, 0xe0, 5, 0xef, 0x24,
      0x60, 0xef, 1, 0xc0, 0x2f, 0xe0, 6, 0xaf, 0xe0, 0x80, 0x12, 0xef, 0x80, 0x73, 0x8e, 0xef, 0x82, 0x4e, 0xe0, 2,
      0xef, 5, 0x40, 0xef, 3]"

definition unicode_gc_table_56 :: "u8 list" where
  "unicode_gc_table_56 =
     [0x80, 0xef, 0x6c, 0xe0, 4, 0xef, 0x51, 0xc0, 0xef, 4, 0xe0, 0xc, 0xef, 4, 0x60, 0xef, 0x30, 0xe0, 0, 0xef,
      2, 0xa0, 0xef, 0x20, 0xe0, 0, 0xef, 0x16, 0xe0, 0x4a, 0xef, 4, 0, 0xef, 0x5d, 0, 0x6f, 0x40, 0xef, 0x21,
      0x20, 0xaf, 0x40, 0xef, 0x15, 0x20, 0xef, 0x7f, 0xe0, 4, 0xef, 6, 0x20, 0x6f, 0x60, 0x4f, 0x80, 0x4f, 0xe0, 5,
      0xaf, 0xe0, 0x84, 0xe2]"

definition unicode_gc_table_57 :: "u8 list" where
  "unicode_gc_table_57 =
     [0xe5, 0xc0, 0x66, 0x4f, 0xe0, 0x21, 0xe5, 0x8f, 0xad, 0xe0, 3, 0xe5, 0x80, 0x56, 0x20, 0xe5, 0x95, 0xfa, 0xe0, 6,
      0xe5, 0x9c, 0xa9, 0xe0, 0x8b, 0x97, 0xe5, 0x81, 0x96, 0xe0, 0xca, 0xc5, 0x5b, 0x1b, 0xe0, 0x16, 0xfb, 0x58, 0xe0, 0x78,
      0xe6, 0x80, 0x68, 0xe0, 0xc0, 0xbd, 0x88, 0xfd, 0xc0, 0xbf, 0x76, 0x20, 0xfd, 0xc0, 0xbf, 0x76, 0x20]"

definition unicode_gc_table :: "u8 list" where
  "unicode_gc_table =
     concat [unicode_gc_table_0,
      unicode_gc_table_1,
      unicode_gc_table_2,
      unicode_gc_table_3,
      unicode_gc_table_4,
      unicode_gc_table_5,
      unicode_gc_table_6,
      unicode_gc_table_7,
      unicode_gc_table_8,
      unicode_gc_table_9,
      unicode_gc_table_10,
      unicode_gc_table_11,
      unicode_gc_table_12,
      unicode_gc_table_13,
      unicode_gc_table_14,
      unicode_gc_table_15,
      unicode_gc_table_16,
      unicode_gc_table_17,
      unicode_gc_table_18,
      unicode_gc_table_19,
      unicode_gc_table_20,
      unicode_gc_table_21,
      unicode_gc_table_22,
      unicode_gc_table_23,
      unicode_gc_table_24,
      unicode_gc_table_25,
      unicode_gc_table_26,
      unicode_gc_table_27,
      unicode_gc_table_28,
      unicode_gc_table_29,
      unicode_gc_table_30,
      unicode_gc_table_31,
      unicode_gc_table_32,
      unicode_gc_table_33,
      unicode_gc_table_34,
      unicode_gc_table_35,
      unicode_gc_table_36,
      unicode_gc_table_37,
      unicode_gc_table_38,
      unicode_gc_table_39,
      unicode_gc_table_40,
      unicode_gc_table_41,
      unicode_gc_table_42,
      unicode_gc_table_43,
      unicode_gc_table_44,
      unicode_gc_table_45,
      unicode_gc_table_46,
      unicode_gc_table_47,
      unicode_gc_table_48,
      unicode_gc_table_49,
      unicode_gc_table_50,
      unicode_gc_table_51,
      unicode_gc_table_52,
      unicode_gc_table_53,
      unicode_gc_table_54,
      unicode_gc_table_55,
      unicode_gc_table_56,
      unicode_gc_table_57]"

definition unicode_script_table_0 :: "u8 list" where
  "unicode_script_table_0 =
     [0xc0, 0x18, 0x99, 0x42, 0x85, 0x18, 0x99, 0x42, 0xae, 0x18, 0x80, 0x42, 0x8e, 0x18, 0x80, 0x42, 0x84, 0x18, 0x96, 0x42,
      0x80, 0x18, 0x9e, 0x42, 0x80, 0x18, 0xe1, 0x60, 0x42, 0xa6, 0x18, 0x84, 0x42, 0x84, 0x18, 0x81, 0xd, 0x93, 0x18, 0xe0,
      0xf, 0x35, 0x83, 0x29, 0x80, 0x18, 0x82, 0x29, 1, 0x83, 0x29, 0x80, 0x18, 0x80, 0x29, 3, 0x80, 0x29, 0x80, 0x18,
      0x80, 0x29, 0x80, 0x18]"

definition unicode_script_table_1 :: "u8 list" where
  "unicode_script_table_1 =
     [0x82, 0x29, 0, 0x80, 0x29, 0, 0x93, 0x29, 0, 0xbe, 0x29, 0x8d, 0x19, 0x8f, 0x29, 0xe0, 0x24, 0x1c, 0x81, 0x35,
      0xe0, 0x48, 0x1c, 0, 0xa5, 5, 1, 0xaf, 5, 0x80, 0x18, 0x80, 5, 1, 0x82, 5, 0, 0xb6, 0x32, 7,
      0x9a, 0x32, 3, 0x85, 0x32, 0xa, 0x84, 4, 0x80, 0x18, 0x85, 4, 0x80, 0x18, 0x8d, 4, 0x80, 0x18, 0x80, 4,
      0, 0x80, 4, 0x80, 0x18]"

definition unicode_script_table_2 :: "u8 list" where
  "unicode_script_table_2 =
     [0x9f, 4, 0x80, 0x18, 0x89, 4, 0x8a, 0x35, 0x99, 4, 0x80, 0x35, 0xe0, 0xb, 4, 0x80, 0x18, 0xa1, 4, 0x8d,
      0x84, 0, 0xbb, 0x84, 1, 0x82, 0x84, 0xaf, 4, 0xb1, 0x8e, 0xd, 0xba, 0x60, 1, 0x82, 0x60, 0xad, 0x78, 1,
      0x8e, 0x78, 0, 0x9b, 0x4d, 1, 0x80, 0x4d, 0, 0x8a, 0x84, 0x34, 0x94, 4, 0, 0x87, 4, 0x14, 0x8e, 4,
      0x80, 0x18, 0x9c, 4]"

definition unicode_script_table_3 :: "u8 list" where
  "unicode_script_table_3 =
     [0xd0, 0x1e, 0x83, 0x35, 0x8e, 0x1e, 0x81, 0x18, 0x99, 0x1e, 0x83, 0xb, 0, 0x87, 0xb, 1, 0x81, 0xb, 1, 0x95,
      0xb, 0, 0x86, 0xb, 0, 0x80, 0xb, 2, 0x83, 0xb, 1, 0x88, 0xb, 1, 0x81, 0xb, 1, 0x83, 0xb, 7,
      0x80, 0xb, 3, 0x81, 0xb, 0, 0x84, 0xb, 1, 0x98, 0xb, 1, 0x82, 0x2c, 0, 0x85, 0x2c, 3, 0x81, 0x2c,
      1, 0x95, 0x2c, 0]"

definition unicode_script_table_4 :: "u8 list" where
  "unicode_script_table_4 =
     [0x86, 0x2c, 0, 0x81, 0x2c, 0, 0x81, 0x2c, 0, 0x81, 0x2c, 1, 0x80, 0x2c, 0, 0x84, 0x2c, 3, 0x81, 0x2c,
      1, 0x82, 0x2c, 2, 0x80, 0x2c, 6, 0x83, 0x2c, 0, 0x80, 0x2c, 6, 0x90, 0x2c, 9, 0x82, 0x2a, 0, 0x88,
      0x2a, 0, 0x82, 0x2a, 0, 0x95, 0x2a, 0, 0x86, 0x2a, 0, 0x81, 0x2a, 0, 0x84, 0x2a, 1, 0x89, 0x2a, 0,
      0x82, 0x2a, 0, 0x82, 0x2a]"

definition unicode_script_table_5 :: "u8 list" where
  "unicode_script_table_5 =
     [1, 0x80, 0x2a, 0xe, 0x83, 0x2a, 1, 0x8b, 0x2a, 6, 0x86, 0x2a, 0, 0x82, 0x6d, 0, 0x87, 0x6d, 1, 0x81,
      0x6d, 1, 0x95, 0x6d, 0, 0x86, 0x6d, 0, 0x81, 0x6d, 0, 0x84, 0x6d, 1, 0x88, 0x6d, 1, 0x81, 0x6d, 1,
      0x82, 0x6d, 7, 0x81, 0x6d, 3, 0x81, 0x6d, 0, 0x84, 0x6d, 1, 0x91, 0x6d, 9, 0x81, 0x8b, 0, 0x85, 0x8b,
      2, 0x82, 0x8b, 0]"

definition unicode_script_table_6 :: "u8 list" where
  "unicode_script_table_6 =
     [0x83, 0x8b, 2, 0x81, 0x8b, 0, 0x80, 0x8b, 0, 0x81, 0x8b, 2, 0x81, 0x8b, 2, 0x82, 0x8b, 2, 0x8b, 0x8b,
      3, 0x84, 0x8b, 2, 0x82, 0x8b, 0, 0x83, 0x8b, 1, 0x80, 0x8b, 5, 0x80, 0x8b, 0xd, 0x94, 0x8b, 4, 0x8c,
      0x8d, 0, 0x82, 0x8d, 0, 0x96, 0x8d, 0, 0x8f, 0x8d, 2, 0x87, 0x8d, 0, 0x82, 0x8d, 0, 0x83, 0x8d, 6,
      0x81, 0x8d, 0, 0x82, 0x8d]"

definition unicode_script_table_7 :: "u8 list" where
  "unicode_script_table_7 =
     [4, 0x83, 0x8d, 1, 0x89, 0x8d, 6, 0x88, 0x8d, 0x8c, 0x3a, 0, 0x82, 0x3a, 0, 0x96, 0x3a, 0, 0x89, 0x3a,
      0, 0x84, 0x3a, 1, 0x88, 0x3a, 0, 0x82, 0x3a, 0, 0x83, 0x3a, 6, 0x81, 0x3a, 6, 0x80, 0x3a, 0, 0x83,
      0x3a, 1, 0x89, 0x3a, 0, 0x81, 0x3a, 0xc, 0x83, 0x4c, 0, 0x87, 0x4c, 0, 0x82, 0x4c, 0, 0xb2, 0x4c, 0,
      0x82, 0x4c, 0, 0x85, 0x4c]"

definition unicode_script_table_8 :: "u8 list" where
  "unicode_script_table_8 =
     [3, 0x8f, 0x4c, 1, 0x99, 0x4c, 1, 0x81, 0x7e, 0, 0x91, 0x7e, 2, 0x97, 0x7e, 0, 0x88, 0x7e, 0, 0x80,
      0x7e, 1, 0x86, 0x7e, 2, 0x80, 0x7e, 3, 0x85, 0x7e, 0, 0x80, 0x7e, 0, 0x87, 0x7e, 5, 0x89, 0x7e, 1,
      0x82, 0x7e, 0xb, 0xb9, 0x8f, 3, 0x80, 0x18, 0x9b, 0x8f, 0x24, 0x81, 0x41, 0, 0x80, 0x41, 0, 0x84, 0x41, 0,
      0x97, 0x41, 0, 0x80, 0x41]"

definition unicode_script_table_9 :: "u8 list" where
  "unicode_script_table_9 =
     [0, 0x96, 0x41, 1, 0x84, 0x41, 0, 0x80, 0x41, 0, 0x85, 0x41, 1, 0x89, 0x41, 1, 0x83, 0x41, 0x1f, 0xc7,
      0x90, 0, 0xa3, 0x90, 3, 0xa6, 0x90, 0, 0xa3, 0x90, 0, 0x8e, 0x90, 0, 0x86, 0x90, 0x83, 0x18, 0x81, 0x90,
      0x24, 0xe0, 0x3f, 0x5b, 0xa5, 0x25, 0, 0x80, 0x25, 4, 0x80, 0x25, 1, 0xaa, 0x25, 0x80, 0x18, 0x83, 0x25, 0xe0,
      0x9f, 0x2e, 0xc8, 0x24]"

definition unicode_script_table_10 :: "u8 list" where
  "unicode_script_table_10 =
     [0, 0x83, 0x24, 1, 0x86, 0x24, 0, 0x80, 0x24, 0, 0x83, 0x24, 1, 0xa8, 0x24, 0, 0x83, 0x24, 1, 0xa0,
      0x24, 0, 0x83, 0x24, 1, 0x86, 0x24, 0, 0x80, 0x24, 0, 0x83, 0x24, 1, 0x8e, 0x24, 0, 0xb8, 0x24, 0,
      0x83, 0x24, 1, 0xc2, 0x24, 1, 0x9f, 0x24, 2, 0x99, 0x24, 5, 0xd5, 0x17, 1, 0x85, 0x17, 1, 0xe2, 0x1f,
      0x12, 0x9c, 0x63, 2]"

definition unicode_script_table_11 :: "u8 list" where
  "unicode_script_table_11 =
     [0xca, 0x77, 0x82, 0x18, 0x8a, 0x77, 6, 0x8c, 0x85, 0, 0x86, 0x85, 0xa, 0x94, 0x30, 0x81, 0x18, 8, 0x93, 0x11,
      0xb, 0x8c, 0x86, 0, 0x82, 0x86, 0, 0x81, 0x86, 0xb, 0xdd, 0x3e, 1, 0x89, 0x3e, 5, 0x89, 0x3e, 5, 0x81,
      0x58, 0x81, 0x18, 0x80, 0x58, 0x80, 0x18, 0x88, 0x58, 0, 0x89, 0x58, 5, 0xd8, 0x58, 6, 0xaa, 0x58, 4, 0xc5,
      0x12, 9, 0x9e, 0x44]"

definition unicode_script_table_12 :: "u8 list" where
  "unicode_script_table_12 =
     [0, 0x8b, 0x44, 3, 0x8b, 0x44, 3, 0x80, 0x44, 2, 0x8b, 0x44, 0x9d, 0x87, 1, 0x84, 0x87, 0xa, 0xab, 0x5e,
      3, 0x99, 0x5e, 5, 0x8a, 0x5e, 2, 0x81, 0x5e, 0x9f, 0x3e, 0x9b, 0x10, 1, 0x81, 0x10, 0xbe, 0x88, 0, 0x9c,
      0x88, 1, 0x8a, 0x88, 5, 0x89, 0x88, 5, 0x8d, 0x88, 1, 0x8e, 0x35, 0x40, 0xcb, 7, 3, 0xac, 7, 2,
      0xbf, 0x82, 0xb3, 0xa]"

definition unicode_script_table_13 :: "u8 list" where
  "unicode_script_table_13 =
     [7, 0x83, 0xa, 0xb7, 0x43, 2, 0x8e, 0x43, 2, 0x82, 0x43, 0xaf, 0x64, 0x88, 0x1c, 6, 0xaa, 0x25, 1, 0x82,
      0x25, 0x87, 0x82, 7, 0x82, 0x35, 0x80, 0x18, 0x8c, 0x35, 0x80, 0x18, 0x86, 0x35, 0x83, 0x18, 0x80, 0x35, 0x85, 0x18,
      0x80, 0x35, 0x82, 0x18, 0x81, 0x35, 0x80, 0x18, 4, 0xa5, 0x42, 0x84, 0x29, 0x80, 0x1c, 0xb0, 0x42, 0x84, 0x29, 0x83,
      0x42, 0x84, 0x29, 0x8c, 0x42]"

definition unicode_script_table_14 :: "u8 list" where
  "unicode_script_table_14 =
     [0x80, 0x1c, 0xc5, 0x42, 0x80, 0x29, 0xb9, 0x35, 0, 0x84, 0x35, 0xe0, 0x9f, 0x42, 0x95, 0x29, 1, 0x85, 0x29, 1,
      0xa5, 0x29, 1, 0x85, 0x29, 1, 0x87, 0x29, 0, 0x80, 0x29, 0, 0x80, 0x29, 0, 0x80, 0x29, 0, 0x9e, 0x29,
      1, 0xb4, 0x29, 0, 0x8e, 0x29, 0, 0x8d, 0x29, 1, 0x85, 0x29, 0, 0x92, 0x29, 1, 0x82, 0x29, 0, 0x88,
      0x29, 0, 0x8b, 0x18]"

definition unicode_script_table_15 :: "u8 list" where
  "unicode_script_table_15 =
     [0x81, 0x35, 0xd6, 0x18, 0, 0x8a, 0x18, 0x80, 0x42, 1, 0x8a, 0x18, 0x80, 0x42, 0x8e, 0x18, 0, 0x8c, 0x42, 2,
      0x9f, 0x18, 0xf, 0xa0, 0x35, 0xe, 0xa5, 0x18, 0x80, 0x29, 0x82, 0x18, 0x81, 0x42, 0x85, 0x18, 0x80, 0x42, 0x9a, 0x18,
      0x80, 0x42, 0x90, 0x18, 0xa8, 0x42, 0x82, 0x18, 3, 0xe2, 0x36, 0x18, 0x18, 0x8a, 0x18, 0x14, 0xe3, 0x3f, 0x18, 0xe0,
      0x9f, 0xf, 0xe2, 0x13, 0x18]"

definition unicode_script_table_16 :: "u8 list" where
  "unicode_script_table_16 =
     [1, 0x9f, 0x18, 1, 0xe0, 7, 0x18, 0xae, 0x26, 0, 0xae, 0x26, 0, 0x9f, 0x42, 0xe0, 0x13, 0x19, 4, 0x86,
      0x19, 0xa5, 0x25, 0, 0x80, 0x25, 4, 0x80, 0x25, 1, 0xb7, 0x91, 6, 0x81, 0x91, 0xd, 0x80, 0x91, 0x96, 0x24,
      8, 0x86, 0x24, 0, 0x86, 0x24, 0, 0x86, 0x24, 0, 0x86, 0x24, 0, 0x86, 0x24, 0, 0x86, 0x24, 0, 0x86,
      0x24, 0, 0x86, 0x24]"

definition unicode_script_table_17 :: "u8 list" where
  "unicode_script_table_17 =
     [0, 0x9f, 0x1c, 0xcf, 0x18, 0x2f, 0x99, 0x2d, 0, 0xd8, 0x2d, 0xb, 0xe0, 0x75, 0x2d, 0x19, 0x8b, 0x18, 3, 0x84,
      0x18, 0x80, 0x2d, 0x80, 0x18, 0x80, 0x2d, 0x98, 0x18, 0x88, 0x2d, 0x83, 0x35, 0x81, 0x2e, 0x87, 0x18, 0x83, 0x2d, 0x83,
      0x18, 0, 0xd5, 0x33, 1, 0x81, 0x35, 0x81, 0x18, 0x82, 0x33, 0x80, 0x18, 0xd9, 0x3b, 0x81, 0x18, 0x82, 0x3b, 4,
      0xaa, 0xd, 0, 0xdd, 0x2e]"

definition unicode_script_table_18 :: "u8 list" where
  "unicode_script_table_18 =
     [0, 0x8f, 0x18, 0x9a, 0xd, 4, 0xa3, 0x18, 0xb, 0x8f, 0x3b, 0x9e, 0x2e, 0, 0xbf, 0x18, 0x9e, 0x2e, 0xd0, 0x18,
      0xae, 0x3b, 0x80, 0x18, 0xd7, 0x3b, 0xe0, 0x47, 0x18, 0xf0, 9, 0x55, 0x2d, 9, 0xbf, 0x18, 0xf0, 0x41, 0x8f, 0x2d,
      0xf, 0xe4, 0x2c, 0x97, 2, 0xb6, 0x97, 8, 0xaf, 0x47, 0xe0, 0xcb, 0x94, 0x13, 0xdf, 0x1c, 0xd7, 8, 7, 0xa1,
      0x18, 0xe0, 5, 0x42]"

definition unicode_script_table_19 :: "u8 list" where
  "unicode_script_table_19 =
     [0x82, 0x18, 0xb4, 0x42, 1, 0x84, 0x42, 0x2f, 0x88, 0x42, 0xab, 0x83, 3, 0x89, 0x18, 5, 0xb7, 0x73, 7, 0xc5,
      0x79, 7, 0x8b, 0x79, 5, 0x9f, 0x1e, 0xad, 0x3c, 0x80, 0x18, 0x80, 0x3c, 0xa3, 0x76, 0xa, 0x80, 0x76, 0x9c, 0x2e,
      2, 0xcd, 0x38, 0, 0x80, 0x18, 0x89, 0x38, 3, 0x81, 0x38, 0x9e, 0x5b, 0, 0xb6, 0x16, 8, 0x8d, 0x16, 1,
      0x89, 0x16, 1, 0x83, 0x16]"

definition unicode_script_table_20 :: "u8 list" where
  "unicode_script_table_20 =
     [0x9f, 0x5b, 0xc2, 0x89, 0x17, 0x84, 0x89, 0x96, 0x52, 9, 0x85, 0x24, 1, 0x85, 0x24, 1, 0x85, 0x24, 8, 0x86,
      0x24, 0, 0x86, 0x24, 0, 0xaa, 0x42, 0x80, 0x18, 0x88, 0x42, 0x80, 0x29, 0x81, 0x42, 7, 0xcf, 0x17, 0xad, 0x52,
      1, 0x89, 0x52, 5, 0xf0, 0x1b, 0x43, 0x2e, 0xb, 0x96, 0x2e, 3, 0xb0, 0x2e, 0x70, 0x10, 0xa3, 0xe1, 0xd, 0x2d,
      1, 0xe0, 9, 0x2d]"

definition unicode_script_table_21 :: "u8 list" where
  "unicode_script_table_21 =
     [0x25, 0x86, 0x42, 0xb, 0x84, 5, 4, 0x99, 0x32, 0, 0x84, 0x32, 0, 0x80, 0x32, 0, 0x81, 0x32, 0, 0x81,
      0x32, 0, 0x89, 0x32, 0xe0, 0x11, 4, 0x10, 0xe1, 0xa, 4, 0x81, 0x18, 0xf, 0xbf, 4, 1, 0xb5, 4, 0x27,
      0x8d, 4, 1, 0x8f, 0x35, 0x89, 0x18, 5, 0x8d, 0x35, 0x81, 0x1c, 0xa2, 0x18, 0, 0x92, 0x18, 0, 0x83, 0x18,
      3, 0x84, 4, 0]"

definition unicode_script_table_22 :: "u8 list" where
  "unicode_script_table_22 =
     [0xe0, 0x26, 4, 1, 0x80, 0x18, 0, 0x9f, 0x18, 0x99, 0x42, 0x85, 0x18, 0x99, 0x42, 0x8a, 0x18, 0x89, 0x3b, 0x80,
      0x18, 0xac, 0x3b, 0x81, 0x18, 0x9e, 0x2e, 2, 0x85, 0x2e, 1, 0x85, 0x2e, 1, 0x85, 0x2e, 1, 0x82, 0x2e, 2,
      0x86, 0x18, 0, 0x86, 0x18, 9, 0x84, 0x18, 1, 0x8b, 0x46, 0, 0x99, 0x46, 0, 0x92, 0x46, 0, 0x81, 0x46,
      0, 0x8e, 0x46, 1]"

definition unicode_script_table_23 :: "u8 list" where
  "unicode_script_table_23 =
     [0x8d, 0x46, 0x21, 0xe0, 0x1a, 0x46, 4, 0x82, 0x18, 3, 0xac, 0x18, 2, 0x88, 0x18, 0xce, 0x29, 0, 0x8b, 0x18,
      3, 0x80, 0x29, 0x2e, 0xac, 0x18, 0x80, 0x35, 0x60, 0x21, 0x9c, 0x48, 2, 0xb0, 0x13, 0xe, 0x80, 0x35, 0x9a, 0x18,
      3, 0xa3, 0x66, 8, 0x82, 0x66, 0x9a, 0x27, 4, 0xaa, 0x68, 4, 0x9d, 0x93, 0, 0x80, 0x93, 0xa3, 0x69, 3,
      0x8d, 0x69, 0x29, 0xcf, 0x1d]"

definition unicode_script_table_24 :: "u8 list" where
  "unicode_script_table_24 =
     [0xaf, 0x7b, 0x9d, 0x6f, 1, 0x89, 0x6f, 5, 0xa3, 0x6e, 3, 0xa3, 0x6e, 3, 0xa7, 0x22, 7, 0xb3, 0x14, 0xa,
      0x80, 0x14, 0x60, 0x2f, 0xe0, 0xd6, 0x45, 8, 0x95, 0x45, 9, 0x87, 0x45, 0x60, 0x37, 0x85, 0x1b, 1, 0x80, 0x1b,
      0, 0xab, 0x1b, 0, 0x81, 0x1b, 2, 0x80, 0x1b, 1, 0x80, 0x1b, 0x95, 0x34, 0, 0x88, 0x34, 0x9f, 0x71, 0x9e,
      0x5c, 7, 0x88, 0x5c]"

definition unicode_script_table_25 :: "u8 list" where
  "unicode_script_table_25 =
     [0x2f, 0x92, 0x31, 0, 0x81, 0x31, 4, 0x84, 0x31, 0x9b, 0x74, 2, 0x80, 0x74, 0x99, 0x49, 4, 0x80, 0x49, 0x3f,
      0x9f, 0x55, 0x97, 0x54, 3, 0x93, 0x54, 1, 0xad, 0x54, 0x83, 0x3d, 0, 0x81, 0x3d, 4, 0x87, 0x3d, 0, 0x82,
      0x3d, 0, 0x9c, 0x3d, 1, 0x82, 0x3d, 3, 0x89, 0x3d, 6, 0x88, 0x3d, 6, 0x9f, 0x6b, 0x9f, 0x67, 0x1f, 0xa6,
      0x4e, 3, 0x8b, 0x4e]"

definition unicode_script_table_26 :: "u8 list" where
  "unicode_script_table_26 =
     [8, 0xb5, 6, 2, 0x86, 6, 0x95, 0x37, 1, 0x87, 0x37, 0x92, 0x36, 4, 0x87, 0x36, 0x91, 0x75, 6, 0x83,
      0x75, 0xb, 0x86, 0x75, 0x4f, 0xc8, 0x6c, 0x36, 0xb2, 0x65, 0xc, 0xb2, 0x65, 6, 0x85, 0x65, 0xa7, 0x2f, 7, 0x89,
      0x2f, 0x60, 0xc5, 0x9e, 4, 0x60, 0x20, 0xa7, 0x6a, 7, 0xa9, 0x7f, 0x60, 0x25, 0x96, 0x23, 8, 0xcd, 0xe, 3,
      0x9d, 0xe, 0xe, 0x80, 0xe]"

definition unicode_script_table_27 :: "u8 list" where
  "unicode_script_table_27 =
     [0xc1, 0x39, 0xa, 0x80, 0x39, 1, 0x98, 0x80, 6, 0x89, 0x80, 5, 0xb4, 0x15, 0, 0x90, 0x15, 8, 0xa6, 0x4b,
      8, 0xcd, 0x7a, 1, 0x8f, 0x7a, 0, 0x93, 0x7e, 0xa, 0x91, 0x3f, 0, 0xab, 0x3f, 0x40, 0x86, 0x5a, 0, 0x80,
      0x5a, 0, 0x83, 0x5a, 0, 0x8e, 0x5a, 0, 0x8a, 0x5a, 5, 0xba, 0x40, 4, 0x89, 0x40, 5, 0x83, 0x28, 0,
      0x87, 0x28, 1, 0x81, 0x28]"

definition unicode_script_table_28 :: "u8 list" where
  "unicode_script_table_28 =
     [1, 0x95, 0x28, 0, 0x86, 0x28, 0, 0x81, 0x28, 0, 0x84, 0x28, 0, 0x80, 0x35, 0x88, 0x28, 1, 0x81, 0x28,
      1, 0x82, 0x28, 1, 0x80, 0x28, 5, 0x80, 0x28, 4, 0x86, 0x28, 1, 0x86, 0x28, 2, 0x84, 0x28, 0x60, 0x2a,
      0xd9, 0x5f, 0, 0x80, 0x5f, 0, 0x82, 0x5f, 0x1f, 0xc7, 0x92, 7, 0x89, 0x92, 0x60, 0x45, 0xb5, 0x7c, 1, 0xa5,
      0x7c, 0x21, 0xc4, 0x57]"

definition unicode_script_table_29 :: "u8 list" where
  "unicode_script_table_29 =
     [0xa, 0x89, 0x57, 5, 0x8c, 0x58, 0x12, 0xb8, 0x8a, 6, 0x89, 0x8a, 0x35, 0x9a, 2, 1, 0x8e, 2, 3, 0x8f,
      2, 0x60, 0x5f, 0xbb, 0x1f, 0x60, 3, 0xd2, 0x96, 0xb, 0x80, 0x96, 0x60, 0x3f, 0x87, 0x5d, 1, 0xad, 0x5d, 1,
      0x8a, 0x5d, 0x1a, 0xc7, 0x98, 7, 0xd2, 0x81, 0x1c, 0xb8, 0x72, 0x60, 0xa6, 0x88, 0xc, 0, 0xac, 0xc, 0, 0x8d,
      0xc, 9, 0x9c, 0xc]"

definition unicode_script_table_30 :: "u8 list" where
  "unicode_script_table_30 =
     [2, 0x9f, 0x4f, 1, 0x95, 0x4f, 0, 0x8d, 0x4f, 0x48, 0x86, 0x50, 0, 0x81, 0x50, 0, 0xab, 0x50, 2, 0x80,
      0x50, 0, 0x81, 0x50, 0, 0x88, 0x50, 7, 0x89, 0x50, 5, 0x85, 0x2b, 0, 0x81, 0x2b, 0, 0xa4, 0x2b, 0,
      0x81, 0x2b, 0, 0x85, 0x2b, 6, 0x89, 0x2b, 0x60, 0xd5, 0x98, 0x4a, 0x60, 0x66, 0xb1, 0x8b, 0xc, 0x80, 0x8b, 0xe3,
      0x39, 0x1a, 0x60, 5]"

definition unicode_script_table_31 :: "u8 list" where
  "unicode_script_table_31 =
     [0xe0, 0xe, 0x1a, 0, 0x84, 0x1a, 0xa, 0xe0, 0x63, 0x1a, 0x6a, 0x5b, 0xe3, 0xce, 0x21, 0, 0x88, 0x21, 0x6f, 0x66,
      0xe1, 0xe6, 3, 0x70, 0x11, 0x58, 0xe1, 0xd8, 8, 6, 0x9e, 0x59, 0, 0x89, 0x59, 3, 0x81, 0x59, 0x5f, 0x9d,
      9, 1, 0x85, 9, 9, 0xc5, 0x70, 9, 0x89, 0x70, 0, 0x86, 0x70, 0, 0x94, 0x70, 4, 0x92, 0x70, 0x62,
      0x4f, 0xda, 0x51, 0x60, 4]"

definition unicode_script_table_32 :: "u8 list" where
  "unicode_script_table_32 =
     [0xca, 0x56, 3, 0xb8, 0x56, 6, 0x90, 0x56, 0x3f, 0x80, 0x8c, 0x80, 0x61, 0x81, 0x18, 0x1b, 0xf0, 7, 0x97, 0x8c,
      7, 0xe2, 0x92, 0x8c, 0x70, 0x14, 0xac, 0x80, 0x3b, 0xe0, 0xbd, 0x33, 0x30, 0x82, 0x33, 0x10, 0x83, 0x3b, 7, 0xe1,
      0x2b, 0x61, 0x68, 0xa3, 0xe0, 0xa, 0x20, 4, 0x8c, 0x20, 2, 0x88, 0x20, 6, 0x89, 0x20, 1, 0x83, 0x20, 0x83,
      0x18, 0x70, 2, 0xfb]"

definition unicode_script_table_33 :: "u8 list" where
  "unicode_script_table_33 =
     [0xe0, 0x95, 0x18, 9, 0xa6, 0x18, 1, 0xbd, 0x18, 0x82, 0x35, 0x90, 0x18, 0x87, 0x35, 0x81, 0x18, 0x86, 0x35, 0x9d,
      0x18, 0x83, 0x35, 0xba, 0x18, 0x16, 0xc5, 0x29, 0x60, 0x39, 0x93, 0x18, 0xb, 0xd6, 0x18, 8, 0x98, 0x18, 0x60, 0x26,
      0xd4, 0x18, 0, 0xc6, 0x18, 0, 0x81, 0x18, 1, 0x80, 0x18, 1, 0x81, 0x18, 1, 0x83, 0x18, 0, 0x8b, 0x18,
      0, 0x80, 0x18, 0]"

definition unicode_script_table_34 :: "u8 list" where
  "unicode_script_table_34 =
     [0x86, 0x18, 0, 0xc0, 0x18, 0, 0x83, 0x18, 1, 0x87, 0x18, 0, 0x86, 0x18, 0, 0x9b, 0x18, 0, 0x83, 0x18,
      0, 0x84, 0x18, 0, 0x80, 0x18, 2, 0x86, 0x18, 0, 0xe0, 0xf3, 0x18, 1, 0xe0, 0xc3, 0x18, 1, 0xb1, 0x18,
      0xe2, 0x2b, 0x7d, 0xe, 0x84, 0x7d, 0, 0x8e, 0x7d, 0x64, 0xef, 0x86, 0x26, 0, 0x90, 0x26, 1, 0x86, 0x26, 0,
      0x81, 0x26, 0, 0x84, 0x26]"

definition unicode_script_table_35 :: "u8 list" where
  "unicode_script_table_35 =
     [0x60, 0x74, 0xac, 0x62, 2, 0x8d, 0x62, 1, 0x89, 0x62, 3, 0x81, 0x62, 0x61, 0xf, 0xb9, 0x95, 4, 0x80, 0x95,
      0x64, 0x9f, 0xe0, 0x64, 0x53, 1, 0x8f, 0x53, 0x28, 0xcb, 1, 3, 0x89, 1, 3, 0x81, 1, 0x62, 0xb0, 0xc3,
      0x18, 0x4b, 0xbc, 0x18, 0x60, 0x61, 0x83, 4, 0, 0x9a, 4, 0, 0x81, 4, 0, 0x80, 4, 1, 0x80, 4,
      0, 0x89, 4, 0]"

definition unicode_script_table_36 :: "u8 list" where
  "unicode_script_table_36 =
     [0x83, 4, 0, 0x80, 4, 0, 0x80, 4, 5, 0x80, 4, 3, 0x80, 4, 0, 0x80, 4, 0, 0x80, 4,
      0, 0x82, 4, 0, 0x81, 4, 0, 0x80, 4, 1, 0x80, 4, 0, 0x80, 4, 0, 0x80, 4, 0, 0x80,
      4, 0, 0x80, 4, 0, 0x81, 4, 0, 0x80, 4, 1, 0x83, 4, 0, 0x86, 4, 0, 0x83, 4, 0,
      0x83, 4, 0, 0x80, 4]"

definition unicode_script_table_37 :: "u8 list" where
  "unicode_script_table_37 =
     [0, 0x89, 4, 0, 0x90, 4, 4, 0x82, 4, 0, 0x84, 4, 0, 0x90, 4, 0x33, 0x81, 4, 0x60, 0xad,
      0xab, 0x18, 3, 0xe0, 3, 0x18, 0xb, 0x8e, 0x18, 1, 0x8e, 0x18, 0, 0x8e, 0x18, 0, 0xa4, 0x18, 9, 0x8c,
      0x18, 2, 0xdc, 0x18, 2, 0xbc, 0x18, 0x38, 0x99, 0x18, 0x80, 0x33, 0x81, 0x18, 0xc, 0xab, 0x18, 3, 0x88, 0x18,
      6, 0x81, 0x18, 0xd]"

definition unicode_script_table_38 :: "u8 list" where
  "unicode_script_table_38 =
     [0x85, 0x18, 0x60, 0x39, 0xe3, 0x75, 0x18, 9, 0x8c, 0x18, 2, 0x8a, 0x18, 4, 0xe0, 0x13, 0x18, 0xb, 0xd8, 0x18,
      6, 0x8b, 0x18, 0x13, 0x8b, 0x18, 3, 0xb7, 0x18, 7, 0x89, 0x18, 5, 0xa7, 0x18, 7, 0x9d, 0x18, 0x51, 0x8b,
      0x18, 0, 0xe0, 4, 0x18, 0, 0x83, 0x18, 2, 0xa8, 0x18, 1, 0x85, 0x18, 2, 0x9c, 0x18, 1, 0xe0, 0x26,
      0x18, 0xb, 0x8d, 0x18]"

definition unicode_script_table_39 :: "u8 list" where
  "unicode_script_table_39 =
     [1, 0x83, 0x18, 3, 0x82, 0x18, 4, 0x82, 0x18, 0xc, 0x85, 0x18, 0x65, 9, 0xf0, 0x96, 0x76, 0x2d, 0x28, 0xef,
      0xd4, 0x2d, 0xa, 0xe0, 0x7d, 0x2d, 1, 0xf0, 6, 0x21, 0x2d, 0xd, 0xf0, 0xc, 0xd0, 0x2d, 0x6b, 0xbe, 0xe1, 0xbd,
      0x2d, 0x7a, 0xf5, 0x82, 0x80, 0x18, 0x1d, 0xdf, 0x18, 0x60, 0x1f, 0xe0, 0x8f, 0x35]"

definition unicode_script_table :: "u8 list" where
  "unicode_script_table =
     concat [unicode_script_table_0,
      unicode_script_table_1,
      unicode_script_table_2,
      unicode_script_table_3,
      unicode_script_table_4,
      unicode_script_table_5,
      unicode_script_table_6,
      unicode_script_table_7,
      unicode_script_table_8,
      unicode_script_table_9,
      unicode_script_table_10,
      unicode_script_table_11,
      unicode_script_table_12,
      unicode_script_table_13,
      unicode_script_table_14,
      unicode_script_table_15,
      unicode_script_table_16,
      unicode_script_table_17,
      unicode_script_table_18,
      unicode_script_table_19,
      unicode_script_table_20,
      unicode_script_table_21,
      unicode_script_table_22,
      unicode_script_table_23,
      unicode_script_table_24,
      unicode_script_table_25,
      unicode_script_table_26,
      unicode_script_table_27,
      unicode_script_table_28,
      unicode_script_table_29,
      unicode_script_table_30,
      unicode_script_table_31,
      unicode_script_table_32,
      unicode_script_table_33,
      unicode_script_table_34,
      unicode_script_table_35,
      unicode_script_table_36,
      unicode_script_table_37,
      unicode_script_table_38,
      unicode_script_table_39]"

definition unicode_script_ext_table_0 :: "u8 list" where
  "unicode_script_ext_table_0 =
     [0x82, 0xc1, 0, 0, 1, 0x29, 1, 0, 0, 1, 0x29, 0x1c, 0, 0xc, 1, 0x42, 0x80, 0x92, 0, 0,
      2, 0x1c, 0x68, 0, 2, 0x1c, 0x26, 1, 2, 0x1c, 0x42, 0, 2, 0x1c, 0x26, 0x80, 0x80, 0, 0, 2,
      5, 0x25, 0x80, 1, 0, 0, 4, 4, 0x2f, 0x84, 0x8e, 0xd, 0, 0, 4, 4, 0x2f, 0x84, 0x8e, 0,
      3, 4, 0x84, 0x8e]"

definition unicode_script_ext_table_1 :: "u8 list" where
  "unicode_script_ext_table_1 =
     [1, 0, 0, 4, 4, 0x2f, 0x84, 0x8e, 0x1f, 0, 0, 8, 1, 4, 0x4d, 0x4e, 0x75, 0x2f, 0x7f, 0x84,
      9, 0, 0xa, 2, 4, 0x84, 9, 0, 9, 2, 4, 0x8e, 5, 0, 0, 2, 4, 0x84, 0x62, 0,
      0, 2, 4, 0x2f, 0x81, 0xfb, 0, 0, 0xd, 0xb, 0x1e, 0x28, 0x2a, 0x2c, 0x3a, 0x42, 0x4c, 0x6d, 0x7a, 0x8b,
      0x8d, 0x92, 0, 0xc, 0xb, 0x1e, 0x28, 0x2a, 0x2c, 0x3a, 0x42, 0x4c, 0x6d, 0x8b, 0x8d, 0x92]"

definition unicode_script_ext_table_2 :: "u8 list" where
  "unicode_script_ext_table_2 =
     [0x10, 0, 0, 0x14, 0xb, 0x1e, 0x1f, 0x2b, 0x50, 0x28, 0x2a, 0x2c, 0x3a, 0x4b, 0x4c, 0x5d, 0x6d, 0x40, 0x7e, 0x83,
      0x8a, 0x8b, 0x8d, 0x92, 0, 0x15, 0xb, 0x1e, 0x1f, 0x2b, 0x50, 0x28, 0x2a, 0x2c, 0x3a, 0x44, 0x4b, 0x4c, 0x5d, 0x6d,
      0x40, 0x7e, 0x83, 0x8a, 0x8b, 0x8d, 0x92, 9, 4, 0x1e, 0x1f, 0x39, 0x4b, 0x75, 0, 9, 3, 0xb, 0x15, 0x83,
      0x75, 0, 9, 2, 0x2c, 0x5a]"

definition unicode_script_ext_table_3 :: "u8 list" where
  "unicode_script_ext_table_3 =
     [0x75, 0, 9, 2, 0x2a, 0x3f, 0x80, 0x75, 0, 0xd, 2, 0x28, 0x8b, 0x80, 0x71, 0, 9, 2, 0x3a, 0x5d,
      0x82, 0xcf, 0, 9, 3, 0x15, 0x5b, 0x87, 0x80, 0x30, 0, 0, 2, 0x25, 0x42, 0x85, 0xb8, 0, 1, 4,
      0x11, 0x30, 0x86, 0x85, 0x80, 0x4a, 0, 1, 2, 0x58, 0x73, 0, 0, 0, 2, 0x58, 0x73, 0x84, 0x49, 0,
      0, 4, 0xb, 0x1e, 0x28, 0x3a]"

definition unicode_script_ext_table_4 :: "u8 list" where
  "unicode_script_ext_table_4 =
     [0, 1, 0x1e, 0, 4, 0xb, 0x1e, 0x28, 0x3a, 0, 2, 0x1e, 0x28, 0, 1, 0x1e, 1, 2, 0xb, 0x1e,
      0, 2, 0x1e, 0x7a, 0, 2, 0xb, 0x1e, 0, 2, 0x1e, 0x7a, 0, 6, 0x1e, 0x3a, 0x4c, 0x6d, 0x8b, 0x8d,
      0, 1, 0x1e, 1, 2, 0x1e, 0x7a, 1, 1, 0x1e, 0, 2, 0x1e, 0x7a, 0, 2, 0xb, 0x1e, 6, 1,
      0x1e, 0, 2, 0x1e, 0x5d]"

definition unicode_script_ext_table_5 :: "u8 list" where
  "unicode_script_ext_table_5 =
     [0, 2, 0xb, 0x1e, 1, 1, 0x1e, 0, 2, 0xb, 0x1e, 3, 1, 0x1e, 0, 8, 0xb, 0x1e, 0x28, 0x3a,
      0x5d, 0x6d, 0x8d, 0x92, 0, 2, 0x1e, 0x28, 0, 3, 0x1e, 0x28, 0x3a, 1, 2, 0xb, 0x1e, 0, 1, 0xb,
      1, 2, 0x1e, 0x28, 0, 1, 0x5d, 0x80, 0x44, 0, 1, 1, 0x29, 0x81, 0xec, 0, 0, 2, 0x42, 0x58,
      0x80, 0x3f, 0, 0, 3, 0x1e, 0x28, 0x42]"

definition unicode_script_ext_table_6 :: "u8 list" where
  "unicode_script_ext_table_6 =
     [0x8c, 0xd1, 0, 0, 2, 0x1c, 0x26, 0x81, 0x3c, 0, 1, 6, 0xd, 0x2e, 0x2d, 0x33, 0x3b, 0x97, 0, 5,
      0xd, 0x2e, 0x2d, 0x33, 0x3b, 1, 0, 0, 1, 0x2d, 0, 0, 9, 6, 0xd, 0x2e, 0x2d, 0x33, 0x3b, 0x97,
      0, 0, 0, 5, 0xd, 0x2e, 0x2d, 0x33, 0x3b, 7, 6, 0xd, 0x2e, 0x2d, 0x33, 0x3b, 0x97, 3, 5, 0xd,
      0x2e, 0x2d, 0x33, 0x3b]"

definition unicode_script_ext_table_7 :: "u8 list" where
  "unicode_script_ext_table_7 =
     [9, 0, 3, 2, 0xd, 0x2d, 1, 0, 0, 5, 0xd, 0x2e, 0x2d, 0x33, 0x3b, 4, 2, 0x33, 0x3b, 0,
      0, 0, 5, 0xd, 0x2e, 0x2d, 0x33, 0x3b, 3, 0, 1, 3, 0x2d, 0x33, 0x3b, 1, 1, 0x2d, 0x58, 0,
      3, 2, 0x33, 0x3b, 2, 0, 0, 2, 0x33, 0x3b, 0x59, 0, 0, 6, 0xd, 0x2e, 0x2d, 0x33, 0x3b, 0x97,
      0, 2, 0x33, 0x3b]"

definition unicode_script_ext_table_8 :: "u8 list" where
  "unicode_script_ext_table_8 =
     [0x80, 0x12, 0, 0xf, 1, 0x2d, 0x1f, 0, 0x23, 1, 0x2d, 0x3b, 0, 0x27, 1, 0x2d, 0x37, 0, 0x30, 1,
      0x2d, 0xe, 0, 0xb, 1, 0x2d, 0x32, 0, 0, 1, 0x2d, 0x57, 0, 0x18, 1, 0x2d, 9, 0, 4, 1,
      0x2d, 0x5f, 0, 0x1e, 1, 0x2d, 0xc0, 0x31, 0xef, 0, 0, 2, 0x1c, 0x26, 0x81, 0x3f, 0, 2, 0xe, 0x1e,
      0x1f, 0x2a, 0x2c, 0x3f, 0x3a, 0x39, 0x4b, 0x4c, 0x57, 0x5d, 0x40, 0x8a, 0x92]"

definition unicode_script_ext_table_9 :: "u8 list" where
  "unicode_script_ext_table_9 =
     [2, 0xd, 0x1e, 0x1f, 0x2a, 0x2c, 0x3f, 0x3a, 0x39, 0x4b, 0x57, 0x5d, 0x40, 0x8a, 0x92, 3, 0xb, 0x1e, 0x1f, 0x2a,
      0x2c, 0x3f, 0x39, 0x4b, 0x57, 0x40, 0x8a, 0x92, 0x80, 0x36, 0, 0, 2, 0xb, 0x1e, 0, 0, 0, 2, 0x1e,
      0x8b, 0x39, 0, 0, 3, 0x3c, 0x42, 0x5b, 0x80, 0x1f, 0, 0, 2, 0x10, 0x38, 0xc0, 0x13, 0xa1, 0, 0,
      2, 4, 0x8e, 9, 0]"

definition unicode_script_ext_table_10 :: "u8 list" where
  "unicode_script_ext_table_10 =
     [0, 2, 4, 0x8e, 0x46, 0, 1, 5, 0xd, 0x2e, 0x2d, 0x33, 0x3b, 0x80, 0x99, 0, 4, 6, 0xd, 0x2e,
      0x2d, 0x33, 0x3b, 0x97, 9, 0, 0, 2, 0x33, 0x3b, 0x2c, 0, 1, 2, 0x33, 0x3b, 0x80, 0xdf, 0, 2,
      2, 0x1b, 0x46, 3, 0, 0x2c, 3, 0x1b, 0x45, 0x46, 2, 0, 8, 2, 0x1b, 0x46, 0x81, 0x1f, 0, 0x1b,
      2, 4, 0x19, 0x8f, 0x84, 0]"

definition unicode_script_ext_table_11 :: "u8 list" where
  "unicode_script_ext_table_11 =
     [0, 2, 0x28, 0x8b, 0, 0, 0, 2, 0x28, 0x8b, 0x36, 0, 1, 2, 0x28, 0x8b, 0x8c, 0x12, 0, 1,
      2, 0x28, 0x8b, 0, 0, 0, 2, 0x28, 0x8b, 0xc0, 0x5c, 0x4b, 0, 3, 1, 0x20, 0x96, 0x3b, 0, 0x11,
      1, 0x2d, 0x9e, 0x5d, 0, 1, 1, 0x2d, 0xce, 0xcd, 0x2d, 0]"

definition unicode_script_ext_table :: "u8 list" where
  "unicode_script_ext_table =
     concat [unicode_script_ext_table_0,
      unicode_script_ext_table_1,
      unicode_script_ext_table_2,
      unicode_script_ext_table_3,
      unicode_script_ext_table_4,
      unicode_script_ext_table_5,
      unicode_script_ext_table_6,
      unicode_script_ext_table_7,
      unicode_script_ext_table_8,
      unicode_script_ext_table_9,
      unicode_script_ext_table_10,
      unicode_script_ext_table_11]"

text \<open>
  The name tables: C strings one after the other, each with its terminating 0, and the 0 that ends the
  array. The entries of a string are separated by commas.
\<close>

definition c_strings :: "string list \<Rightarrow> string" where
  "c_strings es = concat (map (\<lambda>e. e @ [CHR 0x00]) es) @ [CHR 0x00]"

definition unicode_gc_name_table_entries :: "string list" where
  "unicode_gc_name_table_entries =
     [''Cn,Unassigned'',
      ''Lu,Uppercase_Letter'',
      ''Ll,Lowercase_Letter'',
      ''Lt,Titlecase_Letter'',
      ''Lm,Modifier_Letter'',
      ''Lo,Other_Letter'',
      ''Mn,Nonspacing_Mark'',
      ''Mc,Spacing_Mark'',
      ''Me,Enclosing_Mark'',
      ''Nd,Decimal_Number,digit'',
      ''Nl,Letter_Number'',
      ''No,Other_Number'',
      ''Sm,Math_Symbol'',
      ''Sc,Currency_Symbol'',
      ''Sk,Modifier_Symbol'',
      ''So,Other_Symbol'',
      ''Pc,Connector_Punctuation'',
      ''Pd,Dash_Punctuation'',
      ''Ps,Open_Punctuation'',
      ''Pe,Close_Punctuation'',
      ''Pi,Initial_Punctuation'',
      ''Pf,Final_Punctuation'',
      ''Po,Other_Punctuation'',
      ''Zs,Space_Separator'',
      ''Zl,Line_Separator'',
      ''Zp,Paragraph_Separator'',
      ''Cc,Control,cntrl'',
      ''Cf,Format'',
      ''Cs,Surrogate'',
      ''Co,Private_Use'',
      ''LC,Cased_Letter'',
      ''L,Letter'',
      ''M,Mark,Combining_Mark'',
      ''N,Number'',
      ''S,Symbol'',
      ''P,Punctuation,punct'',
      ''Z,Separator'',
      ''C,Other'']"

definition unicode_gc_name_table :: string where
  "unicode_gc_name_table = c_strings unicode_gc_name_table_entries"

definition unicode_script_name_table_entries :: "string list" where
  "unicode_script_name_table_entries =
     [''Adlam,Adlm'',
      ''Ahom,Ahom'',
      ''Anatolian_Hieroglyphs,Hluw'',
      ''Arabic,Arab'',
      ''Armenian,Armn'',
      ''Avestan,Avst'',
      ''Balinese,Bali'',
      ''Bamum,Bamu'',
      ''Bassa_Vah,Bass'',
      ''Batak,Batk'',
      ''Bengali,Beng'',
      ''Bhaiksuki,Bhks'',
      ''Bopomofo,Bopo'',
      ''Brahmi,Brah'',
      ''Braille,Brai'',
      ''Buginese,Bugi'',
      ''Buhid,Buhd'',
      ''Canadian_Aboriginal,Cans'',
      ''Carian,Cari'',
      ''Caucasian_Albanian,Aghb'',
      ''Chakma,Cakm'',
      ''Cham,Cham'',
      ''Cherokee,Cher'',
      ''Common,Zyyy'',
      ''Coptic,Copt,Qaac'',
      ''Cuneiform,Xsux'',
      ''Cypriot,Cprt'',
      ''Cyrillic,Cyrl'',
      ''Deseret,Dsrt'',
      ''Devanagari,Deva'',
      ''Dogra,Dogr'',
      ''Duployan,Dupl'',
      ''Egyptian_Hieroglyphs,Egyp'',
      ''Elbasan,Elba'',
      ''Elymaic,Elym'',
      ''Ethiopic,Ethi'',
      ''Georgian,Geor'',
      ''Glagolitic,Glag'',
      ''Gothic,Goth'',
      ''Grantha,Gran'',
      ''Greek,Grek'',
      ''Gujarati,Gujr'',
      ''Gunjala_Gondi,Gong'',
      ''Gurmukhi,Guru'',
      ''Han,Hani'',
      ''Hangul,Hang'',
      ''Hanifi_Rohingya,Rohg'',
      ''Hanunoo,Hano'',
      ''Hatran,Hatr'',
      ''Hebrew,Hebr'',
      ''Hiragana,Hira'',
      ''Imperial_Aramaic,Armi'',
      ''Inherited,Zinh,Qaai'',
      ''Inscriptional_Pahlavi,Phli'',
      ''Inscriptional_Parthian,Prti'',
      ''Javanese,Java'',
      ''Kaithi,Kthi'',
      ''Kannada,Knda'',
      ''Katakana,Kana'',
      ''Kayah_Li,Kali'',
      ''Kharoshthi,Khar'',
      ''Khmer,Khmr'',
      ''Khojki,Khoj'',
      ''Khudawadi,Sind'',
      ''Lao,Laoo'',
      ''Latin,Latn'',
      ''Lepcha,Lepc'',
      ''Limbu,Limb'',
      ''Linear_A,Lina'',
      ''Linear_B,Linb'',
      ''Lisu,Lisu'',
      ''Lycian,Lyci'',
      ''Lydian,Lydi'',
      ''Makasar,Maka'',
      ''Mahajani,Mahj'',
      ''Malayalam,Mlym'',
      ''Mandaic,Mand'',
      ''Manichaean,Mani'',
      ''Marchen,Marc'',
      ''Masaram_Gondi,Gonm'',
      ''Medefaidrin,Medf'',
      ''Meetei_Mayek,Mtei'',
      ''Mende_Kikakui,Mend'',
      ''Meroitic_Cursive,Merc'',
      ''Meroitic_Hieroglyphs,Mero'',
      ''Miao,Plrd'',
      ''Modi,Modi'',
      ''Mongolian,Mong'',
      ''Mro,Mroo'',
      ''Multani,Mult'',
      ''Myanmar,Mymr'',
      ''Nabataean,Nbat'',
      ''Nandinagari,Nand'',
      ''New_Tai_Lue,Talu'',
      ''Newa,Newa'',
      ''Nko,Nkoo'',
      ''Nushu,Nshu'',
      ''Nyiakeng_Puachue_Hmong,Hmnp'',
      ''Ogham,Ogam'',
      ''Ol_Chiki,Olck'',
      ''Old_Hungarian,Hung'',
      ''Old_Italic,Ital'',
      ''Old_North_Arabian,Narb'',
      ''Old_Permic,Perm'',
      ''Old_Persian,Xpeo'',
      ''Old_Sogdian,Sogo'',
      ''Old_South_Arabian,Sarb'',
      ''Old_Turkic,Orkh'',
      ''Oriya,Orya'',
      ''Osage,Osge'',
      ''Osmanya,Osma'',
      ''Pahawh_Hmong,Hmng'',
      ''Palmyrene,Palm'',
      ''Pau_Cin_Hau,Pauc'',
      ''Phags_Pa,Phag'',
      ''Phoenician,Phnx'',
      ''Psalter_Pahlavi,Phlp'',
      ''Rejang,Rjng'',
      ''Runic,Runr'',
      ''Samaritan,Samr'',
      ''Saurashtra,Saur'',
      ''Sharada,Shrd'',
      ''Shavian,Shaw'',
      ''Siddham,Sidd'',
      ''SignWriting,Sgnw'',
      ''Sinhala,Sinh'',
      ''Sogdian,Sogd'',
      ''Sora_Sompeng,Sora'',
      ''Soyombo,Soyo'',
      ''Sundanese,Sund'',
      ''Syloti_Nagri,Sylo'',
      ''Syriac,Syrc'',
      ''Tagalog,Tglg'',
      ''Tagbanwa,Tagb'',
      ''Tai_Le,Tale'',
      ''Tai_Tham,Lana'',
      ''Tai_Viet,Tavt'',
      ''Takri,Takr'',
      ''Tamil,Taml'',
      ''Tangut,Tang'',
      ''Telugu,Telu'',
      ''Thaana,Thaa'',
      ''Thai,Thai'',
      ''Tibetan,Tibt'',
      ''Tifinagh,Tfng'',
      ''Tirhuta,Tirh'',
      ''Ugaritic,Ugar'',
      ''Vai,Vaii'',
      ''Wancho,Wcho'',
      ''Warang_Citi,Wara'',
      ''Yi,Yiii'',
      ''Zanabazar_Square,Zanb'']"

definition unicode_script_name_table :: string where
  "unicode_script_name_table = c_strings unicode_script_name_table_entries"

definition unicode_prop_name_table_entries :: "string list" where
  "unicode_prop_name_table_entries =
     [''ASCII_Hex_Digit,AHex'',
      ''Bidi_Control,Bidi_C'',
      ''Dash'',
      ''Deprecated,Dep'',
      ''Diacritic,Dia'',
      ''Extender,Ext'',
      ''Hex_Digit,Hex'',
      ''IDS_Binary_Operator,IDSB'',
      ''IDS_Trinary_Operator,IDST'',
      ''Ideographic,Ideo'',
      ''Join_Control,Join_C'',
      ''Logical_Order_Exception,LOE'',
      ''Noncharacter_Code_Point,NChar'',
      ''Pattern_Syntax,Pat_Syn'',
      ''Pattern_White_Space,Pat_WS'',
      ''Quotation_Mark,QMark'',
      ''Radical'',
      ''Regional_Indicator,RI'',
      ''Sentence_Terminal,STerm'',
      ''Soft_Dotted,SD'',
      ''Terminal_Punctuation,Term'',
      ''Unified_Ideograph,UIdeo'',
      ''Variation_Selector,VS'',
      ''White_Space,space'',
      ''Bidi_Mirrored,Bidi_M'',
      ''Emoji'',
      ''Emoji_Component'',
      ''Emoji_Modifier'',
      ''Emoji_Modifier_Base'',
      ''Emoji_Presentation'',
      ''Extended_Pictographic'',
      ''Default_Ignorable_Code_Point,DI'',
      ''ID_Start,IDS'',
      ''Case_Ignorable,CI'',
      ''ASCII'',
      ''Alphabetic,Alpha'',
      ''Any'',
      ''Assigned'',
      ''Cased'',
      ''Changes_When_Casefolded,CWCF'',
      ''Changes_When_Casemapped,CWCM'',
      ''Changes_When_Lowercased,CWL'',
      ''Changes_When_NFKC_Casefolded,CWKCF'',
      ''Changes_When_Titlecased,CWT'',
      ''Changes_When_Uppercased,CWU'',
      ''Grapheme_Base,Gr_Base'',
      ''Grapheme_Extend,Gr_Ext'',
      ''ID_Continue,IDC'',
      ''Lowercase,Lower'',
      ''Math'',
      ''Uppercase,Upper'',
      ''XID_Continue,XIDC'',
      ''XID_Start,XIDS'']"

definition unicode_prop_name_table :: string where
  "unicode_prop_name_table = c_strings unicode_prop_name_table_entries"

text \<open>The property tables by number. \<open>unicode_prop_len_table\<close> is the list of their lengths.\<close>

definition unicode_prop_table :: "u8 list list" where
  "unicode_prop_table =
     [unicode_prop_Hyphen_table,
      unicode_prop_Other_Math_table,
      unicode_prop_Other_Alphabetic_table,
      unicode_prop_Other_Lowercase_table,
      unicode_prop_Other_Uppercase_table,
      unicode_prop_Other_Grapheme_Extend_table,
      unicode_prop_Other_Default_Ignorable_Code_Point_table,
      unicode_prop_Other_ID_Start_table,
      unicode_prop_Other_ID_Continue_table,
      unicode_prop_Prepended_Concatenation_Mark_table,
      unicode_prop_ID_Continue1_table,
      unicode_prop_XID_Start1_table,
      unicode_prop_XID_Continue1_table,
      unicode_prop_Changes_When_Titlecased1_table,
      unicode_prop_Changes_When_Casefolded1_table,
      unicode_prop_Changes_When_NFKC_Casefolded1_table,
      unicode_prop_ASCII_Hex_Digit_table,
      unicode_prop_Bidi_Control_table,
      unicode_prop_Dash_table,
      unicode_prop_Deprecated_table,
      unicode_prop_Diacritic_table,
      unicode_prop_Extender_table,
      unicode_prop_Hex_Digit_table,
      unicode_prop_IDS_Binary_Operator_table,
      unicode_prop_IDS_Trinary_Operator_table,
      unicode_prop_Ideographic_table,
      unicode_prop_Join_Control_table,
      unicode_prop_Logical_Order_Exception_table,
      unicode_prop_Noncharacter_Code_Point_table,
      unicode_prop_Pattern_Syntax_table,
      unicode_prop_Pattern_White_Space_table,
      unicode_prop_Quotation_Mark_table,
      unicode_prop_Radical_table,
      unicode_prop_Regional_Indicator_table,
      unicode_prop_Sentence_Terminal_table,
      unicode_prop_Soft_Dotted_table,
      unicode_prop_Terminal_Punctuation_table,
      unicode_prop_Unified_Ideograph_table,
      unicode_prop_Variation_Selector_table,
      unicode_prop_White_Space_table,
      unicode_prop_Bidi_Mirrored_table,
      unicode_prop_Emoji_table,
      unicode_prop_Emoji_Component_table,
      unicode_prop_Emoji_Modifier_table,
      unicode_prop_Emoji_Modifier_Base_table,
      unicode_prop_Emoji_Presentation_table,
      unicode_prop_Extended_Pictographic_table,
      unicode_prop_Default_Ignorable_Code_Point_table,
      unicode_prop_ID_Start_table,
      unicode_prop_Case_Ignorable_table]"

text \<open>The enumeration values that the code names.\<close>

definition UNICODE_PROP_Other_Math :: nat where
  "UNICODE_PROP_Other_Math = 1"

definition UNICODE_PROP_Other_Alphabetic :: nat where
  "UNICODE_PROP_Other_Alphabetic = 2"

definition UNICODE_PROP_Other_Lowercase :: nat where
  "UNICODE_PROP_Other_Lowercase = 3"

definition UNICODE_PROP_Other_Uppercase :: nat where
  "UNICODE_PROP_Other_Uppercase = 4"

definition UNICODE_PROP_Other_Grapheme_Extend :: nat where
  "UNICODE_PROP_Other_Grapheme_Extend = 5"

definition UNICODE_PROP_Other_ID_Start :: nat where
  "UNICODE_PROP_Other_ID_Start = 7"

definition UNICODE_PROP_Other_ID_Continue :: nat where
  "UNICODE_PROP_Other_ID_Continue = 8"

definition UNICODE_PROP_ID_Continue1 :: nat where
  "UNICODE_PROP_ID_Continue1 = 10"

definition UNICODE_PROP_XID_Start1 :: nat where
  "UNICODE_PROP_XID_Start1 = 11"

definition UNICODE_PROP_XID_Continue1 :: nat where
  "UNICODE_PROP_XID_Continue1 = 12"

definition UNICODE_PROP_Changes_When_Titlecased1 :: nat where
  "UNICODE_PROP_Changes_When_Titlecased1 = 13"

definition UNICODE_PROP_Changes_When_Casefolded1 :: nat where
  "UNICODE_PROP_Changes_When_Casefolded1 = 14"

definition UNICODE_PROP_Changes_When_NFKC_Casefolded1 :: nat where
  "UNICODE_PROP_Changes_When_NFKC_Casefolded1 = 15"

definition UNICODE_PROP_ASCII_Hex_Digit :: nat where
  "UNICODE_PROP_ASCII_Hex_Digit = 16"

definition UNICODE_PROP_Pattern_Syntax :: nat where
  "UNICODE_PROP_Pattern_Syntax = 29"

definition UNICODE_PROP_Pattern_White_Space :: nat where
  "UNICODE_PROP_Pattern_White_Space = 30"

definition UNICODE_PROP_ID_Start :: nat where
  "UNICODE_PROP_ID_Start = 48"

definition UNICODE_PROP_Case_Ignorable :: nat where
  "UNICODE_PROP_Case_Ignorable = 49"

definition UNICODE_PROP_ASCII :: nat where
  "UNICODE_PROP_ASCII = 50"

definition UNICODE_PROP_Alphabetic :: nat where
  "UNICODE_PROP_Alphabetic = 51"

definition UNICODE_PROP_Any :: nat where
  "UNICODE_PROP_Any = 52"

definition UNICODE_PROP_Assigned :: nat where
  "UNICODE_PROP_Assigned = 53"

definition UNICODE_PROP_Cased :: nat where
  "UNICODE_PROP_Cased = 54"

definition UNICODE_PROP_Changes_When_Casefolded :: nat where
  "UNICODE_PROP_Changes_When_Casefolded = 55"

definition UNICODE_PROP_Changes_When_Casemapped :: nat where
  "UNICODE_PROP_Changes_When_Casemapped = 56"

definition UNICODE_PROP_Changes_When_Lowercased :: nat where
  "UNICODE_PROP_Changes_When_Lowercased = 57"

definition UNICODE_PROP_Changes_When_NFKC_Casefolded :: nat where
  "UNICODE_PROP_Changes_When_NFKC_Casefolded = 58"

definition UNICODE_PROP_Changes_When_Titlecased :: nat where
  "UNICODE_PROP_Changes_When_Titlecased = 59"

definition UNICODE_PROP_Changes_When_Uppercased :: nat where
  "UNICODE_PROP_Changes_When_Uppercased = 60"

definition UNICODE_PROP_Grapheme_Base :: nat where
  "UNICODE_PROP_Grapheme_Base = 61"

definition UNICODE_PROP_Grapheme_Extend :: nat where
  "UNICODE_PROP_Grapheme_Extend = 62"

definition UNICODE_PROP_ID_Continue :: nat where
  "UNICODE_PROP_ID_Continue = 63"

definition UNICODE_PROP_Lowercase :: nat where
  "UNICODE_PROP_Lowercase = 64"

definition UNICODE_PROP_Math :: nat where
  "UNICODE_PROP_Math = 65"

definition UNICODE_PROP_Uppercase :: nat where
  "UNICODE_PROP_Uppercase = 66"

definition UNICODE_PROP_XID_Continue :: nat where
  "UNICODE_PROP_XID_Continue = 67"

definition UNICODE_PROP_XID_Start :: nat where
  "UNICODE_PROP_XID_Start = 68"

definition UNICODE_GC_Cn :: nat where
  "UNICODE_GC_Cn = 0"

definition UNICODE_GC_Lu :: nat where
  "UNICODE_GC_Lu = 1"

definition UNICODE_GC_Ll :: nat where
  "UNICODE_GC_Ll = 2"

definition UNICODE_GC_Lt :: nat where
  "UNICODE_GC_Lt = 3"

definition UNICODE_GC_Lm :: nat where
  "UNICODE_GC_Lm = 4"

definition UNICODE_GC_Lo :: nat where
  "UNICODE_GC_Lo = 5"

definition UNICODE_GC_Mn :: nat where
  "UNICODE_GC_Mn = 6"

definition UNICODE_GC_Mc :: nat where
  "UNICODE_GC_Mc = 7"

definition UNICODE_GC_Me :: nat where
  "UNICODE_GC_Me = 8"

definition UNICODE_GC_Nd :: nat where
  "UNICODE_GC_Nd = 9"

definition UNICODE_GC_Nl :: nat where
  "UNICODE_GC_Nl = 10"

definition UNICODE_GC_No :: nat where
  "UNICODE_GC_No = 11"

definition UNICODE_GC_Sm :: nat where
  "UNICODE_GC_Sm = 12"

definition UNICODE_GC_Sc :: nat where
  "UNICODE_GC_Sc = 13"

definition UNICODE_GC_Sk :: nat where
  "UNICODE_GC_Sk = 14"

definition UNICODE_GC_So :: nat where
  "UNICODE_GC_So = 15"

definition UNICODE_GC_Pc :: nat where
  "UNICODE_GC_Pc = 16"

definition UNICODE_GC_Pd :: nat where
  "UNICODE_GC_Pd = 17"

definition UNICODE_GC_Ps :: nat where
  "UNICODE_GC_Ps = 18"

definition UNICODE_GC_Pe :: nat where
  "UNICODE_GC_Pe = 19"

definition UNICODE_GC_Pi :: nat where
  "UNICODE_GC_Pi = 20"

definition UNICODE_GC_Pf :: nat where
  "UNICODE_GC_Pf = 21"

definition UNICODE_GC_Po :: nat where
  "UNICODE_GC_Po = 22"

definition UNICODE_GC_Zs :: nat where
  "UNICODE_GC_Zs = 23"

definition UNICODE_GC_Zl :: nat where
  "UNICODE_GC_Zl = 24"

definition UNICODE_GC_Zp :: nat where
  "UNICODE_GC_Zp = 25"

definition UNICODE_GC_Cc :: nat where
  "UNICODE_GC_Cc = 26"

definition UNICODE_GC_Cf :: nat where
  "UNICODE_GC_Cf = 27"

definition UNICODE_GC_Cs :: nat where
  "UNICODE_GC_Cs = 28"

definition UNICODE_GC_Co :: nat where
  "UNICODE_GC_Co = 29"

definition UNICODE_GC_LC :: nat where
  "UNICODE_GC_LC = 30"

definition UNICODE_GC_L :: nat where
  "UNICODE_GC_L = 31"

definition UNICODE_GC_M :: nat where
  "UNICODE_GC_M = 32"

definition UNICODE_GC_N :: nat where
  "UNICODE_GC_N = 33"

definition UNICODE_GC_S :: nat where
  "UNICODE_GC_S = 34"

definition UNICODE_GC_P :: nat where
  "UNICODE_GC_P = 35"

definition UNICODE_GC_Z :: nat where
  "UNICODE_GC_Z = 36"

definition UNICODE_GC_C :: nat where
  "UNICODE_GC_C = 37"

definition UNICODE_SCRIPT_Unknown :: nat where
  "UNICODE_SCRIPT_Unknown = 0"

definition UNICODE_SCRIPT_Common :: nat where
  "UNICODE_SCRIPT_Common = 24"

definition UNICODE_SCRIPT_Inherited :: nat where
  "UNICODE_SCRIPT_Inherited = 53"

end
