(* ===== verification/Unicode_Prop.thy ===== *)
theory Unicode_Prop
  imports Unicode_Case CharRange Unicode_Prop_Tables
begin

text \<open>
  The character ranges of Unicode properties (second half of \<open>libunicode.c\<close>): lookup of names, the range
  of a binary property, of a set of general categories and of the characters changed by a case
  conversion, the stack machine that combines them, and scripts. The tables are those of the source. A
  \<open>uint32_t\<close> is a natural number, with \<open>add32\<close> for sums; a pointer into a table is the rest of the table.
  As in \<open>CharRange\<close>, \<open>ra\<close> and \<open>h\<close> are the reallocation callback and its state, and \<open>None\<close> is an access
  outside a table or a block, a failed assertion or \<open>abort\<close>.
\<close>

section \<open>Model\<close>

subsection \<open>Names\<close>

text \<open>
  The inner loop of \<open>unicode_find_name\<close> on one C string; \<open>p\<close> is the rest of the table. The result is
  \<open>Inl\<close> when the name is found, \<open>Inr\<close> the rest of the table after the string.
\<close>

definition cstr :: "string \<Rightarrow> string" where
  "cstr p = takeWhile (\<lambda>c. c \<noteq> CHR 0x00) p"

function find_name_inner :: "string \<Rightarrow> string \<Rightarrow> (unit + string) option" where
  "find_name_inner p name =
     (if length (cstr p) < length p then
        let s = cstr p; r = CHR 0x2C \<in> set s;
            len = (if r then length (takeWhile (\<lambda>c. c \<noteq> CHR 0x2C) s) else length s) in
        if len = length name \<and> take len p = name then Some (Inl ())
        else if r then find_name_inner (drop (len + 1) p) name
        else Some (Inr (drop (len + 1) p))
      else None)"
  by pat_completeness auto
termination
  by (relation "measure (\<lambda>(p, name). length p)") (auto simp: cstr_def)

declare find_name_inner.simps [simp del]

lemma find_name_inner_shorter: "find_name_inner p name = Some (Inr p') \<Longrightarrow> length p' < length p"
proof (induction p name rule: find_name_inner.induct)
  case (1 p name)
  show ?case
  proof (cases "CHR 0x2C \<in> set (cstr p)")
    case True
    then show ?thesis using "1.prems" "1.IH" [OF _ refl refl refl]
      by (subst (asm) find_name_inner.simps) (fastforce simp: Let_def split: if_splits)
  next
    case False
    then show ?thesis using "1.prems"
      by (subst (asm) find_name_inner.simps) (auto simp: Let_def split: if_splits)
  qed
qed

function find_name_loop :: "string \<Rightarrow> string \<Rightarrow> nat \<Rightarrow> int option" where
  "find_name_loop p name pos =
     (case p of
        [] \<Rightarrow> None
      | c # _ \<Rightarrow>
          if c = CHR 0x00 then Some (-1)
          else (case find_name_inner p name of
                  None \<Rightarrow> None
                | Some (Inl _) \<Rightarrow> Some (int pos)
                | Some (Inr p') \<Rightarrow> find_name_loop p' name (pos + 1)))"
  by pat_completeness auto
termination
  by (relation "measure (\<lambda>(p, name, pos). length p)") (auto dest: find_name_inner_shorter)

declare find_name_loop.simps [simp del]

definition unicode_find_name :: "string \<Rightarrow> string \<Rightarrow> int option" where
  "unicode_find_name name_table name = find_name_loop name_table name 0"

subsection \<open>Intervals\<close>

text \<open>
  \<open>if (cr_add_interval(cr, c0, c)) return -1;\<close> for each pair of a list, in order. The code of this section
  adds zero, one or more intervals at each step of its loops.
\<close>

fun add_intervals :: "'h cr_realloc_func \<Rightarrow> 'h \<Rightarrow> CharRange \<Rightarrow> (nat \<times> nat) list \<Rightarrow> 'h cr_result" where
  "add_intervals ra h cr [] = Some (0, h, cr)"
| "add_intervals ra h cr ((c0, c) # ivs) =
     (case cr_add_interval ra h cr (word_of_nat c0) (word_of_nat c) of
        None \<Rightarrow> None
      | Some (r, h', cr') \<Rightarrow> if r \<noteq> 0 then Some (-1, h', cr') else add_intervals ra h' cr' ivs)"

text \<open>Sequencing of steps that may fail: the error return goes straight to the caller.\<close>

definition cr_then :: "'h cr_result \<Rightarrow> ('h \<Rightarrow> CharRange \<Rightarrow> 'h cr_result) \<Rightarrow> 'h cr_result" where
  "cr_then res k =
     (case res of
        None \<Rightarrow> None
      | Some (r, h, cr) \<Rightarrow> if r \<noteq> 0 then Some (-1, h, cr) else k h cr)"

subsection \<open>Binary properties\<close>

fun prop1_loop :: "'h cr_realloc_func \<Rightarrow> 'h \<Rightarrow> CharRange \<Rightarrow> u8 list \<Rightarrow> nat \<Rightarrow> bool \<Rightarrow> 'h cr_result" where
  "prop1_loop ra h cr [] c bit1 = Some (0, h, cr)"
| "prop1_loop ra h cr (b0 # p) c bit1 =
     (let b = unat b0 in
      if b < 64 then
        let c1 = add32 c (b div 8 + 1); c2 = add32 c1 (b mod 8 + 1) in
        cr_then (add_intervals ra h cr (if bit1 then [(c, c1)] else [(c1, c2)]))
          (\<lambda>h cr. prop1_loop ra h cr p c2 bit1)
      else if b \<ge> 0x80 then
        let c1 = add32 c (b - 0x80 + 1) in
        cr_then (add_intervals ra h cr (if bit1 then [(c, c1)] else []))
          (\<lambda>h cr. prop1_loop ra h cr p c1 (\<not> bit1))
      else if b < 0x60 then
        (case p of
           [] \<Rightarrow> None
         | p0 # p' \<Rightarrow>
             let c1 = add32 c ((b - 0x40) * 2 ^ 8 + unat p0 + 1) in
             cr_then (add_intervals ra h cr (if bit1 then [(c, c1)] else []))
               (\<lambda>h cr. prop1_loop ra h cr p' c1 (\<not> bit1)))
      else
        (case p of
           p0 # p1 # p' \<Rightarrow>
             let c1 = add32 c ((b - 0x60) * 2 ^ 16 + unat p0 * 2 ^ 8 + unat p1 + 1) in
             cr_then (add_intervals ra h cr (if bit1 then [(c, c1)] else []))
               (\<lambda>h cr. prop1_loop ra h cr p' c1 (\<not> bit1))
         | _ \<Rightarrow> None))"

definition unicode_prop1 :: "'h cr_realloc_func \<Rightarrow> 'h \<Rightarrow> CharRange \<Rightarrow> nat \<Rightarrow> 'h cr_result" where
  "unicode_prop1 ra h cr prop_idx =
     (case rd unicode_prop_table prop_idx of None \<Rightarrow> None | Some t \<Rightarrow> prop1_loop ra h cr t 0 False)"

subsection \<open>General categories\<close>

definition M :: "nat \<Rightarrow> nat" where
  "M gc = 2 ^ gc"

text \<open>One entry of \<open>unicode_gc_table\<close>: the length of the run minus 1, the category and the rest.\<close>

definition gc_entry :: "u8 list \<Rightarrow> (nat \<times> nat \<times> u8 list) option" where
  "gc_entry q =
     (case q of
        [] \<Rightarrow> None
      | b0 # p \<Rightarrow>
          let b = unat b0; n = b div 2 ^ 5; v = b mod 2 ^ 5 in
          if n = 7 then
            (case p of
               [] \<Rightarrow> None
             | p0 # p1 \<Rightarrow>
                 let n = unat p0 in
                 if n < 128 then Some (n + 7, v, p1)
                 else if n < 128 + 64 then
                   (case p1 of [] \<Rightarrow> None | q0 # p2 \<Rightarrow> Some ((n - 128) * 2 ^ 8 + unat q0 + (7 + 128), v, p2))
                 else
                   (case p1 of
                      q0 # q1 # p2 \<Rightarrow>
                        Some ((n - 128 - 64) * 2 ^ 16 + unat q0 * 2 ^ 8 + unat q1 + (7 + 128 + 2 ^ 14), v, p2)
                    | _ \<Rightarrow> None))
          else Some (n, v, p))"

text \<open>\<open>for(; c0 < c; c0 += 2) cr_add_interval(cr, c0, c0 + 1)\<close>\<close>

function alternate :: "nat \<Rightarrow> nat \<Rightarrow> (nat \<times> nat) list" where
  "alternate c0 c = (if c0 < c then (c0, c0 + 1) # alternate (c0 + 2) c else [])"
  by pat_completeness auto
termination by (relation "measure (\<lambda>(c0, c). c - c0)") auto

declare alternate.simps [simp del]

text \<open>The intervals that one run of category \<open>v\<close> from \<open>c0\<close> to \<open>c\<close> adds for a mask.\<close>

definition gc_intervals :: "nat \<Rightarrow> nat \<Rightarrow> nat \<Rightarrow> nat \<Rightarrow> (nat \<times> nat) list" where
  "gc_intervals gc_mask v c0 c =
     (let has = (\<lambda>g. odd (gc_mask div M g)) in
      if v = 31 then
        if has UNICODE_GC_Lu \<or> has UNICODE_GC_Ll then
          if has UNICODE_GC_Lu \<and> has UNICODE_GC_Ll then [(c0, c)]
          else alternate (c0 + (if has UNICODE_GC_Ll then 1 else 0)) c
        else []
      else if odd (gc_mask div 2 ^ v) then [(c0, c)] else [])"

lemma gc_entry_shorter: "gc_entry p = Some (n, v, p') \<Longrightarrow> length p' < length p"
  by (cases p) (auto simp: gc_entry_def Let_def split: if_splits list.splits)

function gc1_loop :: "'h cr_realloc_func \<Rightarrow> 'h \<Rightarrow> CharRange \<Rightarrow> nat \<Rightarrow> u8 list \<Rightarrow> nat \<Rightarrow> 'h cr_result" where
  "gc1_loop ra h cr gc_mask p c =
     (if p = [] then Some (0, h, cr)
      else case gc_entry p of
        None \<Rightarrow> None
      | Some (n, v, p') \<Rightarrow>
          let c1 = add32 c (n + 1) in
          case add_intervals ra h cr (gc_intervals gc_mask v c c1) of
            None \<Rightarrow> None
          | Some (r, h', cr') \<Rightarrow>
              if r \<noteq> 0 then Some (-1, h', cr') else gc1_loop ra h' cr' gc_mask p' c1)"
  by pat_completeness auto
termination
  by (relation "measure (\<lambda>(ra, h, cr, m, p, c). length p)") (auto dest: gc_entry_shorter)

declare gc1_loop.simps [simp del]

definition unicode_general_category1 :: "'h cr_realloc_func \<Rightarrow> 'h \<Rightarrow> CharRange \<Rightarrow> nat \<Rightarrow> 'h cr_result" where
  "unicode_general_category1 ra h cr gc_mask = gc1_loop ra h cr gc_mask unicode_gc_table 0"

subsection \<open>Case conversions\<close>

definition CASE_U :: nat where "CASE_U = 1"
definition CASE_L :: nat where "CASE_L = 2"
definition CASE_F :: nat where "CASE_F = 4"

text \<open>
  The run types by number (\<open>RUN_TYPE_U\<close> is 0, ..., \<open>RUN_TYPE_U_EXT3\<close> is 13) that each conversion changes.
\<close>

definition tab_run_mask :: "nat list list" where
  "tab_run_mask =
     [[0, 2, 4, 5, 6, 7, 8, 9, 11, 13],
      [1, 3, 4, 5, 6, 10, 12],
      [2, 3, 4, 5, 6, 10, 7, 8, 10]]"

definition case_bit :: "nat \<Rightarrow> nat \<Rightarrow> bool" where
  "case_bit case_mask i \<longleftrightarrow> odd (case_mask div 2 ^ i)"

definition in_run_mask :: "nat \<Rightarrow> nat \<Rightarrow> bool" where
  "in_run_mask case_mask ty \<longleftrightarrow> (\<exists>i < 3. case_bit case_mask i \<and> ty \<in> set (tab_run_mask ! i))"

text \<open>\<open>for(i = 0; i < len; i += 2) cr_add_interval(cr, code + i, code + i + 1)\<close>\<close>

definition case1_intervals :: "nat \<Rightarrow> nat \<Rightarrow> (nat \<times> nat) list" where
  "case1_intervals case_mask v =
     (let ty = cc_type v; code = cc_code v; len = cc_len v;
          u = case_bit case_mask 0; lf = case_bit case_mask 1 \<or> case_bit case_mask 2 in
      if in_run_mask case_mask ty then
        if ty = 4 \<and> \<not> (u \<and> lf) then
          let code = code + (if u then 1 else 0) in alternate code (code + len)
        else if ty = 5 \<and> \<not> (u \<and> lf) then
          (if \<not> u then [(code, code + 1)] else []) @ [(code + 1, code + 2)]
            @ (if u then [(code + 2, code + 3)] else [])
        else [(code, code + len)]
      else [])"

fun case1_loop :: "'h cr_realloc_func \<Rightarrow> 'h \<Rightarrow> CharRange \<Rightarrow> nat \<Rightarrow> u32 list \<Rightarrow> 'h cr_result" where
  "case1_loop ra h cr case_mask [] = Some (0, h, cr)"
| "case1_loop ra h cr case_mask (w # ws) =
     (case add_intervals ra h cr (case1_intervals case_mask (unat w)) of
        None \<Rightarrow> None
      | Some (r, h', cr') \<Rightarrow>
          if r \<noteq> 0 then Some (-1, h', cr') else case1_loop ra h' cr' case_mask ws)"

definition unicode_case1 :: "'h cr_realloc_func \<Rightarrow> 'h \<Rightarrow> CharRange \<Rightarrow> nat \<Rightarrow> 'h cr_result" where
  "unicode_case1 ra h cr case_mask =
     (if case_mask = 0 then Some (0, h, cr) else case1_loop ra h cr case_mask case_conv_table1)"

subsection \<open>The stack machine\<close>

text \<open>The operations with their argument; \<open>POP_END\<close> is the end of the list.\<close>

datatype PropOP = POP_GC nat | POP_PROP nat | POP_CASE nat | POP_UNION | POP_INTER | POP_XOR | POP_INVERT

definition POP_STACK_LEN_MAX :: nat where
  "POP_STACK_LEN_MAX = 4"

text \<open>Push a new range filled by \<open>f\<close>. The flag is \<open>False\<close> for \<open>goto fail\<close>; the head is the top of the stack.\<close>

definition pop_push ::
  "('h \<Rightarrow> CharRange \<Rightarrow> 'h cr_result) \<Rightarrow> 'h \<Rightarrow> CharRange list \<Rightarrow> (bool \<times> 'h \<times> CharRange list) option" where
  "pop_push f h stack =
     (if length stack < POP_STACK_LEN_MAX then
        (case f h cr_init of
           None \<Rightarrow> None
         | Some (r, h', cr') \<Rightarrow> Some (r = 0, h', cr' # stack))
      else None)"

definition pop_binary ::
  "'h cr_realloc_func \<Rightarrow> CharRangeOpEnum \<Rightarrow> 'h \<Rightarrow> CharRange list \<Rightarrow> (bool \<times> 'h \<times> CharRange list) option" where
  "pop_binary ra op h stack =
     (case stack of
        cr2 # cr1 # rest \<Rightarrow>
          if length stack < POP_STACK_LEN_MAX then
            (case cr_op ra h cr_init (cr_pts cr1) (cr_pts cr2) op of
               None \<Rightarrow> None
             | Some (r, h', cr3) \<Rightarrow>
                 if r \<noteq> 0 then Some (False, h', cr3 # stack)
                 else Some (True, cr_free ra (cr_free ra h' cr1) cr2, cr3 # rest))
          else None
      | _ \<Rightarrow> None)"

definition prop_op_step ::
  "'h cr_realloc_func \<Rightarrow> PropOP \<Rightarrow> 'h \<Rightarrow> CharRange list \<Rightarrow> (bool \<times> 'h \<times> CharRange list) option" where
  "prop_op_step ra op h stack =
     (case op of
        POP_GC a \<Rightarrow> pop_push (\<lambda>h cr. unicode_general_category1 ra h cr a) h stack
      | POP_PROP a \<Rightarrow> pop_push (\<lambda>h cr. unicode_prop1 ra h cr a) h stack
      | POP_CASE a \<Rightarrow> pop_push (\<lambda>h cr. unicode_case1 ra h cr a) h stack
      | POP_UNION \<Rightarrow> pop_binary ra CR_OP_UNION h stack
      | POP_INTER \<Rightarrow> pop_binary ra CR_OP_INTER h stack
      | POP_XOR \<Rightarrow> pop_binary ra CR_OP_XOR h stack
      | POP_INVERT \<Rightarrow>
          (case stack of
             [] \<Rightarrow> None
           | cr # rest \<Rightarrow>
               (case cr_invert ra h cr of
                  None \<Rightarrow> None | Some (r, h', cr') \<Rightarrow> Some (r = 0, h', cr' # rest))))"

fun prop_ops_loop ::
  "'h cr_realloc_func \<Rightarrow> PropOP list \<Rightarrow> 'h \<Rightarrow> CharRange list \<Rightarrow> (bool \<times> 'h \<times> CharRange list) option" where
  "prop_ops_loop ra [] h stack = Some (True, h, stack)"
| "prop_ops_loop ra (op # ops) h stack =
     (case prop_op_step ra op h stack of
        None \<Rightarrow> None
      | Some (ok, h', stack') \<Rightarrow> if ok then prop_ops_loop ra ops h' stack' else Some (False, h', stack'))"

definition unicode_prop_ops :: "'h cr_realloc_func \<Rightarrow> 'h \<Rightarrow> CharRange \<Rightarrow> PropOP list \<Rightarrow> 'h cr_result" where
  "unicode_prop_ops ra h cr ops =
     (case prop_ops_loop ra ops h [] of
        None \<Rightarrow> None
      | Some (True, h', stack) \<Rightarrow>
          (case stack of
             [s] \<Rightarrow>
               (case cr_copy ra h' cr s of
                  None \<Rightarrow> None | Some (ret, h'', cr') \<Rightarrow> Some (ret, cr_free ra h'' s, cr'))
           | _ \<Rightarrow> None)
      | Some (False, h', stack) \<Rightarrow> Some (-1, fold (\<lambda>s h. cr_free ra h s) (rev stack) h', cr))"

subsection \<open>Properties and categories by name\<close>

definition unicode_gc_mask_table :: "nat list" where
  "unicode_gc_mask_table =
     [M UNICODE_GC_Lu + M UNICODE_GC_Ll + M UNICODE_GC_Lt,
      M UNICODE_GC_Lu + M UNICODE_GC_Ll + M UNICODE_GC_Lt + M UNICODE_GC_Lm + M UNICODE_GC_Lo,
      M UNICODE_GC_Mn + M UNICODE_GC_Mc + M UNICODE_GC_Me,
      M UNICODE_GC_Nd + M UNICODE_GC_Nl + M UNICODE_GC_No,
      M UNICODE_GC_Sm + M UNICODE_GC_Sc + M UNICODE_GC_Sk + M UNICODE_GC_So,
      M UNICODE_GC_Pc + M UNICODE_GC_Pd + M UNICODE_GC_Ps + M UNICODE_GC_Pe + M UNICODE_GC_Pi + M UNICODE_GC_Pf + M UNICODE_GC_Po,
      M UNICODE_GC_Zs + M UNICODE_GC_Zl + M UNICODE_GC_Zp,
      M UNICODE_GC_Cc + M UNICODE_GC_Cf + M UNICODE_GC_Cs + M UNICODE_GC_Co + M UNICODE_GC_Cn]"

definition unicode_general_category :: "'h cr_realloc_func \<Rightarrow> 'h \<Rightarrow> CharRange \<Rightarrow> string \<Rightarrow> 'h cr_result" where
  "unicode_general_category ra h cr gc_name =
     (case unicode_find_name unicode_gc_name_table gc_name of
        None \<Rightarrow> None
      | Some gc_idx \<Rightarrow>
          if gc_idx < 0 then Some (-2, h, cr)
          else if nat gc_idx \<le> UNICODE_GC_Co then unicode_general_category1 ra h cr (2 ^ nat gc_idx)
          else (case rd unicode_gc_mask_table (nat gc_idx - UNICODE_GC_LC) of
                  None \<Rightarrow> None | Some gc_mask \<Rightarrow> unicode_general_category1 ra h cr gc_mask))"

text \<open>The programs of the \<open>switch\<close> of \<open>unicode_prop\<close>, as far as they are calls of \<open>unicode_prop_ops\<close>.\<close>

definition letters :: nat where
  "letters = M UNICODE_GC_Lu + M UNICODE_GC_Ll + M UNICODE_GC_Lt + M UNICODE_GC_Lm + M UNICODE_GC_Lo + M UNICODE_GC_Nl"

definition prop_program :: "nat \<Rightarrow> PropOP list option" where
  "prop_program prop_idx =
     (if prop_idx = UNICODE_PROP_Assigned then Some [POP_GC (M UNICODE_GC_Cn), POP_INVERT]
      else if prop_idx = UNICODE_PROP_Math then
        Some [POP_GC (M UNICODE_GC_Sm), POP_PROP UNICODE_PROP_Other_Math, POP_UNION]
      else if prop_idx = UNICODE_PROP_Lowercase then
        Some [POP_GC (M UNICODE_GC_Ll), POP_PROP UNICODE_PROP_Other_Lowercase, POP_UNION]
      else if prop_idx = UNICODE_PROP_Uppercase then
        Some [POP_GC (M UNICODE_GC_Lu), POP_PROP UNICODE_PROP_Other_Uppercase, POP_UNION]
      else if prop_idx = UNICODE_PROP_Cased then
        Some [POP_GC (M UNICODE_GC_Lu + M UNICODE_GC_Ll + M UNICODE_GC_Lt),
              POP_PROP UNICODE_PROP_Other_Uppercase, POP_UNION,
              POP_PROP UNICODE_PROP_Other_Lowercase, POP_UNION]
      else if prop_idx = UNICODE_PROP_Alphabetic then
        Some [POP_GC letters, POP_PROP UNICODE_PROP_Other_Uppercase, POP_UNION,
              POP_PROP UNICODE_PROP_Other_Lowercase, POP_UNION,
              POP_PROP UNICODE_PROP_Other_Alphabetic, POP_UNION]
      else if prop_idx = UNICODE_PROP_Grapheme_Base then
        Some [POP_GC (M UNICODE_GC_Cc + M UNICODE_GC_Cf + M UNICODE_GC_Cs + M UNICODE_GC_Co + M UNICODE_GC_Cn
                + M UNICODE_GC_Zl + M UNICODE_GC_Zp + M UNICODE_GC_Me + M UNICODE_GC_Mn),
              POP_PROP UNICODE_PROP_Other_Grapheme_Extend, POP_UNION, POP_INVERT]
      else if prop_idx = UNICODE_PROP_Grapheme_Extend then
        Some [POP_GC (M UNICODE_GC_Me + M UNICODE_GC_Mn), POP_PROP UNICODE_PROP_Other_Grapheme_Extend, POP_UNION]
      else if prop_idx = UNICODE_PROP_XID_Start then
        Some [POP_GC letters, POP_PROP UNICODE_PROP_Other_ID_Start, POP_UNION,
              POP_PROP UNICODE_PROP_Pattern_Syntax, POP_PROP UNICODE_PROP_Pattern_White_Space, POP_UNION,
              POP_PROP UNICODE_PROP_XID_Start1, POP_UNION, POP_INVERT, POP_INTER]
      else if prop_idx = UNICODE_PROP_XID_Continue then
        Some [POP_GC (letters + M UNICODE_GC_Mn + M UNICODE_GC_Mc + M UNICODE_GC_Nd + M UNICODE_GC_Pc),
              POP_PROP UNICODE_PROP_Other_ID_Start, POP_UNION, POP_PROP UNICODE_PROP_Other_ID_Continue, POP_UNION,
              POP_PROP UNICODE_PROP_Pattern_Syntax, POP_PROP UNICODE_PROP_Pattern_White_Space, POP_UNION,
              POP_PROP UNICODE_PROP_XID_Continue1, POP_UNION, POP_INVERT, POP_INTER]
      else if prop_idx = UNICODE_PROP_Changes_When_Titlecased then
        Some [POP_CASE CASE_U, POP_PROP UNICODE_PROP_Changes_When_Titlecased1, POP_XOR]
      else if prop_idx = UNICODE_PROP_Changes_When_Casefolded then
        Some [POP_CASE CASE_F, POP_PROP UNICODE_PROP_Changes_When_Casefolded1, POP_XOR]
      else if prop_idx = UNICODE_PROP_Changes_When_NFKC_Casefolded then
        Some [POP_CASE CASE_F, POP_PROP UNICODE_PROP_Changes_When_NFKC_Casefolded1, POP_XOR]
      else if prop_idx = UNICODE_PROP_ID_Continue then
        Some [POP_PROP UNICODE_PROP_ID_Start, POP_PROP UNICODE_PROP_ID_Continue1, POP_XOR]
      else None)"

definition unicode_prop_switch :: "'h cr_realloc_func \<Rightarrow> 'h \<Rightarrow> CharRange \<Rightarrow> nat \<Rightarrow> 'h cr_result" where
  "unicode_prop_switch ra h cr prop_idx =
     (if prop_idx = UNICODE_PROP_ASCII then add_intervals ra h cr [(0, 0x7f + 1)]
      else if prop_idx = UNICODE_PROP_Any then add_intervals ra h cr [(0, 0x10ffff + 1)]
      else if prop_idx = UNICODE_PROP_Changes_When_Uppercased then unicode_case1 ra h cr CASE_U
      else if prop_idx = UNICODE_PROP_Changes_When_Lowercased then unicode_case1 ra h cr CASE_L
      else if prop_idx = UNICODE_PROP_Changes_When_Casemapped then
        unicode_case1 ra h cr (CASE_U + CASE_L + CASE_F)
      else case prop_program prop_idx of
        Some ops \<Rightarrow> unicode_prop_ops ra h cr ops
      | None \<Rightarrow>
          if prop_idx \<ge> length unicode_prop_table then Some (-2, h, cr)
          else unicode_prop1 ra h cr prop_idx)"

definition unicode_prop :: "'h cr_realloc_func \<Rightarrow> 'h \<Rightarrow> CharRange \<Rightarrow> string \<Rightarrow> 'h cr_result" where
  "unicode_prop ra h cr prop_name =
     (case unicode_find_name unicode_prop_name_table prop_name of
        None \<Rightarrow> None
      | Some prop_idx \<Rightarrow>
          if prop_idx < 0 then Some (-2, h, cr)
          else unicode_prop_switch ra h cr (nat prop_idx + UNICODE_PROP_ASCII_Hex_Digit))"

subsection \<open>Scripts\<close>

text \<open>One entry of \<open>unicode_script_table\<close>: the length of the run, the script and the rest.\<close>

definition script_entry :: "u8 list \<Rightarrow> (nat \<times> nat \<times> u8 list) option" where
  "script_entry q =
     (case q of
        [] \<Rightarrow> None
      | b0 # p \<Rightarrow>
          let b = unat b0; ty = b div 2 ^ 7; n = b mod 2 ^ 7;
              val = (\<lambda>n p. if ty = 0 then Some (n, 0, p)
                           else case p of [] \<Rightarrow> None | v # p' \<Rightarrow> Some (n, unat v, p')) in
          if n < 96 then val n p
          else if n < 112 then
            (case p of [] \<Rightarrow> None | p0 # p' \<Rightarrow> val ((n - 96) * 2 ^ 8 + unat p0 + 96) p')
          else
            (case p of
               p0 # p1 # p' \<Rightarrow> val ((n - 112) * 2 ^ 16 + unat p0 * 2 ^ 8 + unat p1 + (96 + 2 ^ 12)) p'
             | _ \<Rightarrow> None))"

text \<open>One entry of \<open>unicode_script_ext_table\<close>: the length of the run, its scripts and the rest.\<close>

definition script_ext_vals :: "nat \<Rightarrow> u8 list \<Rightarrow> (nat \<times> nat list \<times> u8 list) option" where
  "script_ext_vals n q =
     (case q of
        [] \<Rightarrow> None
      | v_len # p \<Rightarrow>
          if unat v_len \<le> length p
          then Some (n, map unat (take (unat v_len) p), drop (unat v_len) p) else None)"

definition script_ext_entry :: "u8 list \<Rightarrow> (nat \<times> nat list \<times> u8 list) option" where
  "script_ext_entry q =
     (case q of
        [] \<Rightarrow> None
      | b0 # p \<Rightarrow>
          let b = unat b0 in
          if b < 128 then script_ext_vals b p
          else if b < 128 + 64 then
            (case p of [] \<Rightarrow> None | p0 # p' \<Rightarrow> script_ext_vals ((b - 128) * 2 ^ 8 + unat p0 + 128) p')
          else
            (case p of
               p0 # p1 # p' \<Rightarrow>
                 script_ext_vals ((b - 128 - 64) * 2 ^ 16 + unat p0 * 2 ^ 8 + unat p1 + (128 + 2 ^ 14)) p'
             | _ \<Rightarrow> None))"

lemma script_ext_vals_Some:
  "script_ext_vals n p = Some (m, vs, p') \<Longrightarrow> length p' < length p \<and> script_ext_vals n (p @ q) = Some (m, vs, p' @ q)"
  by (auto simp: script_ext_vals_def split: if_splits list.splits)

lemma script_entry_shorter: "script_entry p = Some (n, v, p') \<Longrightarrow> length p' < length p"
  by (cases p) (auto simp: script_entry_def Let_def split: if_splits list.splits)

lemma script_ext_entry_vals:
  assumes "script_ext_entry p = Some x"
  obtains n r where "script_ext_vals n r = Some x" "length r < length p"
    "\<And>q. script_ext_entry (p @ q) = script_ext_vals n (r @ q)"
proof -
  obtain b p1 where p: "p = b # p1" using assms by (cases p) (auto simp: script_ext_entry_def)
  consider "unat b < 128" | "\<not> unat b < 128" "unat b < 128 + 64" | "\<not> unat b < 128 + 64" by linarith
  then show ?thesis
  proof cases
    case 1
    with assms p show ?thesis by (intro that [of "unat b" p1]) (simp_all add: script_ext_entry_def Let_def)
  next
    case 2
    with assms p obtain p0 r where "p1 = p0 # r" by (cases p1) (auto simp: script_ext_entry_def Let_def)
    with 2 assms p show ?thesis
      by (intro that [of "(unat b - 128) * 2 ^ 8 + unat p0 + 128" r]) (simp_all add: script_ext_entry_def Let_def)
  next
    case 3
    with assms p obtain p0 q0 r where "p1 = p0 # q0 # r"
      by (auto simp: script_ext_entry_def Let_def split: list.splits)
    with 3 assms p show ?thesis
      by (intro that [of "(unat b - 128 - 64) * 2 ^ 16 + unat p0 * 2 ^ 8 + unat q0 + (128 + 2 ^ 14)" r])
        (simp_all add: script_ext_entry_def Let_def)
  qed
qed

lemma script_ext_entry_shorter: "script_ext_entry p = Some (n, vs, p') \<Longrightarrow> length p' < length p"
  by (erule script_ext_entry_vals) (auto dest: script_ext_vals_Some)

function script_loop :: "'h cr_realloc_func \<Rightarrow> 'h \<Rightarrow> CharRange \<Rightarrow> nat \<Rightarrow> u8 list \<Rightarrow> nat \<Rightarrow> 'h cr_result" where
  "script_loop ra h cr script_idx p c =
     (if p = [] then Some (0, h, cr)
      else case script_entry p of
        None \<Rightarrow> None
      | Some (n, v, p') \<Rightarrow>
          let c1 = add32 c (n + 1) in
          case add_intervals ra h cr (if v = script_idx then [(c, c1)] else []) of
            None \<Rightarrow> None
          | Some (r, h', cr') \<Rightarrow>
              if r \<noteq> 0 then Some (-1, h', cr') else script_loop ra h' cr' script_idx p' c1)"
  by pat_completeness auto
termination
  by (relation "measure (\<lambda>(ra, h, cr, m, p, c). length p)") (auto dest: script_entry_shorter)

declare script_loop.simps [simp del]

function script_ext_loop ::
  "'h cr_realloc_func \<Rightarrow> 'h \<Rightarrow> CharRange \<Rightarrow> bool \<Rightarrow> nat \<Rightarrow> u8 list \<Rightarrow> nat \<Rightarrow> 'h cr_result" where
  "script_ext_loop ra h cr is_common script_idx p c =
     (if p = [] then Some (0, h, cr)
      else case script_ext_entry p of
        None \<Rightarrow> None
      | Some (n, vs, p') \<Rightarrow>
          let c1 = add32 c (n + 1); hit = (if is_common then vs \<noteq> [] else script_idx \<in> set vs) in
          case add_intervals ra h cr (if hit then [(c, c1)] else []) of
            None \<Rightarrow> None
          | Some (r, h', cr') \<Rightarrow>
              if r \<noteq> 0 then Some (-1, h', cr') else script_ext_loop ra h' cr' is_common script_idx p' c1)"
  by pat_completeness auto
termination
  by (relation "measure (\<lambda>(ra, h, cr, b, m, p, c). length p)") (auto dest: script_ext_entry_shorter)

declare script_ext_loop.simps [simp del]

text \<open>
  \<open>unicode_script\<close>. Its label \<open>fail\<close> ends in \<open>goto fail\<close>, so after a refused allocation it never returns:
  that is \<open>None\<close> here, as an undefined step is.
\<close>

definition returns_ok :: "'h cr_result \<Rightarrow> ('h \<times> CharRange) option" where
  "returns_ok res = (case res of Some (r, h, cr) \<Rightarrow> if r = 0 then Some (h, cr) else None | None \<Rightarrow> None)"

definition unicode_script :: "'h cr_realloc_func \<Rightarrow> 'h \<Rightarrow> CharRange \<Rightarrow> string \<Rightarrow> bool \<Rightarrow> 'h cr_result" where
  "unicode_script ra h cr script_name is_ext =
     (case unicode_find_name unicode_script_name_table script_name of
        None \<Rightarrow> None
      | Some idx \<Rightarrow>
          if idx < 0 then Some (-2, h, cr)
          else
            let script_idx = nat idx + UNICODE_SCRIPT_Unknown + 1;
                is_common = (script_idx = UNICODE_SCRIPT_Common \<or> script_idx = UNICODE_SCRIPT_Inherited) in
            if \<not> is_ext then
              do {
                (h, cr) \<leftarrow> returns_ok (script_loop ra h cr script_idx unicode_script_table 0);
                Some (0, h, cr)
              }
            else
              do {
                (h, cr1) \<leftarrow> returns_ok (script_loop ra h cr_init script_idx unicode_script_table 0);
                (h, cr2) \<leftarrow> returns_ok (script_ext_loop ra h cr_init is_common script_idx unicode_script_ext_table 0);
                (h, cr2) \<leftarrow> (if is_common then returns_ok (cr_invert ra h cr2) else Some (h, cr2));
                (h, cr) \<leftarrow> returns_ok (cr_op ra h cr (cr_pts cr1) (cr_pts cr2)
                             (if is_common then CR_OP_INTER else CR_OP_UNION));
                Some (0, cr_free ra (cr_free ra h cr1) cr2, cr)
              })"

end
