(* ===== verification/Unicode_Ranges.thy ===== *)
theory Unicode_Ranges
  imports Unicode_Prop
begin

text \<open>
  What the range functions of \<open>Unicode_Prop\<close> compute: the intervals each of them adds as a pure list, the
  set of code points of that list, and the refinement of the stack machine \<open>unicode_prop_ops\<close> to set
  algebra. The lemmas about ranges hold for every allocator of the contract (locale \<open>cr_alloc\<close>).
\<close>

section \<open>Lists of intervals\<close>

definition flat :: "(nat \<times> nat) list \<Rightarrow> u32 list" where
  "flat ivs = concat (map (\<lambda>(a, b). [word_of_nat a, word_of_nat b]) ivs)"

lemma flat_simps [simp]:
  "flat [] = []" "flat ((a, b) # ivs) = word_of_nat a # word_of_nat b # flat ivs" "flat (xs @ ys) = flat xs @ flat ys"
  by (simp_all add: flat_def)

text \<open>Increasing intervals inside \<open>[lo, hi)\<close>.\<close>

fun ivs_in :: "nat \<Rightarrow> nat \<Rightarrow> (nat \<times> nat) list \<Rightarrow> bool" where
  "ivs_in lo hi [] = (lo \<le> hi)"
| "ivs_in lo hi ((a, b) # ivs) = (lo \<le> a \<and> a < b \<and> ivs_in b hi ivs)"

definition ivs_mem :: "(nat \<times> nat) list \<Rightarrow> nat \<Rightarrow> bool" where
  "ivs_mem ivs c \<longleftrightarrow> (\<exists>(a, b) \<in> set ivs. a \<le> c \<and> c < b)"

lemma ivs_mem_simps [simp]:
  "\<not> ivs_mem [] c" "ivs_mem ((a, b) # ivs) c \<longleftrightarrow> a \<le> c \<and> c < b \<or> ivs_mem ivs c"
  "ivs_mem (xs @ ys) c \<longleftrightarrow> ivs_mem xs c \<or> ivs_mem ys c"
  by (auto simp: ivs_mem_def)

lemma ivs_in_le: "ivs_in lo hi ivs \<Longrightarrow> lo \<le> hi"
  by (induction ivs arbitrary: lo) force+

lemma ivs_in_mono: "ivs_in lo hi ivs \<Longrightarrow> lo' \<le> lo \<Longrightarrow> hi \<le> hi' \<Longrightarrow> ivs_in lo' hi' ivs"
  by (induction ivs arbitrary: lo lo') auto

lemma ivs_in_append: "ivs_in lo m xs \<Longrightarrow> ivs_in m hi ys \<Longrightarrow> ivs_in lo hi (xs @ ys)"
proof (induction xs arbitrary: lo)
  case Nil
  then show ?case using ivs_in_mono by simp
next
  case (Cons x xs)
  then show ?case by (cases x) simp
qed

lemma ivs_mem_in: "ivs_in lo hi ivs \<Longrightarrow> ivs_mem ivs c \<Longrightarrow> lo \<le> c \<and> c < hi"
proof (induction ivs arbitrary: lo)
  case (Cons x ivs)
  obtain a b where "x = (a, b)" by force
  then show ?case using Cons ivs_in_le [of b hi ivs] by force
qed simp

lemma word_of_nat_le: "a < 2 ^ 32 \<Longrightarrow> b < 2 ^ 32 \<Longrightarrow> (word_of_nat a :: u32) \<le> word_of_nat b \<longleftrightarrow> a \<le> b"
  by (simp add: word_le_nat_alt unat_of_nat_eq)

lemma flat_in_set: "ivs_in lo hi ivs \<Longrightarrow> hi < 2 ^ 32 \<Longrightarrow> x \<in> set (flat ivs) \<Longrightarrow> (word_of_nat lo :: u32) \<le> x"
proof (induction ivs arbitrary: lo)
  case (Cons i ivs)
  obtain a b where i: "i = (a, b)" by force
  have b: "lo \<le> a" "a < b" "ivs_in b hi ivs" "b \<le> hi" using Cons.prems i ivs_in_le by auto
  then have "(word_of_nat lo :: u32) \<le> word_of_nat a" "(word_of_nat lo :: u32) \<le> word_of_nat b"
    using Cons.prems(2) by (auto simp: word_of_nat_le)
  then show ?case using Cons.IH [OF b(3) Cons.prems(2)] Cons.prems(3) i by auto
qed simp

lemma flat_valid: "ivs_in lo hi ivs \<Longrightarrow> hi < 2 ^ 32 \<Longrightarrow> cr_valid (flat ivs)"
proof (induction ivs arbitrary: lo)
  case (Cons i ivs)
  obtain a b where i: "i = (a, b)" by force
  have b: "lo \<le> a" "a < b" "ivs_in b hi ivs" "b \<le> hi" using Cons.prems i ivs_in_le by auto
  then have ab: "(word_of_nat a :: u32) \<le> word_of_nat b" using Cons.prems(2) by (auto simp: word_of_nat_le)
  have "\<And>x. x \<in> set (flat ivs) \<Longrightarrow> (word_of_nat b :: u32) \<le> x" using flat_in_set b(3) Cons.prems(2) by blast
  then show ?case using Cons.IH [OF b(3) Cons.prems(2)] ab i by (force simp: cr_valid_def)
qed (simp add: cr_valid_def)

lemma flat_mem: "ivs_in lo hi ivs \<Longrightarrow> hi < 2 ^ 32 \<Longrightarrow> c < 2 ^ 32 \<Longrightarrow> cr_mem (flat ivs) (word_of_nat c) = ivs_mem ivs c"
proof (induction ivs arbitrary: lo)
  case (Cons i ivs)
  obtain a b where i: "i = (a, b)" by force
  have b: "lo \<le> a" "a < b" "ivs_in b hi ivs" "b \<le> hi" using Cons.prems i ivs_in_le by auto
  have v: "cr_valid (flat (i # ivs))" using flat_valid [OF Cons.prems(1,2)] .
  have "(word_of_nat c :: u32) < word_of_nat b \<longleftrightarrow> c < b"
    using word_of_nat_le [of b c] b Cons.prems(2,3) by (simp add: not_le [symmetric])
  moreover have "(word_of_nat a :: u32) \<le> word_of_nat c \<longleftrightarrow> a \<le> c"
    using word_of_nat_le [of a c] b Cons.prems(2,3) by simp
  ultimately show ?case
    using cr_mem_intervals [of "word_of_nat a" "word_of_nat b" "flat ivs" "word_of_nat c"] v i Cons.IH [OF b(3) Cons.prems(2,3)]
    by (simp add: cr_valid_def)
qed (simp add: cr_mem_def)

section \<open>Adding intervals over a correct allocator\<close>

context cr_alloc
begin

lemma add_intervals_yields: "cr_ok cr \<Longrightarrow> cr_yields (cr_pts cr @ flat ivs) (add_intervals ra h cr ivs)"
proof (induction ivs arbitrary: h cr)
  case Nil
  then show ?case by (simp add: cr_yields_def)
next
  case (Cons i ivs)
  obtain a b where i: "i = (a, b)" by force
  obtain r h1 cr1 where s: "cr_add_interval ra h cr (word_of_nat a) (word_of_nat b) = Some (r, h1, cr1)" "cr_ok cr1"
    "r = 0 \<and> cr_pts cr1 = cr_pts cr @ [word_of_nat a, word_of_nat b] \<or> r = -1"
    using cr_add_interval_spec [OF Cons.prems] unfolding cr_yields_def by blast
  then show ?case using Cons.IH [OF s(2), of h1] i by (auto simp: cr_yields_def)
qed

text \<open>A loop that adds the intervals \<open>ivs\<close> and goes on: its outcome from the outcome of the rest.\<close>

lemma add_intervals_then:
  assumes "cr_ok cr"
    and "\<And>h' cr'. cr_ok cr' \<Longrightarrow> cr_pts cr' = cr_pts cr @ flat ivs \<Longrightarrow> cr_yields pts (k h' cr')"
  shows "cr_yields pts (case add_intervals ra h cr ivs of None \<Rightarrow> None
      | Some (r, h', cr') \<Rightarrow> if r \<noteq> 0 then Some (-1, h', cr') else k h' cr')"
proof -
  obtain r h1 cr1 where s: "add_intervals ra h cr ivs = Some (r, h1, cr1)" "cr_ok cr1"
    "r = 0 \<and> cr_pts cr1 = cr_pts cr @ flat ivs \<or> r = -1"
    using add_intervals_yields [OF assms(1)] unfolding cr_yields_def by blast
  then show ?thesis using assms(2) [OF s(2), of h1] by (auto simp: cr_yields_def)
qed

end

section \<open>Binary properties\<close>

fun pair_up :: "nat list \<Rightarrow> (nat \<times> nat) list" where
  "pair_up (a # b # r) = (a, b) # pair_up r"
| "pair_up r = []"

fun run_ivs :: "nat \<Rightarrow> bool \<Rightarrow> nat list \<Rightarrow> (nat \<times> nat) list" where
  "run_ivs c b [] = []"
| "run_ivs c b (l # ls) = (if b then [(c, c + l)] else []) @ run_ivs (c + l) (\<not> b) ls"

lemma prop1_loop_step:
  assumes "p \<noteq> []" "next_run p = Some (ls, p')" "c + sum_list ls < 2 ^ 32"
  shows "prop1_loop ra h cr p c b = cr_then (add_intervals ra h cr (run_ivs c b ls))
    (\<lambda>h cr. prop1_loop ra h cr p' (c + sum_list ls) (b \<noteq> odd (length ls)))"
proof -
  obtain x q where p: "p = x # q" using assms(1) by (cases p) auto
  have "add32 c l = c + l" if "c + l < 2 ^ 32" for c l using that by (simp add: add32_def)
  then show ?thesis using assms(2,3) unfolding p
    by (auto simp: Let_def add.assoc split: if_splits list.splits)
qed

lemma run_ivs_pair_up:
  "pair_up (if b then c # ends c ls @ es else ends c ls @ es)
    = run_ivs c b ls @ pair_up (if b \<noteq> odd (length ls) then (c + sum_list ls) # es else es)"
proof (induction ls arbitrary: c b)
  case (Cons l ls)
  show ?case using Cons.IH [where c = "c + l" and b = "\<not> b"] by (cases b) (auto simp: add.assoc)
qed simp

lemma pair_up_in:
  "sorted_wrt (<) es \<Longrightarrow> \<forall>e \<in> set es. lo \<le> e \<and> e \<le> hi \<Longrightarrow> lo \<le> hi \<Longrightarrow> ivs_in lo hi (pair_up es)"
proof (induction es arbitrary: lo rule: pair_up.induct)
  case (1 a b r)
  have "ivs_in b hi (pair_up r)" using "1.prems" by (intro "1.IH") (auto intro: less_imp_le)
  then show ?case using "1.prems" by auto
qed auto

lemma pair_up_mem:
  "sorted_wrt (<) es \<Longrightarrow> even (length es) \<or> c < last (0 # es) \<Longrightarrow> ivs_mem (pair_up es) c = odd (upto_count es c)"
proof (induction es rule: pair_up.induct)
  case (1 a b r)
  have "c < b \<Longrightarrow> upto_count r c = 0" using "1.prems"(1) by (intro upto_count_none) auto
  moreover have "even (length r) \<or> c < last (0 # r)" using "1.prems"(2) by (cases r) auto
  ultimately show ?case using 1 by auto
qed auto

context cr_alloc
begin

lemma cr_then_yields:
  assumes "cr_ok cr" and "\<And>h' cr'. cr_ok cr' \<Longrightarrow> cr_pts cr' = cr_pts cr @ flat ivs \<Longrightarrow> cr_yields pts (k h' cr')"
  shows "cr_yields pts (cr_then (add_intervals ra h cr ivs) k)"
  unfolding cr_then_def by (rule add_intervals_then [OF assms])

lemma prop1_loop_yields:
  assumes "run_points p c = Some es" "\<forall>e \<in> set es. e < 2 ^ 32" "c < 2 ^ 32" "cr_ok cr"
  shows "cr_yields (cr_pts cr @ flat (pair_up (if b then c # es else es))) (prop1_loop ra h cr p c b)"
  using assms
proof (induction p c arbitrary: es b h cr rule: run_points.induct)
  case (1 p c)
  show ?case
  proof (cases "p = []")
    case True
    with 1 show ?thesis by (simp add: run_points.simps cr_yields_def)
  next
    case False
    then obtain ls p' r where n: "next_run p = Some (ls, p')" "run_points p' (c + sum_list ls) = Some r"
      "es = ends c ls @ r"
      using "1.prems"(1) by (subst (asm) run_points.simps) (auto split: option.splits prod.splits)
    have ne: "ls \<noteq> []" using n(1) by (cases p) (auto simp: Let_def split: if_splits list.splits)
    note e = ends_props [of ls c, OF next_run_pos [OF n(1)]]
    then have "c + sum_list ls \<in> set (ends c ls)" using ne by (metis last.simps last_in_set length_0_conv)
    then have s: "c + sum_list ls < 2 ^ 32" using "1.prems"(2) n(3) by auto
    show ?thesis
      unfolding prop1_loop_step [OF False n(1) s] n(3) run_ivs_pair_up flat_simps
    proof (rule cr_then_yields [OF "1.prems"(4)])
      fix h' cr' assume "cr_ok cr'" "cr_pts cr' = cr_pts cr @ flat (run_ivs c b ls)"
      then show "cr_yields (cr_pts cr @ flat (run_ivs c b ls) @ flat (pair_up (if b \<noteq> odd (length ls) then (c + sum_list ls) # r else r)))
        (prop1_loop ra h' cr' p' (c + sum_list ls) (b \<noteq> odd (length ls)))"
        using "1.IH" [OF False n(1) refl n(2) _ s, of cr' "b \<noteq> odd (length ls)" h'] "1.prems"(2) n(3) by simp
    qed
  qed
qed

end

section \<open>Tables of runs\<close>

text \<open>
  The category table, the script table and the script extension table have the same shape: entries of a
  run length and a value. The contract of a decoder of entries:
\<close>

locale run_decoder =
  fixes entry :: "u8 list \<Rightarrow> (nat \<times> 'v \<times> u8 list) option"
  assumes entry_shorter: "entry p = Some (n, v, p') \<Longrightarrow> length p' < length p"
    and entry_append: "entry p = Some (n, v, p') \<Longrightarrow> entry (p @ q) = Some (n, v, p' @ q)"
begin

function decode :: "u8 list \<Rightarrow> (nat \<times> 'v) list option" where
  "decode p =
     (if p = [] then Some []
      else case entry p of
        None \<Rightarrow> None
      | Some (n, v, p') \<Rightarrow> (case decode p' of None \<Rightarrow> None | Some rs \<Rightarrow> Some ((n + 1, v) # rs)))"
  by pat_completeness auto
termination by (relation "measure length") (auto dest: entry_shorter)

function total :: "u8 list \<Rightarrow> nat \<Rightarrow> nat option" where
  "total p c = (if p = [] then Some c else case entry p of None \<Rightarrow> None | Some (n, v, p') \<Rightarrow> total p' (c + (n + 1)))"
  by pat_completeness auto
termination by (relation "measure (\<lambda>(p, c). length p)") (auto dest: entry_shorter)

declare decode.simps [simp del] total.simps [simp del]

lemma total_Nil: "total [] c = Some c"
  by (simp add: total.simps)

lemma total_append: "total p c = Some d \<Longrightarrow> total (p @ q) c = total q d"
proof (induction p c rule: total.induct)
  case (1 p c)
  show ?case
  proof (cases "p = []")
    case True
    with "1.prems" show ?thesis by (simp add: total.simps)
  next
    case False
    then obtain n v p' where e: "entry p = Some (n, v, p')" "total p' (c + (n + 1)) = Some d"
      using "1.prems" by (subst (asm) total.simps) (auto split: option.splits prod.splits)
    then have "total (p' @ q) (c + (n + 1)) = total q d" using "1.IH" [OF False e(1) refl refl] by simp
    then show ?thesis using False entry_append [OF e(1), of q] by (subst total.simps) simp
  qed
qed

lemma total_decode: "total p c = Some d \<Longrightarrow> \<exists>rs. decode p = Some rs \<and> c + sum_list (map fst rs) = d"
proof (induction p c rule: total.induct)
  case (1 p c)
  show ?case
  proof (cases "p = []")
    case True
    with "1.prems" show ?thesis by (simp add: total.simps decode.simps)
  next
    case False
    then obtain n v p' where e: "entry p = Some (n, v, p')" "total p' (c + (n + 1)) = Some d"
      using "1.prems" by (subst (asm) total.simps) (auto split: option.splits prod.splits)
    then show ?thesis using "1.IH" [OF False e(1) refl refl] False by (subst decode.simps) (auto simp: add.assoc)
  qed
qed

lemma decode_pos: "decode p = Some rs \<Longrightarrow> (l, v) \<in> set rs \<Longrightarrow> 0 < l"
proof (induction p arbitrary: rs rule: decode.induct)
  case (1 p)
  then show ?case by (subst (asm) (2) decode.simps) (auto split: if_splits option.splits prod.splits)
qed

end

text \<open>The intervals that a function of the value and the bounds of each run selects.\<close>

fun ivs_of :: "('v \<Rightarrow> nat \<Rightarrow> nat \<Rightarrow> (nat \<times> nat) list) \<Rightarrow> nat \<Rightarrow> (nat \<times> 'v) list \<Rightarrow> (nat \<times> nat) list" where
  "ivs_of F c [] = []"
| "ivs_of F c ((l, v) # rs) = F v c (c + l) @ ivs_of F (c + l) rs"

definition ivs_fun_ok :: "('v \<Rightarrow> nat \<Rightarrow> nat \<Rightarrow> (nat \<times> nat) list) \<Rightarrow> bool" where
  "ivs_fun_ok F \<longleftrightarrow> (\<forall>v a b. a < b \<longrightarrow> ivs_in a b (F v a b))"

lemma ivs_of_in:
  "ivs_fun_ok F \<Longrightarrow> \<forall>(l, v) \<in> set rs. 0 < l \<Longrightarrow> ivs_in c (c + sum_list (map fst rs)) (ivs_of F c rs)"
proof (induction F c rs rule: ivs_of.induct)
  case (2 F c l v rs)
  then have "ivs_in c (c + l) (F v c (c + l))" by (simp add: ivs_fun_ok_def)
  with 2 show ?case by (auto intro!: ivs_in_append simp: add.assoc)
qed simp

text \<open>The value of the run that contains a code point.\<close>

fun run_value :: "nat \<Rightarrow> (nat \<times> 'v) list \<Rightarrow> nat \<Rightarrow> ('v \<times> nat \<times> nat) option" where
  "run_value c [] x = None"
| "run_value c ((l, v) # rs) x = (if x < c + l then Some (v, c, c + l) else run_value (c + l) rs x)"

lemma ivs_of_mem:
  assumes "ivs_fun_ok F" "\<forall>(l, v) \<in> set rs. 0 < l" "c \<le> x"
  shows "ivs_mem (ivs_of F c rs) x \<longleftrightarrow> (\<exists>v a b. run_value c rs x = Some (v, a, b) \<and> ivs_mem (F v a b) x)"
  using assms
proof (induction F c rs rule: ivs_of.induct)
  case (2 F c l v rs)
  have f: "ivs_in c (c + l) (F v c (c + l))" using "2.prems" by (simp add: ivs_fun_ok_def)
  have r: "ivs_in (c + l) (c + l + sum_list (map fst rs)) (ivs_of F (c + l) rs)"
    using "2.prems" by (intro ivs_of_in) auto
  show ?case
  proof (cases "x < c + l")
    case True
    then show ?thesis using ivs_mem_in [OF r, of x] by auto
  next
    case False
    then show ?thesis using ivs_mem_in [OF f, of x] 2 by auto
  qed
qed simp

locale run_adder = run_decoder entry + cr_alloc ra
  for entry :: "u8 list \<Rightarrow> (nat \<times> 'v \<times> u8 list) option"
    and ra :: "'h \<Rightarrow> u32 block option \<Rightarrow> nat \<Rightarrow> u32 block option \<times> 'h"
begin

text \<open>Every loop that decodes an entry, adds the intervals of its run and goes on.\<close>

lemma loop_yields:
  assumes eq: "\<And>h cr p c. loop h cr p c =
      (if p = [] then Some (0, h, cr)
       else case entry p of
         None \<Rightarrow> None
       | Some (n, v, p') \<Rightarrow>
           let c1 = add32 c (n + 1) in
           case add_intervals ra h cr (F v c c1) of
             None \<Rightarrow> None
           | Some (r, h', cr') \<Rightarrow> if r \<noteq> 0 then Some (-1, h', cr') else loop h' cr' p' c1)"
    and "decode p = Some rs" "c + sum_list (map fst rs) < 2 ^ 32" "cr_ok cr"
  shows "cr_yields (cr_pts cr @ flat (ivs_of F c rs)) (loop h cr p c)"
  using assms(2-4)
proof (induction p arbitrary: rs c h cr rule: decode.induct)
  case (1 p)
  show ?case
  proof (cases "p = []")
    case True
    then show ?thesis using "1.prems" by (simp add: eq [of _ _ "[]"] decode.simps cr_yields_def)
  next
    case False
    then obtain n v p' rs' where e: "entry p = Some (n, v, p')" "decode p' = Some rs'" "rs = (n + 1, v) # rs'"
      using "1.prems"(1) by (subst (asm) decode.simps) (auto split: option.splits prod.splits)
    have c1: "add32 c (n + 1) = c + (n + 1)" using "1.prems"(2) e(3) by (simp add: add32_def)
    have l: "loop h cr p c = (case add_intervals ra h cr (F v c (c + (n + 1))) of
             None \<Rightarrow> None
           | Some (r, h', cr') \<Rightarrow> if r \<noteq> 0 then Some (-1, h', cr') else loop h' cr' p' (c + (n + 1)))"
      using False by (subst eq) (simp only: e(1) c1 Let_def if_False option.case prod.case)
    show ?thesis unfolding l e(3) ivs_of.simps flat_simps
    proof (rule add_intervals_then [OF "1.prems"(3)])
      fix h' cr' assume "cr_ok cr'" "cr_pts cr' = cr_pts cr @ flat (F v c (c + (n + 1)))"
      then show "cr_yields (cr_pts cr @ flat (F v c (c + (n + 1))) @ flat (ivs_of F (c + (n + 1)) rs')) (loop h' cr' p' (c + (n + 1)))"
        using "1.IH" [OF False e(1) refl refl e(2), of "c + (n + 1)" cr' h'] "1.prems"(2) e(3) by (simp add: add.assoc)
    qed
  qed
qed

end

section \<open>The tables of the source\<close>

interpretation gc: run_decoder gc_entry
proof
  show "gc_entry p = Some (n, v, p') \<Longrightarrow> length p' < length p" for p n v p' by (rule gc_entry_shorter)
  show "gc_entry p = Some (n, v, p') \<Longrightarrow> gc_entry (p @ q) = Some (n, v, p' @ q)" for p n v p' q
    by (auto simp: gc_entry_def Let_def split: if_splits list.splits)
qed

interpretation script: run_decoder script_entry
proof
  show "script_entry p = Some (n, v, p') \<Longrightarrow> length p' < length p" for p n v p' by (rule script_entry_shorter)
  show "script_entry p = Some (n, v, p') \<Longrightarrow> script_entry (p @ q) = Some (n, v, p' @ q)" for p n v p' q
    by (auto simp: script_entry_def Let_def split: if_splits list.splits)
qed

interpretation script_ext: run_decoder script_ext_entry
proof
  show "script_ext_entry p = Some (n, v, p') \<Longrightarrow> length p' < length p" for p n v p' by (rule script_ext_entry_shorter)
  show "script_ext_entry p = Some (n, v, p') \<Longrightarrow> script_ext_entry (p @ q) = Some (n, v, p' @ q)" for p n v p' q
    using script_ext_vals_Some by (metis script_ext_entry_vals)
qed

lemmas gc_eval = gc.total.simps gc_entry_def Let_def
lemmas script_eval = script.total.simps script_entry_def Let_def
lemmas script_ext_eval = script_ext.total.simps script_ext_entry_def script_ext_vals_def Let_def

lemma unicode_gc_table_totals:
  "gc.total unicode_gc_table_0 0 = Some 247"
  "gc.total unicode_gc_table_1 247 = Some 506"
  "gc.total unicode_gc_table_2 506 = Some 1008"
  "gc.total unicode_gc_table_3 1008 = Some 1564"
  "gc.total unicode_gc_table_4 1564 = Some 2048"
  "gc.total unicode_gc_table_5 2048 = Some 2437"
  "gc.total unicode_gc_table_6 2437 = Some 2622"
  "gc.total unicode_gc_table_7 2622 = Some 2818"
  "gc.total unicode_gc_table_8 2818 = Some 3002"
  "gc.total unicode_gc_table_9 3002 = Some 3214"
  "gc.total unicode_gc_table_10 3214 = Some 3440"
  "gc.total unicode_gc_table_11 3440 = Some 3750"
  "gc.total unicode_gc_table_12 3750 = Some 4030"
  "gc.total unicode_gc_table_13 4030 = Some 4681"
  "gc.total unicode_gc_table_14 4681 = Some 5788"
  "gc.total unicode_gc_table_15 5788 = Some 6159"
  "gc.total unicode_gc_table_16 6159 = Some 6688"
  "gc.total unicode_gc_table_17 6688 = Some 7080"
  "gc.total unicode_gc_table_18 7080 = Some 7419"
  "gc.total unicode_gc_table_19 7419 = Some 8088"
  "gc.total unicode_gc_table_20 8088 = Some 8261"
  "gc.total unicode_gc_table_21 8261 = Some 8488"
  "gc.total unicode_gc_table_22 8488 = Some 9003"
  "gc.total unicode_gc_table_23 9003 = Some 10214"
  "gc.total unicode_gc_table_24 10214 = Some 11160"
  "gc.total unicode_gc_table_25 11160 = Some 11735"
  "gc.total unicode_gc_table_26 11735 = Some 12289"
  "gc.total unicode_gc_table_27 12289 = Some 12704"
  "gc.total unicode_gc_table_28 12704 = Some 42509"
  "gc.total unicode_gc_table_29 42509 = Some 42999"
  "gc.total unicode_gc_table_30 42999 = Some 43392"
  "gc.total unicode_gc_table_31 43392 = Some 43710"
  "gc.total unicode_gc_table_32 43710 = Some 55243"
  "gc.total unicode_gc_table_33 55243 = Some 65040"
  "gc.total unicode_gc_table_34 65040 = Some 65292"
  "gc.total unicode_gc_table_35 65292 = Some 65575"
  "gc.total unicode_gc_table_36 65575 = Some 66379"
  "gc.total unicode_gc_table_37 66379 = Some 67594"
  "gc.total unicode_gc_table_38 67594 = Some 68150"
  "gc.total unicode_gc_table_39 68150 = Some 68858"
  "gc.total unicode_gc_table_40 68858 = Some 69840"
  "gc.total unicode_gc_table_41 69840 = Some 70206"
  "gc.total unicode_gc_table_42 70206 = Some 70656"
  "gc.total unicode_gc_table_43 70656 = Some 71231"
  "gc.total unicode_gc_table_44 71231 = Some 71935"
  "gc.total unicode_gc_table_45 71935 = Some 72766"
  "gc.total unicode_gc_table_46 72766 = Some 73130"
  "gc.total unicode_gc_table_47 73130 = Some 92784"
  "gc.total unicode_gc_table_48 92784 = Some 100352"
  "gc.total unicode_gc_table_49 100352 = Some 119210"
  "gc.total unicode_gc_table_50 119210 = Some 120071"
  "gc.total unicode_gc_table_51 120071 = Some 120655"
  "gc.total unicode_gc_table_52 120655 = Some 123200"
  "gc.total unicode_gc_table_53 123200 = Some 126500"
  "gc.total unicode_gc_table_54 126500 = Some 126704"
  "gc.total unicode_gc_table_55 126704 = Some 128763"
  "gc.total unicode_gc_table_56 128763 = Some 131072"
  "gc.total unicode_gc_table_57 131072 = Some 1114112"
  unfolding unicode_gc_table_0_def unicode_gc_table_1_def unicode_gc_table_2_def unicode_gc_table_3_def
    unicode_gc_table_4_def unicode_gc_table_5_def unicode_gc_table_6_def unicode_gc_table_7_def
    unicode_gc_table_8_def unicode_gc_table_9_def unicode_gc_table_10_def unicode_gc_table_11_def
    unicode_gc_table_12_def unicode_gc_table_13_def unicode_gc_table_14_def unicode_gc_table_15_def
    unicode_gc_table_16_def unicode_gc_table_17_def unicode_gc_table_18_def unicode_gc_table_19_def
    unicode_gc_table_20_def unicode_gc_table_21_def unicode_gc_table_22_def unicode_gc_table_23_def
    unicode_gc_table_24_def unicode_gc_table_25_def unicode_gc_table_26_def unicode_gc_table_27_def
    unicode_gc_table_28_def unicode_gc_table_29_def unicode_gc_table_30_def unicode_gc_table_31_def
    unicode_gc_table_32_def unicode_gc_table_33_def unicode_gc_table_34_def unicode_gc_table_35_def
    unicode_gc_table_36_def unicode_gc_table_37_def unicode_gc_table_38_def unicode_gc_table_39_def
    unicode_gc_table_40_def unicode_gc_table_41_def unicode_gc_table_42_def unicode_gc_table_43_def
    unicode_gc_table_44_def unicode_gc_table_45_def unicode_gc_table_46_def unicode_gc_table_47_def
    unicode_gc_table_48_def unicode_gc_table_49_def unicode_gc_table_50_def unicode_gc_table_51_def
    unicode_gc_table_52_def unicode_gc_table_53_def unicode_gc_table_54_def unicode_gc_table_55_def
    unicode_gc_table_56_def unicode_gc_table_57_def
  by (simp_all add: gc_eval)

lemma unicode_gc_table_total: "gc.total unicode_gc_table 0 = Some 1114112"
  unfolding unicode_gc_table_def concat.simps 
  by (simp only: unicode_gc_table_totals [THEN gc.total_append] gc.total_Nil)

lemma unicode_script_table_totals:
  "script.total unicode_script_table_0 0 = Some 904"
  "script.total unicode_script_table_1 904 = Some 1568"
  "script.total unicode_script_table_2 1568 = Some 2304"
  "script.total unicode_script_table_3 2304 = Some 2602"
  "script.total unicode_script_table_4 2602 = Some 2766"
  "script.total unicode_script_table_5 2766 = Some 2962"
  "script.total unicode_script_table_6 2962 = Some 3163"
  "script.total unicode_script_table_7 3163 = Some 3408"
  "script.total unicode_script_table_8 3408 = Some 3750"
  "script.total unicode_script_table_9 3750 = Some 4681"
  "script.total unicode_script_table_10 4681 = Some 5792"
  "script.total unicode_script_table_11 5792 = Some 6431"
  "script.total unicode_script_table_12 6431 = Some 7156"
  "script.total unicode_script_table_13 7156 = Some 7544"
  "script.total unicode_script_table_14 7544 = Some 8204"
  "script.total unicode_script_table_15 8204 = Some 11124"
  "script.total unicode_script_table_16 11124 = Some 11743"
  "script.total unicode_script_table_17 11743 = Some 12687"
  "script.total unicode_script_table_18 12687 = Some 42888"
  "script.total unicode_script_table_19 42888 = Some 43616"
  "script.total unicode_script_table_20 43616 = Some 64218"
  "script.total unicode_script_table_21 64218 = Some 65142"
  "script.total unicode_script_table_22 65142 = Some 65616"
  "script.total unicode_script_table_23 65616 = Some 66640"
  "script.total unicode_script_table_24 66640 = Some 67760"
  "script.total unicode_script_table_25 67760 = Some 68343"
  "script.total unicode_script_table_26 68343 = Some 69760"
  "script.total unicode_script_table_27 69760 = Some 70417"
  "script.total unicode_script_table_28 70417 = Some 71237"
  "script.total unicode_script_table_29 71237 = Some 72813"
  "script.total unicode_script_table_30 72813 = Some 74752"
  "script.total unicode_script_table_31 74752 = Some 93952"
  "script.total unicode_script_table_32 93952 = Some 118784"
  "script.total unicode_script_table_33 118784 = Some 119997"
  "script.total unicode_script_table_34 119997 = Some 122923"
  "script.total unicode_script_table_35 122923 = Some 126516"
  "script.total unicode_script_table_36 126516 = Some 126591"
  "script.total unicode_script_table_37 126591 = Some 127584"
  "script.total unicode_script_table_38 127584 = Some 129646"
  "script.total unicode_script_table_39 129646 = Some 918000"
  unfolding unicode_script_table_0_def unicode_script_table_1_def unicode_script_table_2_def unicode_script_table_3_def
    unicode_script_table_4_def unicode_script_table_5_def unicode_script_table_6_def unicode_script_table_7_def
    unicode_script_table_8_def unicode_script_table_9_def unicode_script_table_10_def unicode_script_table_11_def
    unicode_script_table_12_def unicode_script_table_13_def unicode_script_table_14_def unicode_script_table_15_def
    unicode_script_table_16_def unicode_script_table_17_def unicode_script_table_18_def unicode_script_table_19_def
    unicode_script_table_20_def unicode_script_table_21_def unicode_script_table_22_def unicode_script_table_23_def
    unicode_script_table_24_def unicode_script_table_25_def unicode_script_table_26_def unicode_script_table_27_def
    unicode_script_table_28_def unicode_script_table_29_def unicode_script_table_30_def unicode_script_table_31_def
    unicode_script_table_32_def unicode_script_table_33_def unicode_script_table_34_def unicode_script_table_35_def
    unicode_script_table_36_def unicode_script_table_37_def unicode_script_table_38_def unicode_script_table_39_def
  by (simp_all add: script_eval)

lemma unicode_script_table_total: "script.total unicode_script_table 0 = Some 918000"
  unfolding unicode_script_table_def concat.simps 
  by (simp only: unicode_script_table_totals [THEN script.total_append] script.total_Nil)

lemma unicode_script_ext_table_totals:
  "script_ext.total unicode_script_ext_table_0 0 = Some 1565"
  "script_ext.total unicode_script_ext_table_1 1565 = Some 2387"
  "script_ext.total unicode_script_ext_table_2 2387 = Some 2672"
  "script_ext.total unicode_script_ext_table_3 2672 = Some 7377"
  "script_ext.total unicode_script_ext_table_4 7377 = Some 7402"
  "script_ext.total unicode_script_ext_table_5 7402 = Some 8433"
  "script_ext.total unicode_script_ext_table_6 8433 = Some 12320"
  "script_ext.total unicode_script_ext_table_7 12320 = Some 12541"
  "script_ext.total unicode_script_ext_table_8 12541 = Some 43059"
  "script_ext.total unicode_script_ext_table_9 43059 = Some 65021"
  "script_ext.total unicode_script_ext_table_10 65021 = Some 70401"
  "script_ext.total unicode_script_ext_table_11 70401 = Some 1114112"
  unfolding unicode_script_ext_table_0_def unicode_script_ext_table_1_def unicode_script_ext_table_2_def unicode_script_ext_table_3_def
    unicode_script_ext_table_4_def unicode_script_ext_table_5_def unicode_script_ext_table_6_def unicode_script_ext_table_7_def
    unicode_script_ext_table_8_def unicode_script_ext_table_9_def unicode_script_ext_table_10_def unicode_script_ext_table_11_def
  by (simp_all add: script_ext_eval)

lemma unicode_script_ext_table_total: "script_ext.total unicode_script_ext_table 0 = Some 1114112"
  unfolding unicode_script_ext_table_def concat.simps 
  by (simp only: unicode_script_ext_table_totals [THEN script_ext.total_append] script_ext.total_Nil)

end
