(* ===== verification/Unicode_Sets.thy ===== *)
theory Unicode_Sets
  imports Unicode_Ranges
begin

text \<open>
  The sets of code points that the property functions of \<open>libunicode.c\<close> stand for, and the refinement of
  the functions to them: general categories, binary properties, case changes, scripts, and the stack
  machine of \<open>unicode_prop_ops\<close>, whose programs compute set algebra.
\<close>

section \<open>Ranges that denote a set\<close>

definition cr_denotes :: "u32 list \<Rightarrow> nat set \<Rightarrow> bool" where
  "cr_denotes pts S \<longleftrightarrow> cr_valid pts \<and> (\<forall>c < 2 ^ 32 - 1. cr_mem pts (word_of_nat c) \<longleftrightarrow> c \<in> S)"

definition produces :: "nat set \<Rightarrow> 'h cr_result \<Rightarrow> bool" where
  "produces S res \<longleftrightarrow> (\<exists>r h cr. res = Some (r, h, cr) \<and> cr_ok cr \<and> (r = 0 \<and> cr_denotes (cr_pts cr) S \<or> r = -1))"

lemma cr_yields_produces: "cr_yields pts res \<Longrightarrow> cr_denotes pts S \<Longrightarrow> produces S res"
  unfolding cr_yields_def produces_def by blast

lemma producesE:
  assumes "produces S res"
  obtains r h cr where "res = Some (r, h, cr)" "cr_ok cr" "r = 0 \<and> cr_denotes (cr_pts cr) S \<or> r = -1"
  using assms unfolding produces_def by blast

lemma flat_denotes:
  assumes "ivs_in lo hi ivs" "hi < 2 ^ 32"
  shows "cr_denotes (flat ivs) {c. ivs_mem ivs c}"
  using flat_valid [OF assms] flat_mem [OF assms] by (simp add: cr_denotes_def)

lemma cr_op_denotes:
  assumes "cr_denotes a A" "cr_denotes b B"
  shows "cr_denotes (cr_op_list op a b) {c. cr_op_in op (c \<in> A) (c \<in> B)}"
  using assms cr_op_list_spec [of a b op] by (auto simp: cr_denotes_def cr_canonical_valid)

lemma cr_invert_denotes:
  assumes "cr_denotes a A"
  shows "cr_denotes (compress (0 # a @ [UINT32_MAX])) (- A)"
proof -
  have "word_of_nat c \<noteq> UINT32_MAX" if "c < 2 ^ 32 - 1" for c
  proof -
    have "unat (word_of_nat c :: u32) = c" using that by (simp add: unat_of_nat_eq)
    moreover have "unat UINT32_MAX = 2 ^ 32 - 1" by (simp add: UINT32_MAX_def)
    ultimately show ?thesis using that by auto
  qed
  then show ?thesis
    using assms cr_invert_points [of a] by (auto simp: cr_denotes_def cr_canonical_valid)
qed

section \<open>General categories\<close>

definition gc_runs :: "(nat \<times> nat) list" where
  "gc_runs = the (gc.decode unicode_gc_table)"

lemma gc_runs_eq: "gc.decode unicode_gc_table = Some gc_runs" "sum_list (map fst gc_runs) = 0x110000"
  using gc.total_decode [OF unicode_gc_table_total] by (auto simp: gc_runs_def)

text \<open>
  The category of a code point. A run of value 31 alternates upper and lower case letters, from its start.
\<close>

definition general_category :: "nat \<Rightarrow> nat option" where
  "general_category c =
     map_option (\<lambda>(v, a, b). if v = 31 then (if even (c - a) then UNICODE_GC_Lu else UNICODE_GC_Ll) else v)
       (run_value 0 gc_runs c)"

definition gc_set :: "nat \<Rightarrow> nat set" where
  "gc_set gm = {c. \<exists>g. general_category c = Some g \<and> odd (gm div 2 ^ g)}"

lemma alternate_in: "a \<le> c0 \<Longrightarrow> a \<le> c \<Longrightarrow> ivs_in a c (alternate c0 c)"
proof (induction c0 c arbitrary: a rule: alternate.induct)
  case (1 c0 c)
  then show ?case by (subst alternate.simps) auto
qed

lemma alternate_mem: "ivs_mem (alternate c0 c) x \<longleftrightarrow> c0 \<le> x \<and> x < c \<and> even (x - c0)"
proof (induction c0 c rule: alternate.induct)
  case (1 c0 c)
  have "c0 \<le> x \<and> x < c \<and> even (x - c0) \<longleftrightarrow> c0 < c \<and> (x = c0 \<or> c0 + 2 \<le> x \<and> x < c \<and> even (x - (c0 + 2)))"
    by presburger
  with 1 show ?case by (subst alternate.simps) auto
qed

lemma gc_intervals_ok: "ivs_fun_ok (gc_intervals gm)"
  unfolding ivs_fun_ok_def
proof (intro allI impI)
  fix v a b :: nat assume "a < b"
  then show "ivs_in a b (gc_intervals gm v a b)" by (auto simp: gc_intervals_def Let_def alternate_in)
qed

lemma gc_intervals_mem:
  assumes "a \<le> x" "x < b"
  shows "ivs_mem (gc_intervals gm v a b) x
    \<longleftrightarrow> odd (gm div 2 ^ (if v = 31 then (if even (x - a) then UNICODE_GC_Lu else UNICODE_GC_Ll) else v))"
proof (cases "a = x")
  case False
  then have "Suc a \<le> x" using assms by simp
  then show ?thesis using assms by (auto simp: gc_intervals_def Let_def alternate_mem M_def)
qed (use assms in \<open>auto simp: gc_intervals_def Let_def alternate_mem M_def\<close>)

lemma run_value_bounds: "run_value c rs x = Some (v, a, b) \<Longrightarrow> c \<le> x \<Longrightarrow> a \<le> x \<and> x < b"
  by (induction c rs x rule: run_value.induct) (auto split: if_splits)

lemma gc_runs_mem: "ivs_mem (ivs_of (gc_intervals gm) 0 gc_runs) c \<longleftrightarrow> c \<in> gc_set gm"
proof -
  have "\<forall>(l, v) \<in> set gc_runs. 0 < l" using gc.decode_pos [OF gc_runs_eq(1)] by auto
  then have "ivs_mem (ivs_of (gc_intervals gm) 0 gc_runs) c
      \<longleftrightarrow> (\<exists>v a b. run_value 0 gc_runs c = Some (v, a, b) \<and> ivs_mem (gc_intervals gm v a b) c)"
    by (intro ivs_of_mem gc_intervals_ok) simp_all
  also have "\<dots> \<longleftrightarrow> c \<in> gc_set gm"
    using run_value_bounds [of 0 gc_runs c] gc_intervals_mem [where x = c and gm = gm]
    by (fastforce simp: gc_set_def general_category_def)
  finally show ?thesis .
qed

lemma gc_runs_denotes: "cr_denotes (flat (ivs_of (gc_intervals gm) 0 gc_runs)) (gc_set gm)"
proof -
  have "\<forall>(l, v) \<in> set gc_runs. 0 < l" using gc.decode_pos [OF gc_runs_eq(1)] by auto
  then have "ivs_in 0 0x110000 (ivs_of (gc_intervals gm) 0 gc_runs)"
    using ivs_of_in [OF gc_intervals_ok, where c = 0 and rs = gc_runs] gc_runs_eq(2) by simp
  then show ?thesis using flat_denotes [of 0 "0x110000" "ivs_of (gc_intervals gm) 0 gc_runs"] gc_runs_mem by simp
qed

sublocale cr_alloc \<subseteq> gc_add: run_adder gc_entry ra
  by unfold_locales

context cr_alloc
begin

lemma general_category1_produces:
  assumes "cr_ok cr" "cr_pts cr = []"
  shows "produces (gc_set gm) (unicode_general_category1 ra h cr gm)"
proof -
  have "cr_yields (cr_pts cr @ flat (ivs_of (gc_intervals gm) 0 gc_runs)) (gc1_loop ra h cr gm unicode_gc_table 0)"
    by (rule gc_add.loop_yields [OF gc1_loop.simps gc_runs_eq(1)]) (use gc_runs_eq(2) assms in simp_all)
  then show ?thesis
    unfolding unicode_general_category1_def using gc_runs_denotes assms(2) by (auto intro: cr_yields_produces)
qed

end

section \<open>Binary properties\<close>

text \<open>
  No entry of a table is cut off. Entries are read by their first byte; the others are not looked at.
\<close>

fun decodes :: "u8 list \<Rightarrow> bool" where
  "decodes [] = True"
| "decodes (b # p) =
     (if b < 0x40 then decodes p
      else if 0x80 \<le> b then decodes p
      else if b < 0x60 then (case p of [] \<Rightarrow> False | _ # q \<Rightarrow> decodes q)
      else (case p of _ # _ # q \<Rightarrow> decodes q | _ \<Rightarrow> False))"

lemma decodes_next_run:
  assumes "decodes p" "p \<noteq> []"
  obtains ls p' where "next_run p = Some (ls, p')" "decodes p'" "sum_list ls \<le> 2 ^ 21"
proof -
  obtain b q where p: "p = b # q" using assms(2) by (cases p) auto
  have "next_run p = Some r \<Longrightarrow> decodes (snd r)" for r
    using assms(1) unfolding p by (auto simp: Let_def word_less_nat_alt word_le_nat_alt split: if_splits list.splits)
  moreover have "\<exists>r. next_run p = Some r"
    using assms(1) unfolding p by (auto simp: Let_def word_less_nat_alt word_le_nat_alt split: if_splits list.splits)
  moreover have "next_run p = Some r \<Longrightarrow> sum_list (fst r) \<le> 2 ^ 21" for r
  proof -
    have "unat b < 64 \<Longrightarrow> unat b div 8 < 8 \<and> unat b mod 8 < 8" by auto
    then show "next_run p = Some r \<Longrightarrow> sum_list (fst r) \<le> 2 ^ 21"
      using unat_u8_lt [of b] unat_u8_lt [of "hd q"] unat_u8_lt [of "hd (tl q)"] unfolding p
      by (auto simp: Let_def split: if_splits list.splits)
  qed
  ultimately show ?thesis using that by (metis fst_conv snd_conv surj_pair)
qed

lemma decodes_points:
  "decodes p \<Longrightarrow> \<exists>es. run_points p c = Some es \<and> (\<forall>e \<in> set es. e \<le> c + length p * 2 ^ 21)"
proof (induction "length p" arbitrary: p c rule: less_induct)
  case less
  show ?case
  proof (cases "p = []")
    case True
    then show ?thesis by (simp add: run_points.simps)
  next
    case False
    obtain ls p' where n: "next_run p = Some (ls, p')" "decodes p'" "sum_list ls \<le> 2 ^ 21"
      using decodes_next_run [OF less.prems False] .
    note sh = next_run_shorter [OF n(1)]
    obtain es where es: "run_points p' (c + sum_list ls) = Some es" "\<forall>e \<in> set es. e \<le> c + sum_list ls + length p' * 2 ^ 21"
      using less.hyps [OF sh n(2)] by blast
    have le: "sum_list ls + length p' * 2 ^ 21 \<le> length p * 2 ^ 21" using n(3) sh by simp
    have "\<forall>e \<in> set (ends c ls). e \<le> c + sum_list ls"
      using ends_props [of ls c, OF next_run_pos [OF n(1)]] by simp
    then have "\<forall>e \<in> set (ends c ls @ es). e \<le> c + length p * 2 ^ 21" using es(2) le by fastforce
    then show ?thesis using n(1) es(1) False by (subst run_points.simps) simp
  qed
qed

lemma run_points_decodes: "run_points p c = Some es \<Longrightarrow> decodes p"
proof (induction p c arbitrary: es rule: run_points.induct)
  case (1 p c)
  show ?case
  proof (cases "p = []")
    case False
    then obtain ls p' r where n: "next_run p = Some (ls, p')" "run_points p' (c + sum_list ls) = Some r"
      using "1.prems" by (subst (asm) run_points.simps) (auto split: option.splits prod.splits)
    have "decodes p'" using "1.IH" [OF False n(1) refl n(2)] .
    then show ?thesis using n(1)
      by (cases p) (auto simp: Let_def word_less_nat_alt word_le_nat_alt split: if_splits list.splits)
  qed simp
qed

lemma prop_tables_decode1:
  "decodes unicode_prop_Hyphen_table \<and> length unicode_prop_Hyphen_table < 2047"
  "decodes unicode_prop_Other_Math_table \<and> length unicode_prop_Other_Math_table < 2047"
  "decodes unicode_prop_Other_Alphabetic_table \<and> length unicode_prop_Other_Alphabetic_table < 2047"
  "decodes unicode_prop_Other_Lowercase_table \<and> length unicode_prop_Other_Lowercase_table < 2047"
  "decodes unicode_prop_Other_Uppercase_table \<and> length unicode_prop_Other_Uppercase_table < 2047"
  "decodes unicode_prop_Other_Grapheme_Extend_table \<and> length unicode_prop_Other_Grapheme_Extend_table < 2047"
  "decodes unicode_prop_Other_Default_Ignorable_Code_Point_table \<and> length unicode_prop_Other_Default_Ignorable_Code_Point_table < 2047"
  "decodes unicode_prop_Other_ID_Start_table \<and> length unicode_prop_Other_ID_Start_table < 2047"
  "decodes unicode_prop_Other_ID_Continue_table \<and> length unicode_prop_Other_ID_Continue_table < 2047"
  "decodes unicode_prop_Prepended_Concatenation_Mark_table \<and> length unicode_prop_Prepended_Concatenation_Mark_table < 2047"
  "decodes unicode_prop_XID_Start1_table \<and> length unicode_prop_XID_Start1_table < 2047"
  "decodes unicode_prop_XID_Continue1_table \<and> length unicode_prop_XID_Continue1_table < 2047"
  "decodes unicode_prop_Changes_When_Titlecased1_table \<and> length unicode_prop_Changes_When_Titlecased1_table < 2047"
  "decodes unicode_prop_Changes_When_Casefolded1_table \<and> length unicode_prop_Changes_When_Casefolded1_table < 2047"
  "decodes unicode_prop_Changes_When_NFKC_Casefolded1_table \<and> length unicode_prop_Changes_When_NFKC_Casefolded1_table < 2047"
  "decodes unicode_prop_ASCII_Hex_Digit_table \<and> length unicode_prop_ASCII_Hex_Digit_table < 2047"
  "decodes unicode_prop_Bidi_Control_table \<and> length unicode_prop_Bidi_Control_table < 2047"
  "decodes unicode_prop_Dash_table \<and> length unicode_prop_Dash_table < 2047"
  "decodes unicode_prop_Deprecated_table \<and> length unicode_prop_Deprecated_table < 2047"
  "decodes unicode_prop_Diacritic_table \<and> length unicode_prop_Diacritic_table < 2047"
  "decodes unicode_prop_Extender_table \<and> length unicode_prop_Extender_table < 2047"
  "decodes unicode_prop_Hex_Digit_table \<and> length unicode_prop_Hex_Digit_table < 2047"
  "decodes unicode_prop_IDS_Binary_Operator_table \<and> length unicode_prop_IDS_Binary_Operator_table < 2047"
  unfolding unicode_prop_Hyphen_table_def
    unicode_prop_Other_Math_table_def
    unicode_prop_Other_Alphabetic_table_def
    unicode_prop_Other_Lowercase_table_def
    unicode_prop_Other_Uppercase_table_def
    unicode_prop_Other_Grapheme_Extend_table_def
    unicode_prop_Other_Default_Ignorable_Code_Point_table_def
    unicode_prop_Other_ID_Start_table_def
    unicode_prop_Other_ID_Continue_table_def
    unicode_prop_Prepended_Concatenation_Mark_table_def
    unicode_prop_XID_Start1_table_def
    unicode_prop_XID_Continue1_table_def
    unicode_prop_Changes_When_Titlecased1_table_def
    unicode_prop_Changes_When_Casefolded1_table_def
    unicode_prop_Changes_When_NFKC_Casefolded1_table_def
    unicode_prop_ASCII_Hex_Digit_table_def
    unicode_prop_Bidi_Control_table_def
    unicode_prop_Dash_table_def
    unicode_prop_Deprecated_table_def
    unicode_prop_Diacritic_table_def
    unicode_prop_Extender_table_def
    unicode_prop_Hex_Digit_table_def
    unicode_prop_IDS_Binary_Operator_table_def
  by simp_all

lemma prop_tables_decode2:
  "decodes unicode_prop_IDS_Trinary_Operator_table \<and> length unicode_prop_IDS_Trinary_Operator_table < 2047"
  "decodes unicode_prop_Ideographic_table \<and> length unicode_prop_Ideographic_table < 2047"
  "decodes unicode_prop_Join_Control_table \<and> length unicode_prop_Join_Control_table < 2047"
  "decodes unicode_prop_Logical_Order_Exception_table \<and> length unicode_prop_Logical_Order_Exception_table < 2047"
  "decodes unicode_prop_Noncharacter_Code_Point_table \<and> length unicode_prop_Noncharacter_Code_Point_table < 2047"
  "decodes unicode_prop_Pattern_Syntax_table \<and> length unicode_prop_Pattern_Syntax_table < 2047"
  "decodes unicode_prop_Pattern_White_Space_table \<and> length unicode_prop_Pattern_White_Space_table < 2047"
  "decodes unicode_prop_Quotation_Mark_table \<and> length unicode_prop_Quotation_Mark_table < 2047"
  "decodes unicode_prop_Radical_table \<and> length unicode_prop_Radical_table < 2047"
  "decodes unicode_prop_Regional_Indicator_table \<and> length unicode_prop_Regional_Indicator_table < 2047"
  "decodes unicode_prop_Sentence_Terminal_table \<and> length unicode_prop_Sentence_Terminal_table < 2047"
  "decodes unicode_prop_Soft_Dotted_table \<and> length unicode_prop_Soft_Dotted_table < 2047"
  "decodes unicode_prop_Terminal_Punctuation_table \<and> length unicode_prop_Terminal_Punctuation_table < 2047"
  "decodes unicode_prop_Unified_Ideograph_table \<and> length unicode_prop_Unified_Ideograph_table < 2047"
  "decodes unicode_prop_Variation_Selector_table \<and> length unicode_prop_Variation_Selector_table < 2047"
  "decodes unicode_prop_White_Space_table \<and> length unicode_prop_White_Space_table < 2047"
  "decodes unicode_prop_Bidi_Mirrored_table \<and> length unicode_prop_Bidi_Mirrored_table < 2047"
  "decodes unicode_prop_Emoji_table \<and> length unicode_prop_Emoji_table < 2047"
  "decodes unicode_prop_Emoji_Component_table \<and> length unicode_prop_Emoji_Component_table < 2047"
  "decodes unicode_prop_Emoji_Modifier_table \<and> length unicode_prop_Emoji_Modifier_table < 2047"
  "decodes unicode_prop_Emoji_Modifier_Base_table \<and> length unicode_prop_Emoji_Modifier_Base_table < 2047"
  "decodes unicode_prop_Emoji_Presentation_table \<and> length unicode_prop_Emoji_Presentation_table < 2047"
  "decodes unicode_prop_Extended_Pictographic_table \<and> length unicode_prop_Extended_Pictographic_table < 2047"
  "decodes unicode_prop_Default_Ignorable_Code_Point_table \<and> length unicode_prop_Default_Ignorable_Code_Point_table < 2047"
  unfolding unicode_prop_IDS_Trinary_Operator_table_def
    unicode_prop_Ideographic_table_def
    unicode_prop_Join_Control_table_def
    unicode_prop_Logical_Order_Exception_table_def
    unicode_prop_Noncharacter_Code_Point_table_def
    unicode_prop_Pattern_Syntax_table_def
    unicode_prop_Pattern_White_Space_table_def
    unicode_prop_Quotation_Mark_table_def
    unicode_prop_Radical_table_def
    unicode_prop_Regional_Indicator_table_def
    unicode_prop_Sentence_Terminal_table_def
    unicode_prop_Soft_Dotted_table_def
    unicode_prop_Terminal_Punctuation_table_def
    unicode_prop_Unified_Ideograph_table_def
    unicode_prop_Variation_Selector_table_def
    unicode_prop_White_Space_table_def
    unicode_prop_Bidi_Mirrored_table_def
    unicode_prop_Emoji_table_def
    unicode_prop_Emoji_Component_table_def
    unicode_prop_Emoji_Modifier_table_def
    unicode_prop_Emoji_Modifier_Base_table_def
    unicode_prop_Emoji_Presentation_table_def
    unicode_prop_Extended_Pictographic_table_def
    unicode_prop_Default_Ignorable_Code_Point_table_def
  by simp_all

lemma prop_table_decode_ID_Continue1: "decodes unicode_prop_ID_Continue1_table \<and> length unicode_prop_ID_Continue1_table < 2047"
proof
  show "decodes unicode_prop_ID_Continue1_table" using table_ok_points [OF table_ok_ID_Continue1] run_points_decodes by blast
  show "length unicode_prop_ID_Continue1_table < 2047" by (simp add: unicode_prop_ID_Continue1_table_def)
qed

lemma prop_table_decode_ID_Start: "decodes unicode_prop_ID_Start_table \<and> length unicode_prop_ID_Start_table < 2047"
proof
  show "decodes unicode_prop_ID_Start_table" using table_ok_points [OF table_ok_ID_Start] run_points_decodes by blast
  show "length unicode_prop_ID_Start_table < 2047" by (simp add: unicode_prop_ID_Start_table_def)
qed

lemma prop_table_decode_Case_Ignorable: "decodes unicode_prop_Case_Ignorable_table \<and> length unicode_prop_Case_Ignorable_table < 2047"
proof
  show "decodes unicode_prop_Case_Ignorable_table" using table_ok_points [OF table_ok_Case_Ignorable] run_points_decodes by blast
  show "length unicode_prop_Case_Ignorable_table < 2047" by (simp add: unicode_prop_Case_Ignorable_table_def)
qed

lemma prop_table_decodes: "t \<in> set unicode_prop_table \<Longrightarrow> decodes t \<and> length t < 2047"
proof -
  have "list_all (\<lambda>t. decodes t \<and> length t < 2047) unicode_prop_table"
    unfolding unicode_prop_table_def
    by (simp only: list.pred_inject prop_tables_decode1 prop_tables_decode2 prop_table_decode_ID_Continue1 prop_table_decode_ID_Start
        prop_table_decode_Case_Ignorable simp_thms)
  then show "t \<in> set unicode_prop_table \<Longrightarrow> decodes t \<and> length t < 2047" by (simp only: list_all_iff)
qed

text \<open>The code points of a table of runs that alternate between outside and inside, from outside.\<close>

definition runs_set :: "u8 list \<Rightarrow> nat set" where
  "runs_set t = {c. \<exists>es. run_points t 0 = Some es \<and> ivs_mem (pair_up es) c}"

definition prop_set :: "nat \<Rightarrow> nat set" where
  "prop_set i = (if i < length unicode_prop_table then runs_set (unicode_prop_table ! i) else {})"

context cr_alloc
begin

lemma prop1_loop_produces:
  assumes "decodes t" "length t < 2047" "cr_ok cr" "cr_pts cr = []"
  shows "produces (runs_set t) (prop1_loop ra h cr t 0 False)"
proof -
  obtain es where es: "run_points t 0 = Some es" "\<forall>e \<in> set es. e \<le> length t * 2 ^ 21"
    using decodes_points [OF assms(1), of 0] by auto
  have b: "length t * 2 ^ 21 < 2 ^ 32" using assms(2) by simp
  have y: "cr_yields (flat (pair_up es)) (prop1_loop ra h cr t 0 False)"
    using prop1_loop_yields [OF es(1) _ _ assms(3), of False h] es(2) b assms(4) by fastforce
  have "ivs_in 0 (length t * 2 ^ 21) (pair_up es)"
    using pair_up_in [of es 0] run_points_props [OF es(1)] es(2) by simp
  from flat_denotes [OF this b] have "cr_denotes (flat (pair_up es)) (runs_set t)"
    using es(1) by (simp add: runs_set_def)
  then show ?thesis using cr_yields_produces [OF y] by blast
qed

lemma prop1_produces:
  assumes "i < length unicode_prop_table" "cr_ok cr" "cr_pts cr = []"
  shows "produces (prop_set i) (unicode_prop1 ra h cr i)"
  using prop1_loop_produces [OF _ _ assms(2,3), of "unicode_prop_table ! i" h] prop_table_decodes [OF nth_mem [OF assms(1)]] assms(1)
  by (simp add: unicode_prop1_def prop_set_def rd_def)

end

end
