(* ===== verification/Unicode_Case_Sets.thy ===== *)
theory Unicode_Case_Sets
  imports Unicode_Sets
begin

text \<open>
  The range that \<open>unicode_case1\<close> reads off the run types of the case conversion table is the set of code
  points that \<open>lre_case_conv\<close> really changes.
\<close>

definition changes :: "nat \<Rightarrow> nat \<Rightarrow> bool" where
  "changes conv c \<longleftrightarrow> lre_case_conv c conv \<noteq> Some [c]"

text \<open>Which position \<open>a\<close> of a run of type \<open>ty\<close> a conversion changes, by the masks of \<open>unicode_case1\<close>.\<close>

definition ty_changes :: "nat \<Rightarrow> nat \<Rightarrow> nat \<Rightarrow> bool" where
  "ty_changes conv ty a \<longleftrightarrow> ty \<in> set (tab_run_mask ! conv)
     \<and> (ty = 4 \<longrightarrow> odd a = (conv = 0)) \<and> (ty = 5 \<longrightarrow> a = 1 \<or> a = (if conv = 0 then 2 else 0))"

section \<open>The intervals of a run\<close>

lemma bit_cases: "(\<exists>i < 3. P i) \<longleftrightarrow> P 0 \<or> P 1 \<or> P (2 :: nat)"
  by (auto simp: less_Suc_eq numeral_3_eq_3 numeral_2_eq_2)

lemma case1_intervals_mem:
  assumes "cc_type v = 4 \<Longrightarrow> even (cc_len v)" "cc_type v = 5 \<Longrightarrow> cc_len v = 3"
  shows "ivs_mem (case1_intervals gm v) c \<longleftrightarrow> cc_code v \<le> c \<and> c < cc_code v + cc_len v
    \<and> (\<exists>i < 3. case_bit gm i \<and> ty_changes i (cc_type v) (c - cc_code v))"
proof -
  consider "cc_type v = 4" | "cc_type v = 5" | "cc_type v \<noteq> 4" "cc_type v \<noteq> 5" by blast
  then show ?thesis
  proof cases
    case 1
    let ?u = "if case_bit gm 0 then 1 else 0 :: nat"
    have alt: "cc_code v + ?u \<le> c \<and> c < cc_code v + ?u + cc_len v \<and> even (c - (cc_code v + ?u))
      \<longleftrightarrow> cc_code v \<le> c \<and> c < cc_code v + cc_len v \<and> odd (c - cc_code v) = case_bit gm 0"
    proof (cases "case_bit gm 0")
      case True
      obtain k where "cc_len v = 2 * k" using assms(1) [OF 1] by (auto elim: evenE)
      then show ?thesis using True by simp presburger
    next
      case False
      then show ?thesis by auto
    qed
    show ?thesis using alt unfolding case1_intervals_def Let_def bit_cases
      by (auto simp: 1 in_run_mask_def bit_cases tab_run_mask_def ty_changes_def alternate_mem)
  next
    case 2
    have "cc_code v \<le> c \<and> c < cc_code v + 3 \<longleftrightarrow> c = cc_code v \<or> c = cc_code v + 1 \<or> c = cc_code v + 2" by auto
    then show ?thesis using assms(2) [OF 2] unfolding case1_intervals_def Let_def bit_cases
      by (auto simp: 2 in_run_mask_def bit_cases tab_run_mask_def ty_changes_def)
  next
    case 3
    then show ?thesis unfolding case1_intervals_def Let_def bit_cases
      by (auto simp: in_run_mask_def bit_cases ty_changes_def)
  qed
qed

lemma alternate_in_even: "even n \<Longrightarrow> ivs_in a (a + n) (alternate (a + 1) (a + 1 + n))"
proof (induction n arbitrary: a rule: less_induct)
  case (less n)
  show ?case
  proof (cases "n = 0")
    case True
    then show ?thesis by (simp add: alternate.simps)
  next
    case False
    then obtain m where n: "n = m + 2" "even m" using less.prems by (auto elim!: evenE intro: that [of "n - 2"])
    have "ivs_in (a + 2) (a + 2 + m) (alternate (a + 3) (a + 3 + m))" using less.IH [of m "a + 2"] n by (simp add: eval_nat_numeral)
    then show ?thesis using n(1) by (subst alternate.simps) (simp add: eval_nat_numeral)
  qed
qed

lemma case1_intervals_in:
  assumes "cc_type v = 4 \<Longrightarrow> even (cc_len v)" "cc_type v = 5 \<Longrightarrow> cc_len v = 3" "0 < cc_len v"
  shows "ivs_in (cc_code v) (cc_code v + cc_len v) (case1_intervals gm v)"
  using assms alternate_in_even [of "cc_len v" "cc_code v"] alternate_in [of "cc_code v" "cc_code v" "cc_code v + cc_len v"]
  by (auto simp: case1_intervals_def Let_def)

section \<open>The table\<close>

text \<open>
  What an entry needs for its conversion to change every code point the masks name: the values a run is
  mapped to are outside the run or shifted.
\<close>

definition outside :: "nat \<Rightarrow> nat \<Rightarrow> nat \<Rightarrow> bool" where
  "outside code len x \<longleftrightarrow> x < code \<or> code + len \<le> x"

definition run_changes :: "nat \<Rightarrow> nat \<Rightarrow> nat \<Rightarrow> nat \<Rightarrow> nat \<Rightarrow> bool" where
  "run_changes idx code len ty data \<longleftrightarrow> 0 < len \<and>
     (if ty < 4 then data \<noteq> idx
      else if ty = 6 then ext (data mod 2 ^ 6) \<noteq> Some code
      else if ty = 7 then outside code len data \<and> outside code len (data + 0x20)
      else if ty = 8 then list_all (outside code len) (map (\<lambda>d. the (ext data) + d) [0, 1])
      else if ty = 9 \<or> ty = 10 then outside code len (the (ext data))
      else ty \<le> 13)"

fun runs_change :: "nat \<Rightarrow> u32 list \<Rightarrow> u8 list \<Rightarrow> bool" where
  "runs_change idx (w # ws) (w2 # ws2) =
     (run_changes idx (cc_code (unat w)) (cc_len (unat w)) (cc_type (unat w)) (cc_data (unat w) (unat w2))
      \<and> runs_change (idx + 1) ws ws2)"
| "runs_change idx ws ws2 = (ws = [])"

lemma runs_change_table: "runs_change 0 case_conv_table1 case_conv_table2"
  unfolding case_conv_table1_def case_conv_table2_def
  by (simp add: cc_defs run_changes_def outside_def ext_def rd_def case_conv_ext_def)

lemma runs_change_nth:
  "runs_change idx ws ws2 \<Longrightarrow> i < length ws \<Longrightarrow>
   run_changes (idx + i) (cc_code (unat (ws ! i))) (cc_len (unat (ws ! i))) (cc_type (unat (ws ! i))) (cc_data (unat (ws ! i)) (unat (ws2 ! i)))"
proof (induction idx ws ws2 arbitrary: i rule: runs_change.induct)
  case (1 idx w ws w2 ws2)
  then show ?case by (cases i) auto
qed auto

definition cc_entry :: "nat \<Rightarrow> nat \<Rightarrow> nat \<Rightarrow> nat \<Rightarrow> nat \<Rightarrow> bool" where
  "cc_entry i code len ty data \<longleftrightarrow> i < length case_conv_table1 \<and> code = cc_code (unat (case_conv_table1 ! i))
     \<and> len = cc_len (unat (case_conv_table1 ! i)) \<and> ty = cc_type (unat (case_conv_table1 ! i))
     \<and> data = cc_data (unat (case_conv_table1 ! i)) (unat (case_conv_table2 ! i))"

lemma cc_entryD:
  assumes "cc_entry i code len ty data"
  shows "run_ok code len ty data" "run_changes i code len ty data" "code < 2 ^ 17" "len < 2 ^ 7" "data < 2 ^ 12" "i < 359"
  using assms table_runs_ok_nth [OF table_runs_ok_table, of i] runs_change_nth [OF runs_change_table, of i]
    cc_code_bound cc_len_bound cc_data_bound
  by (auto simp: cc_entry_def)

lemma cc_entry_code_inject:
  assumes "cc_entry i code len ty data" "cc_entry j code len' ty' data'"
  shows "i = j"
proof -
  note s = runs_sorted_wrt [OF runs_sorted_table]
  have l: "0 < len" "0 < len'" using cc_entryD(2) [OF assms(1)] cc_entryD(2) [OF assms(2)] by (simp_all add: run_changes_def)
  show ?thesis
  proof (rule linorder_cases [of i j])
    assume "i < j" with sorted_wrt_nth_less [OF s this] assms l show ?thesis by (auto simp: cc_entry_def)
  next
    assume "j < i" with sorted_wrt_nth_less [OF s this] assms l show ?thesis by (auto simp: cc_entry_def)
  qed
qed

lemma add32_eq: "a < 2 ^ 20 \<Longrightarrow> b < 2 ^ 20 \<Longrightarrow> add32 a b = a + b"
  by (simp add: add32_def)

lemma conv_cases: "conv < 3 \<Longrightarrow> conv = 0 \<or> conv = 1 \<or> conv = (2 :: nat)"
  by auto

lemmas ty_eval = ty_changes_def tab_run_mask_def

lemma changes_mapped_run:
  assumes e: "cc_entry i code len ty data" and c: "code \<le> c" "c < code + len" and conv: "conv < 3" and "ty < 4"
  shows "case_conv_run c conv code ty data \<noteq> Some [c] \<longleftrightarrow> ty_changes conv ty (c - code)"
proof -
  note ok = cc_entryD [OF e]
  have di: "data < 359" "data \<noteq> i" using ok(1,2) assms(5) by (simp_all add: run_ok_def run_changes_def)
  let ?w = "case_conv_table1 ! data"
  have "cc_entry data (cc_code (unat ?w)) (cc_len (unat ?w)) (cc_type (unat ?w)) (cc_data (unat ?w) (unat (case_conv_table2 ! data)))"
    using di by (simp add: cc_entry_def)
  then have t: "cc_code (unat ?w) \<noteq> code" "cc_code (unat ?w) < 2 ^ 17"
    using cc_entry_code_inject e di(2) cc_code_bound by blast+
  then have "add32 (c - code) (cc_code (unat ?w)) = c - code + cc_code (unat ?w)"
    using c ok(4) by (intro add32_eq) auto
  then have "case_conv_run c conv code ty data \<noteq> Some [c] \<longleftrightarrow> conv = ty mod 2 \<or> ty \<ge> 2 \<and> conv = 2"
    using t c(1) di(1) assms(5) by (auto simp: case_conv_run_def Let_def rd_def)
  moreover have "ty = 0 \<or> ty = 1 \<or> ty = 2 \<or> ty = 3" using assms(5) by auto
  ultimately show ?thesis using conv_cases [OF conv]
    by (elim disjE) (simp_all add: ty_eval)
qed

lemma changes_alternating_run:
  assumes e: "cc_entry i code len 4 data" and c: "code \<le> c" "c < code + len" and conv: "conv < 3"
  shows "case_conv_run c conv code 4 data \<noteq> Some [c] \<longleftrightarrow> ty_changes conv 4 (c - code)"
proof -
  note ok = cc_entryD [OF e]
  obtain a where a: "c = code + a" "a < 2 ^ 7" using c ok(4) by (metis le_iff_add less_trans nat_add_left_cancel_less)
  have "add32 (if even a then a + 1 else a - 1) code = (if even a then a + 1 else a - 1) + code"
    using a(2) ok(3) by (intro add32_eq) auto
  moreover have "(if even a then a + 1 else a - 1) + code \<noteq> c" using a(1) by (auto elim: oddE)
  ultimately show ?thesis using conv_cases [OF conv] a(1)
    by (elim disjE) (simp_all add: ty_eval case_conv_run_def Let_def mod2_eq_if split del: if_split, simp_all add: ty_eval)
qed

lemma changes_lsu_run:
  assumes e: "cc_entry i code len 5 data" and c: "code \<le> c" "c < code + len" and conv: "conv < 3"
  shows "case_conv_run c conv code 5 data \<noteq> Some [c] \<longleftrightarrow> ty_changes conv 5 (c - code)"
proof -
  note ok = cc_entryD [OF e]
  have b: "0 < code" "len = 3" "c < 2 ^ 20" using ok(1,3) c by (auto simp: run_ok_def)
  then have up: "c - code = 1 \<Longrightarrow> add32 c (2 ^ 32 - 1) \<noteq> c" "c - code = 2 \<Longrightarrow> add32 c ((2 ^ 32 - 1) * 2) \<noteq> c"
    and lo: "add32 c (2 * 1 + (2 ^ 32 - 1)) \<noteq> c" "add32 c ((2 * 1 + (2 ^ 32 - 1)) * 2) \<noteq> c"
    using lsu_wrap [of c] by auto
  show ?thesis
  proof (cases "conv = 0")
    case True
    then show ?thesis using up by (simp add: ty_eval case_conv_run_def Let_def)
  next
    case False
    then have "conv = 1 \<or> conv = 2" using conv by auto
    then show ?thesis using lo by (elim disjE) (simp_all add: ty_eval case_conv_run_def Let_def)
  qed
qed

lemma changes_ext_run:
  assumes e: "cc_entry i code len ty data" and c: "code \<le> c" "c < code + len" and conv: "conv < 3" and "5 < ty"
  shows "case_conv_run c conv code ty data \<noteq> Some [c] \<longleftrightarrow> ty_changes conv ty (c - code)"
proof -
  note ok = cc_entryD [OF e]
  have "ty \<le> 13" using ok(2) assms(5) by (auto simp: run_changes_def split: if_splits)
  then consider "ty = 6" | "ty = 7" | "ty = 8" | "ty = 9 \<or> ty = 10" | "ty = 11 \<or> ty = 12 \<or> ty = 13"
    using assms(5) by linarith
  then show ?thesis
  proof cases
    case 1
    then obtain x where "ext (data mod 2 ^ 6) = Some x" "x < 2 ^ 16" "x \<noteq> code"
      using ext_in [of "data mod 2 ^ 6"] ok(1,2) by (auto simp: run_ok_def run_changes_def)
    moreover from this have "add32 (c - code) x = c - code + x" using c ok(4) by (intro add32_eq) auto
    ultimately show ?thesis using 1 c conv_cases [OF conv]
      by (elim disjE) (auto simp: ty_eval case_conv_run_def Let_def bind_eq_Some_conv)
  next
    case 2
    then have "outside code len data" "outside code len (data + 0x20)" using ok(2) by (simp_all add: run_changes_def)
    moreover have "add32 data d = data + d" if "d \<le> 0x20" for d using ok(5) that by (intro add32_eq) auto
    ultimately show ?thesis using 2 c conv_cases [OF conv]
      by (elim disjE) (auto simp: ty_eval case_conv_run_def Let_def outside_def)
  next
    case 3
    then obtain x where x: "ext data = Some x" "x < 2 ^ 16" "outside code len x" "outside code len (x + 1)"
      using ext_in [of data] ok(1,2) by (auto simp: run_ok_def run_changes_def)
    moreover have "add32 x d = x + d" if "d \<le> 1" for d using x(2) that by (intro add32_eq) auto
    ultimately show ?thesis using 3 c conv_cases [OF conv]
      by (elim disjE) (auto simp: ty_eval case_conv_run_def Let_def outside_def)
  next
    case 4
    then obtain x where "ext data = Some x" "outside code len x"
      using ext_in [of data] ok(1,2) by (auto simp: run_ok_def run_changes_def)
    then show ?thesis using 4 c conv_cases [OF conv]
      by (elim disjE) (auto simp: ty_eval case_conv_run_def Let_def outside_def)
  next
    case 5
    then show ?thesis using conv_cases [OF conv]
      by (elim disjE) (auto simp: ty_eval case_conv_run_def Let_def bind_eq_Some_conv)
  qed
qed

lemma case_conv_run_changes:
  assumes "cc_entry i code len ty data" "code \<le> c" "c < code + len" "conv < 3"
  shows "case_conv_run c conv code ty data \<noteq> Some [c] \<longleftrightarrow> ty_changes conv ty (c - code)"
proof -
  consider "ty < 4" | "ty = 4" | "ty = 5" | "5 < ty" by linarith
  then show ?thesis
    using assms changes_mapped_run changes_alternating_run changes_lsu_run changes_ext_run by cases blast+
qed

section \<open>The range of the changed code points\<close>

lemma ascii_entries:
  "cc_entry 0 65 26 3 (cc_data 0x209a30 (unat (case_conv_table2 ! 0)))"
  "cc_entry 1 97 26 0 (cc_data 0x309a00 (unat (case_conv_table2 ! 1)))"
  "cc_code (unat (case_conv_table1 ! 2)) = 181"
  by (simp_all add: cc_entry_def case_conv_table1_def cc_defs)

text \<open>Below 128 only the first two runs matter, and they agree with the special case of \<open>lre_case_conv\<close>.\<close>

lemma ascii_run:
  assumes "cc_entry i code len ty data" "code \<le> c" "c < 128"
  shows "i = 0 \<or> i = 1"
proof (rule ccontr)
  assume "\<not> ?thesis"
  then have "2 \<le> i" by auto
  then have "181 \<le> code" using assms(1) ascii_entries(3) sorted_wrt_nth_less [OF runs_sorted_wrt [OF runs_sorted_table], of 2 i]
    by (cases "i = 2") (auto simp: cc_entry_def)
  then show False using assms by simp
qed

lemma cc_entry_unique: "cc_entry i code len ty data \<Longrightarrow> cc_entry i code' len' ty' data' \<Longrightarrow> code' = code \<and> len' = len \<and> ty' = ty \<and> data' = data"
  by (simp add: cc_entry_def)

text \<open>The run that contains a code point, and the position the conversion changes there.\<close>

definition in_changing_run :: "nat \<Rightarrow> nat \<Rightarrow> bool" where
  "in_changing_run conv c \<longleftrightarrow>
     (\<exists>i code len ty data. cc_entry i code len ty data \<and> code \<le> c \<and> c < code + len \<and> ty_changes conv ty (c - code))"

lemma changes_ascii:
  assumes "conv < 3" "c < 128"
  shows "changes conv c \<longleftrightarrow> in_changing_run conv c"
proof -
  have 3: "ty_changes conv 3 a \<longleftrightarrow> conv \<noteq> 0" "ty_changes conv 0 a \<longleftrightarrow> conv = 0" for a
    using conv_cases [OF assms(1)] by (elim disjE; simp add: ty_eval)+
  have "in_changing_run conv c \<longleftrightarrow> 65 \<le> c \<and> c < 91 \<and> conv \<noteq> 0 \<or> 97 \<le> c \<and> c < 123 \<and> conv = 0" (is "?L \<longleftrightarrow> ?R")
  proof
    assume ?L
    then obtain i code len ty data where e: "cc_entry i code len ty data" "code \<le> c" "c < code + len" "ty_changes conv ty (c - code)"
      unfolding in_changing_run_def by blast
    from ascii_run [OF e(1,2) assms(2)] show ?R
    proof
      assume "i = 0" with cc_entry_unique [OF e(1)] ascii_entries(1) e(2-4) 3 show ?R by auto
    next
      assume "i = 1" with cc_entry_unique [OF e(1)] ascii_entries(2) e(2-4) 3 show ?R by auto
    qed
  next
    assume ?R
    then show ?L
    proof (elim disjE conjE)
      assume "65 \<le> c" "c < 91" "conv \<noteq> 0"
      then show ?L unfolding in_changing_run_def using ascii_entries(1) 3(1) by (intro exI conjI) auto
    next
      assume "97 \<le> c" "c < 123" "conv = 0"
      then show ?L unfolding in_changing_run_def using ascii_entries(2) 3(2) by (intro exI conjI) auto
    qed
  qed
  then show ?thesis using assms(2) by (auto simp: changes_def lre_case_conv_def)
qed

lemma cc_entry_disjoint:
  assumes "cc_entry i code len ty data" "code \<le> c" "c < code + len" "j < length case_conv_table1" "in_run (case_conv_table1 ! j) c"
  shows "j = i"
proof (rule linorder_cases [of i j])
  note s = sorted_wrt_nth_less [OF runs_sorted_wrt [OF runs_sorted_table]]
  show ?thesis if "i < j" using s [OF that assms(4)] assms by (auto simp: cc_entry_def in_run_def)
  show ?thesis if "j < i" using s [OF that] assms by (auto simp: cc_entry_def in_run_def)
qed simp

lemma changes_table:
  assumes "conv < 3" "\<not> c < 128"
  shows "changes conv c \<longleftrightarrow> in_changing_run conv c"
proof (cases "case_search c case_conv_table1 0 (int (length case_conv_table1) - 1) = Some None")
  case True
  then have n: "\<not> in_run (case_conv_table1 ! i) c" if "i < length case_conv_table1" for i
    using case_table_search [of c] that by auto
  have "\<not> in_changing_run conv c"
    unfolding in_changing_run_def using n by (force simp: cc_entry_def in_run_def)
  then show ?thesis using True assms(2) by (simp add: changes_def lre_case_conv_def)
next
  case False
  then obtain i where i: "i < length case_conv_table1" "in_run (case_conv_table1 ! i) c"
    "case_search c case_conv_table1 0 (int (length case_conv_table1) - 1) = Some (Some i)"
    using case_table_search [of c] by auto
  let ?v = "unat (case_conv_table1 ! i)"
  let ?d = "cc_data ?v (unat (case_conv_table2 ! i))"
  have e: "cc_entry i (cc_code ?v) (cc_len ?v) (cc_type ?v) ?d" using i(1) by (simp add: cc_entry_def)
  have r: "cc_code ?v \<le> c" "c < cc_code ?v + cc_len ?v" using i(2) by (simp_all add: in_run_def)
  have "lre_case_conv c conv = case_conv_run c conv (cc_code ?v) (cc_type ?v) ?d"
    using assms(2) i(1,3) by (simp add: lre_case_conv_def rd_def Let_def)
  then have "changes conv c \<longleftrightarrow> ty_changes conv (cc_type ?v) (c - cc_code ?v)"
    using case_conv_run_changes [OF e r assms(1)] by (simp add: changes_def)
  also have "\<dots> \<longleftrightarrow> in_changing_run conv c"
    unfolding in_changing_run_def using e r cc_entry_disjoint [OF _ _ _ i(1,2)] cc_entry_unique [OF e] by blast
  finally show ?thesis .
qed

lemma changes_iff: "conv < 3 \<Longrightarrow> changes conv c \<longleftrightarrow> in_changing_run conv c"
  using changes_ascii changes_table by blast

text \<open>The intervals of the whole table.\<close>

definition case1_ivs :: "nat \<Rightarrow> u32 list \<Rightarrow> (nat \<times> nat) list" where
  "case1_ivs gm ws = concat (map (\<lambda>w. case1_intervals gm (unat w)) ws)"

definition case_set :: "nat \<Rightarrow> nat set" where
  "case_set gm = {c. \<exists>conv < 3. case_bit gm conv \<and> changes conv c}"

lemma table_entry_shape:
  assumes "w \<in> set case_conv_table1"
  shows "cc_type (unat w) = 4 \<Longrightarrow> even (cc_len (unat w))" "cc_type (unat w) = 5 \<Longrightarrow> cc_len (unat w) = 3"
    "0 < cc_len (unat w)" "cc_code (unat w) + cc_len (unat w) \<le> 0x110000"
proof -
  obtain i where "i < length case_conv_table1" "w = case_conv_table1 ! i" using assms by (metis in_set_conv_nth)
  then have "cc_entry i (cc_code (unat w)) (cc_len (unat w)) (cc_type (unat w)) (cc_data (unat w) (unat (case_conv_table2 ! i)))"
    by (simp add: cc_entry_def)
  note ok = cc_entryD(1,2) [OF this]
  then show "cc_type (unat w) = 4 \<Longrightarrow> even (cc_len (unat w))" "cc_type (unat w) = 5 \<Longrightarrow> cc_len (unat w) = 3"
    "0 < cc_len (unat w)" "cc_code (unat w) + cc_len (unat w) \<le> 0x110000"
    by (auto simp: run_ok_def run_changes_def)
qed

lemma case1_ivs_mem: "ivs_mem (case1_ivs gm case_conv_table1) c \<longleftrightarrow> c \<in> case_set gm"
proof -
  have "ivs_mem (case1_ivs gm ws) c \<longleftrightarrow> (\<exists>w \<in> set ws. ivs_mem (case1_intervals gm (unat w)) c)" for ws
    by (induction ws) (auto simp: case1_ivs_def)
  also have "(\<exists>w \<in> set case_conv_table1. ivs_mem (case1_intervals gm (unat w)) c)
    \<longleftrightarrow> (\<exists>w \<in> set case_conv_table1. cc_code (unat w) \<le> c \<and> c < cc_code (unat w) + cc_len (unat w)
      \<and> (\<exists>i < 3. case_bit gm i \<and> ty_changes i (cc_type (unat w)) (c - cc_code (unat w))))"
    using case1_intervals_mem table_entry_shape(1,2) by (intro bex_cong) simp_all
  also have "\<dots> \<longleftrightarrow> (\<exists>conv < 3. case_bit gm conv \<and> in_changing_run conv c)"
    unfolding in_changing_run_def cc_entry_def set_conv_nth by blast
  finally show ?thesis using changes_iff by (auto simp: case_set_def)
qed

lemma case1_run_in:
  "w \<in> set case_conv_table1 \<Longrightarrow> ivs_in (cc_code (unat w)) (cc_code (unat w) + cc_len (unat w)) (case1_intervals gm (unat w))"
  using table_entry_shape [of w] by (intro case1_intervals_in) auto

lemma case1_ivs_in:
  assumes "runs_sorted ws" "\<forall>w \<in> set ws. w \<in> set case_conv_table1" "ws \<noteq> []"
  shows "ivs_in (cc_code (unat (hd ws))) 0x110000 (case1_ivs gm ws)"
  using assms
proof (induction ws rule: runs_sorted.induct)
  case (1 w w' ws)
  have "ivs_in (cc_code (unat w)) (cc_code (unat w) + cc_len (unat w)) (case1_intervals gm (unat w))"
    using "1.prems" by (simp add: case1_run_in)
  moreover have "ivs_in (cc_code (unat w')) 0x110000 (case1_ivs gm (w' # ws))" using 1 by simp
  then have "ivs_in (cc_code (unat w) + cc_len (unat w)) 0x110000 (case1_ivs gm (w' # ws))"
    by (rule ivs_in_mono) (use "1.prems" in simp_all)
  moreover have "case1_ivs gm (w # w' # ws) = case1_intervals gm (unat w) @ case1_ivs gm (w' # ws)" by (simp add: case1_ivs_def)
  ultimately show ?case using ivs_in_append by simp
qed (auto simp: case1_ivs_def intro: case1_run_in [THEN ivs_in_mono] table_entry_shape(4))

lemma case1_ivs_denotes: "cr_denotes (flat (case1_ivs gm case_conv_table1)) (case_set gm)"
proof -
  have "case_conv_table1 \<noteq> []" by (metis length_case_conv(1) list.size(3) zero_neq_numeral)
  then have "ivs_in (cc_code (unat (hd case_conv_table1))) 0x110000 (case1_ivs gm case_conv_table1)"
    using case1_ivs_in runs_sorted_table by blast
  from flat_denotes [OF this] show ?thesis by (simp add: case1_ivs_mem)
qed

context cr_alloc
begin

lemma case1_loop_yields: "cr_ok cr \<Longrightarrow> cr_yields (cr_pts cr @ flat (case1_ivs gm ws)) (case1_loop ra h cr gm ws)"
proof (induction ws arbitrary: h cr)
  case Nil
  then show ?case by (simp add: cr_yields_def case1_ivs_def)
next
  case (Cons w ws)
  show ?case unfolding case1_loop.simps
    by (rule add_intervals_then [OF Cons.prems]) (use Cons.IH in \<open>fastforce simp: case1_ivs_def\<close>)
qed

lemma case1_produces:
  assumes "cr_ok cr" "cr_pts cr = []"
  shows "produces (case_set gm) (unicode_case1 ra h cr gm)"
proof (cases "gm = 0")
  case True
  then have "case_set gm = {}" by (simp add: case_set_def case_bit_def)
  then show ?thesis using True assms by (simp add: unicode_case1_def produces_def cr_denotes_def cr_valid_def cr_mem_def)
next
  case False
  then show ?thesis
    using cr_yields_produces [OF case1_loop_yields [OF assms(1), of gm case_conv_table1 h]] case1_ivs_denotes assms(2)
    by (simp add: unicode_case1_def)
qed

end

end
