(* ===== verification/Unicode_Machine.thy ===== *)
theory Unicode_Machine
  imports Unicode_Case_Sets
begin

unbundle bit_operations_syntax

text \<open>
  Property names, the stack machine \<open>unicode_prop_ops\<close> as set algebra, the meaning of every property,
  category and script that \<open>libunicode.c\<close> knows by name, and the theorems that the code computes it.
\<close>

section \<open>Names\<close>

fun split_commas :: "string \<Rightarrow> string list" where
  "split_commas [] = [[]]"
| "split_commas (c # s) =
     (if c = CHR 0x2C then [] # split_commas s
      else case split_commas s of [] \<Rightarrow> [[c]] | p # ps \<Rightarrow> (c # p) # ps)"

text \<open>The number of the first entry that has the name among its parts.\<close>

fun name_index :: "string list \<Rightarrow> string \<Rightarrow> nat option" where
  "name_index [] name = None"
| "name_index (e # es) name =
     (if name \<in> set (split_commas e) then Some 0 else map_option Suc (name_index es name))"

lemma split_commas_takeWhile:
  "split_commas s = (let p = takeWhile (\<lambda>c. c \<noteq> CHR 0x2C) s in
     if CHR 0x2C \<in> set s then p # split_commas (drop (length p + 1) s) else [s])"
  by (induction s) (auto simp: Let_def)

lemma cstr_append: "CHR 0x00 \<notin> set s \<Longrightarrow> cstr (s @ CHR 0x00 # q) = s"
  unfolding cstr_def by (induction s) auto

lemma take_comma: "\<lbrakk>CHR 0x2C \<in> set s\<rbrakk> \<Longrightarrow> length (takeWhile (\<lambda>c. c \<noteq> CHR 0x2C) s) < length s"
  by (induction s) auto

lemma find_name_inner_eq:
  "CHR 0x00 \<notin> set s \<Longrightarrow> find_name_inner (s @ CHR 0x00 # q) name
     = Some (if name \<in> set (split_commas s) then Inl () else Inr q)"
proof (induction "length s" arbitrary: s rule: less_induct)
  case less
  let ?p = "takeWhile (\<lambda>c. c \<noteq> CHR 0x2C) s"
  have c: "cstr (s @ CHR 0x00 # q) = s" using cstr_append less.prems by simp
  show ?case
  proof (cases "CHR 0x2C \<in> set s")
    case True
    note lt = take_comma [OF True]
    have tk: "take (length ?p) (s @ CHR 0x00 # q) = ?p"
      using lt takeWhile_eq_take [of "\<lambda>c. c \<noteq> CHR 0x2C" s, symmetric] by simp
    let ?r = "drop (length ?p + 1) s"
    have "CHR 0x00 \<notin> set ?r" using less.prems by (meson in_set_dropD)
    moreover have "drop (length ?p + 1) (s @ CHR 0x00 # q) = ?r @ CHR 0x00 # q" using lt by simp
    ultimately have "find_name_inner (drop (length ?p + 1) (s @ CHR 0x00 # q)) name
      = Some (if name \<in> set (split_commas ?r) then Inl () else Inr q)"
      using less.hyps [of ?r] lt by simp
    moreover have "split_commas s = ?p # split_commas ?r" using True by (subst split_commas_takeWhile) (simp add: Let_def)
    ultimately show ?thesis using c True tk by (subst find_name_inner.simps) (auto simp: Let_def)
  next
    case False
    then have "split_commas s = [s]" by (subst split_commas_takeWhile) (simp add: Let_def)
    then show ?thesis using c False by (subst find_name_inner.simps) (auto simp: Let_def)
  qed
qed

definition names_ok :: "string list \<Rightarrow> bool" where
  "names_ok es \<longleftrightarrow> list_all (\<lambda>e. e \<noteq> [] \<and> list_all (\<lambda>c. c \<noteq> CHR 0x00) e) es"

lemma find_name_loop_eq:
  "names_ok es \<Longrightarrow> find_name_loop (c_strings es) name pos
     = Some (case name_index es name of None \<Rightarrow> -1 | Some i \<Rightarrow> int (pos + i))"
proof (induction es arbitrary: pos)
  case Nil
  show ?case by (subst find_name_loop.simps) (simp add: c_strings_def)
next
  case (Cons e es)
  obtain c e' where e: "e = c # e'" using Cons.prems by (cases e) (auto simp: names_ok_def)
  have n0: "CHR 0x00 \<notin> set e" "names_ok es" using Cons.prems by (auto simp: names_ok_def list_all_iff)
  have s: "c_strings (e # es) = e @ CHR 0x00 # c_strings es" by (simp add: c_strings_def)
  have "find_name_loop (c_strings (e # es)) name pos
    = (case find_name_inner (c_strings (e # es)) name of None \<Rightarrow> None | Some (Inl _) \<Rightarrow> Some (int pos)
       | Some (Inr p') \<Rightarrow> find_name_loop p' name (pos + 1))"
    using n0(1) e s by (subst find_name_loop.simps) (auto split: list.splits)
  also have "\<dots> = Some (case name_index (e # es) name of None \<Rightarrow> -1 | Some i \<Rightarrow> int (pos + i))"
    unfolding s find_name_inner_eq [OF n0(1)] using Cons.IH [OF n0(2), of "pos + 1"] by (auto split: option.splits)
  finally show ?case .
qed

lemma unicode_find_name_eq:
  "names_ok es \<Longrightarrow> unicode_find_name (c_strings es) name
     = Some (case name_index es name of None \<Rightarrow> -1 | Some i \<Rightarrow> int i)"
  using find_name_loop_eq [of es name 0] by (simp add: unicode_find_name_def split: option.splits)

lemma name_tables_ok:
  "names_ok unicode_gc_name_table_entries" "names_ok unicode_prop_name_table_entries" "names_ok unicode_script_name_table_entries"
  unfolding names_ok_def unicode_gc_name_table_entries_def unicode_prop_name_table_entries_def unicode_script_name_table_entries_def
  by simp_all

lemmas find_name_tables =
  unicode_find_name_eq [OF name_tables_ok(1), folded unicode_gc_name_table_def]
  unicode_find_name_eq [OF name_tables_ok(2), folded unicode_prop_name_table_def]
  unicode_find_name_eq [OF name_tables_ok(3), folded unicode_script_name_table_def]

lemma name_index_less: "name_index es name = Some i \<Longrightarrow> i < length es"
  by (induction es arbitrary: i) (auto split: if_splits)

section \<open>The stack machine as set algebra\<close>

text \<open>The abstract machine: a stack of sets. It is stuck where the code would fail an assertion.\<close>

fun set_step :: "PropOP \<Rightarrow> nat set list \<Rightarrow> nat set list option" where
  "set_step (POP_GC a) st = (if length st < POP_STACK_LEN_MAX then Some (gc_set a # st) else None)"
| "set_step (POP_PROP a) st =
     (if length st < POP_STACK_LEN_MAX \<and> a < length unicode_prop_table then Some (prop_set a # st) else None)"
| "set_step (POP_CASE a) st = (if length st < POP_STACK_LEN_MAX then Some (case_set a # st) else None)"
| "set_step POP_UNION (B # A # st) = (if length (B # A # st) < POP_STACK_LEN_MAX then Some ((A \<union> B) # st) else None)"
| "set_step POP_INTER (B # A # st) = (if length (B # A # st) < POP_STACK_LEN_MAX then Some ((A \<inter> B) # st) else None)"
| "set_step POP_XOR (B # A # st) =
     (if length (B # A # st) < POP_STACK_LEN_MAX then Some ({c. (c \<in> A) \<noteq> (c \<in> B)} # st) else None)"
| "set_step POP_INVERT (A # st) = Some (- A # st)"
| "set_step _ _ = None"

fun set_machine :: "PropOP list \<Rightarrow> nat set list \<Rightarrow> nat set list option" where
  "set_machine [] st = Some st"
| "set_machine (op # ops) st = (case set_step op st of None \<Rightarrow> None | Some st' \<Rightarrow> set_machine ops st')"

definition stack_rel :: "CharRange list \<Rightarrow> nat set list \<Rightarrow> bool" where
  "stack_rel stack st \<longleftrightarrow> list_all2 (\<lambda>cr S. cr_ok cr \<and> cr_denotes (cr_pts cr) S) stack st"

lemma stack_rel_simps [simp]:
  "stack_rel [] []" "stack_rel (cr # stack) (S # st) \<longleftrightarrow> cr_ok cr \<and> cr_denotes (cr_pts cr) S \<and> stack_rel stack st"
  "stack_rel stack (S # st) \<longleftrightarrow> (\<exists>cr stack'. stack = cr # stack' \<and> cr_ok cr \<and> cr_denotes (cr_pts cr) S \<and> stack_rel stack' st)"
  by (auto simp: stack_rel_def list_all2_Cons2)

lemma stack_rel_length: "stack_rel stack st \<Longrightarrow> length stack = length st"
  by (auto simp: stack_rel_def list_all2_lengthD)

text \<open>The outcome of a step: it is defined, and without a refused allocation the stacks still agree.\<close>

definition step_ok :: "nat set list \<Rightarrow> (bool \<times> 'h \<times> CharRange list) option \<Rightarrow> bool" where
  "step_ok st res \<longleftrightarrow> (case res of None \<Rightarrow> False | Some (ok, h, stack) \<Rightarrow> ok \<longrightarrow> stack_rel stack st)"

lemma step_okE:
  assumes "step_ok st res"
  obtains ok h stack where "res = Some (ok, h, stack)" "ok \<longrightarrow> stack_rel stack st"
  using assms by (auto simp: step_ok_def split: option.splits)

context cr_alloc
begin

lemma pop_push_ok:
  assumes "stack_rel stack st" "length st < POP_STACK_LEN_MAX" "\<And>h. produces S (f h cr_init)"
  shows "step_ok (S # st) (pop_push f h stack)"
proof -
  obtain r h' cr where "f h cr_init = Some (r, h', cr)" "cr_ok cr" "r = 0 \<and> cr_denotes (cr_pts cr) S \<or> r = -1"
    using producesE [OF assms(3)] .
  then show ?thesis using assms(1,2) stack_rel_length [OF assms(1)] by (auto simp: step_ok_def pop_push_def)
qed

lemma pop_binary_ok:
  assumes "stack_rel stack (B # A # st)" "length (B # A # st) < POP_STACK_LEN_MAX" "S = {c. cr_op_in op (c \<in> A) (c \<in> B)}"
  shows "step_ok (S # st) (pop_binary ra op h stack)"
proof -
  obtain cr2 cr1 rest where s: "stack = cr2 # cr1 # rest" "cr_ok cr1" "cr_denotes (cr_pts cr1) A"
    "cr_ok cr2" "cr_denotes (cr_pts cr2) B" "stack_rel rest st" using assms(1) by auto
  have "cr_yields (cr_op_list op (cr_pts cr1) (cr_pts cr2)) (cr_op ra h cr_init (cr_pts cr1) (cr_pts cr2) op)"
    using s(3,5) by (intro cr_op_eq) (simp_all add: cr_denotes_def)
  then obtain r h' cr3 where o: "cr_op ra h cr_init (cr_pts cr1) (cr_pts cr2) op = Some (r, h', cr3)" "cr_ok cr3"
    "r = 0 \<and> cr_pts cr3 = cr_op_list op (cr_pts cr1) (cr_pts cr2) \<or> r = -1" unfolding cr_yields_def by blast
  have len: "length (cr2 # cr1 # rest) < POP_STACK_LEN_MAX"
    using assms(2) stack_rel_length [OF s(6)] by simp
  show ?thesis
  proof (cases "r = 0")
    case True
    then have "cr_denotes (cr_pts cr3) S" using o(3) cr_op_denotes [OF s(3,5), of op] assms(3) by simp
    then show ?thesis using True o(1,2) s(1,6) len by (simp add: step_ok_def pop_binary_def)
  next
    case False
    then show ?thesis using o(1) s(1) len by (simp add: step_ok_def pop_binary_def)
  qed
qed

lemma prop_op_step_ok:
  assumes "stack_rel stack st" "set_step op st = Some st'"
  shows "step_ok st' (prop_op_step ra op h stack)"
  using assms
proof (cases "(op, st)" rule: set_step.cases)
  case (7 A st0)
  then obtain cr rest where s: "stack = cr # rest" "cr_ok cr" "cr_denotes (cr_pts cr) A" "stack_rel rest st0"
    using assms(1) by auto
  then have "cr_valid (cr_pts cr)" by (simp add: cr_denotes_def)
  from cr_invert_eq [OF s(2) this, of h] obtain r h' cr' where
    "cr_invert ra h cr = Some (r, h', cr')" "cr_ok cr'" "r = 0 \<and> cr_pts cr' = compress (0 # cr_pts cr @ [UINT32_MAX]) \<or> r = -1"
    unfolding cr_yields_def by blast
  then show ?thesis using 7 assms(2) s cr_invert_denotes [OF s(3)] by (auto simp: step_ok_def prop_op_step_def)
qed (auto simp: prop_op_step_def split: if_splits
      intro!: pop_push_ok pop_binary_ok general_category1_produces prop1_produces case1_produces)

lemma prop_ops_loop_ok:
  "stack_rel stack st \<Longrightarrow> set_machine ops st = Some st' \<Longrightarrow> step_ok st' (prop_ops_loop ra ops h stack)"
proof (induction ops arbitrary: st stack h)
  case Nil
  then show ?case by (simp add: step_ok_def)
next
  case (Cons op ops)
  then obtain st1 where st1: "set_step op st = Some st1" "set_machine ops st1 = Some st'" by (auto split: option.splits)
  obtain ok h1 stack1 where s: "prop_op_step ra op h stack = Some (ok, h1, stack1)" "ok \<longrightarrow> stack_rel stack1 st1"
    using step_okE [OF prop_op_step_ok [OF Cons.prems(1) st1(1)]] .
  then show ?case using Cons.IH [OF _ st1(2), of stack1 h1] by (cases ok) (simp_all add: step_ok_def)
qed

lemma prop_ops_produces:
  assumes "set_machine ops [] = Some [S]" "cr_ok cr"
  shows "produces S (unicode_prop_ops ra h cr ops)"
proof -
  obtain ok h1 stack where l: "prop_ops_loop ra ops h [] = Some (ok, h1, stack)" "ok \<longrightarrow> stack_rel stack [S]"
    using step_okE [OF prop_ops_loop_ok [OF stack_rel_simps(1) assms(1)]] .
  show ?thesis
  proof (cases ok)
    case True
    then obtain s where s: "stack = [s]" "cr_ok s" "cr_denotes (cr_pts s) S" using l(2) by (auto simp: stack_rel_def list_all2_Cons2)
    then show ?thesis using l(1) True cr_copy_spec [OF assms(2) s(2), of h1]
      by (auto simp: unicode_prop_ops_def produces_def cr_yields_def)
  next
    case False
    then show ?thesis using l(1) assms(2) by (simp add: unicode_prop_ops_def produces_def)
  qed
qed

end

section \<open>The meaning of properties and categories\<close>

text \<open>The code points whose category is one of a list.\<close>

definition gcs :: "nat list \<Rightarrow> nat set" where
  "gcs gs = {c. \<exists>g \<in> set gs. general_category c = Some g}"

lemma sum_M_bit: "distinct gs \<Longrightarrow> bit (sum_list (map M gs)) g \<longleftrightarrow> g \<in> set gs"
proof (induction gs arbitrary: g)
  case (Cons a gs)
  let ?m = "sum_list (map M gs)"
  have IH: "bit ?m n \<longleftrightarrow> n \<in> set gs" for n using Cons by simp
  have a: "bit (2 ^ a :: nat) n \<longleftrightarrow> n = a" for n by (auto simp: bit_exp_iff)
  have "2 ^ a AND ?m = 0" using Cons.prems by (intro bit_eqI) (simp add: bit_and_iff IH a)
  then have "bit (2 ^ a + ?m) g \<longleftrightarrow> g = a \<or> g \<in> set gs" by (simp add: disjunctive_add_eq_or bit_or_iff IH a)
  then show ?case by (simp add: M_def [of a])
qed simp

lemma gc_set_sum: "distinct gs \<Longrightarrow> gc_set (sum_list (map M gs)) = gcs gs"
  by (auto simp: gc_set_def gcs_def sum_M_bit bit_iff_odd [symmetric])

definition letter_categories :: "nat list" where
  "letter_categories = [UNICODE_GC_Lu, UNICODE_GC_Ll, UNICODE_GC_Lt, UNICODE_GC_Lm, UNICODE_GC_Lo, UNICODE_GC_Nl]"

text \<open>
  The set of each property, by its number. Most are a table of the source; the others are set algebra on
  tables, categories and the code points that a case conversion changes.
\<close>

definition property_set :: "nat \<Rightarrow> nat set option" where
  "property_set i =
     (if i = UNICODE_PROP_ASCII then Some {..<0x80}
      else if i = UNICODE_PROP_Any then Some {..<0x110000}
      else if i = UNICODE_PROP_Assigned then Some (- gcs [UNICODE_GC_Cn])
      else if i = UNICODE_PROP_Math then Some (gcs [UNICODE_GC_Sm] \<union> prop_set UNICODE_PROP_Other_Math)
      else if i = UNICODE_PROP_Lowercase then Some (gcs [UNICODE_GC_Ll] \<union> prop_set UNICODE_PROP_Other_Lowercase)
      else if i = UNICODE_PROP_Uppercase then Some (gcs [UNICODE_GC_Lu] \<union> prop_set UNICODE_PROP_Other_Uppercase)
      else if i = UNICODE_PROP_Cased then
        Some (gcs [UNICODE_GC_Lu, UNICODE_GC_Ll, UNICODE_GC_Lt] \<union> prop_set UNICODE_PROP_Other_Uppercase
          \<union> prop_set UNICODE_PROP_Other_Lowercase)
      else if i = UNICODE_PROP_Alphabetic then
        Some (gcs letter_categories \<union> prop_set UNICODE_PROP_Other_Uppercase \<union> prop_set UNICODE_PROP_Other_Lowercase
          \<union> prop_set UNICODE_PROP_Other_Alphabetic)
      else if i = UNICODE_PROP_Grapheme_Base then
        Some (- (gcs [UNICODE_GC_Cc, UNICODE_GC_Cf, UNICODE_GC_Cs, UNICODE_GC_Co, UNICODE_GC_Cn, UNICODE_GC_Zl,
                      UNICODE_GC_Zp, UNICODE_GC_Me, UNICODE_GC_Mn] \<union> prop_set UNICODE_PROP_Other_Grapheme_Extend))
      else if i = UNICODE_PROP_Grapheme_Extend then
        Some (gcs [UNICODE_GC_Me, UNICODE_GC_Mn] \<union> prop_set UNICODE_PROP_Other_Grapheme_Extend)
      else if i = UNICODE_PROP_XID_Start then
        Some ((gcs letter_categories \<union> prop_set UNICODE_PROP_Other_ID_Start)
          \<inter> - (prop_set UNICODE_PROP_Pattern_Syntax \<union> prop_set UNICODE_PROP_Pattern_White_Space \<union> prop_set UNICODE_PROP_XID_Start1))
      else if i = UNICODE_PROP_XID_Continue then
        Some ((gcs (letter_categories @ [UNICODE_GC_Mn, UNICODE_GC_Mc, UNICODE_GC_Nd, UNICODE_GC_Pc])
            \<union> prop_set UNICODE_PROP_Other_ID_Start \<union> prop_set UNICODE_PROP_Other_ID_Continue)
          \<inter> - (prop_set UNICODE_PROP_Pattern_Syntax \<union> prop_set UNICODE_PROP_Pattern_White_Space \<union> prop_set UNICODE_PROP_XID_Continue1))
      else if i = UNICODE_PROP_Changes_When_Uppercased then Some {c. changes 0 c}
      else if i = UNICODE_PROP_Changes_When_Lowercased then Some {c. changes 1 c}
      else if i = UNICODE_PROP_Changes_When_Casemapped then Some {c. changes 0 c \<or> changes 1 c \<or> changes 2 c}
      else if i = UNICODE_PROP_Changes_When_Titlecased then
        Some {c. changes 0 c \<noteq> (c \<in> prop_set UNICODE_PROP_Changes_When_Titlecased1)}
      else if i = UNICODE_PROP_Changes_When_Casefolded then
        Some {c. changes 2 c \<noteq> (c \<in> prop_set UNICODE_PROP_Changes_When_Casefolded1)}
      else if i = UNICODE_PROP_Changes_When_NFKC_Casefolded then
        Some {c. changes 2 c \<noteq> (c \<in> prop_set UNICODE_PROP_Changes_When_NFKC_Casefolded1)}
      else if i = UNICODE_PROP_ID_Continue then
        Some {c. (c \<in> prop_set UNICODE_PROP_ID_Start) \<noteq> (c \<in> prop_set UNICODE_PROP_ID_Continue1)}
      else if i < length unicode_prop_table then Some (prop_set i) else None)"

lemma case_set_masks:
  "case_set CASE_U = {c. changes 0 c}" "case_set CASE_L = {c. changes 1 c}" "case_set CASE_F = {c. changes 2 c}"
  "case_set (CASE_U + CASE_L + CASE_F) = {c. changes 0 c \<or> changes 1 c \<or> changes 2 c}"
  by (auto simp: case_set_def bit_cases case_bit_def CASE_U_def CASE_L_def CASE_F_def)

lemma length_unicode_prop_table: "length unicode_prop_table = 50"
  by (simp add: unicode_prop_table_def)

lemmas gc_numbers =
  UNICODE_GC_Cn_def UNICODE_GC_Lu_def UNICODE_GC_Ll_def UNICODE_GC_Lt_def UNICODE_GC_Lm_def UNICODE_GC_Lo_def
  UNICODE_GC_Mn_def UNICODE_GC_Mc_def UNICODE_GC_Me_def UNICODE_GC_Nd_def UNICODE_GC_Nl_def UNICODE_GC_No_def
  UNICODE_GC_Sm_def UNICODE_GC_Sc_def UNICODE_GC_Sk_def UNICODE_GC_So_def UNICODE_GC_Pc_def UNICODE_GC_Pd_def
  UNICODE_GC_Ps_def UNICODE_GC_Pe_def UNICODE_GC_Pi_def UNICODE_GC_Pf_def UNICODE_GC_Po_def UNICODE_GC_Zs_def
  UNICODE_GC_Zl_def UNICODE_GC_Zp_def UNICODE_GC_Cc_def UNICODE_GC_Cf_def UNICODE_GC_Cs_def UNICODE_GC_Co_def
  UNICODE_GC_LC_def UNICODE_GC_L_def UNICODE_GC_M_def UNICODE_GC_N_def UNICODE_GC_S_def UNICODE_GC_P_def
  UNICODE_GC_Z_def UNICODE_GC_C_def

lemmas prop_numbers =
  UNICODE_PROP_Other_Math_def UNICODE_PROP_Other_Alphabetic_def UNICODE_PROP_Other_Lowercase_def
  UNICODE_PROP_Other_Uppercase_def UNICODE_PROP_Other_Grapheme_Extend_def UNICODE_PROP_Other_ID_Start_def
  UNICODE_PROP_Other_ID_Continue_def UNICODE_PROP_ID_Continue1_def UNICODE_PROP_XID_Start1_def
  UNICODE_PROP_XID_Continue1_def UNICODE_PROP_Changes_When_Titlecased1_def UNICODE_PROP_Changes_When_Casefolded1_def
  UNICODE_PROP_Changes_When_NFKC_Casefolded1_def UNICODE_PROP_ASCII_Hex_Digit_def UNICODE_PROP_Pattern_Syntax_def
  UNICODE_PROP_Pattern_White_Space_def UNICODE_PROP_ID_Start_def UNICODE_PROP_Case_Ignorable_def
  UNICODE_PROP_ASCII_def UNICODE_PROP_Alphabetic_def UNICODE_PROP_Any_def UNICODE_PROP_Assigned_def
  UNICODE_PROP_Cased_def UNICODE_PROP_Changes_When_Casefolded_def UNICODE_PROP_Changes_When_Casemapped_def
  UNICODE_PROP_Changes_When_Lowercased_def UNICODE_PROP_Changes_When_NFKC_Casefolded_def
  UNICODE_PROP_Changes_When_Titlecased_def UNICODE_PROP_Changes_When_Uppercased_def UNICODE_PROP_Grapheme_Base_def
  UNICODE_PROP_Grapheme_Extend_def UNICODE_PROP_ID_Continue_def UNICODE_PROP_Lowercase_def UNICODE_PROP_Math_def
  UNICODE_PROP_Uppercase_def UNICODE_PROP_XID_Continue_def UNICODE_PROP_XID_Start_def

lemma gc_set_masks:
  "gc_set (M g) = gcs [g]"
  "gc_set (M UNICODE_GC_Lu + M UNICODE_GC_Ll + M UNICODE_GC_Lt) = gcs [UNICODE_GC_Lu, UNICODE_GC_Ll, UNICODE_GC_Lt]"
  "gc_set letters = gcs letter_categories"
  "gc_set (M UNICODE_GC_Cc + M UNICODE_GC_Cf + M UNICODE_GC_Cs + M UNICODE_GC_Co + M UNICODE_GC_Cn
      + M UNICODE_GC_Zl + M UNICODE_GC_Zp + M UNICODE_GC_Me + M UNICODE_GC_Mn)
    = gcs [UNICODE_GC_Cc, UNICODE_GC_Cf, UNICODE_GC_Cs, UNICODE_GC_Co, UNICODE_GC_Cn, UNICODE_GC_Zl,
           UNICODE_GC_Zp, UNICODE_GC_Me, UNICODE_GC_Mn]"
  "gc_set (M UNICODE_GC_Me + M UNICODE_GC_Mn) = gcs [UNICODE_GC_Me, UNICODE_GC_Mn]"
  "gc_set (letters + M UNICODE_GC_Mn + M UNICODE_GC_Mc + M UNICODE_GC_Nd + M UNICODE_GC_Pc)
    = gcs (letter_categories @ [UNICODE_GC_Mn, UNICODE_GC_Mc, UNICODE_GC_Nd, UNICODE_GC_Pc])"
  unfolding letters_def letter_categories_def
  by (subst gc_set_sum [symmetric]; simp add: gc_numbers add.assoc)+

text \<open>Every program leaves exactly the set of its property on the abstract stack.\<close>

lemma prop_program_meaning:
  assumes "prop_program i = Some ops"
  shows "\<exists>S. property_set i = Some S \<and> set_machine ops [] = Some [S]"
  using assms unfolding prop_program_def
  by (auto simp: property_set_def POP_STACK_LEN_MAX_def length_unicode_prop_table gc_set_masks case_set_masks prop_numbers
      split: if_splits)

lemma property_set_total: "i < 53 \<Longrightarrow> property_set (i + UNICODE_PROP_ASCII_Hex_Digit) \<noteq> None"
  unfolding property_set_def length_unicode_prop_table by (simp add: prop_numbers) arith

text \<open>The categories of the names that stand for a group.\<close>

definition category_group :: "nat \<Rightarrow> nat list" where
  "category_group i =
     (if i \<le> UNICODE_GC_Co then [i]
      else [[UNICODE_GC_Lu, UNICODE_GC_Ll, UNICODE_GC_Lt],
            [UNICODE_GC_Lu, UNICODE_GC_Ll, UNICODE_GC_Lt, UNICODE_GC_Lm, UNICODE_GC_Lo],
            [UNICODE_GC_Mn, UNICODE_GC_Mc, UNICODE_GC_Me],
            [UNICODE_GC_Nd, UNICODE_GC_Nl, UNICODE_GC_No],
            [UNICODE_GC_Sm, UNICODE_GC_Sc, UNICODE_GC_Sk, UNICODE_GC_So],
            [UNICODE_GC_Pc, UNICODE_GC_Pd, UNICODE_GC_Ps, UNICODE_GC_Pe, UNICODE_GC_Pi, UNICODE_GC_Pf, UNICODE_GC_Po],
            [UNICODE_GC_Zs, UNICODE_GC_Zl, UNICODE_GC_Zp],
            [UNICODE_GC_Cc, UNICODE_GC_Cf, UNICODE_GC_Cs, UNICODE_GC_Co, UNICODE_GC_Cn]] ! (i - UNICODE_GC_LC))"

lemma category_group_mask:
  assumes "i < 38" "\<not> i \<le> UNICODE_GC_Co"
  shows "rd unicode_gc_mask_table (i - UNICODE_GC_LC) = Some (sum_list (map M (category_group i)))"
    and "distinct (category_group i)"
proof -
  have "i = 30 \<or> i = 31 \<or> i = 32 \<or> i = 33 \<or> i = 34 \<or> i = 35 \<or> i = 36 \<or> i = 37"
    using assms by (simp add: gc_numbers) arith
  then show "rd unicode_gc_mask_table (i - UNICODE_GC_LC) = Some (sum_list (map M (category_group i)))"
    by (elim disjE) (simp_all add: rd_def unicode_gc_mask_table_def category_group_def UNICODE_GC_LC_def UNICODE_GC_Co_def add.assoc)
  from \<open>i = 30 \<or> _\<close> show "distinct (category_group i)"
    by (elim disjE) (simp_all add: category_group_def gc_numbers)
qed

lemma names_length: "length unicode_prop_name_table_entries = 53" "length unicode_gc_name_table_entries = 38"
  by (simp_all add: unicode_prop_name_table_entries_def unicode_gc_name_table_entries_def)

lemma interval_denotes: "n < 2 ^ 32 \<Longrightarrow> 0 < n \<Longrightarrow> cr_denotes (flat [(0, n)]) {..<n}"
  using flat_denotes [of 0 n "[(0, n)]"] by (simp add: lessThan_def)

context cr_alloc
begin

lemma add_interval_produces:
  assumes "cr_ok cr" "cr_pts cr = []" "0 < n" "n < 2 ^ 32"
  shows "produces {..<n} (add_intervals ra h cr [(0, n)])"
  using cr_yields_produces [OF add_intervals_yields [OF assms(1), of "[(0, n)]" h]] interval_denotes [OF assms(4,3)] assms(2) by simp

lemma prop_switch_produces:
  assumes "cr_ok cr" "cr_pts cr = []" "property_set i = Some S"
  shows "produces S (unicode_prop_switch ra h cr i)"
proof (cases "prop_program i")
  case (Some ops)
  have "i \<notin> {UNICODE_PROP_ASCII, UNICODE_PROP_Any, UNICODE_PROP_Changes_When_Uppercased,
      UNICODE_PROP_Changes_When_Lowercased, UNICODE_PROP_Changes_When_Casemapped}"
    using Some by (auto simp: prop_program_def prop_numbers split: if_splits)
  then have "unicode_prop_switch ra h cr i = unicode_prop_ops ra h cr ops" using Some by (simp add: unicode_prop_switch_def)
  then show ?thesis using prop_program_meaning [OF Some] assms prop_ops_produces by auto
next
  case None
  consider "i = UNICODE_PROP_ASCII" | "i = UNICODE_PROP_Any"
    | "i \<in> {UNICODE_PROP_Changes_When_Uppercased, UNICODE_PROP_Changes_When_Lowercased, UNICODE_PROP_Changes_When_Casemapped}"
    | "i \<notin> {UNICODE_PROP_ASCII, UNICODE_PROP_Any, UNICODE_PROP_Changes_When_Uppercased,
        UNICODE_PROP_Changes_When_Lowercased, UNICODE_PROP_Changes_When_Casemapped}"
    by blast
  then show ?thesis
  proof cases
    case 1
    then have "S = {..<0x80}" using assms(3) by (simp add: property_set_def)
    then show ?thesis using 1 add_interval_produces [OF assms(1,2), of "0x80"] by (simp add: unicode_prop_switch_def)
  next
    case 2
    then have "S = {..<0x110000}" using assms(3) by (simp add: property_set_def prop_numbers)
    then show ?thesis using 2 add_interval_produces [OF assms(1,2), of "0x110000"]
      by (simp add: unicode_prop_switch_def prop_numbers)
  next
    case 3
    note c = case1_produces [OF assms(1,2), of CASE_U h] case1_produces [OF assms(1,2), of CASE_L h]
      case1_produces [OF assms(1,2), of "CASE_U + CASE_L + CASE_F" h]
    show ?thesis using 3 c [unfolded case_set_masks] assms(3)
      by (auto simp: unicode_prop_switch_def property_set_def prop_numbers)
  next
    case 4
    have "i < length unicode_prop_table \<and> S = prop_set i"
      using None 4 assms(3) by (simp add: property_set_def prop_program_def split: if_splits)
    then show ?thesis using None 4 prop1_produces [OF _ assms(1,2)] by (simp add: unicode_prop_switch_def)
  qed
qed

end

section \<open>Properties and categories by name\<close>





section \<open>Ranges and indexed lookups\<close>

lemma runs_set_indexed:
  assumes "table_ok t index"
  shows "lre_is_in_table c t index (length index div 3) = Some (c \<in> runs_set t)"
proof -
  obtain pts where pts: "run_points t 0 = Some pts" using table_ok_points [OF assms] by blast
  note s = run_points_props [OF pts]
  have "ivs_mem (pair_up pts) c \<longleftrightarrow> c < last (0 # pts) \<and> odd (upto_count pts c)"
  proof (cases "c < last (0 # pts)")
    case True
    then show ?thesis using pair_up_mem [of pts c] s by simp
  next
    case False
    have "\<forall>e \<in> set pts. e \<le> last (0 # pts)"
      using s by (auto simp: in_set_conv_nth last_conv_nth intro!: sorted_nth_mono strict_sorted_imp_sorted)
    then have "ivs_in 0 (last (0 # pts)) (pair_up pts)" using s by (intro pair_up_in) auto
    then show ?thesis using ivs_mem_in False by blast
  qed
  then show ?thesis using lre_is_in_table_eq [OF assms pts] table_ok_end [OF assms pts] pts by (simp add: runs_set_def)
qed


end
