(* ===== verification/Unicode_Script.thy ===== *)
theory Unicode_Script
  imports Unicode_Machine
begin

text \<open>
  Scripts: the set of a script with and without its extensions, the outcome of \<open>unicode_script\<close> over any
  allocator, and that it returns when no allocation is refused.
\<close>

section \<open>Scripts of code points\<close>

definition script_runs :: "(nat \<times> nat) list" where
  "script_runs = the (script.decode unicode_script_table)"

definition script_ext_runs :: "(nat \<times> nat list) list" where
  "script_ext_runs = the (script_ext.decode unicode_script_ext_table)"

definition script_of :: "nat \<Rightarrow> nat option" where
  "script_of c = map_option fst (run_value 0 script_runs c)"

definition script_extensions :: "nat \<Rightarrow> nat list" where
  "script_extensions c = (case run_value 0 script_ext_runs c of None \<Rightarrow> [] | Some (vs, _) \<Rightarrow> vs)"

lemma script_runs_eq: "script.decode unicode_script_table = Some script_runs" "sum_list (map fst script_runs) = 918000"
  using script.total_decode [OF unicode_script_table_total] by (auto simp: script_runs_def)

lemma script_ext_runs_eq:
  "script_ext.decode unicode_script_ext_table = Some script_ext_runs" "sum_list (map fst script_ext_runs) = 1114112"
  using script_ext.total_decode [OF unicode_script_ext_table_total] by (auto simp: script_ext_runs_def)

text \<open>
  The code points of a script. With extensions the two scripts \<open>Common\<close> and \<open>Inherited\<close> lose the code points
  that are listed for other scripts, every other script gains those listed for it.
\<close>

definition script_set :: "bool \<Rightarrow> nat \<Rightarrow> nat set" where
  "script_set is_ext i =
     (let base = {c. script_of c = Some i} in
      if \<not> is_ext then base
      else if i = UNICODE_SCRIPT_Common \<or> i = UNICODE_SCRIPT_Inherited then base \<inter> - {c. script_extensions c \<noteq> []}
      else base \<union> {c. i \<in> set (script_extensions c)})"

text \<open>The intervals of the runs that satisfy a condition.\<close>

definition hit_intervals :: "('v \<Rightarrow> bool) \<Rightarrow> 'v \<Rightarrow> nat \<Rightarrow> nat \<Rightarrow> (nat \<times> nat) list" where
  "hit_intervals P v a b = (if P v then [(a, b)] else [])"

lemma hit_runs_denotes:
  assumes "\<forall>(l, v) \<in> set rs. 0 < l" "sum_list (map fst rs) < 2 ^ 32"
  shows "cr_denotes (flat (ivs_of (hit_intervals P) 0 rs)) {c. \<exists>v a b. run_value 0 rs c = Some (v, a, b) \<and> P v}"
proof -
  have ok: "ivs_fun_ok (hit_intervals P)" by (auto simp: ivs_fun_ok_def hit_intervals_def)
  have "{c. ivs_mem (ivs_of (hit_intervals P) 0 rs) c} = {c. \<exists>v a b. run_value 0 rs c = Some (v, a, b) \<and> P v}"
  proof (intro Collect_cong)
    fix c
    have "ivs_mem (hit_intervals P v a b) c \<longleftrightarrow> P v" if "run_value 0 rs c = Some (v, a, b)" for v a b
      using run_value_bounds [OF that] by (simp add: hit_intervals_def)
    then show "ivs_mem (ivs_of (hit_intervals P) 0 rs) c \<longleftrightarrow> (\<exists>v a b. run_value 0 rs c = Some (v, a, b) \<and> P v)"
      unfolding ivs_of_mem [OF ok assms(1) le0] by blast
  qed
  then show ?thesis using flat_denotes [OF ivs_of_in [OF ok assms(1), of 0]] assms(2) by simp
qed

lemma script_denotes: "cr_denotes (flat (ivs_of (hit_intervals (\<lambda>v. v = i)) 0 script_runs)) {c. script_of c = Some i}"
  using hit_runs_denotes [of script_runs "\<lambda>v. v = i"] script.decode_pos [OF script_runs_eq(1)] script_runs_eq(2)
  by (auto simp: script_of_def)

lemma script_ext_denotes:
  assumes "\<not> P []"
  shows "cr_denotes (flat (ivs_of (hit_intervals P) 0 script_ext_runs)) {c. P (script_extensions c)}"
proof -
  have "{c. \<exists>v a b. run_value 0 script_ext_runs c = Some (v, a, b) \<and> P v} = {c. P (script_extensions c)}"
    using assms by (auto simp: script_extensions_def split: option.splits)
  moreover have "\<forall>(l, v) \<in> set script_ext_runs. 0 < l" using script_ext.decode_pos [OF script_ext_runs_eq(1)] by auto
  ultimately show ?thesis using hit_runs_denotes [of script_ext_runs P] script_ext_runs_eq(2) by simp
qed

lemma script_ext_loop_eq:
  "script_ext_loop ra h cr b i p c =
     (if p = [] then Some (0, h, cr)
      else case script_ext_entry p of
        None \<Rightarrow> None
      | Some (n, v, p') \<Rightarrow>
          let c1 = add32 c (n + 1) in
          case add_intervals ra h cr (hit_intervals (\<lambda>vs. if b then vs \<noteq> [] else i \<in> set vs) v c c1) of
            None \<Rightarrow> None
          | Some (r, h', cr') \<Rightarrow> if r \<noteq> 0 then Some (-1, h', cr') else script_ext_loop ra h' cr' b i p' c1)"
  by (subst script_ext_loop.simps) (simp add: hit_intervals_def Let_def cong: option.case_cong)

sublocale cr_alloc \<subseteq> script_add: run_adder script_entry ra
  by unfold_locales

sublocale cr_alloc \<subseteq> script_ext_add: run_adder script_ext_entry ra
  by unfold_locales

context cr_alloc
begin

lemma script_loop_produces:
  assumes "cr_ok cr" "cr_pts cr = []"
  shows "produces {c. script_of c = Some i} (script_loop ra h cr i unicode_script_table 0)"
proof -
  have "cr_yields (cr_pts cr @ flat (ivs_of (hit_intervals (\<lambda>v. v = i)) 0 script_runs)) (script_loop ra h cr i unicode_script_table 0)"
    by (rule script_add.loop_yields [OF _ script_runs_eq(1)])
      (subst script_loop.simps, simp_all add: script_runs_eq(2) assms hit_intervals_def cong: option.case_cong)
  then show ?thesis using cr_yields_produces [OF _ script_denotes] assms(2) by simp
qed

lemma script_ext_loop_produces:
  assumes "cr_ok cr" "cr_pts cr = []"
  shows "produces {c. if is_common then script_extensions c \<noteq> [] else i \<in> set (script_extensions c)}
    (script_ext_loop ra h cr is_common i unicode_script_ext_table 0)"
proof -
  let ?P = "\<lambda>vs. if is_common then vs \<noteq> [] else i \<in> set vs"
  have "cr_yields (cr_pts cr @ flat (ivs_of (hit_intervals ?P) 0 script_ext_runs)) (script_ext_loop ra h cr is_common i unicode_script_ext_table 0)"
    by (rule script_ext_add.loop_yields [OF script_ext_loop_eq script_ext_runs_eq(1)]) (simp_all add: script_ext_runs_eq(2) assms)
  then show ?thesis unfolding assms(2) append_Nil by (rule cr_yields_produces) (rule script_ext_denotes, simp)
qed

end

section \<open>Allocators that do not refuse\<close>

definition granted :: "('h \<Rightarrow> bool) \<Rightarrow> 'h cr_result \<Rightarrow> bool" where
  "granted good res \<longleftrightarrow> (case res of None \<Rightarrow> True | Some (r, h, cr) \<Rightarrow> r = 0 \<and> good h)"

lemma granted_simps [simp]: "granted good None" "granted good (Some (r, h, cr)) \<longleftrightarrow> r = 0 \<and> good h"
  by (simp_all add: granted_def)

lemma granted_bind: "(\<And>x. granted good (f x)) \<Longrightarrow> granted good (Option.bind m f)"
  by (cases m) simp_all

lemma granted_then:
  assumes "granted good res" "\<And>h cr. good h \<Longrightarrow> granted good (k h cr)"
  shows "granted good (case res of None \<Rightarrow> None | Some (r, h, cr) \<Rightarrow> if r \<noteq> 0 then Some (-1, h, cr) else k h cr)"
proof (cases res)
  case (Some x)
  obtain r h cr where "x = (r, h, cr)" by (cases x)
  then show ?thesis using Some assms by simp
qed simp

locale cr_grant = cr_alloc ra
  for ra :: "'h \<Rightarrow> u32 block option \<Rightarrow> nat \<Rightarrow> u32 block option \<times> 'h" +
  fixes good :: "'h \<Rightarrow> bool"
  assumes grants: "good h \<Longrightarrow> 0 < n \<Longrightarrow> \<exists>b h'. ra h ptr n = (Some b, h') \<and> good h'"
    and frees: "good h \<Longrightarrow> good (snd (ra h ptr 0))"
begin

lemma cr_realloc_grants:
  assumes "good h"
  obtains h' cr' where "cr_realloc ra h cr n = (0, h', cr')" "good h'"
proof (cases "n > cr_size cr")
  case True
  then have "0 < max n (cr_size cr * 3 div 2)" by simp
  then obtain b h1 where "ra h (cr_points cr) (max n (cr_size cr * 3 div 2)) = (Some b, h1)" "good h1"
    using grants [OF assms] by blast
  then show ?thesis using True that by (simp add: cr_realloc_def Let_def)
qed (use assms that in \<open>simp add: cr_realloc_def\<close>)

lemma grow_grants:
  assumes "good h"
  obtains h' cr' where "(if P then cr_realloc ra h cr n else (0, h, cr)) = (0, h', cr')" "good h'"
  using assms cr_realloc_grants [OF assms, of cr n] that by (cases P) auto

lemma cr_add_interval_grants:
  assumes "good h"
  shows "granted good (cr_add_interval ra h cr c1 c2)"
proof -
  obtain h' cr' where g: "(if cr_len cr + 2 > cr_size cr then cr_realloc ra h cr (cr_len cr + 2) else (0, h, cr)) = (0, h', cr')" "good h'"
    using grow_grants [OF assms] .
  show ?thesis unfolding cr_add_interval_def g(1) prod.case by (simp add: g(2) granted_bind)
qed

lemma cr_add_point_grants:
  assumes "good h"
  shows "granted good (cr_add_point ra h cr v)"
proof -
  obtain h' cr' where g: "(if cr_len cr \<ge> cr_size cr then cr_realloc ra h cr (cr_len cr + 1) else (0, h, cr)) = (0, h', cr')" "good h'"
    using grow_grants [OF assms] .
  show ?thesis unfolding cr_add_point_def g(1) prod.case by (simp add: g(2) granted_bind)
qed

lemma cr_invert_grants:
  assumes "good h"
  shows "granted good (cr_invert ra h cr)"
proof -
  obtain h' cr' where g: "cr_realloc ra h cr (cr_len cr + 2) = (0, h', cr')" "good h'" using cr_realloc_grants [OF assms] .
  show ?thesis unfolding cr_invert_def Let_def g(1) prod.case by (simp add: g(2) granted_bind)
qed

lemma add_intervals_grants: "good h \<Longrightarrow> granted good (add_intervals ra h cr ivs)"
proof (induction ivs arbitrary: h cr)
  case (Cons i ivs)
  obtain a b where "i = (a, b)" by force
  then show ?case using Cons cr_add_interval_grants [OF Cons.prems, of cr "word_of_nat a" "word_of_nat b"]
    by (auto split: option.splits)
qed simp

lemma cr_op_loop_grants: "good h \<Longrightarrow> granted good (cr_op_loop ra h cr a b op i j)"
proof (induction "(length a - i) + (length b - j)" arbitrary: h cr i j rule: less_induct)
  case less
  show ?case
  proof (cases "cr_op_next a b i j")
    case None
    then show ?thesis using less.prems by (simp add: cr_op_loop.simps [of _ _ _ _ _ _ i])
  next
    case (Some n)
    obtain v i' j' where n: "n = (v, i', j')" by (cases n)
    have dec: "(length a - i') + (length b - j') < (length a - i) + (length b - j)"
      using Some n by (auto elim!: cr_op_next_cases)
    show ?thesis using cr_add_point_grants [OF less.prems, of cr v] less.hyps [OF dec] less.prems
      by (subst cr_op_loop.simps) (auto simp: Some n split: option.splits)
  qed
qed

lemma cr_op_grants: "good h \<Longrightarrow> granted good (cr_op ra h cr a b op)"
  using cr_op_loop_grants [of h cr a b op 0 0] by (auto simp: cr_op_def split: option.splits)

lemma loop_grants:
  assumes eq: "\<And>h cr p c. loop h cr p c =
      (if p = [] then Some (0, h, cr)
       else case entry p of
         None \<Rightarrow> None
       | Some (n, v, p') \<Rightarrow>
           let c1 = add32 c (n + 1) in
           case add_intervals ra h cr (F v c c1) of
             None \<Rightarrow> None
           | Some (r, h', cr') \<Rightarrow> if r \<noteq> 0 then Some (-1, h', cr') else loop h' cr' p' c1)"
    and shorter: "\<And>p n v p'. entry p = Some (n, v, p') \<Longrightarrow> length p' < length p"
  shows "good h \<Longrightarrow> granted good (loop h cr p c)"
proof (induction "length p" arbitrary: h cr p c rule: less_induct)
  case less
  consider "p = []" | "p \<noteq> []" "entry p = None" | n v p' where "p \<noteq> []" "entry p = Some (n, v, p')" by (metis option.exhaust prod_cases3)
  then show ?case
  proof cases
    case (3 n v p')
    let ?c = "add32 c (n + 1)"
    have "loop h cr p c = (case add_intervals ra h cr (F v c ?c) of
        None \<Rightarrow> None | Some (r, h', cr') \<Rightarrow> if r \<noteq> 0 then Some (-1, h', cr') else loop h' cr' p' ?c)"
      using 3 by (subst eq) (simp only: 3(2) Let_def if_False option.case prod.case)
    moreover have "granted good (loop h' cr' p' ?c)" if "good h'" for h' cr' using less.hyps [OF shorter [OF 3(2)] that] .
    ultimately show ?thesis using granted_then [OF add_intervals_grants [OF less.prems], where k = "\<lambda>h cr. loop h cr p' ?c"] by simp
  qed (subst eq, use less.prems in simp)+
qed

lemma script_loop_grants: "good h \<Longrightarrow> granted good (script_loop ra h cr i p c)"
  by (rule loop_grants [of "\<lambda>h cr. script_loop ra h cr i", OF script_loop.simps script_entry_shorter])

lemma script_ext_loop_grants: "good h \<Longrightarrow> granted good (script_ext_loop ra h cr b i p c)"
  by (rule loop_grants [of "\<lambda>h cr. script_ext_loop ra h cr b i", OF script_ext_loop_eq script_ext_entry_shorter])

lemma frees_grants: "good h \<Longrightarrow> good (cr_free ra h cr)"
  by (simp add: cr_free_def frees)

end

definition never_refuses :: "'a libc \<Rightarrow> bool" where
  "never_refuses lc \<longleftrightarrow> (\<forall>i. lc i \<noteq> Refuse)"

interpretation libc_grant: cr_grant "default_realloc 4" never_refuses
proof
  fix lc :: "u32 libc" and ptr :: "u32 block option" and n :: nat
  assume g: "never_refuses lc"
  then obtain slack f where "lc 0 = Grant slack f" by (metis answer.exhaust never_refuses_def)
  moreover have "never_refuses (lc \<circ> Suc)" using g by (simp add: never_refuses_def)
  ultimately show "0 < n \<Longrightarrow> \<exists>b h'. default_realloc 4 lc ptr n = (Some b, h') \<and> never_refuses h'"
    and "never_refuses (snd (default_realloc 4 lc ptr 0))"
    using g by (auto simp: default_realloc_def libc_malloc_def libc_realloc_def split: option.split)
qed

interpretation js_any: cr_grant "js_realloc_rt 4" "\<lambda>_. False"
  by unfold_locales simp_all

section \<open>The outcome of unicode\_script\<close>

lemma script_names_find: "unicode_find_name unicode_script_name_table name =
    Some (case name_index unicode_script_name_table_entries name of None \<Rightarrow> -1 | Some i \<Rightarrow> int i)"
  by (rule find_name_tables(3))

text \<open>
  The outcome of a call that goes on after 0 and into the endless loop after -1: it goes on when allocations
  are granted, and then with the right range.
\<close>

definition goes_on :: "('h \<Rightarrow> bool) \<Rightarrow> 'h \<Rightarrow> nat set \<Rightarrow> ('h \<times> CharRange) option \<Rightarrow> bool" where
  "goes_on good h S res \<longleftrightarrow>
     (case res of None \<Rightarrow> \<not> good h
      | Some (h', cr) \<Rightarrow> (good h \<longrightarrow> good h') \<and> cr_ok cr \<and> cr_denotes (cr_pts cr) S)"

lemma produces_goes_on:
  assumes "produces S res" "good h \<Longrightarrow> granted good res"
  shows "goes_on good h S (returns_ok res)"
proof -
  obtain r h' cr where "res = Some (r, h', cr)" "cr_ok cr" "r = 0 \<and> cr_denotes (cr_pts cr) S \<or> r = -1"
    using producesE [OF assms(1)] .
  then show ?thesis using assms(2) by (auto simp: goes_on_def returns_ok_def)
qed

definition finishes :: "('h \<Rightarrow> bool) \<Rightarrow> 'h \<Rightarrow> nat set \<Rightarrow> 'h cr_result \<Rightarrow> bool" where
  "finishes good h S res \<longleftrightarrow>
     (case res of None \<Rightarrow> \<not> good h | Some (r, h', cr) \<Rightarrow> r = 0 \<and> cr_ok cr \<and> cr_denotes (cr_pts cr) S)"

lemma goes_on_bind:
  assumes "goes_on good h A res" "\<And>h' cr. cr_ok cr \<Longrightarrow> cr_denotes (cr_pts cr) A \<Longrightarrow> finishes good h' S (k (h', cr))"
  shows "finishes good h S (Option.bind res k)"
proof (cases res)
  case None
  then show ?thesis using assms(1) by (simp add: goes_on_def finishes_def)
next
  case (Some x)
  obtain h' cr where x: "x = (h', cr)" by (cases x)
  then have "good h \<longrightarrow> good h'" "finishes good h' S (k (h', cr))" using assms Some by (auto simp: goes_on_def)
  then show ?thesis using Some x by (auto simp: finishes_def split: option.splits)
qed

context cr_grant
begin

lemma script_loop_goes_on:
  "cr_ok cr \<Longrightarrow> cr_pts cr = [] \<Longrightarrow> goes_on good h {c. script_of c = Some i} (returns_ok (script_loop ra h cr i unicode_script_table 0))"
  by (rule produces_goes_on [OF script_loop_produces]) (simp_all add: script_loop_grants)

lemma script_ext_loop_goes_on:
  "goes_on good h {c. if is_common then script_extensions c \<noteq> [] else i \<in> set (script_extensions c)}
     (returns_ok (script_ext_loop ra h cr_init is_common i unicode_script_ext_table 0))"
  by (rule produces_goes_on [OF script_ext_loop_produces]) (simp_all add: script_ext_loop_grants)

lemma cr_invert_goes_on:
  assumes "cr_ok cr" "cr_denotes (cr_pts cr) A"
  shows "goes_on good h (- A) (returns_ok (cr_invert ra h cr))"
proof (rule produces_goes_on)
  show "produces (- A) (cr_invert ra h cr)"
    using cr_yields_produces [OF cr_invert_eq cr_invert_denotes [OF assms(2)]] assms by (simp add: cr_denotes_def)
qed (rule cr_invert_grants)

lemma cr_op_goes_on:
  assumes "cr_ok cr" "cr_pts cr = []" "cr_denotes a A" "cr_denotes b B"
  shows "goes_on good h {c. cr_op_in op (c \<in> A) (c \<in> B)} (returns_ok (cr_op ra h cr a b op))"
proof (rule produces_goes_on)
  show "produces {c. cr_op_in op (c \<in> A) (c \<in> B)} (cr_op ra h cr a b op)"
    using cr_yields_produces [OF cr_op_eq cr_op_denotes [OF assms(3,4)]] assms by (simp add: cr_denotes_def)
qed (rule cr_op_grants)

lemma unicode_script_finishes:
  assumes "cr_ok cr" "cr_pts cr = []" "name_index unicode_script_name_table_entries name = Some i"
  shows "finishes good h (script_set is_ext (i + 1)) (unicode_script ra h cr name is_ext)"
proof (cases is_ext)
  case False
  have u: "unicode_script ra h cr name False = do {
      (h, cr) \<leftarrow> returns_ok (script_loop ra h cr (i + 1) unicode_script_table 0);
      Some (0, h, cr)
    }"
    using assms(3) by (simp add: unicode_script_def script_names_find UNICODE_SCRIPT_Unknown_def Let_def)
  show ?thesis unfolding False[THEN eq_False[THEN iffD2]] u
    by (rule goes_on_bind [OF script_loop_goes_on [OF assms(1,2)]]) (simp add: finishes_def script_set_def)
next
  case True
  let ?com = "i + 1 = UNICODE_SCRIPT_Common \<or> i + 1 = UNICODE_SCRIPT_Inherited"
  have u: "unicode_script ra h cr name True = do {
      (h, cr1) \<leftarrow> returns_ok (script_loop ra h cr_init (i + 1) unicode_script_table 0);
      (h, cr2) \<leftarrow> returns_ok (script_ext_loop ra h cr_init ?com (i + 1) unicode_script_ext_table 0);
      (h, cr2) \<leftarrow> (if ?com then returns_ok (cr_invert ra h cr2) else Some (h, cr2));
      (h, cr) \<leftarrow> returns_ok (cr_op ra h cr (cr_pts cr1) (cr_pts cr2) (if ?com then CR_OP_INTER else CR_OP_UNION));
      Some (0, cr_free ra (cr_free ra h cr1) cr2, cr)
    }"
    using assms(3) by (simp add: unicode_script_def script_names_find UNICODE_SCRIPT_Unknown_def Let_def)
  have set_eq: "script_set True (i + 1) =
      {c. cr_op_in (if ?com then CR_OP_INTER else CR_OP_UNION) (c \<in> {c. script_of c = Some (i + 1)})
        (c \<in> (if ?com then - {c. script_extensions c \<noteq> []} else {c. i + 1 \<in> set (script_extensions c)}))}"
    by (auto simp: script_set_def Let_def)
  have inv: "goes_on good h (if ?com then - {c. script_extensions c \<noteq> []} else {c. i + 1 \<in> set (script_extensions c)})
      (if ?com then returns_ok (cr_invert ra h cr2) else Some (h, cr2))"
    if "cr_ok cr2" "cr_denotes (cr_pts cr2) {c. if ?com then script_extensions c \<noteq> [] else i + 1 \<in> set (script_extensions c)}" for h cr2
    using that cr_invert_goes_on [of cr2 "{c. script_extensions c \<noteq> []}" h] by (auto simp: goes_on_def)
  show ?thesis unfolding True[THEN eq_True[THEN iffD2]] u set_eq
    by (rule goes_on_bind [OF script_loop_goes_on [OF cr_ok_init]], unfold prod.case,
        rule goes_on_bind [OF script_ext_loop_goes_on], unfold prod.case,
        rule goes_on_bind [OF inv], assumption+, unfold prod.case,
        rule goes_on_bind [OF cr_op_goes_on [OF assms(1,2)]], assumption+)
      (simp add: finishes_def)
qed

end

section \<open>Properties\<close>

text \<open>
  C22. \<open>unicode_script\<close> returns: for every script name, canonical or alias, with or without extensions, and a
  C library that refuses no allocation, it ends with 0 and a well-formed range of exactly the code points of
  the script.
\<close>

theorem unicode_script_returns:
  assumes "never_refuses lc" "cr_ok cr" "cr_pts cr = []" "name_index unicode_script_name_table_entries name = Some i"
  shows "\<exists>lc' cr'. unicode_script (default_realloc 4) lc cr name is_ext = Some (0, lc', cr')
    \<and> cr_ok cr' \<and> cr_denotes (cr_pts cr') (script_set is_ext (i + 1))"
  using libc_grant.unicode_script_finishes [OF assms(2-4), of lc is_ext] assms(1)
  by (auto simp: finishes_def split: option.splits)

theorem unicode_script_returns_witness:
  "\<exists>lc' cr'. unicode_script (default_realloc 4) (\<lambda>_. Grant 0 (\<lambda>_. 7)) cr_init ''Adlm'' True = Some (0, lc', cr')
    \<and> cr_ok cr' \<and> cr_denotes (cr_pts cr') (script_set True 1)"
proof -
  have "name_index unicode_script_name_table_entries ''Adlm'' = Some 0"
    by (simp add: unicode_script_name_table_entries_def)
  from unicode_script_returns [OF _ cr_ok_init this, of "\<lambda>_. Grant 0 (\<lambda>_. 7)" True] show ?thesis
    by (simp add: never_refuses_def)
qed



end
