(* ===== verification/QJS_Date.thy ===== *)
theory QJS_Date
  imports Prelude "HOL-Library.Signed_Division"
begin

text \<open>
  Date arithmetic of \<open>quickjs.c\<close>: days and years of the proleptic Gregorian calendar, the fields of a time
  value and back, and the getters and setters of \<open>Date.prototype\<close>.

  A C \<open>int64_t\<close> is an \<open>int\<close>; that no operation overflows for a time value in the range of \<open>time_clip\<close> is a
  theorem. A setter or constructor given a field so large that the sum leaves 64 bits has no defined result in
  C; the model has the exact sum there. C's \<open>/\<close> and \<open>%\<close> round towards zero: \<open>sdiv\<close> and \<open>smod\<close>. A time value is a double that is NaN or,
  after \<open>time_clip\<close>, an integer of at most 53 bits: \<open>None\<close> or \<open>Some t\<close>. The offset that the C library's
  \<open>localtime_r\<close> reports for a time in seconds is the parameter \<open>gmtoff\<close>.
\<close>

section \<open>Model\<close>

definition math_mod :: "int \<Rightarrow> int \<Rightarrow> int" where
  "math_mod a b = (let m = a smod b in m + (if m < 0 then 1 else 0) * b)"

definition floor_div :: "int \<Rightarrow> int \<Rightarrow> int" where
  "floor_div a b = (let m = a smod b in (a - (m + (if m < 0 then 1 else 0) * b)) sdiv b)"

definition days_from_year :: "int \<Rightarrow> int" where
  "days_from_year y =
     365 * (y - 1970) + floor_div (y - 1969) 4 - floor_div (y - 1901) 100 + floor_div (y - 1601) 400"

definition c_not :: "int \<Rightarrow> int" where
  "c_not v = (if v = 0 then 1 else 0)"

definition days_in_year :: "int \<Rightarrow> int" where
  "days_in_year y = 365 + c_not (y smod 4) - c_not (y smod 100) + c_not (y smod 400)"

subsection \<open>Calendar lemmas that the loop needs\<close>

lemma mod_bounds: "0 < b \<Longrightarrow> \<not> a mod b < 0 \<and> a mod b \<noteq> b \<and> b \<noteq> a mod (b :: int)"
  using pos_mod_bound [of b a] pos_mod_sign [of b a] by linarith

lemma smod_pos: "0 < b \<Longrightarrow> (if a smod b < 0 then a smod b + b else a smod b) = a mod (b :: int)"
proof -
  assume b: "0 < b"
  show ?thesis
  proof (cases "0 \<le> a")
    case True
    then show ?thesis using b mod_bounds [OF b, of a] by (auto simp: signed_modulo_int_def sgn_if)
  next
    case False
    then have "a smod b = - ((- a) mod b)" using b by (simp add: signed_modulo_int_def)
    then show ?thesis using b pos_mod_bound [OF b, of "- a"] pos_mod_sign [OF b, of "- a"] mod_bounds [OF b, of a]
      by (auto simp: zmod_zminus1_eq_if split: if_splits)
  qed
qed

lemma math_mod_eq: "0 < b \<Longrightarrow> math_mod a b = a mod b"
  using smod_pos [of b a] by (auto simp: math_mod_def Let_def split: if_splits)

lemma sdiv_exact: "0 < b \<Longrightarrow> (b * q) sdiv b = (q :: int)"
  by (auto simp: signed_divide_int_def abs_mult sgn_mult) (metis mult.commute abs_mult_sgn)

lemma floor_div_eq: "0 < b \<Longrightarrow> floor_div a b = a div b"
proof -
  assume b: "0 < b"
  have "a smod b + (if a smod b < 0 then 1 else 0) * b = a mod b" using smod_pos [OF b, of a] by (auto split: if_splits)
  then show ?thesis using sdiv_exact [OF b] by (simp add: floor_div_def Let_def minus_mod_eq_mult_div)
qed

lemma smod_0_iff: "0 < b \<Longrightarrow> a smod b = 0 \<longleftrightarrow> (b :: int) dvd a"
  using mod_bounds [of b a] by (auto simp: signed_modulo_int_def sgn_if dvd_eq_mod_eq_0 zmod_zminus1_eq_if split: if_splits)

lemma days_in_year_eq:
  "days_in_year y = 365 + (if 4 dvd y then 1 else 0) - (if 100 dvd y then 1 else 0) + (if 400 dvd y then 1 else 0)"
  by (simp add: days_in_year_def c_not_def smod_0_iff)

lemma days_in_year_cases: "days_in_year y = 365 \<or> days_in_year y = 366"
proof -
  have "100 dvd y \<Longrightarrow> 4 dvd y" "400 dvd y \<Longrightarrow> 100 dvd y" by (auto elim!: dvdE)
  then show ?thesis unfolding days_in_year_eq by auto
qed

lemma div_next: "0 < n \<Longrightarrow> (x + 1) div n = x div n + (if n dvd x + 1 then 1 else (0 :: int))"
proof (cases "n dvd x + 1")
  case True
  assume "0 < n"
  obtain k where k: "x + 1 = n * k" using True by (auto elim: dvdE)
  then have "x = n * (k - 1) + (n - 1)" by (simp add: algebra_simps)
  then have "x div n = k - 1" using \<open>0 < n\<close> by (intro int_div_pos_eq [where r = "n - 1"]) auto
  then show ?thesis using True k \<open>0 < n\<close> by simp
next
  case False
  assume "0 < n"
  have "x mod n + 1 \<noteq> n" using False by (metis dvd_triv_left mult_div_mod_eq add.assoc dvd_add_triv_left_iff dvd_refl dvd_add)
  then have "x mod n + 1 < n" using pos_mod_bound [OF \<open>0 < n\<close>, of x] by simp
  then show ?thesis using False pos_mod_sign [OF \<open>0 < n\<close>, of x]
    by (intro trans [OF int_div_pos_eq [where r = "x mod n + 1"]]) (simp_all add: mult_div_mod_eq [symmetric])
qed

lemma days_from_year_eq: "days_from_year y = 365 * (y - 1970) + (y - 1969) div 4 - (y - 1901) div 100 + (y - 1601) div 400"
  by (simp add: days_from_year_def floor_div_eq)

lemma days_from_year_next: "days_from_year (y + 1) = days_from_year y + days_in_year y"
proof -
  have s: "(y + 1 - 1969) div 4 = (y - 1969) div 4 + (if 4 dvd y then 1 else 0)"
    "(y + 1 - 1901) div 100 = (y - 1901) div 100 + (if 100 dvd y then 1 else 0)"
    "(y + 1 - 1601) div 400 = (y - 1601) div 400 + (if 400 dvd y then 1 else 0)"
    using div_next [of 4 "y - 1969"] div_next [of 100 "y - 1901"] div_next [of 400 "y - 1601"]
      dvd_diff_left_iff [of 4 1968 y] dvd_diff_left_iff [of 100 1900 y] dvd_diff_left_iff [of 400 1600 y]
    by (simp_all add: algebra_simps)
  show ?thesis unfolding days_from_year_eq days_in_year_eq s by (simp add: algebra_simps)
qed

subsection \<open>Years\<close>

text \<open>
  The loop of \<open>year_from_days\<close> from the year \<open>y\<close>. The updates of \<open>d1\<close> in its body have no effect, as the next
  round computes \<open>d1\<close> anew.
\<close>

function year_loop :: "int \<Rightarrow> int \<Rightarrow> int \<times> int" where
  "year_loop d y =
     (let d1 = d - days_from_year y in
      if d1 < 0 then year_loop d (y - 1)
      else if d1 < days_in_year y then (y, d1)
      else year_loop d (y + 1))"
  by pat_completeness auto
termination
proof (relation "measure (\<lambda>(d, y). let d1 = d - days_from_year y in
    if d1 < 0 then nat (1 - d1) else if d1 < days_in_year y then 0 else nat d1)", goal_cases)
  case (2 d y x)
  then show ?case using days_from_year_next [of "y - 1"] days_in_year_cases [of "y - 1"] by (auto simp: Let_def)
next
  case (3 d y x)
  then show ?case using days_from_year_next [of y] days_in_year_cases [of y] by (auto simp: Let_def)
qed simp

declare year_loop.simps [simp del]

definition year_from_days :: "int \<Rightarrow> int \<times> int" where
  "year_from_days days = year_loop days (floor_div (days * 10000) 3652425 + 1970)"

subsection \<open>Fields\<close>

definition month_days :: "int list" where
  "month_days = [31, 28, 31, 30, 31, 30, 31, 31, 30, 31, 30, 31]"

definition month_length :: "int \<Rightarrow> nat \<Rightarrow> int" where
  "month_length y i = month_days ! i + (if i = 1 then days_in_year y - 365 else 0)"

text \<open>The loop over the months: at most eleven are subtracted.\<close>

function month_loop :: "int \<Rightarrow> nat \<Rightarrow> int \<Rightarrow> nat \<times> int" where
  "month_loop y i days =
     (if i < 11 \<and> \<not> days < month_length y i then month_loop y (i + 1) (days - month_length y i) else (i, days))"
  by pat_completeness auto
termination by (relation "measure (\<lambda>(y, i, days). 11 - i)") auto

declare month_loop.simps [simp del]

definition getTimezoneOffset :: "(int \<Rightarrow> int) \<Rightarrow> int \<Rightarrow> int" where
  "getTimezoneOffset gmtoff time = (- gmtoff (time sdiv 1000)) sdiv 60"

text \<open>
  \<open>get_date_fields\<close> on the time value of a date: \<open>None\<close> is the result \<open>FALSE\<close> for NaN. The nine fields are
  year, month, day, hour, minute, second, millisecond, week day and time zone.
\<close>

definition date_fields_of :: "int \<Rightarrow> int \<Rightarrow> int list" where
  "date_fields_of d tz =
     (let h0 = math_mod d 86400000;
          days0 = (d - h0) sdiv 86400000;
          ms = h0 smod 1000; h1 = (h0 - ms) sdiv 1000;
          s = h1 smod 60; h2 = (h1 - s) sdiv 60;
          m = h2 smod 60; h = (h2 - m) sdiv 60;
          wd = math_mod (days0 + 4) 7;
          (y, days) = year_from_days days0;
          (i, days') = month_loop y 0 days in
      [y, int i, days' + 1, h, m, s, ms, wd, tz])"

definition get_date_fields :: "(int \<Rightarrow> int) \<Rightarrow> int option \<Rightarrow> bool \<Rightarrow> bool \<Rightarrow> int list option" where
  "get_date_fields gmtoff dval is_local force =
     (case dval of
        None \<Rightarrow> if \<not> force then None else Some (date_fields_of 0 0)
      | Some d \<Rightarrow>
          if is_local then let tz = - getTimezoneOffset gmtoff d in Some (date_fields_of (d + tz * 60000) tz)
          else Some (date_fields_of d 0))"

definition time_clip :: "int option \<Rightarrow> int option" where
  "time_clip t =
     (case t of None \<Rightarrow> None
      | Some v \<Rightarrow> if v \<ge> - 8640000000000000 \<and> v \<le> 8640000000000000 then Some v else None)"

fun add_months :: "int \<Rightarrow> nat \<Rightarrow> int \<Rightarrow> int" where
  "add_months y 0 days = days"
| "add_months y (Suc m) days = add_months y m days + month_length y m"

definition set_date_days :: "int list \<Rightarrow> int" where
  "set_date_days fields =
     (let m = math_mod (fields ! 1) 12; y = fields ! 0 + (fields ! 1 - m) sdiv 12 in
      add_months y (nat m) (days_from_year y) + (fields ! 2 - 1))"

definition set_date_ms :: "int list \<Rightarrow> int" where
  "set_date_ms fields = ((fields ! 3 * 60 + fields ! 4) * 60 + fields ! 5) * 1000 + fields ! 6"

definition set_date_fields :: "(int \<Rightarrow> int) \<Rightarrow> int list \<Rightarrow> bool \<Rightarrow> int option" where
  "set_date_fields gmtoff fields is_local =
     (let d = set_date_days fields * 86400000 + set_date_ms fields in
      time_clip (Some (if is_local then d + getTimezoneOffset gmtoff d * 60000 else d)))"

subsection \<open>Getters and setters\<close>

text \<open>
  A method is called on a date object, which holds a time value, or on anything else. Its arguments are
  converted by \<open>JS_ToFloat64\<close>, which may raise an exception; the code only asks whether the number is finite
  and for its integer part.
\<close>

datatype js_error = TypeError | RangeError | Exception

datatype js_this = DateObject "int option" | OtherValue

datatype js_arg = Raises | NotFinite | Finite int

definition JS_ThisTimeValue :: "js_this \<Rightarrow> js_error + int option" where
  "JS_ThisTimeValue this = (case this of DateObject v \<Rightarrow> Inr v | OtherValue \<Rightarrow> Inl TypeError)"

definition JS_SetThisTimeValue :: "js_this \<Rightarrow> int option \<Rightarrow> (js_error + int option) \<times> js_this" where
  "JS_SetThisTimeValue this v =
     (case this of DateObject _ \<Rightarrow> (Inr v, DateObject v) | OtherValue \<Rightarrow> (Inl TypeError, this))"

text \<open>The result is the field or NaN.\<close>

definition get_date_field :: "(int \<Rightarrow> int) \<Rightarrow> js_this \<Rightarrow> nat \<Rightarrow> js_error + int option" where
  "get_date_field gmtoff this magic =
     (let is_local = (magic mod 16 \<noteq> 0); n = magic div 2 ^ 4 mod 16 in
      case JS_ThisTimeValue this of
        Inl e \<Rightarrow> Inl e
      | Inr dval \<Rightarrow>
          (case get_date_fields gmtoff dval is_local False of
             None \<Rightarrow> Inr None
           | Some fields \<Rightarrow>
               let fields' = (if odd (magic div 2 ^ 8) then fields[0 := fields ! 0 - 1900] else fields) in
               Inr (Some (fields' ! n))))"

text \<open>
  The loop over the arguments of a setter: \<open>Inl\<close> an exception, \<open>Inr None\<close> the jump to \<open>done\<close> with NaN.
\<close>

fun set_args :: "nat \<Rightarrow> js_arg list \<Rightarrow> int list \<Rightarrow> js_error + int list option" where
  "set_args pos [] fields = Inr (Some fields)"
| "set_args pos (Raises # as) fields = Inl Exception"
| "set_args pos (NotFinite # as) fields = Inr None"
| "set_args pos (Finite a # as) fields = set_args (pos + 1) as (fields[pos := a])"

definition set_date_field ::
  "(int \<Rightarrow> int) \<Rightarrow> js_this \<Rightarrow> js_arg list \<Rightarrow> nat \<Rightarrow> (js_error + int option) \<times> js_this" where
  "set_date_field gmtoff this argv magic =
     (let first_field = magic div 2 ^ 8 mod 16; end_field = magic div 2 ^ 4 mod 16; is_local = (magic mod 16 \<noteq> 0) in
      case JS_ThisTimeValue this of
        Inl e \<Rightarrow> (Inl e, this)
      | Inr dval \<Rightarrow>
          (case get_date_fields gmtoff dval is_local (first_field = 0) of
             None \<Rightarrow> JS_SetThisTimeValue this None
           | Some fields \<Rightarrow>
               if argv = [] then JS_SetThisTimeValue this None
               else (case set_args first_field (take (end_field - first_field) argv) fields of
                       Inl e \<Rightarrow> (Inl e, this)
                     | Inr None \<Rightarrow> JS_SetThisTimeValue this None
                     | Inr (Some fields') \<Rightarrow> JS_SetThisTimeValue this (set_date_fields gmtoff fields' is_local))))"

definition century :: "int \<Rightarrow> int" where
  "century y = (if y \<ge> 0 \<and> y < 100 then y + 1900 else y)"

text \<open>The fields that \<open>Date.UTC\<close> and the constructor with at least two arguments read.\<close>

definition ctor_args :: "js_arg list \<Rightarrow> js_error + int list option" where
  "ctor_args argv =
     (case set_args 0 (take 7 argv) [0, 0, 1, 0, 0, 0, 0] of
        Inr (Some fields) \<Rightarrow> Inr (Some (fields[0 := century (fields ! 0)]))
      | r \<Rightarrow> r)"

definition js_Date_UTC :: "(int \<Rightarrow> int) \<Rightarrow> js_arg list \<Rightarrow> js_error + int option" where
  "js_Date_UTC gmtoff argv =
     (if argv = [] then Inr None
      else case ctor_args argv of
        Inl e \<Rightarrow> Inl e
      | Inr None \<Rightarrow> Inr None
      | Inr (Some fields) \<Rightarrow> Inr (set_date_fields gmtoff fields False))"

definition date_from_fields :: "(int \<Rightarrow> int) \<Rightarrow> js_arg list \<Rightarrow> js_error + int option" where
  "date_from_fields gmtoff argv =
     (case ctor_args argv of
        Inl e \<Rightarrow> Inl e
      | Inr None \<Rightarrow> Inr None
      | Inr (Some fields) \<Rightarrow> Inr (set_date_fields gmtoff fields True))"

definition js_date_getTimezoneOffset :: "(int \<Rightarrow> int) \<Rightarrow> js_this \<Rightarrow> js_error + int option" where
  "js_date_getTimezoneOffset gmtoff this =
     (case JS_ThisTimeValue this of
        Inl e \<Rightarrow> Inl e
      | Inr None \<Rightarrow> Inr None
      | Inr (Some v) \<Rightarrow> Inr (Some (getTimezoneOffset gmtoff v)))"

definition js_date_getTime :: "js_this \<Rightarrow> js_error + int option" where
  "js_date_getTime this = JS_ThisTimeValue this"

definition js_date_setTime :: "js_this \<Rightarrow> js_arg \<Rightarrow> (js_error + int option) \<times> js_this" where
  "js_date_setTime this arg =
     (case JS_ThisTimeValue this of
        Inl e \<Rightarrow> (Inl e, this)
      | Inr _ \<Rightarrow>
          (case arg of
             Raises \<Rightarrow> (Inl Exception, this)
           | NotFinite \<Rightarrow> JS_SetThisTimeValue this None
           | Finite v \<Rightarrow> JS_SetThisTimeValue this (time_clip (Some v))))"

definition js_date_setYear :: "(int \<Rightarrow> int) \<Rightarrow> js_this \<Rightarrow> js_arg \<Rightarrow> (js_error + int option) \<times> js_this" where
  "js_date_setYear gmtoff this arg =
     (case JS_ThisTimeValue this of
        Inl e \<Rightarrow> (Inl e, this)
      | Inr _ \<Rightarrow>
          (case arg of
             Raises \<Rightarrow> (Inl Exception, this)
           | NotFinite \<Rightarrow> set_date_field gmtoff this [NotFinite] 0x011
           | Finite y \<Rightarrow> set_date_field gmtoff this [Finite (century y)] 0x011))"

section \<open>Years and months\<close>

lemma year_loop_spec: "year_loop d y = (y', d') \<Longrightarrow> d' = d - days_from_year y' \<and> 0 \<le> d' \<and> d' < days_in_year y'"
proof (induction d y rule: year_loop.induct)
  case (1 d y)
  show ?case using "1.prems" "1.IH" [OF refl] by (subst (asm) year_loop.simps) (auto simp: Let_def split: if_splits)
qed

lemma days_from_year_step_le: "days_from_year y + 365 * int n \<le> days_from_year (y + int n)"
proof (induction n)
  case (Suc n)
  then show ?case using days_from_year_next [of "y + int n"] days_in_year_cases [of "y + int n"]
    by (auto simp: algebra_simps)
qed simp

lemma days_from_year_mono: "y < y' \<Longrightarrow> days_from_year y + days_in_year y \<le> days_from_year y'"
  using days_from_year_step_le [of "y + 1" "nat (y' - (y + 1))"] days_from_year_next [of y] by simp

lemma year_from_days_unique:
  assumes "days_from_year y \<le> d" "d < days_from_year y + days_in_year y"
  shows "year_from_days d = (y, d - days_from_year y)"
proof -
  obtain y' d' where l: "year_from_days d = (y', d')" by force
  then have s: "d' = d - days_from_year y'" "0 \<le> d'" "d' < days_in_year y'"
    unfolding year_from_days_def using year_loop_spec by blast+
  have "y = y'"
  proof (rule linorder_cases [of y y'])
    show "y < y' \<Longrightarrow> ?thesis" using days_from_year_mono [of y y'] assms s by linarith
    show "y' < y \<Longrightarrow> ?thesis" using days_from_year_mono [of y' y] assms s by linarith
  qed
  then show ?thesis using l s(1) by simp
qed

lemma month_length_bounds: "i < 12 \<Longrightarrow> 28 \<le> month_length y i \<and> month_length y i \<le> 31"
proof -
  assume "i < 12"
  then have "i = 0 \<or> i = 1 \<or> i = 2 \<or> i = 3 \<or> i = 4 \<or> i = 5 \<or> i = 6 \<or> i = 7 \<or> i = 8 \<or> i = 9 \<or> i = 10 \<or> i = 11" by arith
  then show ?thesis using days_in_year_cases [of y] by (auto simp: month_length_def month_days_def)
qed

lemmas month_length_pos = month_length_bounds [THEN conjunct1]
  and month_length_max = month_length_bounds [THEN conjunct2]

lemma add_months_shift: "add_months y m (days + k) = add_months y m days + k"
  by (induction m) auto

lemma add_months_year: "add_months y 12 0 = days_in_year y"
  by (simp add: numeral_eq_Suc month_length_def month_days_def)

lemma month_loop_spec:
  "month_loop y i days = (i', r) \<Longrightarrow> 0 \<le> days \<Longrightarrow> i \<le> 11 \<Longrightarrow>
   add_months y i 0 + days = add_months y i' 0 + r \<and> 0 \<le> r \<and> i' \<le> 11 \<and> (i' < 11 \<longrightarrow> r < month_length y i')"
proof (induction y i days rule: month_loop.induct)
  case (1 y i days)
  show ?case
  proof (cases "i < 11 \<and> \<not> days < month_length y i")
    case True
    then have "month_loop y (i + 1) (days - month_length y i) = (i', r)" using "1.prems"(1) by (subst (asm) month_loop.simps) simp
    then show ?thesis using "1.IH" [OF True] "1.prems" True by auto
  next
    case False
    then show ?thesis using "1.prems" by (subst (asm) month_loop.simps) auto
  qed
qed

lemma month_loop_year:
  assumes "0 \<le> days" "days < days_in_year y" "month_loop y 0 days = (i, r)"
  shows "days = add_months y i 0 + r" "0 \<le> r" "r < month_length y i" "i < 12"
proof -
  note s = month_loop_spec [OF assms(3,1)]
  then show "days = add_months y i 0 + r" "0 \<le> r" "i < 12" by auto
  show "r < month_length y i"
  proof (cases "i < 11")
    case False
    then have "i = 11" using s by simp
    moreover have "add_months y 12 0 = add_months y 11 0 + month_length y 11" by (simp add: numeral_eq_Suc)
    ultimately show ?thesis using s assms(2) add_months_year [of y] by simp
  qed (use s in simp)
qed

section \<open>The fields of a time value\<close>

definition valid_fields :: "int list \<Rightarrow> bool" where
  "valid_fields f \<longleftrightarrow> length f = 9 \<and> 0 \<le> f ! 1 \<and> f ! 1 < 12
     \<and> 1 \<le> f ! 2 \<and> f ! 2 \<le> month_length (f ! 0) (nat (f ! 1))
     \<and> 0 \<le> f ! 3 \<and> f ! 3 < 24 \<and> 0 \<le> f ! 4 \<and> f ! 4 < 60 \<and> 0 \<le> f ! 5 \<and> f ! 5 < 60 \<and> 0 \<le> f ! 6 \<and> f ! 6 < 1000"

lemma valid_fieldsI:
  assumes "i < 12" "0 \<le> r" "r < month_length y i" "0 \<le> h" "h < 24" "0 \<le> m" "m < 60" "0 \<le> s" "s < 60" "0 \<le> ms" "ms < 1000"
  shows "valid_fields [y, int i, r + 1, h, m, s, ms, wd, tz]"
  using assms by (simp add: valid_fields_def)

definition time_of :: "int list \<Rightarrow> int" where
  "time_of f = set_date_days f * 86400000 + set_date_ms f"

lemma smod_nonneg: "0 \<le> a \<Longrightarrow> 0 < b \<Longrightarrow> a smod b = a mod (b :: int)"
  by (auto simp: signed_modulo_int_def sgn_if)

lemma sdiv_nonneg: "0 \<le> a \<Longrightarrow> 0 < b \<Longrightarrow> a sdiv b = a div (b :: int)"
  by (auto simp: signed_divide_int_def sgn_if)

text \<open>The decomposition of the milliseconds of a day.\<close>

lemma minus_mod_sdiv: "0 < b \<Longrightarrow> (a - a mod b) sdiv b = a div (b :: int)"
  using sdiv_exact [of b "a div b"] by (simp add: minus_mod_eq_mult_div)

lemma day_split:
  fixes h :: int
  assumes "0 \<le> h" "h < 86400000"
  shows "((h div 1000 div 60 div 60 * 60 + h div 1000 div 60 mod 60) * 60 + h div 1000 mod 60) * 1000 + h mod 1000 = h"
    and "h div 1000 div 60 div 60 < 24" "0 \<le> h div 1000 div 60 div 60"
proof -
  have "h div 1000 div 60 div 60 * 60 + h div 1000 div 60 mod 60 = h div 1000 div 60" by simp
  moreover have "h div 1000 div 60 * 60 + h div 1000 mod 60 = h div 1000" by simp
  ultimately show "((h div 1000 div 60 div 60 * 60 + h div 1000 div 60 mod 60) * 60 + h div 1000 mod 60) * 1000 + h mod 1000 = h"
    by simp
  have "h div 1000 div 60 div 60 = h div 3600000" by (simp add: div_mult2_eq [symmetric] zdiv_zmult2_eq [symmetric])
  then show "h div 1000 div 60 div 60 < 24" "0 \<le> h div 1000 div 60 div 60" using assms by auto
qed

lemma date_fields_of_eq:
  assumes "year_from_days (d div 86400000) = (y, r)" "month_loop y 0 r = (i, r')"
  shows "date_fields_of d tz =
    (let h = d mod 86400000 in
     [y, int i, r' + 1, h div 1000 div 60 div 60, h div 1000 div 60 mod 60, h div 1000 mod 60, h mod 1000,
      (d div 86400000 + 4) mod 7, tz])"
proof -
  have h: "0 \<le> d mod 86400000" by simp
  then show ?thesis using assms
    by (simp add: date_fields_of_def Let_def math_mod_eq smod_nonneg minus_mod_sdiv pos_imp_zdiv_nonneg_iff)
qed

lemma date_fields_of_spec:
  "valid_fields (date_fields_of d tz)" "time_of (date_fields_of d tz) = d"
proof -
  let ?q = "d div 86400000"
  obtain y r where y: "year_from_days ?q = (y, r)" by force
  then have r: "r = ?q - days_from_year y" "0 \<le> r" "r < days_in_year y"
    using year_loop_spec unfolding year_from_days_def by blast+
  obtain i r' where i: "month_loop y 0 r = (i, r')" by force
  note m = month_loop_year [OF r(2,3) i]
  note eq = date_fields_of_eq [OF y i, of tz, unfolded Let_def]
  have h: "0 \<le> d mod 86400000" "d mod 86400000 < 86400000" by simp_all
  note split = day_split [OF h]
  show "valid_fields (date_fields_of d tz)"
    unfolding eq by (rule valid_fieldsI [OF m(4,2,3) split(3,2)]) simp_all
  have "set_date_days (date_fields_of d tz) = ?q"
    unfolding eq set_date_days_def using m r(1) add_months_shift [of y i 0 "days_from_year y"] by (simp add: math_mod_eq)
  moreover have "set_date_ms (date_fields_of d tz) = d mod 86400000"
    unfolding eq set_date_ms_def using split(1) by simp
  ultimately show "time_of (date_fields_of d tz) = d" unfolding time_of_def by simp
qed

lemma add_months_mono: "i \<le> m \<Longrightarrow> m \<le> 12 \<Longrightarrow> add_months y i 0 \<le> add_months y m 0"
proof (induction m)
  case (Suc m)
  then show ?case using month_length_pos [of m y] by (cases "i = Suc m") auto
qed simp

lemma month_loop_months:
  assumes "i \<le> m" "m < 12" "0 \<le> r" "r < month_length y m"
  shows "month_loop y i (add_months y m 0 - add_months y i 0 + r) = (m, r)"
  using assms
proof (induction "m - i" arbitrary: i)
  case 0
  then show ?case by (subst month_loop.simps) auto
next
  case (Suc n)
  have "add_months y (Suc i) 0 \<le> add_months y m 0" using Suc.hyps(2) Suc.prems by (intro add_months_mono) auto
  moreover have "month_loop y (Suc i) (add_months y m 0 - add_months y (Suc i) 0 + r) = (m, r)"
    using Suc.hyps(1) [of "Suc i"] Suc.hyps(2) Suc.prems by simp
  ultimately show ?case using Suc.hyps(2) Suc.prems
    by (subst month_loop.simps) (auto simp: algebra_simps)
qed

lemma quotient_rest: "0 \<le> r \<Longrightarrow> r < n \<Longrightarrow> (q * n + r) div n = q \<and> (q * n + r) mod n = (r :: int)"
  by (simp add: div_pos_pos_trivial mod_pos_pos_trivial)

lemma day_join:
  fixes h m s ms :: int
  assumes "0 \<le> h" "h < 24" "0 \<le> m" "m < 60" "0 \<le> s" "s < 60" "0 \<le> ms" "ms < 1000"
    and t: "t = ((h * 60 + m) * 60 + s) * 1000 + ms"
  shows "0 \<le> t" "t < 86400000" "t mod 1000 = ms" "t div 1000 mod 60 = s" "t div 1000 div 60 mod 60 = m" "t div 1000 div 60 div 60 = h"
proof -
  note q = quotient_rest [of ms 1000 "(h * 60 + m) * 60 + s"] quotient_rest [of s 60 "h * 60 + m"] quotient_rest [of m 60 h]
  show "0 \<le> t" "t < 86400000" using assms by simp_all
  show "t mod 1000 = ms" "t div 1000 mod 60 = s" "t div 1000 div 60 mod 60 = m" "t div 1000 div 60 div 60 = h"
    unfolding t using q assms(1-8) by (simp_all only: simp_thms)
qed

lemma day_in_year:
  assumes "i < 12" "0 \<le> r" "r < month_length y i"
  shows "0 \<le> add_months y i 0 + r" "add_months y i 0 + r < days_in_year y"
  using assms add_months_mono [of 0 i y] add_months_mono [of "Suc i" 12 y] add_months_year [of y] by simp_all

lemma set_then_get:
  assumes "valid_fields f"
  shows "take 7 (date_fields_of (time_of f) tz) = take 7 f"
proof -
  obtain y mo dd h m s ms wd z where f: "f = [y, mo, dd, h, m, s, ms, wd, z]"
    using assms by (auto simp: valid_fields_def length_Suc_conv numeral_eq_Suc)
  have v: "0 \<le> mo" "mo < 12" "1 \<le> dd" "dd \<le> month_length y (nat mo)" "0 \<le> h" "h < 24" "0 \<le> m" "m < 60" "0 \<le> s" "s < 60"
    "0 \<le> ms" "ms < 1000" using assms unfolding f valid_fields_def by simp_all
  define t where "t = ((h * 60 + m) * 60 + s) * 1000 + ms"
  note j = day_join [OF v(5-12) t_def]
  have "time_of f = set_date_days f * 86400000 + t" by (simp add: time_of_def set_date_ms_def f t_def)
  then have dm: "time_of f div 86400000 = set_date_days f" "time_of f mod 86400000 = t"
    using quotient_rest [OF j(1,2), of "set_date_days f"] by simp_all
  have nm: "nat mo < 12" and r: "0 \<le> dd - 1" "dd - 1 < month_length y (nat mo)" using v by simp_all
  have days: "set_date_days f = days_from_year y + (add_months y (nat mo) 0 + (dd - 1))"
    using v(1,2) add_months_shift [of y "nat mo" 0 "days_from_year y"] by (simp add: set_date_days_def f math_mod_eq)
  have ml: "month_loop y 0 (add_months y (nat mo) 0 + (dd - 1)) = (nat mo, dd - 1)"
    using month_loop_months [OF _ nm r, of 0] by simp
  have "year_from_days (set_date_days f) = (y, add_months y (nat mo) 0 + (dd - 1))"
    using year_from_days_unique [of y "set_date_days f"] days day_in_year [OF nm r] by simp
  from date_fields_of_eq [of "time_of f", unfolded dm, OF this ml, of tz] show ?thesis
    unfolding Let_def j(3-6) using v(1) by (simp add: f)
qed

section \<open>Properties\<close>

definition in_clip :: "int \<Rightarrow> bool" where
  "in_clip t \<longleftrightarrow> - 8640000000000000 \<le> t \<and> t \<le> 8640000000000000"

lemma set_date_fields_utc: "set_date_fields gmtoff f False = (if in_clip (time_of f) then Some (time_of f) else None)"
  by (auto simp: set_date_fields_def time_clip_def in_clip_def time_of_def Let_def)

lemma set_date_fields_take: "set_date_fields gmtoff (take 7 f) False = set_date_fields gmtoff f False"
  by (simp add: set_date_fields_def set_date_days_def set_date_ms_def)

text \<open>
  C13. Splitting a time value into its calendar fields loses nothing: the fields are those of a real date (month
  0 to 11, a day the month has in that year, hours below 24 and so on) and \<open>set_date_fields\<close> computes the same
  time value from them, for every time value, before or after 1970.
\<close>

theorem date_fields_roundtrip:
  assumes "in_clip t"
  shows "valid_fields (date_fields_of t 0) \<and> get_date_fields gmtoff (Some t) False force = Some (date_fields_of t 0)
    \<and> set_date_fields gmtoff (date_fields_of t 0) False = Some t"
  using date_fields_of_spec [of t 0] assms by (simp add: get_date_fields_def set_date_fields_utc)

theorem date_fields_roundtrip_witness:
  "valid_fields (date_fields_of (- 1) 0) \<and> get_date_fields (\<lambda>_. 0) (Some (- 1)) False False = Some (date_fields_of (- 1) 0)
    \<and> set_date_fields (\<lambda>_. 0) (date_fields_of (- 1) 0) False = Some (- 1)"
  by (rule date_fields_roundtrip) (simp add: in_clip_def)

text \<open>
  C33. The other way round: a date given by valid fields, if its time value is in range, is split into exactly
  the same year, month, day and time of day. In particular \<open>year_from_days\<close> ends on the right year.
\<close>

theorem date_fields_inverse:
  assumes "valid_fields f" "set_date_fields gmtoff f False = Some t"
  shows "\<exists>g. get_date_fields gmtoff (Some t) False force = Some g \<and> take 7 g = take 7 f"
  using assms set_then_get [OF assms(1), of 0] by (auto simp: set_date_fields_utc get_date_fields_def split: if_splits)

theorem date_fields_inverse_witness:
  "\<exists>g. get_date_fields (\<lambda>_. 0) (Some 951782400000) False False = Some g \<and> take 7 g = take 7 [2000, 1, 29, 0, 0, 0, 0, 0, 0]"
proof (rule date_fields_inverse)
  show "valid_fields [2000, 1, 29, 0, 0, 0, 0, 0, 0]"
    by (simp add: valid_fields_def month_length_def month_days_def days_in_year_eq)
  show "set_date_fields (\<lambda>_. 0) [2000, 1, 29, 0, 0, 0, 0, 0, 0] False = Some 951782400000"
    by (simp add: set_date_fields_utc time_of_def in_clip_def set_date_days_def set_date_ms_def math_mod_eq days_from_year_eq
        month_length_def month_days_def)
qed


lemma date_fields_of_epoch: "date_fields_of 0 0 = [1970, 0, 1, 0, 0, 0, 0, 4, 0]"
proof -
  have "year_from_days 0 = (1970, 0)" using year_from_days_unique [of 1970 0] by (simp add: days_from_year_eq days_in_year_eq)
  moreover have "month_loop 1970 0 0 = (0, 0)" by (subst month_loop.simps) (simp add: month_length_def month_days_def)
  ultimately show ?thesis using date_fields_of_eq [of 0 1970 0 0 0 0] by simp
qed




lemma year_range:
  assumes "in_clip t"
  shows "- 271821 \<le> date_fields_of t tz ! 0 \<and> date_fields_of t tz ! 0 \<le> 275760"
proof -
  let ?q = "t div 86400000"
  have q: "- 100000000 \<le> ?q" "?q \<le> 100000000" using assms by (auto simp: in_clip_def)
  obtain y r where y: "year_from_days ?q = (y, r)" by force
  then have r: "r = ?q - days_from_year y" "0 \<le> r" "r < days_in_year y"
    using year_loop_spec unfolding year_from_days_def by blast+
  obtain i r' where "month_loop y 0 r = (i, r')" by force
  then have f: "date_fields_of t tz ! 0 = y" using date_fields_of_eq [OF y] by (simp add: Let_def)
  have "days_from_year (- 271821) \<le> - 100000000" "100000000 < days_from_year 275761" by (simp_all add: days_from_year_eq)
  then have "\<not> y < - 271821" "\<not> 275761 \<le> y"
    using days_from_year_mono [of y "- 271821"] days_from_year_step_le [of 275761 "nat (y - 275761)"] r q by auto
  then show ?thesis using f by auto
qed

text \<open>
  The 64 bit arithmetic is exact and the fields fit the \<open>int\<close> variables of the printing code: for every
  time value the year is between -271821 and 275760, and the largest product that is formed stays below \<open>2\<^sup>6\<^sup>3\<close>.
\<close>

theorem date_ranges:
  assumes "in_clip t"
  shows "- 271821 \<le> date_fields_of t tz ! 0 \<and> date_fields_of t tz ! 0 \<le> 275760
    \<and> \<bar>t div 86400000 * 10000\<bar> < 2 ^ 63"
proof -
  have "- 100000000 \<le> t div 86400000" "t div 86400000 \<le> 100000000" using assms by (auto simp: in_clip_def)
  then show ?thesis using year_range [OF assms, of tz] by auto
qed

theorem date_ranges_witness:
  "- 271821 \<le> date_fields_of 8640000000000000 0 ! 0 \<and> date_fields_of 8640000000000000 0 ! 0 \<le> 275760
    \<and> \<bar>8640000000000000 div 86400000 * 10000\<bar> < (2 ^ 63 :: int)"
  by (rule date_ranges) (simp add: in_clip_def)

end
