(* ===== verification/QJS_Date_Text.thy ===== *)
theory QJS_Date_Text
  imports QJS_Date
begin

text \<open>
  Printing and parsing of dates (\<open>get_date_string\<close>, \<open>js_Date_parse\<close> in \<open>quickjs.c\<close>). A string is the list of its
  code units. A position in a string is the rest of the string from there. \<open>snprintf\<close> writes into a buffer of 64
  characters, which is never filled (a theorem).
\<close>

section \<open>Model\<close>

definition codes :: "string \<Rightarrow> nat list" where
  "codes s = map of_char s"

subsection \<open>Decimal numbers of printf\<close>

function dec :: "nat \<Rightarrow> nat list" where
  "dec n = (if n < 10 then [48 + n] else dec (n div 10) @ [48 + n mod 10])"
  by pat_completeness auto
termination by (relation "measure id") auto

declare dec.simps [simp del]

text \<open>\<open>%0wd\<close>, with the minus sign counted in the width; \<open>%+0wd\<close> with a sign for every number.\<close>

definition zeros :: "nat \<Rightarrow> nat list \<Rightarrow> nat list" where
  "zeros w ds = replicate (w - length ds) 48 @ ds"

definition fmt_0d :: "nat \<Rightarrow> int \<Rightarrow> nat list" where
  "fmt_0d w n = (if n < 0 then 45 # zeros (w - 1) (dec (nat (- n))) else zeros w (dec (nat n)))"

definition fmt_plus_0d :: "nat \<Rightarrow> int \<Rightarrow> nat list" where
  "fmt_plus_0d w n = (if n < 0 then 45 else 43) # zeros (w - 1) (dec (nat \<bar>n\<bar>))"

definition month_names :: "nat list" where
  "month_names = codes ''JanFebMarAprMayJunJulAugSepOctNovDec''"

definition day_names :: "nat list" where
  "day_names = codes ''SunMonTueWedThuFriSat''"

definition abbrev :: "nat list \<Rightarrow> int \<Rightarrow> nat list" where
  "abbrev names i = take 3 (drop (nat i * 3) names)"

subsection \<open>Printing\<close>

definition year_fmt :: "int \<Rightarrow> nat list" where
  "year_fmt y = fmt_0d (4 + (if y < 0 then 1 else 0)) y"

definition date_part :: "nat \<Rightarrow> nat \<Rightarrow> int list \<Rightarrow> nat list" where
  "date_part fmt part f =
     (let y = f ! 0; mon = f ! 1; d = f ! 2; wd = f ! 7 in
      if fmt = 0 then
        abbrev day_names wd @ codes '', '' @ fmt_0d 2 d @ codes '' '' @ abbrev month_names mon @ codes '' '' @ year_fmt y @ codes '' ''
      else if fmt = 1 then
        abbrev day_names wd @ codes '' '' @ abbrev month_names mon @ codes '' '' @ fmt_0d 2 d @ codes '' '' @ year_fmt y
          @ (if part = 3 then codes '' '' else [])
      else if fmt = 2 then
        (if y \<ge> 0 \<and> y \<le> 9999 then fmt_0d 4 y else fmt_plus_0d 7 y)
          @ codes ''-'' @ fmt_0d 2 (mon + 1) @ codes ''-'' @ fmt_0d 2 d @ codes ''T''
      else if fmt = 3 then
        fmt_0d 2 (mon + 1) @ codes ''/'' @ fmt_0d 2 d @ codes ''/'' @ year_fmt y @ (if part = 3 then codes '', '' else [])
      else [])"

definition hms :: "int list \<Rightarrow> nat list" where
  "hms f = fmt_0d 2 (f ! 3) @ codes '':'' @ fmt_0d 2 (f ! 4) @ codes '':'' @ fmt_0d 2 (f ! 5)"

definition time_part :: "nat \<Rightarrow> int list \<Rightarrow> nat list" where
  "time_part fmt f =
     (let h = f ! 3; m = f ! 4; s = f ! 5; ms = f ! 6; tz = f ! 8 in
      if fmt = 0 then hms f @ codes '' GMT''
      else if fmt = 1 then
        hms f @ codes '' GMT'' @ (if tz < 0 then codes ''-'' else codes ''+'')
          @ (let tz = (if tz < 0 then - tz else tz) in fmt_0d 2 (tz sdiv 60) @ fmt_0d 2 (tz smod 60))
      else if fmt = 2 then hms f @ codes ''.'' @ fmt_0d 3 ms @ codes ''Z''
      else if fmt = 3 then
        fmt_0d 2 ((h + 1) smod 12 - 1) @ codes '':'' @ fmt_0d 2 m @ codes '':'' @ fmt_0d 2 s @ codes '' ''
          @ (if h < 12 then codes ''A'' else codes ''P'') @ codes ''M''
      else [])"

definition date_string :: "nat \<Rightarrow> nat \<Rightarrow> int list \<Rightarrow> nat list" where
  "date_string fmt part f = (if odd part then date_part fmt part f else []) @ (if odd (part div 2) then time_part fmt f else [])"

definition get_date_string :: "(int \<Rightarrow> int) \<Rightarrow> js_this \<Rightarrow> nat \<Rightarrow> js_error + nat list" where
  "get_date_string gmtoff this magic =
     (let fmt = magic div 2 ^ 4 mod 16; part = magic mod 16 in
      case JS_ThisTimeValue this of
        Inl e \<Rightarrow> Inl e
      | Inr dval \<Rightarrow>
          (case get_date_fields gmtoff dval (odd fmt) False of
             None \<Rightarrow> if fmt = 2 then Inl RangeError else Inr (codes ''Invalid Date'')
           | Some f \<Rightarrow> Inr (date_string fmt part f)))"

subsection \<open>Parsing\<close>

definition is_digit :: "nat \<Rightarrow> bool" where
  "is_digit c \<longleftrightarrow> c \<ge> 48 \<and> c \<le> 57"

definition string_skip_spaces :: "nat list \<Rightarrow> nat list" where
  "string_skip_spaces s = dropWhile (\<lambda>c. c = 32) s"

definition string_skip_non_spaces :: "nat list \<Rightarrow> nat list" where
  "string_skip_non_spaces s = dropWhile (\<lambda>c. c \<noteq> 32) s"

text \<open>The value of a run of digits, by the loop \<open>v = v * 10 + c - '0'\<close>.\<close>

fun digits_value :: "int \<Rightarrow> nat list \<Rightarrow> int" where
  "digits_value v [] = v"
| "digits_value v (c # cs) = digits_value (v * 10 + int c - 48) cs"

definition string_get_field :: "nat list \<Rightarrow> (int \<times> nat list) option" where
  "string_get_field s =
     (let r = dropWhile (\<lambda>c. \<not> is_digit c) s in
      if r = [] then None else Some (digits_value 0 (takeWhile is_digit r), dropWhile is_digit r))"

definition string_get_digits :: "nat list \<Rightarrow> nat \<Rightarrow> (int \<times> nat list) option" where
  "string_get_digits s n =
     (if n \<le> length s \<and> list_all is_digit (take n s) then Some (digits_value 0 (take n s), drop n s) else None)"

definition string_get_signed_field :: "nat list \<Rightarrow> (int \<times> nat list) option" where
  "string_get_signed_field s =
     (case s of
        [] \<Rightarrow> None
      | sg # r \<Rightarrow>
          (case string_get_field (if sg = 45 \<or> sg = 43 then r else s) of
             None \<Rightarrow> None
           | Some (v, r') \<Rightarrow> Some (if sg = 45 then - v else v, r')))"

text \<open>The inner comparison of \<open>find_abbrev\<close> always looks at \<open>month_names\<close>, whatever \<open>list\<close> is.\<close>

fun find_abbrev_loop :: "nat list \<Rightarrow> nat \<Rightarrow> nat \<Rightarrow> nat option" where
  "find_abbrev_loop s n 0 = None"
| "find_abbrev_loop s n (Suc k) =
     (if take 3 s = take 3 (drop (n * 3) month_names) then Some n else find_abbrev_loop s (n + 1) k)"

definition find_abbrev :: "nat list \<Rightarrow> nat list \<Rightarrow> nat \<Rightarrow> nat option" where
  "find_abbrev s names n = (if 3 \<le> length s then find_abbrev_loop s 0 n else None)"

definition string_get_month :: "nat list \<Rightarrow> (int \<times> nat list) option" where
  "string_get_month s0 =
     (let s = string_skip_spaces s0 in
      case find_abbrev s month_names 12 of None \<Rightarrow> None | Some n \<Rightarrow> Some (int n, drop 3 s))"

text \<open>The loop over the fields 1 to 5 of the ISO format; it stops at the first one that is missing.\<close>

fun iso_fields :: "nat \<Rightarrow> nat \<Rightarrow> nat list \<Rightarrow> int list \<Rightarrow> nat \<times> nat list \<times> int list" where
  "iso_fields 0 i s f = (i, s, f)"
| "iso_fields (Suc k) i s f =
     (case string_get_field s of None \<Rightarrow> (i, s, f) | Some (v, s') \<Rightarrow> iso_fields k (i + 1) s' (f[i := v]))"

fun iso_millis :: "nat list \<Rightarrow> int \<Rightarrow> int \<Rightarrow> int \<times> nat list" where
  "iso_millis [] mul ms = (ms, [])"
| "iso_millis (c # s) mul ms =
     (if \<not> is_digit c then (ms, c # s)
      else iso_millis s (mul sdiv 10) (ms + (if mul = 1 \<and> c \<ge> 53 then 1 else 0) + (int c - 48) * (mul sdiv 10)))"

definition starts_signed :: "nat list \<Rightarrow> bool" where
  "starts_signed s \<longleftrightarrow> s \<noteq> [] \<and> (hd s = 43 \<or> hd s = 45)"

definition parse_iso :: "nat list \<Rightarrow> (int list \<times> int) option" where
  "parse_iso s0 =
     (case string_get_signed_field s0 of
        None \<Rightarrow> None
      | Some (y, s1) \<Rightarrow>
          let (i, s2, f) = iso_fields 5 1 s1 [y, 1, 1, 0, 0, 0, 0];
              (s3, f) = (if i = 6 \<and> s2 \<noteq> [] \<and> hd s2 = 46
                         then let (ms, s3) = iso_millis (tl s2) 1000 0 in (s3, f[6 := ms]) else (s2, f));
              f = f[1 := f ! 1 - 1] in
          if starts_signed s3 then
            do {
              (hh, s4) \<leftarrow> string_get_field s3;
              (mm, s5) \<leftarrow> string_get_field s4;
              Some (f, if hd s3 = 45 then - (hh * 60 + mm) else hh * 60 + mm)
            }
          else Some (f, 0))"

definition parse_offset :: "nat list \<Rightarrow> int option" where
  "parse_offset s0 =
     (let s = dropWhile (\<lambda>c. c \<noteq> 43 \<and> c \<noteq> 45) s0 in
      case s of
        [] \<Rightarrow> Some 0
      | sg # s1 \<Rightarrow>
          do {
            (hh, s2) \<leftarrow> string_get_digits s1 2;
            (mm, s3) \<leftarrow> string_get_digits s2 2;
            Some (if sg = 45 then - (hh * 60 + mm) else hh * 60 + mm)
          })"

definition parse_day_month :: "nat list \<Rightarrow> (int \<times> int \<times> nat list) option" where
  "parse_day_month s =
     (if s = [] then None
      else if is_digit (hd s) then
        do {
          (d, s1) \<leftarrow> string_get_field s;
          (mon, s2) \<leftarrow> string_get_month s1;
          Some (d, mon, s2)
        }
      else
        do {
          (mon, s1) \<leftarrow> string_get_month s;
          (d, s2) \<leftarrow> string_get_field s1;
          Some (d, mon, s2)
        })"

definition parse_text :: "nat list \<Rightarrow> (int list \<times> int) option" where
  "parse_text s0 =
     do {
       (d, mon, s1) \<leftarrow> parse_day_month (string_skip_spaces (string_skip_non_spaces s0));
       (y, s2) \<leftarrow> string_get_signed_field (string_skip_spaces s1);
       (h, s3) \<leftarrow> string_get_field s2;
       (m, s4) \<leftarrow> string_get_field s3;
       (s, s5) \<leftarrow> string_get_field s4;
       tz \<leftarrow> parse_offset s5;
       Some ([y, mon, d, h, m, s, 0], tz)
     }"

text \<open>The time value, \<open>None\<close> for NaN.\<close>

definition js_Date_parse :: "(int \<Rightarrow> int) \<Rightarrow> nat list \<Rightarrow> int option" where
  "js_Date_parse gmtoff s =
     do {
       (f, tz) \<leftarrow> (if s \<noteq> [] \<and> (is_digit (hd s) \<or> hd s = 43 \<or> hd s = 45) then parse_iso s else parse_text s);
       d \<leftarrow> set_date_fields gmtoff f False;
       Some (d - tz * 60000)
     }"

section \<open>Numbers\<close>

lemma is_digit_48 [simp]: "n < 10 \<Longrightarrow> is_digit (48 + n)" "is_digit 48"
  by (simp_all add: is_digit_def)

lemma list_all_dec: "list_all is_digit (dec n)"
proof (induction n rule: dec.induct)
  case (1 n)
  then show ?case by (subst dec.simps) auto
qed

lemma dec_not_Nil [simp]: "dec n \<noteq> []"
  by (subst dec.simps) auto

lemma digits_value_append: "digits_value v (xs @ ys) = digits_value (digits_value v xs) ys"
  by (induction xs arbitrary: v) auto

lemma digits_value_zeros: "digits_value 0 (replicate k 48 @ xs) = digits_value 0 xs"
  by (induction k) auto

lemma digits_value_dec: "digits_value 0 (dec n) = int n"
proof (induction n rule: dec.induct)
  case (1 n)
  then show ?case by (subst dec.simps) (auto simp: digits_value_append zdiv_int zmod_int)
qed

lemma zeros_digits: "list_all is_digit (zeros w (dec n))" "zeros w (dec n) \<noteq> []" "digits_value 0 (zeros w (dec n)) = int n"
proof -
  have "list_all is_digit (replicate k 48)" for k by (induction k) simp_all
  then show "list_all is_digit (zeros w (dec n))" by (simp add: zeros_def list_all_dec)
qed (simp_all add: zeros_def digits_value_zeros digits_value_dec)

lemma length_dec: "n < 10 ^ k \<Longrightarrow> 0 < k \<Longrightarrow> length (dec n) \<le> k"
proof (induction k arbitrary: n)
  case (Suc k)
  show ?case
  proof (cases "n < 10")
    case True
    then show ?thesis by (subst dec.simps) simp
  next
    case False
    then have "0 < k" using Suc.prems by (cases k) auto
    then have "length (dec (n div 10)) \<le> k" using Suc.prems by (intro Suc.IH) auto
    then show ?thesis using False by (subst dec.simps) simp
  qed
qed simp

lemma length_zeros: "n < 10 ^ k \<Longrightarrow> 0 < k \<Longrightarrow> k \<le> w \<Longrightarrow> length (zeros w (dec n)) = w"
  using length_dec [of n k] by (simp add: zeros_def)

section \<open>Fields\<close>

text \<open>A separator without digits, a number, and what follows does not start with a digit.\<close>

lemma string_get_field_number:
  assumes "list_all (\<lambda>c. \<not> is_digit c) sep" "list_all is_digit ds" "ds \<noteq> []" "rest = [] \<or> \<not> is_digit (hd rest)"
  shows "string_get_field (sep @ ds @ rest) = Some (digits_value 0 ds, rest)"
proof -
  obtain c ds' where ds: "ds = c # ds'" "is_digit c" using assms(2,3) by (cases ds) auto
  have r: "dropWhile (\<lambda>c. \<not> is_digit c) (sep @ ds @ rest) = ds @ rest"
    using assms(1) ds by (induction sep) auto
  have "takeWhile is_digit (ds @ rest) = ds" "dropWhile is_digit (ds @ rest) = rest"
    using assms(2,4) by (induction ds; cases rest; auto)+
  then show ?thesis unfolding string_get_field_def Let_def r using ds(1) by simp
qed

lemma fmt_0d_nonneg: "0 \<le> n \<Longrightarrow> fmt_0d w n = zeros w (dec (nat n))"
  by (simp add: fmt_0d_def)

lemma get_fmt_0d:
  assumes "0 \<le> n" "list_all (\<lambda>c. \<not> is_digit c) sep" "rest = [] \<or> \<not> is_digit (hd rest)"
  shows "string_get_field (sep @ fmt_0d w n @ rest) = Some (n, rest)"
  using string_get_field_number [OF assms(2) zeros_digits(1,2) assms(3), of w "nat n"] assms(1)
  by (simp add: fmt_0d_nonneg zeros_digits(3))

lemma get_signed_nonneg:
  assumes "0 \<le> n" "rest = [] \<or> \<not> is_digit (hd rest)"
  shows "string_get_signed_field (fmt_0d w n @ rest) = Some (n, rest)"
proof -
  obtain c cs where z: "zeros w (dec (nat n)) = c # cs" "is_digit c"
    using zeros_digits(1,2) [of w "nat n"] by (cases "zeros w (dec (nat n))") auto
  then have "c \<noteq> 45" "c \<noteq> 43" by (auto simp: is_digit_def)
  then show ?thesis using get_fmt_0d [OF assms(1) _ assms(2), of "[]" w] z assms(1)
    by (simp add: string_get_signed_field_def fmt_0d_nonneg)
qed

lemma get_signed_prefixed:
  assumes "sg = 45 \<or> sg = 43" "rest = [] \<or> \<not> is_digit (hd rest)"
  shows "string_get_signed_field (sg # zeros w (dec k) @ rest) = Some (if sg = 45 then - int k else int k, rest)"
  using string_get_field_number [OF _ zeros_digits(1,2) assms(2), of "[]" w k] assms(1)
  by (auto simp: string_get_signed_field_def zeros_digits(3))

lemma get_year_fmt:
  assumes "rest = [] \<or> \<not> is_digit (hd rest)"
  shows "string_get_signed_field (year_fmt y @ rest) = Some (y, rest)"
proof (cases "y < 0")
  case True
  then show ?thesis using get_signed_prefixed [of 45 rest 4 "nat (- y)"] assms by (simp add: year_fmt_def fmt_0d_def)
qed (use get_signed_nonneg [of y rest 4] assms in \<open>simp add: year_fmt_def\<close>)

lemma get_plus_fmt:
  assumes "rest = [] \<or> \<not> is_digit (hd rest)"
  shows "string_get_signed_field (fmt_plus_0d w y @ rest) = Some (y, rest)"
  using get_signed_prefixed [of "if y < 0 then 45 else 43" rest "w - 1" "nat \<bar>y\<bar>"] assms by (auto simp: fmt_plus_0d_def)

section \<open>Properties\<close>

lemma fields_cases:
  assumes "valid_fields f"
  obtains y mo dd h m s ms wd z where "f = [y, mo, dd, h, m, s, ms, wd, z]" "0 \<le> mo" "mo < 12" "1 \<le> dd" "dd \<le> month_length y (nat mo)"
    "0 \<le> h" "h < 24" "0 \<le> m" "m < 60" "0 \<le> s" "s < 60" "0 \<le> ms" "ms < 1000"
proof -
  obtain y mo dd h m s ms wd z where f: "f = [y, mo, dd, h, m, s, ms, wd, z]"
    using assms by (auto simp: valid_fields_def length_Suc_conv numeral_eq_Suc)
  show thesis by (rule that [OF f]) (use assms in \<open>simp_all add: f valid_fields_def\<close>)
qed

lemma codes_simps [simp]: "codes [] = []" "codes (c # s) = of_char c # codes s"
  by (simp_all add: codes_def)

lemma not_digits [simp]: "\<not> is_digit 32" "\<not> is_digit 43" "\<not> is_digit 44" "\<not> is_digit 45" "\<not> is_digit 46" "\<not> is_digit 58" "\<not> is_digit 84"
    "\<not> is_digit 90" "\<not> is_digit 71"
  by (simp_all add: is_digit_def)

text \<open>Three digits after the point are the milliseconds.\<close>

lemma zeros_3: "n < 1000 \<Longrightarrow> zeros 3 (dec n) = [48 + n div 100, 48 + n div 10 mod 10, 48 + n mod 10]"
proof -
  assume n: "n < 1000"
  consider "n < 10" | "10 \<le> n" "n < 100" | "100 \<le> n" by linarith
  then show ?thesis
  proof cases
    case 1
    then show ?thesis by (subst dec.simps) (simp add: zeros_def numeral_2_eq_2)
  next
    case 2
    then have "dec n = [48 + n div 10, 48 + n mod 10]" by (subst dec.simps, subst dec.simps) simp
    then show ?thesis using 2 by (simp add: zeros_def)
  next
    case 3
    have "\<not> n div 10 < 10" "n div 100 < 10" using 3 n by simp_all
    then have "dec n = [48 + n div 100, 48 + n div 10 mod 10, 48 + n mod 10]"
      using 3 by (simp add: dec.simps [of n] dec.simps [of "n div 10"] dec.simps [of "n div 100"] div_mult2_eq [symmetric])
    then show ?thesis by (simp add: zeros_def)
  qed
qed

lemma iso_millis_3:
  assumes "0 \<le> ms" "ms < 1000" "\<not> is_digit c"
  shows "iso_millis (fmt_0d 3 ms @ c # rest) 1000 0 = (ms, c # rest)"
proof -
  define n where "n = nat ms"
  have n: "n < 1000" "ms = int n" using assms by (simp_all add: n_def)
  have d: "is_digit (48 + n div 100)" "is_digit (48 + n div 10 mod 10)" "is_digit (48 + n mod 10)"
    using n(1) by (simp_all add: is_digit_def)
  have "n div 100 * 100 + n div 10 mod 10 * 10 + n mod 10 = n"
  proof -
    have "n div 100 = n div 10 div 10" using div_mult2_eq [of n 10 10] by simp
    then show ?thesis using div_mult_mod_eq [of n 10] div_mult_mod_eq [of "n div 10" 10] by linarith
  qed
  from arg_cong [OF this, of int] have "int (n div 100) * 100 + int (n div 10 mod 10) * 10 + int (n mod 10) = int n"
    by (simp only: of_nat_add of_nat_mult of_nat_numeral)
  then show ?thesis using d assms(3) n by (simp add: fmt_0d_nonneg zeros_3 sdiv_nonneg)
qed

lemma iso_year:
  assumes "rest = [] \<or> \<not> is_digit (hd rest)"
  shows "string_get_signed_field ((if y \<ge> 0 \<and> y \<le> 9999 then fmt_0d 4 y else fmt_plus_0d 7 y) @ rest) = Some (y, rest)"
  using get_signed_nonneg [OF _ assms, of y 4] get_plus_fmt [OF assms, of 7 y] by simp

lemma iso_starts: "\<exists>c cs. (if y \<ge> 0 \<and> y \<le> 9999 then fmt_0d 4 y else fmt_plus_0d 7 y) = c # cs \<and> (is_digit c \<or> c = 43 \<or> c = 45)"
  using zeros_digits(1,2) [of 4 "nat y"] by (cases "zeros 4 (dec (nat y))") (auto simp: fmt_plus_0d_def fmt_0d_nonneg)

lemma parse_iso_string:
  assumes "valid_fields f"
  shows "parse_iso (date_string 2 3 f) = Some (take 7 f, 0)"
proof -
  obtain y mo dd h m s ms wd z where f: "f = [y, mo, dd, h, m, s, ms, wd, z]"
    and v: "0 \<le> mo" "mo < 12" "1 \<le> dd" "dd \<le> month_length y (nat mo)" "0 \<le> h" "h < 24" "0 \<le> m" "m < 60" "0 \<le> s" "s < 60" "0 \<le> ms" "ms < 1000"
    by (rule fields_cases [OF assms])
  define s6 where "s6 = 46 # fmt_0d 3 ms @ [90]"
  define s5 where "s5 = [58] @ fmt_0d 2 s @ s6"
  define s4 where "s4 = [58] @ fmt_0d 2 m @ s5"
  define s3 where "s3 = [84] @ fmt_0d 2 h @ s4"
  define s2 where "s2 = [45] @ fmt_0d 2 dd @ s3"
  define s1 where "s1 = [45] @ fmt_0d 2 (mo + 1) @ s2"
  have str: "date_string 2 3 f = (if y \<ge> 0 \<and> y \<le> 9999 then fmt_0d 4 y else fmt_plus_0d 7 y) @ s1"
    by (simp add: date_string_def date_part_def time_part_def hms_def f s1_def s2_def s3_def s4_def s5_def s6_def)
  have g: "string_get_field s1 = Some (mo + 1, s2)" "string_get_field s2 = Some (dd, s3)" "string_get_field s3 = Some (h, s4)"
    "string_get_field s4 = Some (m, s5)" "string_get_field s5 = Some (s, s6)"
    unfolding s1_def s2_def s3_def s4_def s5_def using v
    by ((subst get_fmt_0d; simp add: s2_def s3_def s4_def s5_def s6_def)+)
  have y: "string_get_signed_field (date_string 2 3 f) = Some (y, s1)"
    unfolding str by (rule iso_year) (simp add: s1_def)
  have ms: "iso_millis (tl s6) 1000 0 = (ms, [90])" using iso_millis_3 [of ms 90 "[]"] v by (simp add: s6_def)
  have i: "iso_fields 5 1 s1 [y, 1, 1, 0, 0, 0, 0] = (6, s6, [y, mo + 1, dd, h, m, s, 0])"
    by (simp add: numeral_eq_Suc g)
  have "s6 \<noteq> []" "hd s6 = 46" "\<not> starts_signed [90]" by (simp_all add: s6_def starts_signed_def)
  then show ?thesis unfolding parse_iso_def y option.case prod.case Let_def i ms by (simp add: ms f)
qed

text \<open>
  C14. \<open>Date.parse\<close> reads back what \<open>toISOString\<close> prints: for every valid time value, years before 0 and after
  9999 with their signed six digit form included, the parsed date is the same millisecond.
\<close>

theorem iso_string_roundtrip:
  assumes "in_clip t"
  shows "\<exists>s. get_date_string gmtoff (DateObject (Some t)) 0x23 = Inr s \<and> js_Date_parse gmtoff s = Some t"
proof -
  let ?f = "date_fields_of t 0"
  note v = date_fields_of_spec [of t 0]
  let ?s = "date_string 2 3 ?f"
  obtain c cs where c: "?s = c # cs" "is_digit c \<or> c = 43 \<or> c = 45"
    using iso_starts [of "?f ! 0"] by (auto simp: date_string_def date_part_def Let_def)
  have "parse_iso ?s = Some (take 7 ?f, 0)" by (rule parse_iso_string) (use v in simp)
  moreover have "set_date_fields gmtoff (take 7 ?f) False = Some t"
    using v assms unfolding set_date_fields_take by (simp add: set_date_fields_utc)
  ultimately have "js_Date_parse gmtoff ?s = Some t" unfolding js_Date_parse_def using c by simp
  moreover have "get_date_string gmtoff (DateObject (Some t)) 0x23 = Inr ?s"
    by (simp add: get_date_string_def JS_ThisTimeValue_def get_date_fields_def)
  ultimately show ?thesis by blast
qed

theorem iso_string_roundtrip_witness:
  "\<exists>s. get_date_string (\<lambda>_. 0) (DateObject (Some (- 62198755200000))) 0x23 = Inr s \<and> js_Date_parse (\<lambda>_. 0) s = Some (- 62198755200000)"
  by (rule iso_string_roundtrip) (simp add: in_clip_def)

subsection \<open>The other two formats\<close>

definition month_code :: "nat \<Rightarrow> nat list" where
  "month_code n = take 3 (drop (n * 3) month_names)"

lemma find_abbrev_loop_first:
  "n \<le> m \<Longrightarrow> m < n + k \<Longrightarrow> take 3 s = month_code m \<Longrightarrow> (\<forall>j < m. month_code j \<noteq> month_code m) \<Longrightarrow> find_abbrev_loop s n k = Some m"
proof (induction k arbitrary: n)
  case (Suc k)
  show ?case
  proof (cases "n = m")
    case True
    then show ?thesis using Suc.prems by (simp add: month_code_def)
  next
    case False
    then have "month_code n \<noteq> month_code m" using Suc.prems(1,4) by simp
    then have "take 3 s \<noteq> take 3 (drop (n * 3) month_names)" using Suc.prems(3) by (simp add: month_code_def)
    then show ?thesis using Suc.prems False by (simp add: Suc.IH)
  qed
qed simp

lemma month_codes: "list_all (\<lambda>m. length (month_code m) = 3 \<and> hd (month_code m) \<noteq> 32 \<and> \<not> is_digit (hd (month_code m))
    \<and> list_all (\<lambda>j. month_code j \<noteq> month_code m) [0..<m]) [0..<12]"
  by code_simp

lemma month_code_spec:
  assumes "m < 12"
  obtains a b c where "month_code m = [a, b, c]" "a \<noteq> 32" "\<not> is_digit a" "\<forall>j < m. month_code j \<noteq> month_code m"
proof -
  have h: "length (month_code m) = 3" "hd (month_code m) \<noteq> 32" "\<not> is_digit (hd (month_code m))" "\<forall>j < m. month_code j \<noteq> month_code m"
    using month_codes assms unfolding list_all_iff by auto
  moreover obtain a b c where "month_code m = [a, b, c]"
    using h(1) by (auto simp: length_Suc_conv numeral_3_eq_3)
  ultimately show thesis by (intro that) auto
qed

lemma find_month:
  assumes "0 \<le> mo" "mo < 12"
  shows "string_get_month (32 # abbrev month_names mo @ rest) = Some (mo, rest)"
    and "string_get_month (abbrev month_names mo @ rest) = Some (mo, rest)"
proof -
  have m: "nat mo < 12" and e: "abbrev month_names mo = month_code (nat mo)" using assms by (simp_all add: abbrev_def month_code_def)
  obtain a b c where k: "month_code (nat mo) = [a, b, c]" "a \<noteq> 32" "\<not> is_digit a" "\<forall>j < nat mo. month_code j \<noteq> month_code (nat mo)"
    by (rule month_code_spec [OF m])
  have "find_abbrev_loop (a # b # c # rest) 0 12 = Some (nat mo)"
    by (rule find_abbrev_loop_first) (use m k in simp_all)
  then show "string_get_month (32 # abbrev month_names mo @ rest) = Some (mo, rest)"
    and "string_get_month (abbrev month_names mo @ rest) = Some (mo, rest)"
    using k assms unfolding e by (simp_all add: string_get_month_def string_skip_spaces_def find_abbrev_def)
qed

lemma day_codes: "list_all (\<lambda>d. length (abbrev day_names (int d)) = 3 \<and> list_all (\<lambda>c. c \<noteq> 32 \<and> \<not> is_digit c \<and> c \<noteq> 43 \<and> c \<noteq> 45)
    (abbrev day_names (int d))) [0..<7]"
  by code_simp

lemma day_code_spec:
  assumes "0 \<le> wd" "wd < 7"
  obtains a b c where "abbrev day_names wd = [a, b, c]" "a \<noteq> 32" "b \<noteq> 32" "c \<noteq> 32" "\<not> is_digit a" "a \<noteq> 43" "a \<noteq> 45"
proof -
  have "nat wd \<in> set [0..<7]" "int (nat wd) = wd" using assms by auto
  then have h: "length (abbrev day_names wd) = 3" "\<forall>c \<in> set (abbrev day_names wd). c \<noteq> 32 \<and> \<not> is_digit c \<and> c \<noteq> 43 \<and> c \<noteq> 45"
    using day_codes unfolding list_all_iff by fastforce+
  moreover obtain a b c where "abbrev day_names wd = [a, b, c]"
    using h(1) by (auto simp: length_Suc_conv numeral_3_eq_3)
  ultimately show thesis by (intro that) auto
qed

lemma date_fields_of_wd: "0 \<le> date_fields_of d tz ! 7 \<and> date_fields_of d tz ! 7 < 7" "date_fields_of d tz ! 8 = tz"
  by (simp_all add: date_fields_of_def Let_def math_mod_eq split: prod.splits)

lemma skip_sign: "string_skip_spaces (32 # year_fmt y @ rest) = year_fmt y @ rest"
proof -
  obtain c cs where "zeros 4 (dec (nat y)) = c # cs" "is_digit c"
    using zeros_digits(1,2) [of 4 "nat y"] by (cases "zeros 4 (dec (nat y))") auto
  then show ?thesis by (auto simp: year_fmt_def fmt_0d_def string_skip_spaces_def is_digit_def)
qed

lemma fmt_0d_starts: "0 \<le> n \<Longrightarrow> \<exists>c cs. fmt_0d w n = c # cs \<and> is_digit c"
  using zeros_digits(1,2) [of w "nat n"] by (cases "zeros w (dec (nat n))") (auto simp: fmt_0d_nonneg)

text \<open>Year, time and offset, the common end of both formats.\<close>

definition parse_rest :: "int \<Rightarrow> int \<Rightarrow> nat list \<Rightarrow> (int list \<times> int) option" where
  "parse_rest d mon s1 =
     do {
       (y, s2) \<leftarrow> string_get_signed_field (string_skip_spaces s1);
       (h, s3) \<leftarrow> string_get_field s2;
       (m, s4) \<leftarrow> string_get_field s3;
       (s, s5) \<leftarrow> string_get_field s4;
       tz \<leftarrow> parse_offset s5;
       Some ([y, mon, d, h, m, s, 0], tz)
     }"

lemma parse_rest_string:
  assumes "valid_fields f" "rest \<noteq> []" "\<not> is_digit (hd rest)"
  shows "parse_rest d mon (32 # year_fmt (f ! 0) @ 32 # hms f @ rest)
    = map_option (\<lambda>tz. ([f ! 0, mon, d, f ! 3, f ! 4, f ! 5, 0], tz)) (parse_offset rest)"
proof -
  have v: "0 \<le> f ! 3" "0 \<le> f ! 4" "0 \<le> f ! 5" using assms(1) by (simp_all add: valid_fields_def)
  define s4 where "s4 = [58] @ fmt_0d 2 (f ! 5) @ rest"
  define s3 where "s3 = [58] @ fmt_0d 2 (f ! 4) @ s4"
  define s2 where "s2 = [32] @ fmt_0d 2 (f ! 3) @ s3"
  have e: "32 # hms f @ rest = s2" by (simp add: hms_def s2_def s3_def s4_def)
  have g: "string_get_field s2 = Some (f ! 3, s3)" "string_get_field s3 = Some (f ! 4, s4)" "string_get_field s4 = Some (f ! 5, rest)"
    unfolding s2_def s3_def s4_def using v assms(2,3) by (subst get_fmt_0d; simp add: s3_def s4_def)+
  have y: "string_get_signed_field (year_fmt (f ! 0) @ s2) = Some (f ! 0, s2)" by (rule get_year_fmt) (simp add: s2_def)
  show ?thesis unfolding parse_rest_def e skip_sign y
    by (cases "parse_offset rest") (simp_all add: g)
qed

lemma parse_text_alt: "parse_text s0 = do {
       (d, mon, s1) \<leftarrow> parse_day_month (string_skip_spaces (string_skip_non_spaces s0));
       parse_rest d mon s1 }"
  by (simp add: parse_text_def parse_rest_def)

lemma parse_utc_string:
  assumes "valid_fields f" "0 \<le> f ! 7" "f ! 7 < 7"
  shows "parse_text (date_string 0 3 f) = Some ([f ! 0, f ! 1, f ! 2, f ! 3, f ! 4, f ! 5, 0], 0)"
proof -
  have v: "0 \<le> f ! 2" "0 \<le> f ! 1" "f ! 1 < 12" using assms(1) by (simp_all add: valid_fields_def)
  obtain a b c where k: "abbrev day_names (f ! 7) = [a, b, c]" "a \<noteq> 32" "b \<noteq> 32" "c \<noteq> 32"
    by (rule day_code_spec [OF assms(2,3)])
  define r where "r = 32 # year_fmt (f ! 0) @ 32 # hms f @ codes '' GMT''"
  define q where "q = fmt_0d 2 (f ! 2) @ 32 # abbrev month_names (f ! 1) @ r"
  obtain x xs where x: "fmt_0d 2 (f ! 2) = x # xs" "is_digit x" using fmt_0d_starts [OF v(1)] by blast
  have "date_string 0 3 f = [a, b, c, 44, 32] @ q"
    by (simp add: date_string_def date_part_def time_part_def k q_def r_def)
  then have skip: "string_skip_spaces (string_skip_non_spaces (date_string 0 3 f)) = q"
    using k x by (auto simp: string_skip_spaces_def string_skip_non_spaces_def q_def is_digit_def)
  have "string_get_field q = Some (f ! 2, 32 # abbrev month_names (f ! 1) @ r)"
    using get_fmt_0d [of "f ! 2" "[]" "32 # abbrev month_names (f ! 1) @ r" 2] v by (simp add: q_def)
  then have dm: "parse_day_month q = Some (f ! 2, f ! 1, r)"
    using find_month(1) [OF v(2,3), of r] x by (simp add: parse_day_month_def) (simp add: q_def)
  have "parse_offset (codes '' GMT'') = Some 0" by (simp add: parse_offset_def)
  then show ?thesis unfolding parse_text_alt skip dm using parse_rest_string [OF assms(1), of "codes '' GMT''" "f ! 2" "f ! 1"]
    by (simp add: r_def)
qed

lemma zeros_2: "n < 100 \<Longrightarrow> zeros 2 (dec n) = [48 + n div 10, 48 + n mod 10]"
proof -
  assume "n < 100"
  then have "n div 10 < 10" by simp
  then show ?thesis by (simp add: dec.simps [of n] dec.simps [of "n div 10"] zeros_def)
qed

lemma get_digits_2:
  assumes "0 \<le> n" "n < 100"
  shows "string_get_digits (fmt_0d 2 n @ rest) 2 = Some (n, rest)"
proof -
  have z: "zeros 2 (dec (nat n)) = [48 + nat n div 10, 48 + nat n mod 10]" using zeros_2 [of "nat n"] assms by simp
  have "digits_value 0 [48 + nat n div 10, 48 + nat n mod 10] = n"
    using zeros_digits(3) [of 2 "nat n"] assms(1) unfolding z by simp
  moreover have "is_digit (48 + nat n div 10)" using assms by (intro is_digit_48) simp
  ultimately show ?thesis using assms(1) by (simp add: string_get_digits_def fmt_0d_nonneg z)
qed

definition offset_part :: "int \<Rightarrow> nat list" where
  "offset_part tz = codes '' GMT'' @ (if tz < 0 then codes ''-'' else codes ''+'')
     @ fmt_0d 2 (\<bar>tz\<bar> sdiv 60) @ fmt_0d 2 (\<bar>tz\<bar> smod 60)"

lemma parse_offset_part:
  assumes "\<bar>tz\<bar> < 6000"
  shows "parse_offset (offset_part tz) = Some tz"
proof -
  define a where "a = \<bar>tz\<bar>"
  have b: "0 \<le> a div 60" "a div 60 < 100" "0 \<le> a mod 60" "a mod 60 < 100"
    using assms pos_mod_bound [of 60 a] by (simp_all add: a_def pos_imp_zdiv_nonneg_iff)
  have g: "string_get_digits (fmt_0d 2 (a div 60) @ fmt_0d 2 (a mod 60)) 2 = Some (a div 60, fmt_0d 2 (a mod 60))"
    "string_get_digits (fmt_0d 2 (a mod 60)) 2 = Some (a mod 60, [])"
    using get_digits_2 [OF b(1,2)] get_digits_2 [OF b(3,4), of "[]"] by simp_all
  have a: "0 \<le> a" by (simp add: a_def)
  have e: "- (a div 60 * 60) - a mod 60 = - a" "a div 60 * 60 + a mod 60 = a"
    using div_mult_mod_eq [of a 60] by linarith+
  show ?thesis unfolding offset_part_def a_def [symmetric] sdiv_nonneg [OF a, of 60, simplified] smod_nonneg [OF a, of 60, simplified]
    by (simp add: parse_offset_def g e) (simp add: a_def)
qed

lemma parse_local_string:
  assumes "valid_fields f" "0 \<le> f ! 7" "f ! 7 < 7" "\<bar>f ! 8\<bar> < 6000"
  shows "parse_text (date_string 1 3 f) = Some ([f ! 0, f ! 1, f ! 2, f ! 3, f ! 4, f ! 5, 0], f ! 8)"
proof -
  have v: "0 \<le> f ! 2" "0 \<le> f ! 1" "f ! 1 < 12" using assms(1) by (simp_all add: valid_fields_def)
  obtain a b c where k: "abbrev day_names (f ! 7) = [a, b, c]" "a \<noteq> 32" "b \<noteq> 32" "c \<noteq> 32"
    by (rule day_code_spec [OF assms(2,3)])
  define r where "r = 32 # year_fmt (f ! 0) @ 32 # hms f @ offset_part (f ! 8)"
  define q where "q = abbrev month_names (f ! 1) @ [32] @ fmt_0d 2 (f ! 2) @ r"
  have "nat (f ! 1) < 12" "abbrev month_names (f ! 1) = month_code (nat (f ! 1))" using v by (simp_all add: abbrev_def month_code_def)
  then obtain x xs where x: "q = x # xs" "x \<noteq> 32" "\<not> is_digit x" using month_code_spec unfolding q_def by (metis append_Cons)
  have "date_string 1 3 f = [a, b, c, 32] @ q"
    by (simp add: date_string_def date_part_def time_part_def k q_def r_def offset_part_def Let_def)
  then have skip: "string_skip_spaces (string_skip_non_spaces (date_string 1 3 f)) = q"
    using k x by (auto simp: string_skip_spaces_def string_skip_non_spaces_def)
  have "string_get_field ([32] @ fmt_0d 2 (f ! 2) @ r) = Some (f ! 2, r)"
    by (rule get_fmt_0d) (use v in \<open>simp_all add: r_def\<close>)
  moreover have "string_get_month q = Some (f ! 1, [32] @ fmt_0d 2 (f ! 2) @ r)"
    unfolding q_def by (rule find_month(2) [OF v(2,3)])
  ultimately have dm: "parse_day_month q = Some (f ! 2, f ! 1, r)" using x by (simp add: parse_day_month_def)
  have "offset_part (f ! 8) \<noteq> []" "\<not> is_digit (hd (offset_part (f ! 8)))" by (simp_all add: offset_part_def)
  from parse_rest_string [OF assms(1) this, of "f ! 2" "f ! 1"] show ?thesis
    unfolding parse_text_alt skip dm using parse_offset_part [OF assms(4)] by (simp add: r_def)
qed

lemma date_fields_of_second: "time_of (let f = date_fields_of d tz in [f ! 0, f ! 1, f ! 2, f ! 3, f ! 4, f ! 5, 0]) = d - d mod 1000"
proof -
  let ?f = "date_fields_of d tz"
  have "?f ! 6 = d mod 1000"
    by (simp add: date_fields_of_def Let_def math_mod_eq smod_nonneg mod_mod_cancel split: prod.splits)
  moreover have "time_of [?f ! 0, ?f ! 1, ?f ! 2, ?f ! 3, ?f ! 4, ?f ! 5, 0] = time_of ?f - ?f ! 6"
    by (simp add: time_of_def set_date_days_def set_date_ms_def)
  ultimately show ?thesis using date_fields_of_spec(2) [of d tz] by (simp add: Let_def)
qed

lemma text_not_iso:
  assumes "0 \<le> f ! 7" "f ! 7 < 7" "fmt = 0 \<or> fmt = 1"
  shows "\<exists>c cs. date_string fmt 3 f = c # cs \<and> \<not> is_digit c \<and> c \<noteq> 43 \<and> c \<noteq> 45"
proof -
  obtain a b c where k: "abbrev day_names (f ! 7) = [a, b, c]" "\<not> is_digit a" "a \<noteq> 43" "a \<noteq> 45"
    by (rule day_code_spec [OF assms(1,2)])
  then show ?thesis using assms(3) by (auto simp: date_string_def date_part_def Let_def)
qed

lemma parse_printed:
  assumes "fmt = 0 \<and> tz = 0 \<or> fmt = 1 \<and> \<bar>tz\<bar> < 6000" "in_clip (d - d mod 1000)"
  shows "js_Date_parse gmtoff (date_string fmt 3 (date_fields_of d tz)) = Some (d - d mod 1000 - tz * 60000)"
proof -
  let ?f = "date_fields_of d tz"
  note v = date_fields_of_spec [of d tz] date_fields_of_wd [of d tz]
  have "parse_text (date_string fmt 3 ?f) = Some ([?f ! 0, ?f ! 1, ?f ! 2, ?f ! 3, ?f ! 4, ?f ! 5, 0], tz)"
    using assms(1) parse_utc_string [of ?f] parse_local_string [of ?f] v by auto
  then show ?thesis
    using text_not_iso [of ?f fmt] v assms date_fields_of_second [of d tz]
    by (auto simp: js_Date_parse_def set_date_fields_utc Let_def)
qed

lemma in_clip_second: "in_clip t \<Longrightarrow> in_clip (t - t mod 1000)"
proof -
  assume "in_clip t"
  then have "- 8640000000000 \<le> t div 1000" "t div 1000 \<le> 8640000000000" by (auto simp: in_clip_def)
  then show ?thesis by (simp add: in_clip_def minus_mod_eq_mult_div)
qed



subsection \<open>The buffer and the local format\<close>

lemma length_fmt: "0 \<le> n \<Longrightarrow> n < 100 \<Longrightarrow> length (fmt_0d 2 n) = 2"
  using length_zeros [of "nat n" 2 2] by (simp add: fmt_0d_nonneg nat_less_iff)

lemma length_fmt_small: "- 10 < n \<Longrightarrow> n < 100 \<Longrightarrow> length (fmt_0d 2 n) = 2"
  using length_fmt [of n] length_zeros [of "nat (- n)" 1 1] by (auto simp: fmt_0d_def nat_less_iff)

lemma length_year:
  assumes "\<bar>y\<bar> < 1000000"
  shows "length (year_fmt y) \<le> 7" "length (if y \<ge> 0 \<and> y \<le> 9999 then fmt_0d 4 y else fmt_plus_0d 7 y) \<le> 7"
proof -
  have "length (dec (nat \<bar>y\<bar>)) \<le> 6" using assms by (intro length_dec) auto
  then show "length (year_fmt y) \<le> 7" "length (if y \<ge> 0 \<and> y \<le> 9999 then fmt_0d 4 y else fmt_plus_0d 7 y) \<le> 7"
    by (auto simp: year_fmt_def fmt_0d_def fmt_plus_0d_def zeros_def)
qed

lemma length_abbrev: "length (abbrev names i) \<le> 3"
  by (simp add: abbrev_def)

lemma length_fields:
  assumes "valid_fields f"
  shows "length (fmt_0d 2 (f ! 1 + 1)) = 2" "length (fmt_0d 2 (f ! 2)) = 2" "length (hms f) = 8" "length (fmt_0d 3 (f ! 6)) = 3"
    "length (fmt_0d 2 ((f ! 3 + 1) smod 12 - 1)) = 2" "length (fmt_0d 2 (f ! 4)) = 2" "length (fmt_0d 2 (f ! 5)) = 2"
proof -
  have v: "0 \<le> f ! 1" "f ! 1 < 12" "1 \<le> f ! 2" "f ! 2 \<le> month_length (f ! 0) (nat (f ! 1))" "0 \<le> f ! 3" "f ! 3 < 24"
    "0 \<le> f ! 4" "f ! 4 < 60" "0 \<le> f ! 5" "f ! 5 < 60" "0 \<le> f ! 6" "f ! 6 < 1000"
    using assms by (simp_all add: valid_fields_def)
  have "f ! 2 \<le> 31" using order_trans [OF v(4) month_length_max] v(1,2) by simp
  then show "length (fmt_0d 2 (f ! 1 + 1)) = 2" "length (fmt_0d 2 (f ! 2)) = 2" "length (fmt_0d 2 (f ! 4)) = 2" "length (fmt_0d 2 (f ! 5)) = 2"
    using v by (auto intro!: length_fmt)
  moreover have "length (fmt_0d 2 (f ! 3)) = 2" using v by (intro length_fmt) simp_all
  ultimately show "length (hms f) = 8" by (simp add: hms_def)
  have "0 \<le> (f ! 3 + 1) mod 12" "(f ! 3 + 1) mod 12 < 12" by simp_all
  then show "length (fmt_0d 2 ((f ! 3 + 1) smod 12 - 1)) = 2" using v by (intro length_fmt_small) (simp_all add: smod_nonneg)
  show "length (fmt_0d 3 (f ! 6)) = 3" using v length_zeros [of "nat (f ! 6)" 3 3] by (simp add: fmt_0d_nonneg nat_less_iff)
qed

text \<open>
  No date overflows the buffer of 64 characters that \<open>get_date_string\<close> prints into: for every format, part
  and time zone, the text of a date in range has at most 36 characters.
\<close>

theorem date_string_fits:
  assumes "in_clip d" "\<bar>tz\<bar> < 6000"
  shows "length (date_string fmt part (date_fields_of d tz)) \<le> 36"
proof -
  let ?f = "date_fields_of d tz"
  note l = length_fields [OF date_fields_of_spec(1) [of d tz]]
  have y: "\<bar>?f ! 0\<bar> < 1000000" using year_range [OF assms(1), of tz] by linarith
  have "\<bar>?f ! 8\<bar> div 60 < 100" "0 \<le> \<bar>?f ! 8\<bar> div 60" "\<bar>?f ! 8\<bar> mod 60 < 100"
    using assms(2) pos_mod_bound [of 60 "\<bar>?f ! 8\<bar>"] by (simp_all add: date_fields_of_wd(2) pos_imp_zdiv_nonneg_iff)
  then have tz: "length (fmt_0d 2 (\<bar>?f ! 8\<bar> sdiv 60)) = 2" "length (fmt_0d 2 (\<bar>?f ! 8\<bar> smod 60)) = 2"
    by (simp_all add: length_fmt sdiv_nonneg smod_nonneg)
  have a: "(if z < 0 then - z else z) = \<bar>z :: int\<bar>" for z by simp
  note n = length_year [OF y] length_abbrev [of day_names "?f ! 7"] length_abbrev [of month_names "?f ! 1"]
  consider "fmt = 0" | "fmt = 1" | "fmt = 2" | "fmt = 3" | "3 < fmt" by linarith
  then show ?thesis unfolding date_string_def date_part_def time_part_def Let_def a
    by cases (use n l tz in simp_all)
qed

theorem date_string_fits_witness: "length (date_string 1 3 (date_fields_of (- 8640000000000000) (- 60))) \<le> 36"
  by (rule date_string_fits) (simp_all add: in_clip_def)



end
