(* ===== verification/QJS_GC.thy ===== *)
theory QJS_GC
  imports Prelude
begin

text \<open>
  The cycle collector of \<open>quickjs.c\<close> (\<open>JS_RunGC\<close> and what it calls). Every object, shape, function bytecode,
  variable reference and asynchronous function of the heap is a node with an address; the heap is a function
  from addresses to nodes. The fields of the runtime that the collector changes, reference counts, marks, the
  lists of objects, form the record \<open>gc_state\<close>. An assertion of the code that fails is the result \<open>None\<close>.

  The recursive functions of the code call each other through \<open>mark_children\<close>; the recursion depth is bounded by
  the fuel argument, and \<open>None\<close> is also the result when it is used up. Theorems about the collector show that a
  fuel above the number of nodes is always enough, so that \<open>None\<close> never arises.

  What the \<open>gc_mark\<close> callback of an object's class marks, and the contents of the stack frame of a suspended
  asynchronous function, are lists of values of the node.
\<close>

section \<open>Model\<close>

subsection \<open>Values and nodes\<close>

datatype js_tag = TAG_OBJECT | TAG_FUNCTION_BYTECODE | TAG_VAR_REF | TAG_ASYNC_FUNCTION | TAG_SHAPE
  | TAG_OTHER_REF | TAG_IMMEDIATE

record JSValue =
  tag :: js_tag
  ptr :: nat

definition JS_MKPTR :: "js_tag \<Rightarrow> nat \<Rightarrow> JSValue" where
  "JS_MKPTR t p = \<lparr>tag = t, ptr = p\<rparr>"

definition JS_VALUE_HAS_REF_COUNT :: "JSValue \<Rightarrow> bool" where
  "JS_VALUE_HAS_REF_COUNT v \<longleftrightarrow> tag v \<noteq> TAG_IMMEDIATE"

definition has_children :: "JSValue \<Rightarrow> bool" where
  "has_children v = (case tag v of
     TAG_VAR_REF \<Rightarrow> True | TAG_OBJECT \<Rightarrow> True | TAG_FUNCTION_BYTECODE \<Rightarrow> True | TAG_ASYNC_FUNCTION \<Rightarrow> True
   | TAG_SHAPE \<Rightarrow> True | _ \<Rightarrow> False)"

text \<open>The four kinds of \<open>JS_PROP_TMASK\<close>; a deleted property has the null atom.\<close>

datatype JSProperty = PropValue JSValue | PropGetSet "nat option" "nat option" | PropVarRef nat | PropAutoInit

datatype gc_node =
    Object nat "(bool \<times> JSProperty) list" "JSValue list"
  | FunctionBytecode "JSValue list"
  | VarRef bool JSValue
  | AsyncFunction bool JSValue JSValue "JSValue list option" JSValue JSValue
  | Shape "nat option"

type_synonym heap = "nat \<Rightarrow> gc_node"

subsection \<open>Children\<close>

text \<open>\<open>JS_MarkValue\<close> as the list of addresses on which it calls \<open>mark_func\<close>.\<close>

definition JS_MarkValue :: "JSValue \<Rightarrow> nat list" where
  "JS_MarkValue v = (if JS_VALUE_HAS_REF_COUNT v \<and> has_children v then [ptr v] else [])"

definition mark_values :: "JSValue list \<Rightarrow> nat list" where
  "mark_values vs = concat (map JS_MarkValue vs)"

fun mark_property :: "bool \<times> JSProperty \<Rightarrow> nat list" where
  "mark_property (False, pr) = []"
| "mark_property (True, PropGetSet getter setter) =
     (case getter of None \<Rightarrow> [] | Some p \<Rightarrow> [p]) @ (case setter of None \<Rightarrow> [] | Some p \<Rightarrow> [p])"
| "mark_property (True, PropVarRef p) = JS_MarkValue (JS_MKPTR TAG_VAR_REF p)"
| "mark_property (True, PropAutoInit) = []"
| "mark_property (True, PropValue v) = JS_MarkValue v"

definition async_func_mark :: "JSValue \<Rightarrow> JSValue \<Rightarrow> JSValue list option \<Rightarrow> nat list" where
  "async_func_mark cur_func this_val stack =
     JS_MarkValue cur_func @ JS_MarkValue this_val @ (case stack of None \<Rightarrow> [] | Some vs \<Rightarrow> mark_values vs)"

text \<open>The addresses that \<open>mark_children\<close> passes to \<open>mark_func\<close>, in order.\<close>

fun node_children :: "gc_node \<Rightarrow> nat list" where
  "node_children (Object sh props class_marks) = sh # concat (map mark_property props) @ mark_values class_marks"
| "node_children (FunctionBytecode cpool) = mark_values cpool"
| "node_children (VarRef detached value) = (if detached then JS_MarkValue value else [])"
| "node_children (AsyncFunction is_active cur_func this_val stack resolve reject) =
     (if is_active then async_func_mark cur_func this_val stack else []) @ JS_MarkValue resolve @ JS_MarkValue reject"
| "node_children (Shape proto) = (case proto of None \<Rightarrow> [] | Some p \<Rightarrow> [p])"

definition JS_IsObject :: "heap \<Rightarrow> nat \<Rightarrow> bool" where
  "JS_IsObject h p = (case h p of Object _ _ _ \<Rightarrow> True | _ \<Rightarrow> False)"

subsection \<open>State\<close>

text \<open>\<open>el_next\<close> is the element after the current one, \<open>None\<close> when that is the head of the list.\<close>

record gc_state =
  ref_count :: "nat \<Rightarrow> int"
  gmark :: "nat \<Rightarrow> nat"
  obj_list :: "nat list"
  tmp_obj_list :: "nat list"
  el_next :: "nat option"

fun each :: "(nat \<Rightarrow> 's \<Rightarrow> 's option) \<Rightarrow> nat list \<Rightarrow> 's \<Rightarrow> 's option" where
  "each f [] st = Some st"
| "each f (c # cs) st = (case f c st of None \<Rightarrow> None | Some st' \<Rightarrow> each f cs st')"

definition mark_children :: "heap \<Rightarrow> nat \<Rightarrow> (nat \<Rightarrow> gc_state \<Rightarrow> gc_state option) \<Rightarrow> gc_state \<Rightarrow> gc_state option" where
  "mark_children h p mark_func st = each mark_func (node_children (h p)) st"

definition set_mark :: "nat \<Rightarrow> nat \<Rightarrow> gc_state \<Rightarrow> gc_state" where
  "set_mark p m st = st\<lparr>gmark := (gmark st)(p := m)\<rparr>"

definition add_ref :: "nat \<Rightarrow> int \<Rightarrow> gc_state \<Rightarrow> gc_state" where
  "add_ref p d st = st\<lparr>ref_count := (ref_count st)(p := ref_count st p + d)\<rparr>"

subsection \<open>First pass: references from the heap are taken off\<close>

fun gc_decref_mark :: "nat \<Rightarrow> heap \<Rightarrow> nat \<Rightarrow> gc_state \<Rightarrow> gc_state option"
  and gc_decref_child :: "nat \<Rightarrow> heap \<Rightarrow> nat \<Rightarrow> gc_state \<Rightarrow> gc_state option" where
  "gc_decref_mark 0 h p st = None"
| "gc_decref_mark (Suc n) h p st =
     (if gmark st p = 0 then mark_children h p (gc_decref_child n h) (set_mark p 1 st) else Some st)"
| "gc_decref_child n h c st =
     (if ref_count st c > 0 then gc_decref_mark n h c (add_ref c (- 1) st) else None)"

definition gc_decref :: "nat \<Rightarrow> heap \<Rightarrow> gc_state \<Rightarrow> gc_state option" where
  "gc_decref n h st = each (gc_decref_mark n h) (obj_list st) st"

subsection \<open>Second pass: what is referenced from outside is kept\<close>

definition list_next :: "nat list \<Rightarrow> nat \<Rightarrow> nat option" where
  "list_next xs p = (case dropWhile (\<lambda>x. x \<noteq> p) xs of _ # q # _ \<Rightarrow> Some q | _ \<Rightarrow> None)"

definition keep_object :: "nat \<Rightarrow> gc_state \<Rightarrow> gc_state" where
  "keep_object p st =
     (let st = (if el_next st = Some p then st\<lparr>el_next := list_next (tmp_obj_list st) p\<rparr> else st);
          st = st\<lparr>tmp_obj_list := remove1 p (tmp_obj_list st), obj_list := remove1 p (obj_list st)\<rparr> in
      st\<lparr>obj_list := obj_list st @ [p]\<rparr>)"

fun gc_scan_incref :: "nat \<Rightarrow> heap \<Rightarrow> nat \<Rightarrow> gc_state \<Rightarrow> gc_state option"
  and gc_scan_incref_child :: "nat \<Rightarrow> heap \<Rightarrow> nat \<Rightarrow> gc_state \<Rightarrow> gc_state option" where
  "gc_scan_incref 0 h p st = None"
| "gc_scan_incref (Suc n) h p st =
     (let st = set_mark p 0 st;
          st = (if JS_IsObject h p then keep_object p st else st) in
      mark_children h p (gc_scan_incref_child n h) st)"
| "gc_scan_incref_child n h c st =
     (let st = add_ref c 1 st in if gmark st c \<noteq> 0 then gc_scan_incref n h c st else Some st)"

fun gc_scan_obj :: "nat \<Rightarrow> nat \<Rightarrow> heap \<Rightarrow> nat \<Rightarrow> gc_state \<Rightarrow> gc_state option" where
  "gc_scan_obj k 0 h p st = None"
| "gc_scan_obj k (Suc n) h p st =
     (if gmark st p = 1 then
        if ref_count st p > 0 then gc_scan_incref k h p st
        else mark_children h p (gc_scan_obj k n h) (set_mark p 2 st)
      else Some st)"

text \<open>The loop over \<open>tmp_obj_list\<close>, which \<open>gc_scan_incref\<close> shortens while it runs.\<close>

fun gc_scan_loop :: "nat \<Rightarrow> nat \<Rightarrow> heap \<Rightarrow> nat option \<Rightarrow> gc_state \<Rightarrow> gc_state option" where
  "gc_scan_loop l n h None st = Some st"
| "gc_scan_loop 0 n h (Some el) st = None"
| "gc_scan_loop (Suc l) n h (Some el) st =
     (case gc_scan_obj n n h el (st\<lparr>el_next := list_next (tmp_obj_list st) el\<rparr>) of
        None \<Rightarrow> None
      | Some st' \<Rightarrow> gc_scan_loop l n h (el_next st') st')"

subsection \<open>Third pass: the counts of the garbage are restored\<close>

fun gc_scan_obj2 :: "nat \<Rightarrow> heap \<Rightarrow> nat \<Rightarrow> gc_state \<Rightarrow> gc_state option"
  and gc_scan_incref_child2 :: "nat \<Rightarrow> heap \<Rightarrow> nat \<Rightarrow> gc_state \<Rightarrow> gc_state option" where
  "gc_scan_obj2 0 h p st = None"
| "gc_scan_obj2 (Suc n) h p st =
     (if gmark st p = 2 then mark_children h p (gc_scan_incref_child2 n h) (set_mark p 3 st) else Some st)"
| "gc_scan_incref_child2 n h c st = gc_scan_obj2 n h c (add_ref c 1 st)"

definition list_first :: "nat list \<Rightarrow> nat option" where
  "list_first xs = (case xs of [] \<Rightarrow> None | x # _ \<Rightarrow> Some x)"

definition gc_scan :: "nat \<Rightarrow> heap \<Rightarrow> gc_state \<Rightarrow> gc_state option" where
  "gc_scan n h st =
     (let st = st\<lparr>tmp_obj_list := obj_list st, obj_list := []\<rparr> in
      case gc_scan_loop n n h (list_first (tmp_obj_list st)) st of
        None \<Rightarrow> None
      | Some st' \<Rightarrow> each (gc_scan_obj2 n h) (tmp_obj_list st') st')"

section \<open>Depth first passes\<close>

definition refs :: "heap \<Rightarrow> nat set \<Rightarrow> nat \<Rightarrow> int" where
  "refs h N u = (\<Sum>x\<in>N. int (count_list (node_children (h x)) u))"

definition edges :: "heap \<Rightarrow> (nat \<times> nat) set" where
  "edges h = {(x, y). y \<in> set (node_children (h x))}"

lemma refs_insert: "finite N \<Longrightarrow> x \<notin> N \<Longrightarrow> refs h (insert x N) u = int (count_list (node_children (h x)) u) + refs h N u"
  by (simp add: refs_def)

lemma refs_empty [simp]: "refs h {} u = 0"
  by (simp add: refs_def)

lemma refs_nonneg: "0 \<le> refs h N u"
  by (simp add: refs_def sum_nonneg)

lemma refs_Un: "finite M \<Longrightarrow> finite N \<Longrightarrow> M \<inter> N = {} \<Longrightarrow> refs h (M \<union> N) u = refs h M u + refs h N u"
  by (simp add: refs_def sum.union_disjoint)

lemma add_ref_simps [simp]: "gmark (add_ref p d st) = gmark st" "obj_list (add_ref p d st) = obj_list st"
    "tmp_obj_list (add_ref p d st) = tmp_obj_list st" "el_next (add_ref p d st) = el_next st"
    "ref_count (add_ref p d st) u = ref_count st u + (if u = p then d else 0)"
  by (simp_all add: add_ref_def)

lemma set_mark_simps [simp]: "gmark (set_mark p m st) = (gmark st)(p := m)" "obj_list (set_mark p m st) = obj_list st"
    "tmp_obj_list (set_mark p m st) = tmp_obj_list st" "el_next (set_mark p m st) = el_next st" "ref_count (set_mark p m st) = ref_count st"
  by (simp_all add: set_mark_def)

text \<open>
  What the three passes share: a node is open until it is entered; entering a node closes it and follows its
  references, each of which changes the count of its target by \<open>delta\<close> before the target is visited. A negative
  \<open>delta\<close> comes with the assertion that the count is positive.
\<close>

locale gc_pass =
  fixes h :: heap
    and opened :: "gc_state \<Rightarrow> nat \<Rightarrow> bool"
    and enter :: "nat \<Rightarrow> gc_state \<Rightarrow> gc_state"
    and delta :: int
    and visit :: "nat \<Rightarrow> nat \<Rightarrow> gc_state \<Rightarrow> gc_state option"
    and follow :: "nat \<Rightarrow> nat \<Rightarrow> gc_state \<Rightarrow> gc_state option"
  assumes visit_closed: "\<not> opened st p \<Longrightarrow> visit (Suc n) p st = Some st"
    and visit_opened: "opened st p \<Longrightarrow> visit (Suc n) p st = each (follow n) (node_children (h p)) (enter p st)"
    and follow: "0 < delta \<or> 0 < ref_count st c \<Longrightarrow> follow n c st = visit n c (add_ref c delta st)"
    and enter_count: "ref_count (enter p st) = ref_count st"
    and enter_opened: "opened st p \<Longrightarrow> opened (enter p st) u \<longleftrightarrow> opened st u \<and> u \<noteq> p"
    and add_opened: "opened (add_ref c d st) = opened st"
    and delta: "delta = 1 \<or> delta = - 1"
begin

definition to_do :: "nat set \<Rightarrow> gc_state \<Rightarrow> nat set" where
  "to_do V st = {x \<in> V. opened st x}"

definition enough :: "nat set \<Rightarrow> nat list \<Rightarrow> gc_state \<Rightarrow> bool" where
  "enough V cs st \<longleftrightarrow> delta < 0 \<longrightarrow> (\<forall>u. refs h (to_do V st) u + int (count_list cs u) \<le> ref_count st u)"

definition did :: "nat set \<Rightarrow> nat list \<Rightarrow> (nat \<Rightarrow> int) \<Rightarrow> nat set \<Rightarrow> gc_state \<Rightarrow> gc_state \<Rightarrow> bool" where
  "did V cs extra N st st' \<longleftrightarrow> N \<subseteq> to_do V st \<and> (\<forall>u. opened st' u \<longleftrightarrow> opened st u \<and> u \<notin> N)
     \<and> (\<forall>u. ref_count st' u = ref_count st u + delta * (refs h N u + extra u))
     \<and> (\<forall>x\<in>N. \<forall>c\<in>set (node_children (h x)). \<not> opened st' c) \<and> (\<forall>c\<in>set cs. \<not> opened st' c)
     \<and> N \<subseteq> (edges h)\<^sup>* `` set cs"

lemma didI:
  assumes "N \<subseteq> to_do V st" "\<And>u. opened st' u \<longleftrightarrow> opened st u \<and> u \<notin> N"
    "\<And>u. ref_count st' u = ref_count st u + delta * (refs h N u + extra u)"
    "\<And>x c. x \<in> N \<Longrightarrow> c \<in> set (node_children (h x)) \<Longrightarrow> \<not> opened st' c" "\<And>c. c \<in> set cs \<Longrightarrow> \<not> opened st' c"
    "N \<subseteq> (edges h)\<^sup>* `` set cs"
  shows "did V cs extra N st st'"
  using assms unfolding did_def by blast

lemma didD:
  assumes "did V cs extra N st st'"
  shows "N \<subseteq> to_do V st" "opened st' u \<longleftrightarrow> opened st u \<and> u \<notin> N"
    "ref_count st' u = ref_count st u + delta * (refs h N u + extra u)"
    "x \<in> N \<Longrightarrow> c \<in> set (node_children (h x)) \<Longrightarrow> \<not> opened st' c" "c \<in> set cs \<Longrightarrow> \<not> opened st' c"
    "N \<subseteq> (edges h)\<^sup>* `` set cs"
  using assms unfolding did_def by blast+

lemma to_do_did: "did V cs e N st st' \<Longrightarrow> to_do V st = N \<union> to_do V st'" "did V cs e N st st' \<Longrightarrow> N \<inter> to_do V st' = {}"
  by (auto simp: did_def to_do_def)

lemma enough_did:
  assumes "finite V" "enough V cs st" "did V ds (\<lambda>_. 0) N st st'"
  shows "enough V cs st'"
proof -
  have "finite (to_do V st)" using assms(1) by (simp add: to_do_def)
  then have "refs h (to_do V st) u = refs h N u + refs h (to_do V st') u" for u
    using to_do_did [OF assms(3)] by (simp add: refs_Un)
  then show ?thesis using assms(2,3) delta by (auto simp: enough_def did_def algebra_simps)
qed

lemma did_trans:
  assumes "finite V" "did V cs e N st st'" "did V ds f M st' st''"
  shows "did V (cs @ ds) (\<lambda>u. e u + f u) (N \<union> M) st st''"
proof -
  have d: "N \<subseteq> to_do V st" "M \<subseteq> to_do V st" "N \<inter> M = {}" using assms(2,3) by (auto simp: did_def to_do_def)
  moreover have "finite N" "finite M" using d(1,2) assms(1) by (auto simp: to_do_def intro: finite_subset)
  ultimately have r: "refs h (N \<union> M) u = refs h N u + refs h M u" for u by (simp add: refs_Un)
  show ?thesis
  proof (rule didI)
    show "N \<union> M \<subseteq> to_do V st" using d by blast
    show "opened st'' u \<longleftrightarrow> opened st u \<and> u \<notin> N \<union> M" for u using didD(2) [OF assms(2)] didD(2) [OF assms(3)] by blast
    show "ref_count st'' u = ref_count st u + delta * (refs h (N \<union> M) u + (e u + f u))" for u
      using didD(3) [OF assms(2), of u] didD(3) [OF assms(3), of u] by (simp add: r algebra_simps)
    show "x \<in> N \<union> M \<Longrightarrow> c \<in> set (node_children (h x)) \<Longrightarrow> \<not> opened st'' c" for x c
      using didD(4) [OF assms(2)] didD(4) [OF assms(3)] didD(2) [OF assms(3)] by blast
    show "c \<in> set (cs @ ds) \<Longrightarrow> \<not> opened st'' c" for c
      using didD(5) [OF assms(2)] didD(5) [OF assms(3)] didD(2) [OF assms(3)] by auto
    show "N \<union> M \<subseteq> (edges h)\<^sup>* `` set (cs @ ds)" using didD(6) [OF assms(2)] didD(6) [OF assms(3)] by auto
  qed
qed

lemma did_none: "\<not> opened st p \<Longrightarrow> did V [p] (\<lambda>_. 0) {} st st"
  by (simp add: did_def)

lemma did_nothing: "did V [] (\<lambda>_. 0) {} st st"
  by (simp add: did_def)

lemma did_enter:
  assumes "finite V" "p \<in> V" "opened st p" "did V (node_children (h p)) (\<lambda>u. int (count_list (node_children (h p)) u)) N (enter p st) st'"
  shows "did V [p] (\<lambda>_. 0) (insert p N) st st'"
proof -
  have N: "N \<subseteq> to_do V st" "p \<notin> N" using assms(3,4) by (auto simp: did_def to_do_def enter_opened)
  then have "finite N" using assms(1) by (auto simp: to_do_def intro: finite_subset)
  then have r: "refs h (insert p N) u = int (count_list (node_children (h p)) u) + refs h N u" for u using N(2) by (rule refs_insert)
  have e: "(edges h)\<^sup>* `` set (node_children (h p)) \<subseteq> (edges h)\<^sup>* `` {p}"
    by (auto simp: edges_def intro: converse_rtrancl_into_rtrancl)
  note d = didD [OF assms(4)]
  show ?thesis
  proof (rule didI)
    show "insert p N \<subseteq> to_do V st" using N assms(2,3) by (auto simp: to_do_def)
    show o: "opened st' u \<longleftrightarrow> opened st u \<and> u \<notin> insert p N" for u using d(2) enter_opened [OF assms(3)] by blast
    show "ref_count st' u = ref_count st u + delta * (refs h (insert p N) u + 0)" for u
      using d(3) [of u] by (simp add: r enter_count add.commute)
    show "x \<in> insert p N \<Longrightarrow> c \<in> set (node_children (h x)) \<Longrightarrow> \<not> opened st' c" for x c using d(4,5) by blast
    show "c \<in> set [p] \<Longrightarrow> \<not> opened st' c" for c using o by simp
    show "insert p N \<subseteq> (edges h)\<^sup>* `` set [p]" using d(6) e by auto
  qed
qed

lemma did_add: "did V cs e N (add_ref c delta st) st' \<Longrightarrow> did V cs (\<lambda>u. e u + (if u = c then 1 else 0)) N st st'"
  by (auto simp: did_def add_opened to_do_def algebra_simps)

definition keeps :: "nat set \<Rightarrow> (gc_state \<Rightarrow> bool) \<Rightarrow> bool" where
  "keeps V Q \<longleftrightarrow> (\<forall>p st. p \<in> V \<longrightarrow> opened st p \<longrightarrow> Q st \<longrightarrow> Q (enter p st)) \<and> (\<forall>c st. Q st \<longrightarrow> Q (add_ref c delta st))"

definition closed :: "nat set \<Rightarrow> bool" where
  "closed V \<longleftrightarrow> finite V \<and> (\<forall>x\<in>V. set (node_children (h x)) \<subseteq> V)"

definition visits :: "nat set \<Rightarrow> (gc_state \<Rightarrow> bool) \<Rightarrow> nat \<Rightarrow> bool" where
  "visits V Q n \<longleftrightarrow> (\<forall>p st. p \<in> V \<longrightarrow> card (to_do V st) < n \<longrightarrow> enough V [] st \<longrightarrow> Q st \<longrightarrow>
     (\<exists>st' N. visit n p st = Some st' \<and> did V [p] (\<lambda>_. 0) N st st' \<and> Q st'))"

lemma enough_add:
  assumes "enough V (c # cs) st"
  shows "enough V cs (add_ref c delta st)" "delta < 0 \<Longrightarrow> 0 < ref_count st c"
proof -
  have t: "to_do V (add_ref c delta st) = to_do V st" by (simp add: to_do_def add_opened)
  have a: "refs h (to_do V st) u + int (count_list (c # cs) u) \<le> ref_count st u" if "delta < 0" for u
    using assms that by (simp only: enough_def)
  show "enough V cs (add_ref c delta st)" unfolding enough_def t
  proof (intro impI allI)
    fix u
    assume "delta < 0"
    then show "refs h (to_do V st) u + int (count_list cs u) \<le> ref_count (add_ref c delta st) u"
      using a [of u] delta by (cases "u = c") simp_all
  qed
  show "delta < 0 \<Longrightarrow> 0 < ref_count st c" using a [of c] refs_nonneg [of h "to_do V st" c] by simp
qed

lemma enough_Nil: "enough V cs st \<Longrightarrow> enough V [] st"
  unfolding enough_def
proof (intro impI allI)
  fix u
  assume "delta < 0 \<longrightarrow> (\<forall>u. refs h (to_do V st) u + int (count_list cs u) \<le> ref_count st u)" "delta < 0"
  then have "refs h (to_do V st) u + int (count_list cs u) \<le> ref_count st u" by blast
  then show "refs h (to_do V st) u + int (count_list [] u) \<le> ref_count st u" by simp
qed

lemma card_did: "finite V \<Longrightarrow> did V cs e N st st' \<Longrightarrow> card (to_do V st') \<le> card (to_do V st)"
  by (rule card_mono) (auto simp: to_do_def did_def)

lemma follow_all:
  assumes "closed V" "visits V Q n" "keeps V Q"
  shows "set cs \<subseteq> V \<Longrightarrow> card (to_do V st) < n \<Longrightarrow> enough V cs st \<Longrightarrow> Q st \<Longrightarrow>
    \<exists>st' N. each (follow n) cs st = Some st' \<and> did V cs (\<lambda>u. int (count_list cs u)) N st st' \<and> Q st'"
proof (induction cs arbitrary: st)
  case Nil
  then show ?case using did_nothing by auto
next
  case (Cons c cs)
  have fin: "finite V" using assms(1) by (simp add: closed_def)
  let ?st = "add_ref c delta st"
  have t: "to_do V ?st = to_do V st" by (simp add: to_do_def add_opened)
  have f: "follow n c st = visit n c ?st" using enough_add(2) [OF Cons.prems(3)] delta by (intro follow) auto
  have e: "enough V cs ?st" by (rule enough_add(1) [OF Cons.prems(3)])
  then have "enough V [] ?st" by (rule enough_Nil)
  moreover have "Q ?st" using assms(3) Cons.prems(4) by (simp add: keeps_def)
  ultimately obtain st1 N where v: "visit n c ?st = Some st1" "did V [c] (\<lambda>_. 0) N ?st st1" "Q st1"
    using assms(2) Cons.prems(1,2) t unfolding visits_def by (metis insert_subset list.simps(15))
  have "card (to_do V st1) < n" using card_did [OF fin v(2)] Cons.prems(2) t by simp
  then obtain st2 M where w: "each (follow n) cs st1 = Some st2" "did V cs (\<lambda>u. int (count_list cs u)) M st1 st2" "Q st2"
    using Cons.IH [OF _ _ enough_did [OF fin e v(2)] v(3)] Cons.prems(1) by (metis insert_subset list.simps(15))
  have "did V (c # cs) (\<lambda>u. int (count_list cs u) + (if u = c then 1 else 0)) (N \<union> M) st st2"
    using did_add [OF did_trans [OF fin v(2) w(2)]] by simp
  moreover have "(\<lambda>u. int (count_list cs u) + (if u = c then 1 else 0)) = (\<lambda>u. int (count_list (c # cs) u))" by auto
  ultimately show ?case using f v(1) w(1,3) by auto
qed

lemma visits_ok:
  assumes "closed V" "keeps V Q"
  shows "visits V Q n"
proof (induction n)
  case 0
  then show ?case by (simp add: visits_def)
next
  case (Suc n)
  have fin: "finite V" using assms(1) by (simp add: closed_def)
  show ?case unfolding visits_def
  proof (intro allI impI)
    fix p st
    assume a: "p \<in> V" "card (to_do V st) < Suc n" "enough V [] st" "Q st"
    show "\<exists>st' N. visit (Suc n) p st = Some st' \<and> did V [p] (\<lambda>_. 0) N st st' \<and> Q st'"
    proof (cases "opened st p")
      case False
      then show ?thesis using a(4) did_none by (auto simp: visit_closed)
    next
      case True
      let ?cs = "node_children (h p)"
      have t: "to_do V st = insert p (to_do V (enter p st))" "p \<notin> to_do V (enter p st)"
        using a(1) True by (auto simp: to_do_def enter_opened)
      have f: "finite (to_do V (enter p st))" using fin by (simp add: to_do_def)
      have "card (to_do V (enter p st)) < n" using a(2) t f by simp
      moreover have "enough V ?cs (enter p st)" using a(3) t f by (auto simp: enough_def enter_count refs_insert add.commute)
      moreover have "Q (enter p st)" using assms(2) a(1,4) True by (simp add: keeps_def)
      moreover have "set ?cs \<subseteq> V" using assms(1) a(1) by (simp add: closed_def)
      ultimately obtain st' N where "each (follow n) ?cs (enter p st) = Some st'" "Q st'"
          "did V ?cs (\<lambda>u. int (count_list ?cs u)) N (enter p st) st'"
        using follow_all [OF assms(1) Suc.IH assms(2)] by blast
      then show ?thesis using True did_enter [OF fin a(1) True] by (auto simp: visit_opened)
    qed
  qed
qed

lemma visit_list:
  assumes "closed V" "keeps V Q"
  shows "set ps \<subseteq> V \<Longrightarrow> card (to_do V st) < n \<Longrightarrow> enough V [] st \<Longrightarrow> Q st \<Longrightarrow>
    \<exists>st' N. each (visit n) ps st = Some st' \<and> did V ps (\<lambda>_. 0) N st st' \<and> Q st'"
proof (induction ps arbitrary: st)
  case Nil
  then show ?case using did_nothing by auto
next
  case (Cons p ps)
  have fin: "finite V" using assms(1) by (simp add: closed_def)
  obtain st1 N where v: "visit n p st = Some st1" "did V [p] (\<lambda>_. 0) N st st1" "Q st1"
    using visits_ok [OF assms, of n] Cons.prems unfolding visits_def by (metis insert_subset list.simps(15))
  have "card (to_do V st1) < n" using card_did [OF fin v(2)] Cons.prems(2) by simp
  then obtain st2 M where w: "each (visit n) ps st1 = Some st2" "did V ps (\<lambda>_. 0) M st1 st2" "Q st2"
    using Cons.IH [OF _ _ enough_did [OF fin Cons.prems(3) v(2)] v(3)] Cons.prems(1) by (metis insert_subset list.simps(15))
  then show ?case using v(1) did_trans [OF fin v(2) w(2)] by auto
qed

end

interpretation decref: gc_pass h "\<lambda>st p. gmark st p = 0" "\<lambda>p. set_mark p 1" "- 1" "\<lambda>n. gc_decref_mark n h" "\<lambda>n. gc_decref_child n h" for h
  by unfold_locales (simp_all add: mark_children_def)

definition incref_visit :: "nat \<Rightarrow> heap \<Rightarrow> nat \<Rightarrow> gc_state \<Rightarrow> gc_state option" where
  "incref_visit n h p st = (if gmark st p \<noteq> 0 then gc_scan_incref n h p st else Some st)"

definition keep :: "heap \<Rightarrow> nat \<Rightarrow> gc_state \<Rightarrow> gc_state" where
  "keep h p st = (if JS_IsObject h p then keep_object p (set_mark p 0 st) else set_mark p 0 st)"

lemma keep_object_simps [simp]: "gmark (keep_object p st) = gmark st" "ref_count (keep_object p st) = ref_count st"
  by (simp_all add: keep_object_def Let_def)

lemma keep_simps [simp]: "gmark (keep h p st) = (gmark st)(p := 0)" "ref_count (keep h p st) = ref_count st"
  by (simp_all add: keep_def)

interpretation incref: gc_pass h "\<lambda>st p. gmark st p \<noteq> 0" "keep h" 1 "\<lambda>n. incref_visit n h" "\<lambda>n. gc_scan_incref_child n h" for h
  by unfold_locales (simp_all add: mark_children_def incref_visit_def keep_def Let_def)

interpretation restore: gc_pass h "\<lambda>st p. gmark st p = 2" "\<lambda>p. set_mark p 3" 1 "\<lambda>n. gc_scan_obj2 n h" "\<lambda>n. gc_scan_incref_child2 n h" for h
  by unfold_locales (simp_all add: mark_children_def)

section \<open>Well-formed heaps\<close>

text \<open>
  The state before a collection: \<open>obj_list\<close> has every object once, \<open>V\<close> is what can be reached from the objects,
  nothing is marked, and every count covers the references from \<open>V\<close>. What it has beyond these are the references
  from outside: the stack, the contexts, C code.
\<close>

definition gc_ok :: "heap \<Rightarrow> nat set \<Rightarrow> gc_state \<Rightarrow> bool" where
  "gc_ok h V st \<longleftrightarrow> finite V \<and> V = (edges h)\<^sup>* `` set (obj_list st) \<and> distinct (obj_list st)
     \<and> (\<forall>p\<in>V. JS_IsObject h p \<longleftrightarrow> p \<in> set (obj_list st)) \<and> (\<forall>p\<in>V. gmark st p = 0) \<and> (\<forall>u. refs h V u \<le> ref_count st u)"

definition external :: "heap \<Rightarrow> nat set \<Rightarrow> gc_state \<Rightarrow> nat \<Rightarrow> int" where
  "external h V st u = ref_count st u - refs h V u"

definition live :: "heap \<Rightarrow> nat set \<Rightarrow> gc_state \<Rightarrow> nat set" where
  "live h V st = (edges h)\<^sup>* `` {u \<in> V. 0 < external h V st u}"

lemma gc_okD:
  assumes "gc_ok h V st"
  shows "finite V" "V = (edges h)\<^sup>* `` set (obj_list st)" "distinct (obj_list st)" "p \<in> V \<Longrightarrow> JS_IsObject h p \<longleftrightarrow> p \<in> set (obj_list st)"
    "p \<in> V \<Longrightarrow> gmark st p = 0" "refs h V u \<le> ref_count st u" "set (obj_list st) \<subseteq> V"
  using assms unfolding gc_ok_def by blast+

lemma gc_ok_closed: "gc_ok h V st \<Longrightarrow> x \<in> V \<Longrightarrow> set (node_children (h x)) \<subseteq> V"
  by (auto simp: gc_ok_def edges_def intro: rtrancl_into_rtrancl)

lemma closed_set: "(x, y) \<in> (edges h)\<^sup>* \<Longrightarrow> x \<in> S \<Longrightarrow> (\<And>u. u \<in> S \<Longrightarrow> set (node_children (h u)) \<subseteq> S) \<Longrightarrow> y \<in> S"
  by (induction rule: rtrancl_induct) (auto simp: edges_def)

lemma live_subset: "gc_ok h V st \<Longrightarrow> live h V st \<subseteq> V"
  using closed_set [of _ _ h V] gc_ok_closed [of h V st] by (auto simp: live_def)

lemma live_children: "x \<in> live h V st \<Longrightarrow> set (node_children (h x)) \<subseteq> live h V st"
  by (auto simp: live_def edges_def intro: rtrancl_into_rtrancl)

text \<open>After the first pass every node is marked and the counts are the references from outside.\<close>

lemma gc_decref_spec:
  assumes "gc_ok h V st" "card V < n"
  shows "\<exists>st'. gc_decref n h st = Some st' \<and> (\<forall>p\<in>V. gmark st' p = 1) \<and> ref_count st' = external h V st
    \<and> obj_list st' = obj_list st"
proof -
  define Q where "Q = (\<lambda>s :: gc_state. obj_list s = obj_list st \<and> (\<forall>p\<in>V. gmark s p = 0 \<or> gmark s p = 1))"
  have V: "finite V" "set (obj_list st) \<subseteq> V" "\<And>p. p \<in> V \<Longrightarrow> gmark st p = 0" "\<And>u. refs h V u \<le> ref_count st u"
    using assms(1) by (auto simp: gc_ok_def)
  have t: "decref.to_do V st = V" using V(3) by (auto simp: decref.to_do_def)
  have "decref.closed h V" using V(1) gc_ok_closed [OF assms(1)] by (simp add: decref.closed_def)
  moreover have "decref.keeps V Q" unfolding decref.keeps_def Q_def by auto
  moreover have "decref.enough h V [] st" using V(4) by (simp add: decref.enough_def t)
  moreover have "Q st" using V(3) by (simp add: Q_def)
  ultimately obtain st' N where d: "each (gc_decref_mark n h) (obj_list st) st = Some st'"
      "decref.did h V (obj_list st) (\<lambda>_. 0) N st st'" "Q st'"
    using decref.visit_list [of h V Q "obj_list st" st n] V(2) assms(2) t by auto
  note D = decref.didD [OF d(2)]
  have "V \<subseteq> N"
  proof
    fix x
    assume "x \<in> V"
    then obtain o1 where o1: "o1 \<in> set (obj_list st)" "(o1, x) \<in> (edges h)\<^sup>*" using assms(1) by (auto simp: gc_ok_def)
    have c: "c \<in> N" if "c \<in> V" "gmark st' c \<noteq> 0" for c using that D(2) [of c] V(3) by auto
    have "set (node_children (h u)) \<subseteq> N" if "u \<in> N" for u
    proof
      fix v
      assume v: "v \<in> set (node_children (h u))"
      have "u \<in> V" using that D(1) t by blast
      then show "v \<in> N" using c [of v] D(4) [OF that v] gc_ok_closed [OF assms(1)] v by blast
    qed
    moreover have "o1 \<in> N" using c o1(1) V(2) D(5) by auto
    ultimately show "x \<in> N" using closed_set [OF o1(2)] by blast
  qed
  then have N: "N = V" using D(1) t by auto
  have "gmark st' p = 1" if "p \<in> V" for p using that D(2) [of p] N d(3) by (auto simp: Q_def)
  moreover have "ref_count st' = external h V st" using D(3) N by (auto simp: external_def)
  ultimately show ?thesis using d(1,3) by (auto simp: gc_decref_def Q_def)
qed

subsection \<open>The lists\<close>

text \<open>\<open>L\<close> is the list at the start of the second pass and \<open>R\<close> the part after the current element.\<close>

definition lists_ok :: "nat list \<Rightarrow> nat list \<Rightarrow> gc_state \<Rightarrow> bool" where
  "lists_ok L R st \<longleftrightarrow> tmp_obj_list st = filter (\<lambda>u. gmark st u \<noteq> 0) L \<and> el_next st = list_first (filter (\<lambda>u. gmark st u \<noteq> 0) R)
     \<and> distinct (obj_list st) \<and> set (obj_list st) = {u \<in> set L. gmark st u = 0}"

lemma list_next_append: "x \<notin> set xs \<Longrightarrow> list_next (xs @ x # ys) x = list_first ys"
proof -
  assume "x \<notin> set xs"
  then have "dropWhile (\<lambda>y. y \<noteq> x) (xs @ x # ys) = x # ys" by (induction xs) auto
  then show ?thesis by (simp add: list_next_def list_first_def split: list.split)
qed

lemma list_first_filter: "list_first (filter P xs) = Some x \<Longrightarrow> \<exists>ys zs. xs = ys @ x # zs \<and> P x \<and> (\<forall>y\<in>set ys. \<not> P y)"
proof -
  assume "list_first (filter P xs) = Some x"
  then obtain us where "filter P xs = x # us" by (cases "filter P xs") (auto simp: list_first_def)
  then show ?thesis using filter_eq_ConsD by fastforce
qed

lemma filter_drop_one: "distinct L \<Longrightarrow> remove1 p (filter P L) = filter (\<lambda>u. P u \<and> u \<noteq> p) L"
  by (induction L) (auto simp: remove1_idem filter_id_conv intro: filter_cong)

lemma list_next_filter:
  assumes "distinct L" "L = D @ R" "list_first (filter P R) = Some p"
  shows "list_next (filter P L) p = list_first (filter (\<lambda>u. P u \<and> u \<noteq> p) R)"
proof -
  obtain ys zs where R: "R = ys @ p # zs" "P p" "\<forall>y\<in>set ys. \<not> P y" using list_first_filter [OF assms(3)] by blast
  have "filter P L = filter P (D @ ys) @ p # filter P zs" using R assms(2) by simp
  moreover have "p \<notin> set (filter P (D @ ys))" using assms(1,2) R by auto
  ultimately have "list_next (filter P L) p = list_first (filter P zs)" using list_next_append by metis
  moreover have "filter (\<lambda>u. P u \<and> u \<noteq> p) zs = filter P zs" using assms(1,2) R by (intro filter_cong) auto
  moreover have "filter (\<lambda>u. P u \<and> u \<noteq> p) ys = []" using R(3) by (simp add: filter_empty_conv)
  ultimately show ?thesis using R by simp
qed

lemma list_first_filter_other: "list_first (filter P R) \<noteq> Some p \<Longrightarrow> list_first (filter (\<lambda>u. P u \<and> u \<noteq> p) R) = list_first (filter P R)"
  by (induction R) (auto simp: list_first_def)

lemma lists_ok_keep:
  assumes "distinct L" "L = D @ R" "JS_IsObject h p \<longleftrightarrow> p \<in> set L" "gmark st p \<noteq> 0" "lists_ok L R st"
  shows "lists_ok L R (keep h p st)"
proof -
  define P where "P = (\<lambda>u. gmark st u \<noteq> 0)"
  have l: "tmp_obj_list st = filter P L" "el_next st = list_first (filter P R)" "distinct (obj_list st)"
    "set (obj_list st) = {u \<in> set L. \<not> P u}" using assms(5) by (simp_all add: lists_ok_def P_def)
  have P': "(\<lambda>u. gmark (keep h p st) u \<noteq> 0) = (\<lambda>u. P u \<and> u \<noteq> p)" by (auto simp: P_def)
  show ?thesis
  proof (cases "p \<in> set L")
    case True
    then have k: "keep h p st = keep_object p (set_mark p 0 st)" using assms(3) by (simp add: keep_def)
    have p: "p \<notin> set (obj_list st)" "P p" using l(4) assms(4) by (auto simp: P_def)
    then have "obj_list (keep h p st) = obj_list st @ [p]" by (simp add: k keep_object_def Let_def remove1_idem)
    moreover have "tmp_obj_list (keep h p st) = filter (\<lambda>u. P u \<and> u \<noteq> p) L"
      using filter_drop_one [OF assms(1)] l(1) by (simp add: k keep_object_def Let_def)
    moreover have "el_next (keep h p st) = list_first (filter (\<lambda>u. P u \<and> u \<noteq> p) R)"
      using list_next_filter [OF assms(1,2)] list_first_filter_other l(1,2) by (simp add: k keep_object_def Let_def)
    moreover have "{u \<in> set L. gmark (keep h p st) u = 0} = insert p {u \<in> set L. \<not> P u}" using True by (auto simp: P_def)
    ultimately show ?thesis using l(3,4) p unfolding lists_ok_def P' by simp
  next
    case False
    then have k: "keep h p st = set_mark p 0 st" using assms(3) by (simp add: keep_def)
    have f: "filter (\<lambda>u. P u \<and> u \<noteq> p) xs = filter P xs" if "p \<notin> set xs" for xs
      using that by (intro filter_cong) auto
    have "p \<notin> set R" using False assms(2) by simp
    moreover have "{u \<in> set L. gmark (keep h p st) u = 0} = {u \<in> set L. \<not> P u}" using False by (auto simp: P_def)
    ultimately show ?thesis using l False unfolding lists_ok_def P' by (simp add: k f)
  qed
qed

subsection \<open>The second pass\<close>

definition kept :: "nat set \<Rightarrow> gc_state \<Rightarrow> nat set" where
  "kept V st = {u \<in> V. gmark st u = 0}"

text \<open>What does not change during the second pass.\<close>

definition scan_env :: "heap \<Rightarrow> nat set \<Rightarrow> (nat \<Rightarrow> int) \<Rightarrow> nat list \<Rightarrow> bool" where
  "scan_env h V e L \<longleftrightarrow> finite V \<and> (\<forall>x\<in>V. set (node_children (h x)) \<subseteq> V) \<and> (\<forall>u. 0 \<le> e u) \<and> distinct L
     \<and> (\<forall>p\<in>V. JS_IsObject h p \<longleftrightarrow> p \<in> set L)"

definition scan_inv :: "heap \<Rightarrow> nat set \<Rightarrow> (nat \<Rightarrow> int) \<Rightarrow> nat list \<Rightarrow> nat list \<Rightarrow> gc_state \<Rightarrow> bool" where
  "scan_inv h V e L R st \<longleftrightarrow> (\<forall>u\<in>V. gmark st u \<le> 2) \<and> (\<forall>u. ref_count st u = e u + refs h (kept V st) u)
     \<and> (\<forall>x\<in>kept V st. set (node_children (h x)) \<subseteq> kept V st) \<and> (\<forall>x\<in>V. gmark st x = 2 \<longrightarrow> e x = 0)
     \<and> kept V st \<subseteq> (edges h)\<^sup>* `` {u \<in> V. 0 < e u} \<and> lists_ok L R st"

lemmas scan_invD = scan_inv_def [THEN iffD1, THEN conjunct1, rule_format] scan_inv_def [THEN iffD1, THEN conjunct2, THEN conjunct1, rule_format]
  scan_inv_def [THEN iffD1, THEN conjunct2, THEN conjunct2, THEN conjunct1, rule_format]
  scan_inv_def [THEN iffD1, THEN conjunct2, THEN conjunct2, THEN conjunct2, THEN conjunct1, rule_format]
  scan_inv_def [THEN iffD1, THEN conjunct2, THEN conjunct2, THEN conjunct2, THEN conjunct2, THEN conjunct1]
  scan_inv_def [THEN iffD1, THEN conjunct2, THEN conjunct2, THEN conjunct2, THEN conjunct2, THEN conjunct2]

text \<open>Marks only move from 1 to 0 or 2 and from 2 to 0, and a node leaves 1 after its children did.\<close>

definition scanned :: "heap \<Rightarrow> nat set \<Rightarrow> gc_state \<Rightarrow> gc_state \<Rightarrow> bool" where
  "scanned h V st st' \<longleftrightarrow> (\<forall>x\<in>V. gmark st x \<noteq> 1 \<longrightarrow> gmark st' x \<noteq> 1)
     \<and> (\<forall>x\<in>V. gmark st x = 1 \<longrightarrow> gmark st' x \<noteq> 1 \<longrightarrow> (\<forall>c\<in>set (node_children (h x)). gmark st' c \<noteq> 1))"

lemma scanned_refl: "scanned h V st st"
  by (simp add: scanned_def)

lemma scanned_trans:
  assumes "\<forall>x\<in>V. set (node_children (h x)) \<subseteq> V" "scanned h V st st'" "scanned h V st' st''"
  shows "scanned h V st st''"
  using assms unfolding scanned_def by blast

lemma not_referenced:
  assumes "scan_inv h V e L R st" "gmark st p \<noteq> 0" "finite V"
  shows "refs h (kept V st) p = 0"
proof -
  have "p \<notin> set (node_children (h x))" if "x \<in> kept V st" for x
    using scan_invD(3) [OF assms(1) that] assms(2) by (auto simp: kept_def)
  then show ?thesis by (auto simp: refs_def count_list_0_iff)
qed

lemma scan_incref:
  assumes "scan_env h V e L" "L = D @ R" "scan_inv h V e L R st" "p \<in> V" "gmark st p = 1" "0 < ref_count st p" "card V < k"
  shows "\<exists>st'. gc_scan_incref k h p st = Some st' \<and> scan_inv h V e L R st' \<and> scanned h V st st' \<and> gmark st' p \<noteq> 1"
proof -
  have env: "finite V" "\<And>x. x \<in> V \<Longrightarrow> set (node_children (h x)) \<subseteq> V" "distinct L" "\<And>p. p \<in> V \<Longrightarrow> JS_IsObject h p \<longleftrightarrow> p \<in> set L"
    using assms(1) by (simp_all add: scan_env_def)
  define Q where "Q = (\<lambda>s :: gc_state. lists_ok L R s \<and> (\<forall>u. gmark s u \<noteq> 0 \<longrightarrow> gmark s u = gmark st u))"
  have "incref.closed h V" unfolding incref.closed_def using env(1,2) by blast
  moreover have "incref.keeps h V Q" unfolding incref.keeps_def Q_def
    using lists_ok_keep [OF env(3) assms(2) env(4)] by (auto simp: lists_ok_def)
  moreover have "incref.enough h V [] st" unfolding incref.enough_def by simp
  moreover have "Q st" using scan_invD(6) [OF assms(3)] by (simp add: Q_def)
  moreover have "card (incref.to_do V st) < k" unfolding incref.to_do_def
    using assms(7) card_mono [OF env(1), of "{x \<in> V. gmark st x \<noteq> 0}"] by auto
  ultimately obtain st' N where v: "incref_visit k h p st = Some st'" "incref.did h V [p] (\<lambda>_. 0) N st st'" "Q st'"
    using incref.visits_ok [of h V Q k] assms(4) unfolding incref.visits_def by blast
  note D = incref.didD [OF v(2)]
  have D1: "N \<subseteq> {x \<in> V. gmark st x \<noteq> 0}" using D(1) unfolding incref.to_do_def .
  have D2: "gmark st' u = 0 \<longleftrightarrow> gmark st u = 0 \<or> u \<in> N" for u using D(2) by blast
  have k: "kept V st' = kept V st \<union> N" "kept V st \<inter> N = {}" using D1 by (auto simp: kept_def D2)
  have "finite (kept V st)" "finite N" using env(1) D1 by (auto simp: kept_def intro: finite_subset)
  then have rf: "refs h (kept V st') u = refs h (kept V st) u + refs h N u" for u using k by (simp add: refs_Un)
  have m: "gmark st' u \<noteq> 0 \<Longrightarrow> gmark st' u = gmark st u" for u using v(3) by (simp add: Q_def)
  have p: "gmark st' p = 0" using D(5) by simp
  have "0 < e p" using not_referenced [OF assms(3) _ env(1), of p] assms(5,6) scan_invD(2) [OF assms(3), of p] by simp
  then have N: "N \<subseteq> (edges h)\<^sup>* `` {u \<in> V. 0 < e u}" using D(6) assms(4) by auto
  have "scan_inv h V e L R st'" unfolding scan_inv_def
  proof (intro conjI allI ballI impI)
    show "gmark st' u \<le> 2" if "u \<in> V" for u using m [of u] scan_invD(1) [OF assms(3) that] by (cases "gmark st' u = 0") simp_all
    show "ref_count st' u = e u + refs h (kept V st') u" for u using D(3) [of u] scan_invD(2) [OF assms(3), of u] by (simp add: rf)
    show "set (node_children (h x)) \<subseteq> kept V st'" if x: "x \<in> kept V st'" for x
    proof (cases "x \<in> N")
      case True
      then have "x \<in> V" using x by (simp add: kept_def)
      then show ?thesis using D(4) [OF True] env(2) by (auto simp: kept_def)
    next
      case False
      then show ?thesis using x k(1) scan_invD(3) [OF assms(3), of x] by blast
    qed
    show "e x = 0" if "x \<in> V" "gmark st' x = 2" for x using that m [of x] scan_invD(4) [OF assms(3)] by simp
    show "kept V st' \<subseteq> (edges h)\<^sup>* `` {u \<in> V. 0 < e u}" using k(1) N scan_invD(5) [OF assms(3)] by blast
    show "lists_ok L R st'" using v(3) by (simp add: Q_def)
  qed
  moreover have "scanned h V st st'" unfolding scanned_def
  proof (intro conjI ballI impI)
    show "gmark st' x \<noteq> 1" if "gmark st x \<noteq> 1" for x using that m [of x] by (cases "gmark st' x = 0") simp_all
    show "gmark st' c \<noteq> 1" if "x \<in> V" "gmark st x = 1" "gmark st' x \<noteq> 1" "c \<in> set (node_children (h x))" for x c
    proof -
      have "x \<in> N" using that(2,3) D2 [of x] m [of x] by auto
      then show ?thesis using D(4) that(4) by fastforce
    qed
  qed
  moreover have "gc_scan_incref k h p st = Some st'" using v(1) assms(5) by (simp add: incref_visit_def)
  ultimately show ?thesis using p by auto
qed

definition ones :: "nat set \<Rightarrow> gc_state \<Rightarrow> nat set" where
  "ones V st = {u \<in> V. gmark st u = 1}"

lemma scan_mark2:
  assumes "scan_inv h V e L R st" "finite V" "gmark st p = 1" "\<not> 0 < ref_count st p" "0 \<le> e p"
  shows "scan_inv h V e L R (set_mark p 2 st)"
proof -
  have k: "kept V (set_mark p 2 st) = kept V st" using assms(3) by (auto simp: kept_def)
  have "e p = 0" using not_referenced [OF assms(1) _ assms(2), of p] assms(3-5) scan_invD(2) [OF assms(1), of p] by simp
  moreover have "lists_ok L R (set_mark p 2 st)"
  proof -
    have "(\<lambda>u. gmark (set_mark p 2 st) u \<noteq> 0) = (\<lambda>u. gmark st u \<noteq> 0)" using assms(3) by auto
    moreover have "{u \<in> set L. gmark (set_mark p 2 st) u = 0} = {u \<in> set L. gmark st u = 0}" using assms(3) by auto
    ultimately show ?thesis using scan_invD(6) [OF assms(1)] unfolding lists_ok_def by simp
  qed
  ultimately show ?thesis using assms(1) unfolding scan_inv_def k by simp
qed

definition scans :: "nat \<Rightarrow> nat \<Rightarrow> heap \<Rightarrow> nat set \<Rightarrow> (nat \<Rightarrow> int) \<Rightarrow> nat list \<Rightarrow> nat list \<Rightarrow> bool" where
  "scans k n h V e L R \<longleftrightarrow> (\<forall>p st. p \<in> V \<longrightarrow> card (ones V st) < n \<longrightarrow> scan_inv h V e L R st \<longrightarrow>
     (\<exists>st'. gc_scan_obj k n h p st = Some st' \<and> scan_inv h V e L R st' \<and> scanned h V st st' \<and> gmark st' p \<noteq> 1))"

lemma ones_scanned: "scanned h V st st' \<Longrightarrow> ones V st' \<subseteq> ones V st"
  by (auto simp: scanned_def ones_def)

lemma scan_children:
  assumes "scan_env h V e L" "scans k n h V e L R"
  shows "set cs \<subseteq> V \<Longrightarrow> card (ones V st) < n \<Longrightarrow> scan_inv h V e L R st \<Longrightarrow>
    \<exists>st'. each (gc_scan_obj k n h) cs st = Some st' \<and> scan_inv h V e L R st' \<and> scanned h V st st' \<and> (\<forall>c\<in>set cs. gmark st' c \<noteq> 1)"
proof (induction cs arbitrary: st)
  case Nil
  then show ?case using scanned_refl by auto
next
  case (Cons c cs)
  have env: "finite V" "\<forall>x\<in>V. set (node_children (h x)) \<subseteq> V" using assms(1) by (simp_all add: scan_env_def)
  have c: "c \<in> V" "set cs \<subseteq> V" using Cons.prems(1) by simp_all
  obtain st1 where v: "gc_scan_obj k n h c st = Some st1" "scan_inv h V e L R st1" "scanned h V st st1" "gmark st1 c \<noteq> 1"
    using assms(2) Cons.prems(2,3) c(1) unfolding scans_def by blast
  have "card (ones V st1) \<le> card (ones V st)" using ones_scanned [OF v(3)] env(1) by (intro card_mono) (auto simp: ones_def)
  then obtain st2 where w: "each (gc_scan_obj k n h) cs st1 = Some st2" "scan_inv h V e L R st2" "scanned h V st1 st2"
      "\<forall>c\<in>set cs. gmark st2 c \<noteq> 1"
    using Cons.IH [OF c(2) _ v(2)] Cons.prems(2) by auto
  have "gmark st2 c \<noteq> 1" using w(3) v(4) c(1) by (simp add: scanned_def)
  then show ?case using v(1) w(1,2,4) scanned_trans [OF env(2) v(3) w(3)] by auto
qed

lemma scans_ok:
  assumes "scan_env h V e L" "L = D @ R" "card V < k"
  shows "scans k n h V e L R"
proof (induction n)
  case 0
  then show ?case by (simp add: scans_def)
next
  case (Suc n)
  have env: "finite V" "\<And>x. x \<in> V \<Longrightarrow> set (node_children (h x)) \<subseteq> V" "\<And>u. 0 \<le> e u" using assms(1) by (simp_all add: scan_env_def)
  show ?case unfolding scans_def
  proof (intro allI impI)
    fix p st
    assume a: "p \<in> V" "card (ones V st) < Suc n" "scan_inv h V e L R st"
    let ?goal = "\<exists>st'. gc_scan_obj k (Suc n) h p st = Some st' \<and> scan_inv h V e L R st' \<and> scanned h V st st' \<and> gmark st' p \<noteq> 1"
    consider "gmark st p \<noteq> 1" | "gmark st p = 1" "0 < ref_count st p" | "gmark st p = 1" "\<not> 0 < ref_count st p" by blast
    then show ?goal
    proof cases
      case 1
      then show ?thesis using a(3) scanned_refl by auto
    next
      case 2
      then show ?thesis using scan_incref [OF assms(1,2) a(3,1) 2 assms(3)] by auto
    next
      case 3
      let ?st = "set_mark p 2 st"
      have i: "scan_inv h V e L R ?st" by (rule scan_mark2 [OF a(3) env(1) 3 env(3)])
      have o: "ones V st = insert p (ones V ?st)" "p \<notin> ones V ?st" using a(1) 3(1) by (auto simp: ones_def)
      have "finite (ones V ?st)" using env(1) by (simp add: ones_def)
      then have "card (ones V ?st) < n" using a(2) o by simp
      then obtain st' where v: "each (gc_scan_obj k n h) (node_children (h p)) ?st = Some st'" "scan_inv h V e L R st'"
          "scanned h V ?st st'" "\<forall>c\<in>set (node_children (h p)). gmark st' c \<noteq> 1"
        using scan_children [OF assms(1) Suc.IH env(2) [OF a(1)] _ i] by blast
      have p: "gmark st' p \<noteq> 1" using v(3) a(1) by (simp add: scanned_def)
      have "scanned h V st st'" unfolding scanned_def
      proof (intro conjI ballI impI)
        show "gmark st' x \<noteq> 1" if "x \<in> V" "gmark st x \<noteq> 1" for x
          using that v(3) 3(1) unfolding scanned_def by (cases "x = p") simp_all
        show "gmark st' c \<noteq> 1" if "x \<in> V" "gmark st x = 1" "gmark st' x \<noteq> 1" "c \<in> set (node_children (h x))" for x c
        proof (cases "x = p")
          case True
          then show ?thesis using v(4) that(4) by blast
        next
          case False
          then have "gmark ?st x = 1" using that(2) by simp
          then show ?thesis using v(3) that unfolding scanned_def by blast
        qed
      qed
      then show ?thesis using 3 v(1,2) p by (simp add: mark_children_def)
    qed
  qed
qed

lemma scan_loop:
  assumes "scan_env h V e L" "card V < n" "set L \<subseteq> V"
  shows "L = D @ R \<Longrightarrow> length R \<le> l \<Longrightarrow> scan_inv h V e L R st \<Longrightarrow> (\<forall>x\<in>set D. gmark st x \<noteq> 1) \<Longrightarrow>
      (\<forall>x\<in>V. gmark st x \<noteq> 1 \<longrightarrow> (\<forall>c\<in>set (node_children (h x)). gmark st c \<noteq> 1)) \<Longrightarrow>
    \<exists>st'. gc_scan_loop l n h (el_next st) st = Some st' \<and> scan_inv h V e L [] st' \<and> (\<forall>x\<in>set L. gmark st' x \<noteq> 1)
      \<and> (\<forall>x\<in>V. gmark st' x \<noteq> 1 \<longrightarrow> (\<forall>c\<in>set (node_children (h x)). gmark st' c \<noteq> 1))"
proof (induction l arbitrary: D R st)
  case 0
  then show ?case using scan_invD(6) [OF 0(3)] by (simp add: lists_ok_def list_first_def)
next
  case (Suc l)
  note lists = scan_invD(6) [OF Suc.prems(3), unfolded lists_ok_def]
  show ?case
  proof (cases "el_next st")
    case None
    then have "filter (\<lambda>u. gmark st u \<noteq> 0) R = []" using lists by (simp add: list_first_def split: list.splits)
    then have "\<forall>x\<in>set R. gmark st x = 0" by (simp add: filter_empty_conv)
    moreover have "scan_inv h V e L [] st"
      using Suc.prems(3) None lists unfolding scan_inv_def lists_ok_def by (simp add: list_first_def)
    ultimately show ?thesis using None Suc.prems(1,4,5) by auto
  next
    case (Some x)
    obtain D2 R2 where R: "R = D2 @ x # R2" "gmark st x \<noteq> 0" "\<forall>y\<in>set D2. gmark st y = 0"
      using list_first_filter [of "\<lambda>u. gmark st u \<noteq> 0" R x] lists Some by auto
    have L: "L = (D @ D2 @ [x]) @ R2" and x: "x \<in> V" using Suc.prems(1) R(1) assms(3) by auto
    have "distinct L" using assms(1) by (simp add: scan_env_def)
    then have "x \<notin> set (filter (\<lambda>u. gmark st u \<noteq> 0) (D @ D2))" using L by auto
    then have nx: "list_next (tmp_obj_list st) x = list_first (filter (\<lambda>u. gmark st u \<noteq> 0) R2)"
      using list_next_append [of x "filter (\<lambda>u. gmark st u \<noteq> 0) (D @ D2)"] lists L R(2) by simp
    let ?st = "st\<lparr>el_next := list_next (tmp_obj_list st) x\<rparr>"
    have "scan_inv h V e L R2 ?st"
      using Suc.prems(3) nx unfolding scan_inv_def lists_ok_def by (simp add: kept_def)
    moreover have "card (ones V ?st) < n"
      using assms(1,2) card_mono [of V "ones V ?st"] by (auto simp: scan_env_def ones_def)
    ultimately obtain st' where v: "gc_scan_obj n n h x ?st = Some st'" "scan_inv h V e L R2 st'" "scanned h V ?st st'" "gmark st' x \<noteq> 1"
      using scans_ok [OF assms(1) L assms(2), of n] x unfolding scans_def by blast
    have mono: "gmark st' y \<noteq> 1" if "y \<in> V" "gmark st y \<noteq> 1" for y using that v(3) by (simp add: scanned_def)
    have "\<forall>y\<in>set (D @ D2 @ [x]). gmark st' y \<noteq> 1"
      using mono v(4) Suc.prems(4) R(3) L assms(3) by (auto simp: subset_iff)
    moreover have "\<forall>y\<in>V. gmark st' y \<noteq> 1 \<longrightarrow> (\<forall>c\<in>set (node_children (h y)). gmark st' c \<noteq> 1)"
    proof (intro ballI impI)
      fix y c
      assume y: "y \<in> V" "gmark st' y \<noteq> 1" "c \<in> set (node_children (h y))"
      then have "c \<in> V" using assms(1) by (auto simp: scan_env_def)
      show "gmark st' c \<noteq> 1"
      proof (cases "gmark st y = 1")
        case True
        then have "gmark ?st y = 1" by simp
        then show ?thesis using v(3) y unfolding scanned_def by blast
      next
        case False
        then show ?thesis using Suc.prems(5) y(1,3) mono [OF \<open>c \<in> V\<close>] by blast
      qed
    qed
    moreover have "length R2 \<le> l" using Suc.prems(2) R(1) by simp
    ultimately show ?thesis using Suc.IH [OF L _ v(2)] v(1) Some by simp
  qed
qed

lemma gc_scan_loop_el_next:
  "xs \<noteq> [] \<Longrightarrow> gc_scan_loop l n h (list_first xs) (st\<lparr>el_next := y\<rparr>) = gc_scan_loop l n h (list_first xs) st"
  by (cases xs; cases l) (simp_all add: list_first_def)

text \<open>At the end of the loop the nodes with mark 0 are the live ones, and all the others have mark 2.\<close>

lemma scan_inv_end:
  assumes "gc_ok h V st0" "scan_inv h V (external h V st0) (obj_list st0) [] st1"
    and "\<forall>x\<in>set (obj_list st0). gmark st1 x \<noteq> 1" "\<forall>x\<in>V. gmark st1 x \<noteq> 1 \<longrightarrow> (\<forall>c\<in>set (node_children (h x)). gmark st1 c \<noteq> 1)"
  shows "kept V st1 = live h V st0" "\<And>u. u \<in> V \<Longrightarrow> gmark st1 u = (if u \<in> live h V st0 then 0 else 2)"
proof -
  let ?e = "external h V st0"
  have V: "V = (edges h)\<^sup>* `` set (obj_list st0)" using assms(1) by (simp add: gc_ok_def)
  have "V \<subseteq> {u \<in> V. gmark st1 u \<noteq> 1}"
  proof
    fix x
    assume "x \<in> V"
    then obtain o1 where o1: "o1 \<in> set (obj_list st0)" "(o1, x) \<in> (edges h)\<^sup>*" using V by blast
    then have "o1 \<in> {u \<in> V. gmark st1 u \<noteq> 1}" using assms(3) V by auto
    moreover have "set (node_children (h u)) \<subseteq> {u \<in> V. gmark st1 u \<noteq> 1}" if "u \<in> {u \<in> V. gmark st1 u \<noteq> 1}" for u
      using that assms(4) gc_ok_closed [OF assms(1), of u] by blast
    ultimately show "x \<in> {u \<in> V. gmark st1 u \<noteq> 1}" by (rule closed_set [OF o1(2)])
  qed
  then have m: "gmark st1 u = 0 \<or> gmark st1 u = 2" if "u \<in> V" for u
    using that scan_invD(1) [OF assms(2) that] by (auto simp: subset_iff le_less numeral_2_eq_2 less_Suc_eq)
  have "live h V st0 \<subseteq> kept V st1"
  proof
    fix x
    assume "x \<in> live h V st0"
    then obtain r where r: "r \<in> V" "0 < ?e r" "(r, x) \<in> (edges h)\<^sup>*" by (auto simp: live_def)
    then have "r \<in> kept V st1" using m [OF r(1)] scan_invD(4) [OF assms(2) r(1)] by (auto simp: kept_def)
    then show "x \<in> kept V st1" using closed_set [OF r(3)] scan_invD(3) [OF assms(2)] by blast
  qed
  then show k: "kept V st1 = live h V st0" using scan_invD(5) [OF assms(2)] by (auto simp: live_def)
  show "gmark st1 u = (if u \<in> live h V st0 then 0 else 2)" if "u \<in> V" for u
    using that m [OF that] k by (auto simp: kept_def)
qed

lemma scan_restore:
  assumes ok: "gc_ok h V st0" "card V < n" and m: "\<And>u. u \<in> V \<Longrightarrow> gmark st1 u = (if u \<in> live h V st0 then 0 else 2)"
    and tmp: "tmp_obj_list st1 = filter (\<lambda>u. u \<notin> live h V st0) (obj_list st0)"
  shows "\<exists>st'. each (gc_scan_obj2 n h) (tmp_obj_list st1) st1 = Some st' \<and> (\<forall>u\<in>V. gmark st' u = (if u \<in> live h V st0 then 0 else 3))
    \<and> (\<forall>u. ref_count st' u = ref_count st1 u + refs h (V - live h V st0) u) \<and> obj_list st' = obj_list st1 \<and> tmp_obj_list st' = tmp_obj_list st1"
proof -
  let ?L = "live h V st0"
  have V: "finite V" "V = (edges h)\<^sup>* `` set (obj_list st0)" using ok(1) by (auto simp: gc_ok_def)
  have sub: "set (obj_list st0) \<subseteq> V" using V(2) by blast
  define Q where "Q = (\<lambda>s :: gc_state. obj_list s = obj_list st1 \<and> tmp_obj_list s = tmp_obj_list st1
    \<and> (\<forall>u. gmark s u = gmark st1 u \<or> gmark st1 u = 2 \<and> gmark s u = 3))"
  have t: "restore.to_do V st1 = V - ?L" unfolding restore.to_do_def using m by auto
  have "restore.closed h V" unfolding restore.closed_def using V(1) gc_ok_closed [OF ok(1)] by blast
  moreover have "restore.keeps V Q"
  proof -
    have "Q (set_mark p 3 s)" if q: "Q s" and p: "gmark s p = 2" for s p
    proof -
      have a: "gmark s u = gmark st1 u \<or> gmark st1 u = 2 \<and> gmark s u = 3" for u using q unfolding Q_def by blast
      have "gmark st1 p = 2" using a [of p] p by auto
      then have "gmark (set_mark p 3 s) u = gmark st1 u \<or> gmark st1 u = 2 \<and> gmark (set_mark p 3 s) u = 3" for u
        using a [of u] by (cases "u = p") simp_all
      then show ?thesis using q unfolding Q_def by (intro conjI allI) simp_all
    qed
    moreover have "Q (add_ref c 1 s)" if "Q s" for c s using that unfolding Q_def by simp
    ultimately show ?thesis unfolding restore.keeps_def by blast
  qed
  moreover have "restore.enough h V [] st1" unfolding restore.enough_def by simp
  moreover have "Q st1" by (simp add: Q_def)
  moreover have "card (restore.to_do V st1) < n" unfolding t using ok(2) card_mono [OF V(1), of "V - ?L"] by auto
  moreover have "set (tmp_obj_list st1) \<subseteq> V" using tmp sub by auto
  ultimately obtain st' N where v: "each (gc_scan_obj2 n h) (tmp_obj_list st1) st1 = Some st'"
      "restore.did h V (tmp_obj_list st1) (\<lambda>_. 0) N st1 st'" "Q st'"
    using restore.visit_list by blast
  note D = restore.didD [OF v(2)]
  have opened: "u \<in> N \<union> ?L" if "u \<in> V" "gmark st' u \<noteq> 2" for u using that m [OF that(1)] D(2) [of u] by (auto split: if_splits)
  have "V \<subseteq> N \<union> ?L"
  proof
    fix x
    assume "x \<in> V"
    then obtain o1 where o1: "o1 \<in> set (obj_list st0)" "(o1, x) \<in> (edges h)\<^sup>*" using V(2) by blast
    have "o1 \<in> N \<union> ?L"
    proof (cases "o1 \<in> ?L")
      case False
      then have "gmark st' o1 \<noteq> 2" using D(5) tmp o1(1) by simp
      then show ?thesis using opened o1(1) sub by blast
    qed blast
    moreover have "set (node_children (h u)) \<subseteq> N \<union> ?L" if "u \<in> N \<union> ?L" for u
    proof (cases "u \<in> ?L")
      case False
      then have u: "u \<in> N" "u \<in> V" using that D(1) t by auto
      then show ?thesis using D(4) [OF u(1)] opened gc_ok_closed [OF ok(1) u(2)] by blast
    qed (use live_children in blast)
    ultimately show "x \<in> N \<union> ?L" by (rule closed_set [OF o1(2)])
  qed
  then have N: "N = V - ?L" using D(1) t by blast
  have "gmark st' u = (if u \<in> ?L then 0 else 3)" if "u \<in> V" for u
  proof -
    have "gmark st' u = gmark st1 u \<or> gmark st1 u = 2 \<and> gmark st' u = 3" using v(3) unfolding Q_def by blast
    then show ?thesis using m [OF that] that D(2) [of u] N by (auto split: if_splits)
  qed
  moreover have "ref_count st' u = ref_count st1 u + refs h (V - ?L) u" for u using D(3) [of u] N by simp
  ultimately show ?thesis using v(1,3) unfolding Q_def by blast
qed

lemma gc_scan_spec:
  assumes ok: "gc_ok h V st0" "card V < n" "obj_list st0 \<noteq> []" and st: "\<forall>p\<in>V. gmark st p = 1" "ref_count st = external h V st0" "obj_list st = obj_list st0"
  shows "\<exists>st'. gc_scan n h st = Some st' \<and> tmp_obj_list st' = filter (\<lambda>u. u \<notin> live h V st0) (obj_list st0)
    \<and> distinct (obj_list st') \<and> set (obj_list st') = set (obj_list st0) \<inter> live h V st0 \<and> ref_count st' = ref_count st0
    \<and> (\<forall>u\<in>V. gmark st' u = (if u \<in> live h V st0 then 0 else 3))"
proof -
  define L where "L = obj_list st0"
  define e where "e = external h V st0"
  have V: "finite V" "set L \<subseteq> V" "distinct L" "\<And>p. p \<in> V \<Longrightarrow> JS_IsObject h p \<longleftrightarrow> p \<in> set L" "\<And>u. 0 \<le> e u" "V = (edges h)\<^sup>* `` set L"
    using ok(1) by (auto simp: gc_ok_def L_def e_def external_def)
  have env: "scan_env h V e L" using V gc_ok_closed [OF ok(1)] unfolding scan_env_def by blast
  let ?st = "st\<lparr>tmp_obj_list := L, obj_list := [], el_next := list_first L\<rparr>"
  have m1: "gmark ?st u = 1" if "u \<in> V" for u using st(1) that by simp
  have "scan_inv h V e L L ?st"
  proof -
    have "kept V ?st = {}" using m1 by (auto simp: kept_def)
    moreover have "filter (\<lambda>u. gmark ?st u \<noteq> 0) L = L" using m1 V(2) by (auto simp: filter_id_conv)
    moreover have "{u \<in> set L. gmark ?st u = 0} = {}" using m1 V(2) by fastforce
    ultimately show ?thesis using m1 st(2) unfolding scan_inv_def lists_ok_def by (simp add: e_def)
  qed
  moreover have "length L \<le> n" using distinct_card [OF V(3)] card_mono [OF V(1,2)] ok(2) by simp
  moreover have "\<forall>x\<in>V. gmark ?st x \<noteq> 1 \<longrightarrow> (\<forall>c\<in>set (node_children (h x)). gmark ?st c \<noteq> 1)" using m1 by blast
  ultimately obtain st1 where s1: "gc_scan_loop n n h (el_next ?st) ?st = Some st1" "scan_inv h V e L [] st1" "\<forall>x\<in>set L. gmark st1 x \<noteq> 1"
      "\<forall>x\<in>V. gmark st1 x \<noteq> 1 \<longrightarrow> (\<forall>c\<in>set (node_children (h x)). gmark st1 c \<noteq> 1)"
    using scan_loop [OF env ok(2) V(2), of "[]" L n ?st] by auto
  note fin = scan_inv_end [OF ok(1) s1(2) [unfolded e_def L_def] s1(3) [unfolded L_def] s1(4)]
  note lists = scan_invD(6) [OF s1(2), unfolded lists_ok_def]
  have f: "gmark st1 u = 0 \<longleftrightarrow> u \<in> live h V st0" if "u \<in> set L" for u 
  proof -
    have "gmark st1 u = (if u \<in> live h V st0 then 0 else 2)" using fin(2) that V(2) by blast
    then show ?thesis by simp
  qed
  then have "tmp_obj_list st1 = filter (\<lambda>u. u \<notin> live h V st0) L" using lists by (simp cong: filter_cong)
  then obtain st' where r: "each (gc_scan_obj2 n h) (tmp_obj_list st1) st1 = Some st'" "\<forall>u\<in>V. gmark st' u = (if u \<in> live h V st0 then 0 else 3)"
      "\<forall>u. ref_count st' u = ref_count st1 u + refs h (V - live h V st0) u" "obj_list st' = obj_list st1" "tmp_obj_list st' = filter (\<lambda>u. u \<notin> live h V st0) L"
    using scan_restore [OF ok(1,2) fin(2)] by (auto simp: L_def)
  have "live h V st0 \<union> (V - live h V st0) = V" using live_subset [OF ok(1)] by blast
  moreover have "finite (live h V st0)" using live_subset [OF ok(1)] V(1) by (rule finite_subset)
  ultimately have "refs h (live h V st0) u + refs h (V - live h V st0) u = refs h V u" for u
    using refs_Un [of "live h V st0" "V - live h V st0" h u] V(1) by simp
  then have c: "ref_count st' = ref_count st0"
    using r(3) scan_invD(2) [OF s1(2)] fin(1) by (auto simp: e_def external_def)
  have o: "set (obj_list st') = set L \<inter> live h V st0" "distinct (obj_list st')" using lists r(4) f by auto
  have "gc_scan n h st = Some st'"
  proof -
    have L: "L \<noteq> []" using ok(3) by (simp add: L_def)
    have "gc_scan_loop n n h (list_first L) (st\<lparr>tmp_obj_list := L, obj_list := []\<rparr>) = Some st1"
      using s1(1) gc_scan_loop_el_next [OF L, where st = "st\<lparr>tmp_obj_list := L, obj_list := []\<rparr>"] by simp
    then show ?thesis using r(1) st(3) by (simp add: gc_scan_def L_def)
  qed
  then show ?thesis using r(2,5) c o by (auto simp: L_def)
qed

text \<open>The three passes together.\<close>

lemma gc_passes:
  assumes "gc_ok h V st" "card V < n"
  shows "\<exists>st1 st'. gc_decref n h st = Some st1 \<and> gc_scan n h st1 = Some st' \<and> tmp_obj_list st' = filter (\<lambda>u. u \<notin> live h V st) (obj_list st)
    \<and> distinct (obj_list st') \<and> set (obj_list st') = set (obj_list st) \<inter> live h V st \<and> ref_count st' = ref_count st
    \<and> (\<forall>u\<in>V. gmark st' u = (if u \<in> live h V st then 0 else 3))"
proof -
  obtain st1 where d: "gc_decref n h st = Some st1" "\<forall>p\<in>V. gmark st1 p = 1" "ref_count st1 = external h V st" "obj_list st1 = obj_list st"
    using gc_decref_spec [OF assms] by blast
  show ?thesis
  proof (cases "obj_list st = []")
    case True
    then have "V = {}" using assms(1) by (simp add: gc_ok_def)
    then show ?thesis using d True by (auto simp: gc_scan_def list_first_def live_def external_def)
  next
    case False
    then show ?thesis using gc_scan_spec [OF assms False d(2-4)] d(1) by blast
  qed
qed

end
