(* ===== verification/QJS_GC_Sweep.thy ===== *)
theory QJS_GC_Sweep
  imports QJS_GC
begin

text \<open>
  The last phase of the cycle collector, \<open>gc_free_cycles\<close>, and \<open>JS_RunGC\<close>. Freeing an object releases what it
  refers to; a node whose count reaches zero is freed at once, except that during the sweep an object is left to
  the loop over \<open>tmp_obj_list\<close>. The addresses given to \<open>js_free_rt\<close> are collected in the field \<open>freed\<close>.

  A finalizer releases the values that the \<open>gc_mark\<close> callback of the same class marks. Releasing a suspended
  asynchronous function closes the variables of its frame, which is not modelled: \<open>free_list\<close> has no value there.
  Weak references are not modelled.
\<close>

section \<open>Model\<close>

definition free_property :: "JSProperty \<Rightarrow> nat list" where
  "free_property pr = (case pr of
     PropGetSet getter setter \<Rightarrow> (case getter of None \<Rightarrow> [] | Some p \<Rightarrow> [p]) @ (case setter of None \<Rightarrow> [] | Some p \<Rightarrow> [p])
   | PropVarRef p \<Rightarrow> [p]
   | PropAutoInit \<Rightarrow> []
   | PropValue v \<Rightarrow> JS_MarkValue v)"

fun free_list :: "gc_node \<Rightarrow> nat list option" where
  "free_list (Object sh props class_marks) = Some (concat (map (free_property \<circ> snd) props) @ sh # mark_values class_marks)"
| "free_list (FunctionBytecode cpool) = Some (mark_values cpool)"
| "free_list (VarRef detached value) = Some (if detached then JS_MarkValue value else [])"
| "free_list (AsyncFunction is_active cur_func this_val stack resolve reject) =
     (if is_active then None else Some (JS_MarkValue resolve @ JS_MarkValue reject))"
| "free_list (Shape proto) = Some (case proto of None \<Rightarrow> [] | Some p \<Rightarrow> [p])"

record sweep_state =
  gc :: gc_state
  free_mark :: "nat \<Rightarrow> bool"
  free_obj_list :: "nat list"
  freed :: "nat list"

definition decref :: "nat \<Rightarrow> sweep_state \<Rightarrow> sweep_state" where
  "decref c rt = rt\<lparr>gc := add_ref c (- 1) (gc rt)\<rparr>"

text \<open>\<open>JS_FreeValueRT\<close>, \<open>js_free_shape\<close>, \<open>free_var_ref\<close> and \<open>js_async_function_free\<close> during the sweep.\<close>

fun JS_FreeValueRT :: "nat \<Rightarrow> heap \<Rightarrow> nat \<Rightarrow> sweep_state \<Rightarrow> sweep_state option" where
  "JS_FreeValueRT 0 h c rt = None"
| "JS_FreeValueRT (Suc n) h c rt =
     (let rt = decref c rt in
      if ref_count (gc rt) c < 0 then None
      else if ref_count (gc rt) c = 0 \<and> \<not> JS_IsObject h c then
        do {
          cs \<leftarrow> free_list (h c);
          rt \<leftarrow> each (JS_FreeValueRT n h) cs rt;
          Some (rt\<lparr>freed := freed rt @ [c]\<rparr>)
        }
      else Some rt)"

definition free_object2 :: "nat \<Rightarrow> heap \<Rightarrow> nat \<Rightarrow> sweep_state \<Rightarrow> sweep_state option" where
  "free_object2 n h p rt =
     (if free_mark rt p then Some rt
      else do {
        cs \<leftarrow> free_list (h p);
        rt \<leftarrow> each (JS_FreeValueRT n h) cs (rt\<lparr>free_mark := (free_mark rt)(p := True)\<rparr>);
        Some (rt\<lparr>gc := (gc rt)\<lparr>tmp_obj_list := remove1 p (tmp_obj_list (gc rt))\<rparr>, free_obj_list := free_obj_list rt @ [p]\<rparr>)
      })"

definition gc_free_cycles :: "nat \<Rightarrow> heap \<Rightarrow> sweep_state \<Rightarrow> sweep_state option" where
  "gc_free_cycles n h rt =
     do {
       rt \<leftarrow> each (\<lambda>p rt. if gmark (gc rt) p = 3 then free_object2 n h p rt else None)
               (tmp_obj_list (gc rt)) (rt\<lparr>free_obj_list := []\<rparr>);
       Some (rt\<lparr>freed := freed rt @ free_obj_list rt\<rparr>)
     }"

definition JS_RunGC :: "nat \<Rightarrow> heap \<Rightarrow> sweep_state \<Rightarrow> sweep_state option" where
  "JS_RunGC n h rt =
     do {
       st \<leftarrow> gc_decref n h (gc rt);
       st \<leftarrow> gc_scan n h st;
       gc_free_cycles n h (rt\<lparr>gc := st\<rparr>)
     }"

section \<open>References of garbage\<close>

lemma refs_mono: "finite N \<Longrightarrow> M \<subseteq> N \<Longrightarrow> refs h M u \<le> refs h N u"
  by (simp add: refs_def sum_mono2)

lemma refs_pos_iff: "finite N \<Longrightarrow> 0 < refs h N u \<longleftrightarrow> (\<exists>x\<in>N. u \<in> set (node_children (h x)))"
proof -
  assume "finite N"
  then have "refs h N u = 0 \<longleftrightarrow> (\<forall>x\<in>N. u \<notin> set (node_children (h x)))"
    by (simp add: refs_def sum_nonneg_eq_0_iff count_list_0_iff)
  then show ?thesis using refs_nonneg [of h N u] by auto
qed

lemma live_cases:
  assumes "c \<in> live h V st"
  shows "0 < external h V st c \<or> (\<exists>y\<in>live h V st. c \<in> set (node_children (h y)))"
proof -
  obtain r where r: "r \<in> V" "0 < external h V st r" "(r, c) \<in> (edges h)\<^sup>*" using assms by (auto simp: live_def)
  from r(3) show ?thesis
  proof (cases rule: rtranclE)
    case base
    then show ?thesis using r(2) by simp
  next
    case (step y)
    then have "y \<in> live h V st" using r(1,2) by (auto simp: live_def)
    then show ?thesis using step(2) by (auto simp: edges_def)
  qed
qed

lemma refs_split:
  assumes "gc_ok h V st"
  shows "ref_count st u = external h V st u + refs h (live h V st) u + refs h (V - live h V st) u"
proof -
  note f = gc_okD(1) [OF assms]
  have "live h V st \<union> (V - live h V st) = V" using live_subset [OF assms] by blast
  moreover have "finite (live h V st)" using live_subset [OF assms] f by (rule finite_subset)
  ultimately show ?thesis using refs_Un [of "live h V st" "V - live h V st" h u] f by (simp add: external_def)
qed

lemma external_nonneg: "gc_ok h V st \<Longrightarrow> 0 \<le> external h V st u"
  using gc_okD(6) [of h V st u] by (simp add: external_def)

text \<open>A live node keeps references when those of garbage are gone.\<close>

lemma live_has_refs:
  assumes "gc_ok h V st" "F \<subseteq> V - live h V st" "c \<in> live h V st"
  shows "refs h F c < ref_count st c"
proof -
  have f: "finite V" "finite (live h V st)" using gc_okD(1) [OF assms(1)] live_subset [OF assms(1)] by (auto intro: finite_subset)
  have "refs h F c \<le> refs h (V - live h V st) c" using assms(2) f(1) by (intro refs_mono) simp_all
  moreover have "0 < external h V st c + refs h (live h V st) c"
    using live_cases [OF assms(3)] refs_pos_iff [OF f(2), of h c] external_nonneg [OF assms(1), of c] refs_nonneg [of h "live h V st" c] by fastforce
  ultimately show ?thesis using refs_split [OF assms(1), of c] by simp
qed

lemma garbage_refs:
  assumes "gc_ok h V st" "u \<in> V - live h V st"
  shows "ref_count st u = refs h (V - live h V st) u"
proof -
  have "external h V st u = 0" using assms external_nonneg [OF assms(1), of u] by (force simp: live_def)
  moreover have "finite (live h V st)" using live_subset [OF assms(1)] gc_okD(1) [OF assms(1)] by (rule finite_subset)
  then have "refs h (live h V st) u = 0"
    using refs_pos_iff [of "live h V st" h u] live_children [of _ h V st] assms(2) refs_nonneg [of h "live h V st" u] by fastforce
  ultimately show ?thesis using refs_split [OF assms(1), of u] by simp
qed

section \<open>Releasing\<close>

text \<open>
  \<open>F\<close> are the nodes that are freed or whose references are being released, \<open>P\<close> counts the references of \<open>F\<close> that
  are still to be released.
\<close>

definition sweep_inv :: "heap \<Rightarrow> nat set \<Rightarrow> gc_state \<Rightarrow> nat set \<Rightarrow> (nat \<Rightarrow> int) \<Rightarrow> sweep_state \<Rightarrow> bool" where
  "sweep_inv h V st F P rt \<longleftrightarrow> F \<subseteq> V - live h V st \<and> (\<forall>u. ref_count (gc rt) u = ref_count st u - refs h F u + P u)
     \<and> (\<forall>u\<in>V. \<not> JS_IsObject h u \<longrightarrow> (0 < ref_count (gc rt) u) = (u \<notin> F)) \<and> (\<forall>u. 0 \<le> P u)"

lemma sweep_invD:
  assumes "sweep_inv h V st F P rt"
  shows "F \<subseteq> V - live h V st" "ref_count (gc rt) u = ref_count st u - refs h F u + P u"
    "u \<in> V \<Longrightarrow> \<not> JS_IsObject h u \<Longrightarrow> (0 < ref_count (gc rt) u) = (u \<notin> F)" "0 \<le> P u"
  using assms unfolding sweep_inv_def by blast+

lemma sweep_inv_counts:
  assumes "sweep_inv h V st F P rt" "ref_count (gc rt') = ref_count (gc rt)"
  shows "sweep_inv h V st F P rt'"
  unfolding sweep_inv_def assms(2) using assms(1) [unfolded sweep_inv_def] .

lemma sweep_inv_covered:
  assumes "gc_ok h V st" "sweep_inv h V st F P rt"
  shows "refs h F u \<le> ref_count st u" "P u \<le> ref_count (gc rt) u"
proof -
  have "refs h F u \<le> refs h V u" using sweep_invD(1) [OF assms(2)] gc_okD(1) [OF assms(1)] by (intro refs_mono) auto
  then show "refs h F u \<le> ref_count st u" using gc_okD(6) [OF assms(1), of u] by simp
  then show "P u \<le> ref_count (gc rt) u" using sweep_invD(2) [OF assms(2), of u] by simp
qed

definition same_rest :: "sweep_state \<Rightarrow> sweep_state \<Rightarrow> bool" where
  "same_rest rt rt' \<longleftrightarrow> gmark (gc rt') = gmark (gc rt) \<and> obj_list (gc rt') = obj_list (gc rt) \<and> tmp_obj_list (gc rt') = tmp_obj_list (gc rt)
     \<and> free_mark rt' = free_mark rt \<and> free_obj_list rt' = free_obj_list rt"

text \<open>Every garbage node can be freed, and releases what was counted.\<close>

definition sweepable :: "heap \<Rightarrow> nat set \<Rightarrow> bool" where
  "sweepable h G \<longleftrightarrow> (\<forall>x\<in>G. \<exists>cs. free_list (h x) = Some cs \<and> mset cs = mset (node_children (h x)))"

lemma sweepableD:
  assumes "sweepable h G" "x \<in> G"
  obtains cs where "free_list (h x) = Some cs" "set cs = set (node_children (h x))" "\<And>u. count_list cs u = count_list (node_children (h x)) u"
proof -
  obtain cs where cs: "free_list (h x) = Some cs" "mset cs = mset (node_children (h x))" using assms unfolding sweepable_def by blast
  show thesis by (rule that [OF cs(1) mset_eq_setD [OF cs(2)]]) (metis count_mset cs(2))
qed

lemma decref_step:
  assumes "gc_ok h V st" "sweep_inv h V st F (\<lambda>u. P u + int (count_list (c # cs) u)) rt" "c \<in> V" "\<And>u. 0 \<le> P u"
  shows "0 \<le> ref_count (gc (decref c rt)) c"
    and "ref_count (gc (decref c rt)) c \<noteq> 0 \<or> JS_IsObject h c \<Longrightarrow> sweep_inv h V st F (\<lambda>u. P u + int (count_list cs u)) (decref c rt)"
    and "ref_count (gc (decref c rt)) c = 0 \<Longrightarrow> \<not> JS_IsObject h c \<Longrightarrow> c \<in> V - live h V st \<and> c \<notin> F
      \<and> sweep_inv h V st (insert c F) (\<lambda>u. (P u + int (count_list cs u)) + int (count_list (node_children (h c)) u)) (decref c rt)"
proof -
  note I = sweep_invD [OF assms(2)] and C = sweep_inv_covered [OF assms(1,2)]
  have rc: "ref_count (gc (decref c rt)) u = ref_count st u - refs h F u + (P u + int (count_list cs u))" for u
    using I(2) [of u] by (simp add: decref_def)
  have pos: "0 < ref_count (gc rt) c" using C(2) [of c] assms(4) [of c] by simp
  show "0 \<le> ref_count (gc (decref c rt)) c" using C(1) [of c] rc [of c] assms(4) [of c] by simp
  have other: "ref_count (gc (decref c rt)) u = ref_count (gc rt) u" if "u \<noteq> c" for u using that by (simp add: decref_def)
  {
    assume a: "ref_count (gc (decref c rt)) c \<noteq> 0 \<or> JS_IsObject h c"
    have "(0 < ref_count (gc (decref c rt)) u) = (u \<notin> F)" if u: "u \<in> V" "\<not> JS_IsObject h u" for u
    proof (cases "u = c")
      case True
      then show ?thesis using a u(2) pos I(3) [OF u] C(1) [of c] rc [of c] assms(4) [of c] by auto
    qed (use other I(3) [OF u] in simp)
    then show "sweep_inv h V st F (\<lambda>u. P u + int (count_list cs u)) (decref c rt)"
      unfolding sweep_inv_def using I(1) rc assms(4) by simp
  next
    assume a: "ref_count (gc (decref c rt)) c = 0" "\<not> JS_IsObject h c"
    have le: "ref_count st c \<le> refs h F c" using rc [of c] a(1) assms(4) [of c] by simp
    have c: "c \<notin> live h V st" using live_has_refs [OF assms(1) I(1), of c] le by auto
    have F: "c \<notin> F" using I(3) [OF assms(3) a(2)] pos by simp
    have "finite F" using I(1) gc_okD(1) [OF assms(1)] by (auto intro: finite_subset)
    then have r: "refs h (insert c F) u = int (count_list (node_children (h c)) u) + refs h F u" for u using F by (rule refs_insert)
    have "(0 < ref_count (gc (decref c rt)) u) = (u \<notin> insert c F)" if u: "u \<in> V" "\<not> JS_IsObject h u" for u
      using a(1) other [of u] I(3) [OF u] by (cases "u = c") simp_all
    then have "sweep_inv h V st (insert c F) (\<lambda>u. (P u + int (count_list cs u)) + int (count_list (node_children (h c)) u)) (decref c rt)"
      unfolding sweep_inv_def using I(1) rc assms(3,4) c by (simp add: r)
    then show "c \<in> V - live h V st \<and> c \<notin> F
      \<and> sweep_inv h V st (insert c F) (\<lambda>u. (P u + int (count_list cs u)) + int (count_list (node_children (h c)) u)) (decref c rt)"
      using c F assms(3) by blast
  }
qed

definition releases :: "heap \<Rightarrow> nat set \<Rightarrow> gc_state \<Rightarrow> nat \<Rightarrow> bool" where
  "releases h V st n \<longleftrightarrow> (\<forall>cs F P rt. set cs \<subseteq> V \<longrightarrow> card (V - F) < n \<longrightarrow> (\<forall>u. 0 \<le> P u) \<longrightarrow>
     sweep_inv h V st F (\<lambda>u. P u + int (count_list cs u)) rt \<longrightarrow>
     (\<exists>rt' N. each (JS_FreeValueRT n h) cs rt = Some rt' \<and> sweep_inv h V st (F \<union> N) P rt' \<and> same_rest rt rt'
        \<and> set (freed rt') = set (freed rt) \<union> N \<and> N \<inter> F = {} \<and> (\<forall>x\<in>N. \<not> JS_IsObject h x)))"

lemma releasesD:
  assumes "releases h V st n" "set cs \<subseteq> V" "card (V - F) < n" "\<And>u. 0 \<le> P u" "sweep_inv h V st F (\<lambda>u. P u + int (count_list cs u)) rt"
  obtains rt' N where "each (JS_FreeValueRT n h) cs rt = Some rt'" "sweep_inv h V st (F \<union> N) P rt'" "same_rest rt rt'"
    "set (freed rt') = set (freed rt) \<union> N" "N \<inter> F = {}" "\<forall>x\<in>N. \<not> JS_IsObject h x"
  using assms(1) [unfolded releases_def, rule_format, OF assms(2,3,4,5)] by blast

lemma same_rest_trans: "same_rest a b \<Longrightarrow> same_rest b c \<Longrightarrow> same_rest a c"
  by (simp add: same_rest_def)

lemma release_one:
  assumes ok: "gc_ok h V st" "sweepable h (V - live h V st)" and ih: "releases h V st n"
    and c: "c \<in> V" "card (V - F) < Suc n" "\<And>u. 0 \<le> P u" and I: "sweep_inv h V st F (\<lambda>u. P u + int (count_list (c # cs) u)) rt"
  shows "\<exists>rt' N. JS_FreeValueRT (Suc n) h c rt = Some rt' \<and> sweep_inv h V st (F \<union> N) (\<lambda>u. P u + int (count_list cs u)) rt' \<and> same_rest rt rt'
    \<and> set (freed rt') = set (freed rt) \<union> N \<and> N \<inter> F = {} \<and> (\<forall>x\<in>N. \<not> JS_IsObject h x)"
proof -
  note D = decref_step [OF ok(1) I c(1,3)]
  have sr: "same_rest rt (decref c rt)" "freed (decref c rt) = freed rt" by (simp_all add: same_rest_def decref_def)
  show ?thesis
  proof (cases "ref_count (gc (decref c rt)) c = 0 \<and> \<not> JS_IsObject h c")
    case False
    then show ?thesis using D(1,2) sr by (intro exI [of _ "decref c rt"] exI [of _ "{}"]) auto
  next
    case True
    then have g: "c \<in> V - live h V st" "c \<notin> F"
      and J: "sweep_inv h V st (insert c F) (\<lambda>u. (P u + int (count_list cs u)) + int (count_list (node_children (h c)) u)) (decref c rt)"
      using D(3) by blast+
    obtain ds where ds: "free_list (h c) = Some ds" "set ds = set (node_children (h c))"
        "\<And>u. count_list ds u = count_list (node_children (h c)) u"
      by (rule sweepableD [OF ok(2) g(1)]) blast
    let ?P = "\<lambda>u. P u + int (count_list cs u)"
    have sub: "set ds \<subseteq> V" using ds(2) gc_ok_closed [OF ok(1) c(1)] by simp
    have "V - insert c F = V - F - {c}" by blast
    then have card: "card (V - insert c F) < n"
      using c(1,2) g(2) card_Suc_Diff1 [of "V - F" c] gc_okD(1) [OF ok(1)] by simp
    have nn: "0 \<le> ?P u" for u using c(3) by (simp add: add_nonneg_nonneg)
    have K: "sweep_inv h V st (insert c F) (\<lambda>u. ?P u + int (count_list ds u)) (decref c rt)" using J by (simp only: ds(3))
    obtain rt' N where r: "each (JS_FreeValueRT n h) ds (decref c rt) = Some rt'"
        "sweep_inv h V st (insert c F \<union> N) ?P rt'" "same_rest (decref c rt) rt'"
        "set (freed rt') = set (freed (decref c rt)) \<union> N" "N \<inter> insert c F = {}" "\<forall>x\<in>N. \<not> JS_IsObject h x"
      by (erule releasesD [where P = ?P, OF ih sub card nn K])
    let ?rt = "rt'\<lparr>freed := freed rt' @ [c]\<rparr>"
    have "sweep_inv h V st (F \<union> insert c N) ?P ?rt" using sweep_inv_counts [OF r(2), of ?rt] by simp
    moreover have "same_rest rt ?rt" using same_rest_trans [OF sr(1) r(3)] by (simp add: same_rest_def)
    moreover have "set (freed ?rt) = set (freed rt) \<union> insert c N" using r(4) sr(2) by auto
    moreover have "insert c N \<inter> F = {}" "\<forall>x\<in>insert c N. \<not> JS_IsObject h x" using r(5,6) g(2) True by auto
    moreover have "JS_FreeValueRT (Suc n) h c rt = Some ?rt" using True D(1) ds(1) r(1) by (simp add: Let_def)
    ultimately show ?thesis by blast
  qed
qed

lemma releases_ok:
  assumes "gc_ok h V st" "sweepable h (V - live h V st)"
  shows "releases h V st n"
proof (induction n)
  case 0
  then show ?case by (simp add: releases_def)
next
  case (Suc n)
  have "\<exists>rt' N. each (JS_FreeValueRT (Suc n) h) cs rt = Some rt' \<and> sweep_inv h V st (F \<union> N) P rt' \<and> same_rest rt rt'
      \<and> set (freed rt') = set (freed rt) \<union> N \<and> N \<inter> F = {} \<and> (\<forall>x\<in>N. \<not> JS_IsObject h x)"
    if "set cs \<subseteq> V" "card (V - F) < Suc n" "\<forall>u. 0 \<le> P u" "sweep_inv h V st F (\<lambda>u. P u + int (count_list cs u)) rt" for cs F P rt
    using that
  proof (induction cs arbitrary: F rt)
    case Nil
    then show ?case by (intro exI [of _ rt] exI [of _ "{}"]) (simp add: same_rest_def)
  next
    case (Cons c cs)
    have c: "c \<in> V" "set cs \<subseteq> V" using Cons.prems(1) by simp_all
    obtain rt1 N where a: "JS_FreeValueRT (Suc n) h c rt = Some rt1" "sweep_inv h V st (F \<union> N) (\<lambda>u. P u + int (count_list cs u)) rt1"
        "same_rest rt rt1" "set (freed rt1) = set (freed rt) \<union> N" "N \<inter> F = {}" "\<forall>x\<in>N. \<not> JS_IsObject h x"
      using release_one [OF assms Suc.IH c(1) Cons.prems(2) _ Cons.prems(4)] Cons.prems(3) by blast
    have "card (V - (F \<union> N)) \<le> card (V - F)" using gc_okD(1) [OF assms(1)] by (intro card_mono) auto
    then have "card (V - (F \<union> N)) < Suc n" using Cons.prems(2) by simp
    then obtain rt2 M where b: "each (JS_FreeValueRT (Suc n) h) cs rt1 = Some rt2" "sweep_inv h V st (F \<union> N \<union> M) P rt2" "same_rest rt1 rt2"
        "set (freed rt2) = set (freed rt1) \<union> M" "M \<inter> (F \<union> N) = {}" "\<forall>x\<in>M. \<not> JS_IsObject h x"
      using Cons.IH [OF c(2) _ Cons.prems(3) a(2)] by blast
    have "each (JS_FreeValueRT (Suc n) h) (c # cs) rt = Some rt2" by (simp only: each.simps a(1) b(1) option.case)
    moreover have "sweep_inv h V st (F \<union> (N \<union> M)) P rt2" using b(2) by (simp add: Un_assoc)
    moreover have "set (freed rt2) = set (freed rt) \<union> (N \<union> M)" using a(4) b(4) by blast
    moreover have "(N \<union> M) \<inter> F = {}" "\<forall>x\<in>N \<union> M. \<not> JS_IsObject h x" using a(5,6) b(5,6) by blast+
    ultimately show ?case using same_rest_trans [OF a(3) b(3)] by blast
  qed
  then show ?case unfolding releases_def by blast
qed

section \<open>The sweep\<close>

lemma free_object2_spec:
  assumes ok: "gc_ok h V st" "sweepable h (V - live h V st)" "card V < n"
    and p: "p \<in> V - live h V st" "JS_IsObject h p" "p \<notin> F" "\<not> free_mark rt p" and I: "sweep_inv h V st F (\<lambda>_. 0) rt"
  shows "\<exists>rt' N. free_object2 n h p rt = Some rt' \<and> sweep_inv h V st (insert p F \<union> N) (\<lambda>_. 0) rt' \<and> (\<forall>x\<in>N. \<not> JS_IsObject h x)
    \<and> set (freed rt') = set (freed rt) \<union> N \<and> free_obj_list rt' = free_obj_list rt @ [p] \<and> free_mark rt' = (free_mark rt)(p := True)
    \<and> gmark (gc rt') = gmark (gc rt) \<and> obj_list (gc rt') = obj_list (gc rt) \<and> tmp_obj_list (gc rt') = remove1 p (tmp_obj_list (gc rt))"
proof -
  let ?rt = "rt\<lparr>free_mark := (free_mark rt)(p := True)\<rparr>"
  note D = sweep_invD [OF I]
  obtain cs where cs: "free_list (h p) = Some cs" "set cs = set (node_children (h p))"
      "\<And>u. count_list cs u = count_list (node_children (h p)) u"
    by (rule sweepableD [OF ok(2) p(1)]) blast
  have "finite F" using D(1) gc_okD(1) [OF ok(1)] by (auto intro: finite_subset)
  then have r: "refs h (insert p F) u = int (count_list cs u) + refs h F u" for u using p(3) by (simp add: refs_insert cs(3))
  have K: "sweep_inv h V st (insert p F) (\<lambda>u. 0 + int (count_list cs u)) ?rt"
    unfolding sweep_inv_def using D(1-3) p(1,2) by (auto simp: r)
  have sub: "set cs \<subseteq> V" using cs(2) gc_ok_closed [OF ok(1)] p(1) by auto
  have card: "card (V - insert p F) < n" using ok(3) card_mono [OF gc_okD(1) [OF ok(1)], of "V - insert p F"] by auto
  obtain rt' N where v: "each (JS_FreeValueRT n h) cs ?rt = Some rt'" "sweep_inv h V st (insert p F \<union> N) (\<lambda>_. 0) rt'" "same_rest ?rt rt'"
      "set (freed rt') = set (freed ?rt) \<union> N" "\<forall>x\<in>N. \<not> JS_IsObject h x"
    by (rule releasesD [where P = "\<lambda>_. 0", OF releases_ok [OF ok(1,2)] sub card _ K]) auto
  let ?rt' = "rt'\<lparr>gc := (gc rt')\<lparr>tmp_obj_list := remove1 p (tmp_obj_list (gc rt'))\<rparr>, free_obj_list := free_obj_list rt' @ [p]\<rparr>"
  have "free_object2 n h p rt = Some ?rt'" using p(4) cs(1) v(1) by (simp add: free_object2_def)
  moreover have "sweep_inv h V st (insert p F \<union> N) (\<lambda>_. 0) ?rt'" 
    by (rule sweep_inv_counts [OF v(2)]) simp
  ultimately show ?thesis using v(3-5) by (intro exI [of _ ?rt'] exI [of _ N]) (simp add: same_rest_def)
qed

lemma sweep_loop:
  assumes ok: "gc_ok h V st" "sweepable h (V - live h V st)" "card V < n"
  shows "set ps \<subseteq> V - live h V st \<Longrightarrow> distinct ps \<Longrightarrow> (\<forall>p\<in>set ps. JS_IsObject h p \<and> p \<notin> F \<and> \<not> free_mark rt p \<and> gmark (gc rt) p = 3) \<Longrightarrow>
      sweep_inv h V st F (\<lambda>_. 0) rt \<Longrightarrow>
    \<exists>rt' N. each (\<lambda>p rt. if gmark (gc rt) p = 3 then free_object2 n h p rt else None) ps rt = Some rt'
      \<and> sweep_inv h V st (F \<union> set ps \<union> N) (\<lambda>_. 0) rt' \<and> (\<forall>x\<in>N. \<not> JS_IsObject h x)
      \<and> set (freed rt') = set (freed rt) \<union> N \<and> free_obj_list rt' = free_obj_list rt @ ps \<and> (\<forall>x. x \<notin> set ps \<longrightarrow> free_mark rt' x = free_mark rt x)
      \<and> gmark (gc rt') = gmark (gc rt) \<and> obj_list (gc rt') = obj_list (gc rt) \<and> tmp_obj_list (gc rt') = fold remove1 ps (tmp_obj_list (gc rt))"
proof (induction ps arbitrary: F rt)
  case Nil
  then show ?case by (intro exI [of _ rt] exI [of _ "{}"]) simp
next
  case (Cons p ps)
  have p: "p \<in> V - live h V st" "JS_IsObject h p" "p \<notin> F" "\<not> free_mark rt p" "gmark (gc rt) p = 3"
    and q: "set ps \<subseteq> V - live h V st" "distinct ps" "p \<notin> set ps" using Cons.prems(1-3) by simp_all
  obtain rt1 N where a: "free_object2 n h p rt = Some rt1" "sweep_inv h V st (insert p F \<union> N) (\<lambda>_. 0) rt1" "\<forall>x\<in>N. \<not> JS_IsObject h x"
      "set (freed rt1) = set (freed rt) \<union> N" "free_obj_list rt1 = free_obj_list rt @ [p]" "free_mark rt1 = (free_mark rt)(p := True)"
      "gmark (gc rt1) = gmark (gc rt)" "obj_list (gc rt1) = obj_list (gc rt)" "tmp_obj_list (gc rt1) = remove1 p (tmp_obj_list (gc rt))"
    using free_object2_spec [OF ok p(1-4) Cons.prems(4)] by blast
  have "\<forall>x\<in>set ps. JS_IsObject h x \<and> x \<notin> insert p F \<union> N \<and> \<not> free_mark rt1 x \<and> gmark (gc rt1) x = 3"
    using Cons.prems(3) q(3) a(3,6,7) by auto
  then obtain rt2 M where b: "each (\<lambda>p rt. if gmark (gc rt) p = 3 then free_object2 n h p rt else None) ps rt1 = Some rt2"
      "sweep_inv h V st (insert p F \<union> N \<union> set ps \<union> M) (\<lambda>_. 0) rt2" "\<forall>x\<in>M. \<not> JS_IsObject h x" "set (freed rt2) = set (freed rt1) \<union> M"
      "free_obj_list rt2 = free_obj_list rt1 @ ps" "\<forall>x. x \<notin> set ps \<longrightarrow> free_mark rt2 x = free_mark rt1 x" "gmark (gc rt2) = gmark (gc rt1)" "obj_list (gc rt2) = obj_list (gc rt1)"
      "tmp_obj_list (gc rt2) = fold remove1 ps (tmp_obj_list (gc rt1))"
    using Cons.IH [OF q(1,2) _ a(2)] by blast
  have "insert p F \<union> N \<union> set ps \<union> M = F \<union> set (p # ps) \<union> (N \<union> M)" by auto
  then have "sweep_inv h V st (F \<union> set (p # ps) \<union> (N \<union> M)) (\<lambda>_. 0) rt2" using b(2) by simp
  moreover have "each (\<lambda>p rt. if gmark (gc rt) p = 3 then free_object2 n h p rt else None) (p # ps) rt = Some rt2"
    using a(1) b(1) p(5) by simp
  ultimately show ?case using a(3-9) b(3-9) by (intro exI [of _ rt2] exI [of _ "N \<union> M"]) auto
qed

lemma fold_remove1_self: "distinct xs \<Longrightarrow> fold remove1 xs xs = []"
  by (induction xs) auto

section \<open>Properties\<close>

text \<open>The heap before a collection: counts and lists are right and no object is being freed.\<close>

definition runtime_ok :: "heap \<Rightarrow> nat set \<Rightarrow> sweep_state \<Rightarrow> bool" where
  "runtime_ok h V rt \<longleftrightarrow> gc_ok h V (gc rt) \<and> (\<forall>p\<in>set (obj_list (gc rt)). \<not> free_mark rt p) \<and> freed rt = []"

abbreviation survivors :: "heap \<Rightarrow> nat set \<Rightarrow> sweep_state \<Rightarrow> nat set" where
  "survivors h V rt \<equiv> live h V (gc rt)"

text \<open>A node that is no object is only reached through references.\<close>

lemma non_object_counted:
  assumes "gc_ok h V st" "u \<in> V" "\<not> JS_IsObject h u"
  shows "0 < ref_count st u"
proof -
  obtain o1 where o1: "o1 \<in> set (obj_list st)" "(o1, u) \<in> (edges h)\<^sup>*" using assms(2) gc_okD(2) [OF assms(1)] by blast
  have "o1 \<noteq> u" using o1(1) assms(3) gc_okD(4) [OF assms(1,2)] by auto
  then obtain y where y: "(o1, y) \<in> (edges h)\<^sup>*" "(y, u) \<in> edges h" using o1(2) by (metis rtranclE)
  have "y \<in> V" using y(1) o1(1) gc_okD(2) [OF assms(1)] by blast
  then have "0 < refs h V u" using refs_pos_iff [OF gc_okD(1) [OF assms(1)], of h u] y(2) by (auto simp: edges_def)
  then show ?thesis using gc_okD(6) [OF assms(1), of u] by simp
qed

lemma run_gc:
  assumes "runtime_ok h V rt" "sweepable h (V - survivors h V rt)" "card V < n"
  shows "\<exists>rt' N. JS_RunGC n h rt = Some rt' \<and> sweep_inv h V (gc rt) (set (freed rt')) (\<lambda>_. 0) rt'
    \<and> set (freed rt') = (set (obj_list (gc rt)) - survivors h V rt) \<union> N \<and> (\<forall>x\<in>N. \<not> JS_IsObject h x)
    \<and> set (obj_list (gc rt')) = set (obj_list (gc rt)) \<inter> survivors h V rt \<and> distinct (obj_list (gc rt'))
    \<and> (\<forall>u\<in>survivors h V rt. gmark (gc rt') u = 0 \<and> free_mark rt' u = free_mark rt u)"
proof -
  let ?L = "survivors h V rt" and ?O = "obj_list (gc rt)"
  have ok: "gc_ok h V (gc rt)" "\<forall>p\<in>set ?O. \<not> free_mark rt p" "freed rt = []" using assms(1) by (simp_all add: runtime_ok_def)
  obtain st1 st2 where s: "gc_decref n h (gc rt) = Some st1" "gc_scan n h st1 = Some st2" "tmp_obj_list st2 = filter (\<lambda>u. u \<notin> ?L) ?O"
      "distinct (obj_list st2)" "set (obj_list st2) = set ?O \<inter> ?L" "ref_count st2 = ref_count (gc rt)"
      "\<forall>u\<in>V. gmark st2 u = (if u \<in> ?L then 0 else 3)"
    using gc_passes [OF ok(1) assms(3)] by blast
  define ps where "ps = filter (\<lambda>u. u \<notin> ?L) ?O"
  let ?rt = "rt\<lparr>gc := st2, free_obj_list := []\<rparr>"
  have sub: "set ps \<subseteq> V - ?L" "distinct ps" using gc_okD(3,7) [OF ok(1)] by (auto simp: ps_def)
  have I: "sweep_inv h V (gc rt) {} (\<lambda>_. 0) ?rt"
    unfolding sweep_inv_def using non_object_counted [OF ok(1)] by (simp add: s(6))
  have ps: "\<forall>p\<in>set ps. JS_IsObject h p \<and> p \<notin> {} \<and> \<not> free_mark ?rt p \<and> gmark (gc ?rt) p = 3"
    using sub(1) gc_okD(4) [OF ok(1)] ok(2) s(7) by (auto simp: ps_def)
  obtain rt1 N where l: "each (\<lambda>p rt. if gmark (gc rt) p = 3 then free_object2 n h p rt else None) ps ?rt = Some rt1"
      "sweep_inv h V (gc rt) ({} \<union> set ps \<union> N) (\<lambda>_. 0) rt1" "\<forall>x\<in>N. \<not> JS_IsObject h x" "set (freed rt1) = set (freed ?rt) \<union> N"
      "free_obj_list rt1 = free_obj_list ?rt @ ps" "\<forall>x. x \<notin> set ps \<longrightarrow> free_mark rt1 x = free_mark ?rt x"
      "gmark (gc rt1) = gmark (gc ?rt)" "obj_list (gc rt1) = obj_list (gc ?rt)"
    using sweep_loop [OF ok(1) assms(2,3) sub ps I] by blast
  let ?rt' = "rt1\<lparr>freed := freed rt1 @ free_obj_list rt1\<rparr>"
  have F: "set (freed ?rt') = set ps \<union> N" using l(4,5) ok(3) by auto
  have "JS_RunGC n h rt = Some ?rt'" using s(1-3) l(1) by (simp add: JS_RunGC_def gc_free_cycles_def ps_def)
  moreover have "sweep_inv h V (gc rt) (set (freed ?rt')) (\<lambda>_. 0) ?rt'" using sweep_inv_counts [OF l(2), of ?rt'] F by simp
  moreover have "set ps = set ?O - ?L" by (auto simp: ps_def)
  moreover have "gmark (gc ?rt') u = 0 \<and> free_mark ?rt' u = free_mark rt u" if "u \<in> ?L" for u
    using l(6,7) s(7) that live_subset [OF ok(1)] sub(1) by auto
  ultimately show ?thesis using F s(4,5) l(3,8) by (intro exI [of _ ?rt'] exI [of _ N]) auto
qed




subsection \<open>An example heap\<close>

text \<open>
  The object 0 is referenced from outside, the objects 2 and 3 refer to each other only; all three have the
  shape 1.
\<close>

definition example_heap :: heap where
  "example_heap p =
     (if p = 0 then Object 1 [] []
      else if p = 2 then Object 1 [(True, PropValue (JS_MKPTR TAG_OBJECT 3))] []
      else if p = 3 then Object 1 [(True, PropValue (JS_MKPTR TAG_OBJECT 2))] []
      else Shape None)"

definition example_runtime :: sweep_state where
  "example_runtime = \<lparr>gc = \<lparr>ref_count = (\<lambda>_. 0)(0 := 1, 1 := 3, 2 := 1, 3 := 1), gmark = \<lambda>_. 0, obj_list = [0, 2, 3], tmp_obj_list = [],
     el_next = None\<rparr>, free_mark = \<lambda>_. False, free_obj_list = [], freed = []\<rparr>"

lemma example_children: "node_children (example_heap p) = (if p = 0 then [1] else if p = 2 then [1, 3] else if p = 3 then [1, 2] else [])"
  by (simp add: example_heap_def JS_MKPTR_def JS_MarkValue_def JS_VALUE_HAS_REF_COUNT_def has_children_def mark_values_def)

lemma example_edges: "edges example_heap = {(0, 1), (2, 1), (2, 3), (3, 1), (3, 2)}"
  by (auto simp: edges_def example_children split: if_splits)

lemma example_ok:
  "runtime_ok example_heap {0, 1, 2, 3} example_runtime" "sweepable example_heap G" "card {0, 1, 2, 3 :: nat} < 5"
  "acyclic {(x, y) \<in> edges example_heap. x \<in> {0, 1, 2, 3} \<and> \<not> JS_IsObject example_heap x \<and> \<not> JS_IsObject example_heap y}"
proof -
  have reach: "{0, 1, 2, 3} = (edges example_heap)\<^sup>* `` {0, 2, 3}"
  proof
    show "{0, 1, 2, 3} \<subseteq> (edges example_heap)\<^sup>* `` {0, 2, 3}" using example_edges by (auto intro: r_into_rtrancl)
    have c: "set (node_children (example_heap u)) \<subseteq> {0, 1, 2, 3}" for u by (auto simp: example_children split: if_splits)
    have "y \<in> {0, 1, 2, 3}" if "(x, y) \<in> (edges example_heap)\<^sup>*" "x \<in> {0, 2, 3}" for x y
      by (rule closed_set [OF that(1) _ c]) (use that(2) in auto)
    then show "(edges example_heap)\<^sup>* `` {0, 2, 3} \<subseteq> {0, 1, 2, 3}" by blast
  qed
  have rt: "obj_list (gc example_runtime) = [0, 2, 3]" "gmark (gc example_runtime) p = 0" for p by (simp_all add: example_runtime_def)
  have "gc_ok example_heap {0, 1, 2, 3} (gc example_runtime)" unfolding gc_ok_def rt
  proof (intro conjI allI)
    show "{0, 1, 2, 3} = (edges example_heap)\<^sup>* `` set [0, 2, 3]" using reach by (simp only: list.set)
    show "\<forall>p\<in>{0, 1, 2, 3}. JS_IsObject example_heap p = (p \<in> set [0, 2, 3])" by (simp add: JS_IsObject_def example_heap_def)
    show "refs example_heap {0, 1, 2, 3} u \<le> ref_count (gc example_runtime) u" for u
      by (simp add: refs_def example_children example_runtime_def)
  qed simp_all
  then show "runtime_ok example_heap {0, 1, 2, 3} example_runtime" by (simp add: runtime_ok_def) (simp add: example_runtime_def)
  show "sweepable example_heap G"
    by (simp add: sweepable_def example_children)
      (simp add: example_heap_def free_property_def JS_MKPTR_def JS_MarkValue_def JS_VALUE_HAS_REF_COUNT_def has_children_def mark_values_def)
  have "{(x, y) \<in> edges example_heap. x \<in> {0, 1, 2, 3} \<and> \<not> JS_IsObject example_heap x \<and> \<not> JS_IsObject example_heap y} = {}"
    by (auto simp: example_edges JS_IsObject_def example_heap_def)
  then show "acyclic {(x, y) \<in> edges example_heap. x \<in> {0, 1, 2, 3} \<and> \<not> JS_IsObject example_heap x \<and> \<not> JS_IsObject example_heap y}"
    by (simp only: acyclic_def trancl_empty empty_iff not_False_eq_True simp_thms)
qed simp




lemma example_run: "map_option (\<lambda>rt. (freed rt, obj_list (gc rt), map (ref_count (gc rt)) [0, 1])) (JS_RunGC 5 example_heap example_runtime)
    = Some ([2, 3], [0], [1, 1])"
  by code_simp

end
