(* ===== verification/QJS_PC2Line.thy ===== *)
theory QJS_PC2Line
  imports CUtils_DynBuf
begin

text \<open>
  Variable length integers and the line number table of \<open>quickjs.c\<close>: \<open>dbuf_put_leb128\<close>, \<open>get_leb128\<close> and their
  signed versions, the recording of line numbers (\<open>add_pc2line_info\<close>), the table that the compiler writes
  (\<open>compute_pc2line_info\<close>) and the search in it that stack traces use (\<open>find_line_num\<close>).

  \<open>uint32_t\<close> and \<open>int\<close> are both 32 bit words; where the code compares signed numbers the model does. What the code
  appends to a buffer is the list of its \<open>dbuf_putc\<close> calls, run by \<open>dbuf_run\<close>. A result -1 is \<open>None\<close>.
\<close>

section \<open>Model\<close>

subsection \<open>Variable length integers\<close>

lemma drop_bit_7_less: "drop_bit 7 v \<noteq> 0 \<Longrightarrow> unat (drop_bit 7 (v :: u32)) < unat v"
proof -
  assume "drop_bit 7 v \<noteq> 0"
  then have "unat (drop_bit 7 v) \<noteq> 0" by (simp add: unat_eq_zero)
  then have "unat v div 128 \<noteq> 0" by (simp add: unat_drop_bit)
  then have "0 < unat v" by (cases "unat v = 0") simp_all
  then show ?thesis by (simp add: unat_drop_bit)
qed

function leb128_ops :: "u32 \<Rightarrow> dbuf_op list" where
  "leb128_ops v =
     (let a = v AND 0x7f; v' = drop_bit 7 v in
      if v' \<noteq> 0 then PutC (to_u8 (a OR 0x80)) # leb128_ops v' else [PutC (to_u8 a)])"
  by pat_completeness auto

termination
  by (relation "measure unat") (simp_all add: drop_bit_7_less)

declare leb128_ops.simps [simp del]

definition dbuf_put_leb128 :: "'h realloc_func \<Rightarrow> 'h \<Rightarrow> DynBuf \<Rightarrow> u32 \<Rightarrow> ('h \<times> DynBuf) option" where
  "dbuf_put_leb128 ra h s v = dbuf_run ra h s (leb128_ops v)"

definition zigzag :: "u32 \<Rightarrow> u32" where
  "zigzag v = (2 * v) XOR (- drop_bit 31 v)"

definition dbuf_put_sleb128 :: "'h realloc_func \<Rightarrow> 'h \<Rightarrow> DynBuf \<Rightarrow> u32 \<Rightarrow> ('h \<times> DynBuf) option" where
  "dbuf_put_sleb128 ra h s v1 = dbuf_put_leb128 ra h s (zigzag v1)"

text \<open>The value and the number of bytes read.\<close>

fun get_leb128_loop :: "nat \<Rightarrow> nat \<Rightarrow> u32 \<Rightarrow> u8 list \<Rightarrow> (u32 \<times> nat) option" where
  "get_leb128_loop 0 i v ptr = None"
| "get_leb128_loop (Suc k) i v [] = None"
| "get_leb128_loop (Suc k) i v (a # ptr) =
     (let v = v OR push_bit (i * 7) (to_u32 a AND 0x7f) in
      if a AND 0x80 = 0 then Some (v, i + 1) else get_leb128_loop k (i + 1) v ptr)"

definition get_leb128 :: "u8 list \<Rightarrow> (u32 \<times> nat) option" where
  "get_leb128 buf = get_leb128_loop 5 0 0 buf"

definition get_sleb128 :: "u8 list \<Rightarrow> (u32 \<times> nat) option" where
  "get_sleb128 buf =
     (case get_leb128 buf of
        None \<Rightarrow> None
      | Some (val, ret) \<Rightarrow> Some (drop_bit 1 val XOR (- (val AND 1)), ret))"

subsection \<open>The line number table\<close>

definition PC2LINE_BASE :: int where
  "PC2LINE_BASE = - 1"

definition PC2LINE_RANGE :: int where
  "PC2LINE_RANGE = 5"

definition PC2LINE_OP_FIRST :: int where
  "PC2LINE_OP_FIRST = 1"

definition PC2LINE_DIFF_PC_MAX :: int where
  "PC2LINE_DIFF_PC_MAX = (255 - PC2LINE_OP_FIRST) div PC2LINE_RANGE"

record LineNumberSlot =
  slot_pc :: u32
  slot_line :: u32

text \<open>
  The fields of \<open>JSFunctionDef\<close> that concern line numbers. The array of slots is a list of the slots in use, whose length is
  \<open>line_number_count\<close>, or \<open>None\<close> for the null pointer.
\<close>

record line_state =
  js_mode :: u8
  line_number_slots :: "LineNumberSlot list option"
  line_number_size :: nat
  line_number_last :: u32
  line_number_last_pc :: u32
  fd_line_num :: u32
  pc2line :: DynBuf

definition JS_MODE_STRIP :: u8 where
  "JS_MODE_STRIP = push_bit 1 1"

definition add_pc2line_info :: "line_state \<Rightarrow> u32 \<Rightarrow> u32 \<Rightarrow> line_state" where
  "add_pc2line_info s pc line_num =
     (case line_number_slots s of
        None \<Rightarrow> s
      | Some slots \<Rightarrow>
          if length slots < line_number_size s \<and> pc \<ge> line_number_last_pc s \<and> line_num \<noteq> line_number_last s
          then s\<lparr>line_number_slots := Some (slots @ [\<lparr>slot_pc = pc, slot_line = line_num\<rparr>]),
                 line_number_last_pc := pc, line_number_last := line_num\<rparr>
          else s)"

fun pc2line_ops :: "u32 \<Rightarrow> u32 \<Rightarrow> LineNumberSlot list \<Rightarrow> dbuf_op list" where
  "pc2line_ops last_pc last_line [] = []"
| "pc2line_ops last_pc last_line (x # xs) =
     (let pc = slot_pc x; line_num = slot_line x;
          diff_pc = pc - last_pc; diff_line = line_num - last_line in
      if sint line_num < 0 then pc2line_ops last_pc last_line xs
      else if diff_line = 0 \<or> sint diff_pc < 0 then pc2line_ops last_pc last_line xs
      else
        (if sint diff_line \<ge> PC2LINE_BASE \<and> sint diff_line < PC2LINE_BASE + PC2LINE_RANGE \<and> sint diff_pc \<le> PC2LINE_DIFF_PC_MAX
         then [PutC (word_of_int ((sint diff_line - PC2LINE_BASE) + sint diff_pc * PC2LINE_RANGE + PC2LINE_OP_FIRST))]
         else PutC 0 # leb128_ops diff_pc @ leb128_ops (zigzag diff_line))
        @ pc2line_ops pc line_num xs)"

definition compute_pc2line_info :: "'h realloc_func \<Rightarrow> 'h \<Rightarrow> line_state \<Rightarrow> ('h \<times> line_state) option" where
  "compute_pc2line_info ra h s =
     (case line_number_slots s of
        None \<Rightarrow> Some (h, s)
      | Some slots \<Rightarrow>
          if js_mode s AND JS_MODE_STRIP = 0
          then map_option (\<lambda>(h', d). (h', s\<lparr>pc2line := d\<rparr>)) (dbuf_run ra h dbuf_init2 (pc2line_ops 0 (fd_line_num s) slots))
          else Some (h, s))"

text \<open>One entry of the table: the new \<open>pc\<close>, the new line and the rest; \<open>None\<close> for the label \<open>fail\<close>.\<close>

definition next_entry :: "u32 \<Rightarrow> u32 \<Rightarrow> u8 \<Rightarrow> u8 list \<Rightarrow> (u32 \<times> u32 \<times> u8 list) option" where
  "next_entry pc line_num op p =
     (if op = 0 then
        (case get_leb128 p of
           None \<Rightarrow> None
         | Some (val, ret) \<Rightarrow>
             (case get_sleb128 (drop ret p) of
                None \<Rightarrow> None
              | Some (v, ret2) \<Rightarrow> Some (pc + val, line_num + v, drop ret2 (drop ret p))))
      else
        let op' = to_u32 op - word_of_int PC2LINE_OP_FIRST in
        Some (pc + op' div word_of_int PC2LINE_RANGE,
              line_num + op' mod word_of_int PC2LINE_RANGE + word_of_int PC2LINE_BASE, p))"

lemma next_entry_shorter: "next_entry pc line_num op p = Some (pc', l', p') \<Longrightarrow> length p' \<le> length p"
  by (auto simp: next_entry_def Let_def split: if_splits option.splits)

function find_line_loop :: "u32 \<Rightarrow> u32 \<Rightarrow> u32 \<Rightarrow> u32 \<Rightarrow> u8 list \<Rightarrow> u32" where
  "find_line_loop line0 pc_value pc line_num [] = line_num"
| "find_line_loop line0 pc_value pc line_num (op # p) =
     (case next_entry pc line_num op p of
        None \<Rightarrow> line0
      | Some (pc', new_line_num, p') \<Rightarrow>
          if pc_value < pc' then line_num else find_line_loop line0 pc_value pc' new_line_num p')"
  by pat_completeness auto
termination
  by (relation "measure (\<lambda>(_, _, _, _, p). length p)") (auto dest: next_entry_shorter)

definition find_line_num :: "(u8 list \<times> u32) option \<Rightarrow> u32 \<Rightarrow> u32" where
  "find_line_num debug pc_value =
     (case debug of
        None \<Rightarrow> - 1
      | Some (pc2line_buf, line_num) \<Rightarrow> find_line_loop line_num pc_value 0 line_num pc2line_buf)"

section \<open>Round trip of the integers\<close>

lemma low_septet: "v AND 0x7f = take_bit 7 (v :: 'a::len word)"
  by (simp add: take_bit_eq_mask mask_numerals)

lemma bit_high: "bit (0x80 :: 'a::len word) n \<longleftrightarrow> n = 7 \<and> 7 < LENGTH('a)"
proof -
  have "(0x80 :: 'a word) = 2 ^ 7" by simp
  then show ?thesis by (simp only: bit_exp_iff possible_bit_word) auto
qed

lemma byte_continues:
  fixes v :: u32
  shows "to_u32 (to_u8 (take_bit 7 v OR 0x80)) AND 0x7f = take_bit 7 v" "to_u8 (take_bit 7 v OR 0x80) AND 0x80 = 0x80"
    "to_u32 (to_u8 (take_bit 7 v)) AND 0x7f = take_bit 7 v" "to_u8 (take_bit 7 v) AND 0x80 = 0"
  by (rule bit_word_eqI; auto simp: low_septet bit_high bit_simps mask_simps)+

lemma septets: "push_bit (i * 7) (take_bit 7 v) OR push_bit ((i + 1) * 7) (drop_bit 7 v) = push_bit (i * 7) (v :: u32)"
proof (rule bit_word_eqI)
  fix n
  assume "n < LENGTH(32)"
  moreover have "7 + (n - (7 + i * 7)) = n - i * 7" if "7 + i * 7 \<le> n" using that by simp
  ultimately show "bit (push_bit (i * 7) (take_bit 7 v) OR push_bit ((i + 1) * 7) (drop_bit 7 v)) n = bit (push_bit (i * 7) v) n"
    by (cases "7 + i * 7 \<le> n") (auto simp: bit_simps)
qed

lemma leb128_loop:
  "unat v < 2 ^ (7 * k) \<Longrightarrow> 0 < k \<Longrightarrow>
    get_leb128_loop k i acc (ops_bytes (leb128_ops v) @ rest) = Some (acc OR push_bit (i * 7) v, i + length (ops_bytes (leb128_ops v)))"
proof (induction k arbitrary: i acc v)
  case (Suc k)
  show ?case
  proof (cases "drop_bit 7 v = 0")
    case True
    then have "take_bit 7 v = v" using septets [of 0 v] by simp
    then show ?thesis using True byte_continues(3,4) [of v]
      by (subst (1 2) leb128_ops.simps) (simp add: Let_def low_septet)
  next
    case False
    have k: "0 < k"
    proof (rule ccontr)
      assume "\<not> 0 < k"
      then have "unat v < 128" using Suc.prems(1) by simp
      then have "unat (drop_bit 7 v) = 0" by (simp add: unat_drop_bit)
      then show False using False by (simp add: unat_eq_zero)
    qed
    have "unat (drop_bit 7 v) < 2 ^ (7 * k)"
      using Suc.prems(1) by (simp add: unat_drop_bit less_mult_imp_div_less power_add mult.commute)
    from Suc.IH [OF this k, of "i + 1" "acc OR push_bit (i * 7) (take_bit 7 v)"] show ?thesis
      using False byte_continues(1,2) [of v] septets [of i v]
      by (subst (1 2) leb128_ops.simps) (simp add: Let_def low_septet or.assoc)
  qed
qed simp

lemma get_leb128_ops: "get_leb128 (ops_bytes (leb128_ops v) @ rest) = Some (v, length (ops_bytes (leb128_ops v)))"
proof -
  have "unat v < 2 ^ (7 * 5)" using unat_u32_lt [of v] by simp
  from leb128_loop [OF this, of 0 0] show ?thesis by (simp add: get_leb128_def)
qed

lemma bit_top: "bit v (31 + n) \<longleftrightarrow> n = 0 \<and> bit (v :: u32) 31"
  using bit_imp_le_length [of v "31 + n"] by (cases "n = 0") auto

lemma unzigzag: "drop_bit 1 (zigzag v) XOR (- (zigzag v AND 1)) = v"
proof (cases "bit v 31")
  case True
  then have "drop_bit 31 v = 1" by (intro bit_word_eqI) (auto simp: bit_simps bit_top)
  then have z: "zigzag v = NOT (2 * v)" by (simp add: zigzag_def)
  have "zigzag v AND 1 = 1" unfolding z by (rule bit_word_eqI) (auto simp: bit_simps bit_double_iff)
  moreover have "drop_bit 1 (zigzag v) XOR (- 1) = v" unfolding z
    by (rule bit_word_eqI) (use True in \<open>auto simp: bit_simps bit_double_iff not_less less_Suc_eq numeral_eq_Suc\<close>)
  ultimately show ?thesis by simp
next
  case False
  then have "drop_bit 31 v = 0" by (intro bit_word_eqI) (auto simp: bit_simps bit_top)
  then have z: "zigzag v = 2 * v" by (simp add: zigzag_def)
  have "zigzag v AND 1 = 0" unfolding z by (rule bit_word_eqI) (auto simp: bit_simps bit_double_iff)
  moreover have "drop_bit 1 (zigzag v) = v" unfolding z
    by (rule bit_word_eqI) (use False in \<open>auto simp: bit_simps bit_double_iff not_less less_Suc_eq numeral_eq_Suc\<close>)
  ultimately show ?thesis by simp
qed

lemma get_sleb128_ops: "get_sleb128 (ops_bytes (leb128_ops (zigzag v)) @ rest) = Some (v, length (ops_bytes (leb128_ops (zigzag v))))"
  by (simp only: get_sleb128_def get_leb128_ops option.case prod.case unzigzag)

section \<open>The table\<close>

text \<open>What a table means: the line of the last slot at or before \<open>pc\<close>, or the line of the function.\<close>

definition line_at :: "u32 \<Rightarrow> LineNumberSlot list \<Rightarrow> u32 \<Rightarrow> u32" where
  "line_at line slots pc = last (line # map slot_line (filter (\<lambda>x. slot_pc x \<le> pc) slots))"

lemma line_at_simps:
  "line_at line [] pc = line"
  "slot_pc x \<le> pc \<Longrightarrow> line_at line (x # xs) pc = line_at (slot_line x) xs pc"
  by (simp_all add: line_at_def)

lemma line_at_before: "\<forall>x\<in>set xs. pc < slot_pc x \<Longrightarrow> line_at line xs pc = line"
  by (simp add: line_at_def filter_empty_conv[THEN iffD2] not_le)

fun slots_ok :: "u32 \<Rightarrow> LineNumberSlot list \<Rightarrow> bool" where
  "slots_ok pc [] = True"
| "slots_ok pc (x # xs) = (pc \<le> slot_pc x \<and> slot_pc x < 2 ^ 31 \<and> slot_line x < 2 ^ 31 \<and> slots_ok (slot_pc x) xs)"

lemma slots_ok_mono: "slots_ok pc xs \<Longrightarrow> pc' \<le> pc \<Longrightarrow> slots_ok pc' xs"
  by (cases xs) auto

lemma slots_ok_later: "slots_ok pc xs \<Longrightarrow> x \<in> set xs \<Longrightarrow> pc \<le> slot_pc x"
  by (induction xs arbitrary: pc) (auto intro: order_trans)

lemma line_at_skipped:
  assumes "slots_ok pc0 (x # xs)" "slot_line x = line"
  shows "line_at line (x # xs) pc = line_at line xs pc"
proof (cases "slot_pc x \<le> pc")
  case True
  then show ?thesis using assms(2) by (simp add: line_at_simps)
next
  case False
  then have "\<forall>y\<in>set xs. pc < slot_pc y" using slots_ok_later [of "slot_pc x" xs] assms(1) by (auto simp: not_le intro: less_le_trans)
  then show ?thesis using False by (simp add: line_at_before not_le)
qed

lemma sint_small: "w < 2 ^ 31 \<Longrightarrow> sint (w :: u32) = uint w" "w < 2 ^ 31 \<Longrightarrow> 0 \<le> sint (w :: u32)"
proof -
  assume "w < 2 ^ 31"
  then have "uint w < 2 ^ 31" by (simp add: word_less_def)
  then show "sint w = uint w" by (simp add: sint_uint signed_take_bit_eq_take_bit_minus bit_iff_odd take_bit_int_eq_self)
  then show "0 \<le> sint w" by simp
qed

lemma short_entry:
  fixes dp dl :: u32
  assumes "0 \<le> sint dp" "sint dp \<le> PC2LINE_DIFF_PC_MAX" "PC2LINE_BASE \<le> sint dl" "sint dl < PC2LINE_BASE + PC2LINE_RANGE"
  defines "b \<equiv> word_of_int ((sint dl - PC2LINE_BASE) + sint dp * PC2LINE_RANGE + PC2LINE_OP_FIRST) :: u8"
  shows "next_entry pc line b p = Some (pc + dp, line + dl, p)"
proof -
  define m where "m = nat (sint dl + 1 + sint dp * 5)"
  have a: "0 \<le> sint dp" "sint dp \<le> 50" "0 \<le> sint dl + 1" "sint dl + 1 < 5"
    using assms(1-4) by (simp_all add: PC2LINE_DIFF_PC_MAX_def PC2LINE_BASE_def PC2LINE_RANGE_def PC2LINE_OP_FIRST_def)
  then have m: "m < 255" "int m = sint dl + 1 + sint dp * 5" by (simp_all add: m_def)
  have "(sint dl - PC2LINE_BASE) + sint dp * PC2LINE_RANGE + PC2LINE_OP_FIRST = int (Suc m)"
    using m(2) by (simp add: PC2LINE_BASE_def PC2LINE_RANGE_def PC2LINE_OP_FIRST_def)
  then have b: "b = of_nat (Suc m)" unfolding b_def by (simp only: of_int_of_nat_eq)
  have ub: "unat b = Suc m" using m(1) unfolding b by (simp only: unat_of_nat) simp
  then have nz: "b \<noteq> 0" by (metis unat_0 nat.distinct(1))
  have w: "to_u32 b - word_of_int PC2LINE_OP_FIRST = of_nat m"
  proof -
    have "to_u32 b = of_nat (unat b)" by (simp only: of_nat_unat)
    then show ?thesis by (simp add: PC2LINE_OP_FIRST_def ub)
  qed
  have d: "(of_nat m :: u32) div 5 = of_nat (m div 5)" "(of_nat m :: u32) mod 5 = of_nat (m mod 5)"
    using m(1) by (simp_all add: word_unat_eq_iff unat_div unat_mod unat_of_nat)
  have q: "int (m div 5) = sint dp" "int (m mod 5) = sint dl + 1"
    using m(2) a by (simp_all add: zdiv_int zmod_int)
  have dp: "(of_nat (m div 5) :: u32) = dp" using arg_cong [OF q(1), of "word_of_int :: int \<Rightarrow> u32"] by simp
  have "(of_nat (m mod 5) :: u32) + word_of_int PC2LINE_BASE = word_of_int (int (m mod 5) + PC2LINE_BASE)"
    by (simp only: of_int_add of_int_of_nat_eq)
  also have "\<dots> = dl" by (simp add: q(2) PC2LINE_BASE_def)
  finally have dl: "(of_nat (m mod 5) :: u32) + word_of_int PC2LINE_BASE = dl" .
  have five: "word_of_int PC2LINE_RANGE = (5 :: u32)" by (simp add: PC2LINE_RANGE_def)
  show ?thesis unfolding next_entry_def Let_def w five d dp using nz dl by (simp add: add.assoc)
qed

lemma long_entry:
  "next_entry pc line 0 (ops_bytes (leb128_ops dp @ leb128_ops (zigzag dl)) @ p) = Some (pc + dp, line + dl, p)"
proof -
  have "ops_bytes (leb128_ops dp @ leb128_ops (zigzag dl)) = ops_bytes (leb128_ops dp) @ ops_bytes (leb128_ops (zigzag dl))"
    by (simp add: ops_bytes_def)
  then show ?thesis by (simp add: next_entry_def get_leb128_ops get_sleb128_ops)
qed

lemma ops_bytes_append [simp]: "ops_bytes (xs @ ys) = ops_bytes xs @ ops_bytes ys"
  by (simp add: ops_bytes_def)

lemma find_line_pc2line:
  "slots_ok pc slots \<Longrightarrow> find_line_loop line0 pc_value pc line (ops_bytes (pc2line_ops pc line slots)) = line_at line slots pc_value"
proof (induction slots arbitrary: pc line)
  case Nil
  then show ?case by (simp add: line_at_simps)
next
  case (Cons x xs)
  define dp dl where "dp = slot_pc x - pc" and "dl = slot_line x - line"
  have x: "pc \<le> slot_pc x" "slot_pc x < 2 ^ 31" "slot_line x < 2 ^ 31" "slots_ok (slot_pc x) xs" using Cons.prems by simp_all
  have line: "\<not> sint (slot_line x) < 0" using sint_small(2) [OF x(3)] by simp
  have "dp \<le> slot_pc x" using x(1) by (simp add: dp_def word_sub_le)
  then have "dp < 2 ^ 31" using x(2) by (rule le_less_trans)
  then have dp: "0 \<le> sint dp" "\<not> sint dp < 0" using sint_small(2) [of dp] by simp_all
  have sum: "pc + dp = slot_pc x" "line + dl = slot_line x" by (simp_all add: dp_def dl_def)
  show ?case
  proof (cases "dl = 0")
    case True
    then have "slot_line x = line" by (simp add: dl_def)
    moreover have "pc2line_ops pc line (x # xs) = pc2line_ops pc line xs" using line True by (simp add: Let_def dl_def)
    ultimately show ?thesis
      using Cons.IH [OF slots_ok_mono [OF x(4,1)]] line_at_skipped [OF Cons.prems] by simp
  next
    case False
    define es where "es = (if sint dl \<ge> PC2LINE_BASE \<and> sint dl < PC2LINE_BASE + PC2LINE_RANGE \<and> sint dp \<le> PC2LINE_DIFF_PC_MAX
         then [PutC (word_of_int ((sint dl - PC2LINE_BASE) + sint dp * PC2LINE_RANGE + PC2LINE_OP_FIRST))]
         else PutC 0 # leb128_ops dp @ leb128_ops (zigzag dl))"
    have ops: "pc2line_ops pc line (x # xs) = es @ pc2line_ops (slot_pc x) (slot_line x) xs"
      using line dp(2) False unfolding es_def dp_def dl_def by (simp only: pc2line_ops.simps Let_def if_False simp_thms)
    have "\<exists>op q. ops_bytes es = op # q \<and> (\<forall>p. next_entry pc line op (q @ p) = Some (slot_pc x, slot_line x, p))"
      using short_entry [OF dp(1), of dl pc line] long_entry [of pc line dp dl] unfolding es_def sum by auto
    then obtain op q where e: "ops_bytes es = op # q" "\<And>p. next_entry pc line op (q @ p) = Some (slot_pc x, slot_line x, p)" by blast
    have "find_line_loop line0 pc_value pc line (ops_bytes (pc2line_ops pc line (x # xs)))
        = (if pc_value < slot_pc x then line else line_at (slot_line x) xs pc_value)"
      unfolding ops by (simp add: e Cons.IH [OF x(4)])
    moreover have "line_at line (x # xs) pc_value = line" if "pc_value < slot_pc x"
      using slots_ok_later [OF x(4)] that by (intro line_at_before) (auto intro: less_le_trans)
    ultimately show ?thesis by (auto simp: line_at_simps not_less)
  qed
qed

subsection \<open>Recording\<close>

text \<open>The slots that \<open>add_pc2line_info\<close> records: those that change the line.\<close>

fun changed :: "u32 \<Rightarrow> LineNumberSlot list \<Rightarrow> LineNumberSlot list" where
  "changed line [] = []"
| "changed line (x # xs) = (if slot_line x = line then changed line xs else x # changed (slot_line x) xs)"

lemma length_changed: "length (changed line xs) \<le> length xs"
  by (induction xs arbitrary: line) (auto simp: le_SucI)

lemma changed_ok: "slots_ok pc xs \<Longrightarrow> slots_ok pc (changed line xs)"
  by (induction xs arbitrary: pc line) (auto intro: slots_ok_mono)

lemma changed_line_at: "slots_ok pc0 xs \<Longrightarrow> line_at line (changed line xs) pc = line_at line xs pc"
proof (induction xs arbitrary: pc0 line)
  case (Cons x xs)
  have ok: "slots_ok (slot_pc x) xs" using Cons.prems by simp
  show ?case
  proof (cases "slot_line x = line")
    case True
    then show ?thesis using Cons.IH [OF ok] line_at_skipped [OF Cons.prems True] by simp
  next
    case False
    show ?thesis
    proof (cases "slot_pc x \<le> pc")
      case True
      then show ?thesis using False Cons.IH [OF ok] by (simp add: line_at_simps)
    next
      case late: False
      have "\<forall>y\<in>set zs. pc < slot_pc y" if "slots_ok (slot_pc x) zs" for zs
        using slots_ok_later [OF that] late by (auto simp: not_le intro: less_le_trans)
      from this [OF ok] this [OF changed_ok [OF ok]] show ?thesis using False late by (simp add: line_at_before not_le)
    qed
  qed
qed simp

definition record_lines :: "LineNumberSlot list \<Rightarrow> line_state \<Rightarrow> line_state" where
  "record_lines xs s = fold (\<lambda>x s. add_pc2line_info s (slot_pc x) (slot_line x)) xs s"

lemma record_lines_slots:
  "slots_ok (line_number_last_pc s) xs \<Longrightarrow> line_number_slots s = Some ys \<Longrightarrow> length ys + length xs \<le> line_number_size s \<Longrightarrow>
    record_lines xs s = s\<lparr>line_number_slots := Some (ys @ changed (line_number_last s) xs),
      line_number_last := line_number_last (record_lines xs s), line_number_last_pc := line_number_last_pc (record_lines xs s)\<rparr>"
proof (induction xs arbitrary: s ys)
  case (Cons x xs)
  have step: "record_lines (x # xs) s = record_lines xs (add_pc2line_info s (slot_pc x) (slot_line x))" by (simp add: record_lines_def)
  show ?case
  proof (cases "slot_line x = line_number_last s")
    case True
    then have "add_pc2line_info s (slot_pc x) (slot_line x) = s" using Cons.prems(2) by (simp add: add_pc2line_info_def)
    moreover have "slots_ok (line_number_last_pc s) xs" using Cons.prems(1) by (auto intro: slots_ok_mono)
    ultimately show ?thesis using True step Cons.IH [of s ys] Cons.prems(2,3) by simp
  next
    case False
    define s' where "s' = s\<lparr>line_number_slots := Some (ys @ [\<lparr>slot_pc = slot_pc x, slot_line = slot_line x\<rparr>]),
      line_number_last_pc := slot_pc x, line_number_last := slot_line x\<rparr>"
    have "add_pc2line_info s (slot_pc x) (slot_line x) = s'"
      using False Cons.prems by (simp add: add_pc2line_info_def s'_def)
    moreover have "slots_ok (line_number_last_pc s') xs" "length (ys @ [x]) + length xs \<le> line_number_size s'"
      using Cons.prems by (simp_all add: s'_def)
    ultimately show ?thesis using False step Cons.IH [of s' "ys @ [x]"] by (simp add: s'_def)
  qed
qed (simp add: record_lines_def)

lemma length_leb128: "unat v < 2 ^ (7 * k) \<Longrightarrow> 0 < k \<Longrightarrow> length (ops_bytes (leb128_ops v)) \<le> k"
proof (induction k arbitrary: v)
  case (Suc k)
  show ?case
  proof (cases "drop_bit 7 v = 0")
    case True
    then show ?thesis by (subst leb128_ops.simps) (simp add: Let_def)
  next
    case False
    have k: "0 < k" using False Suc.prems(1) by (cases k) (auto simp: unat_drop_bit word_unat_eq_iff)
    have "unat (drop_bit 7 v) < 2 ^ (7 * k)"
      using Suc.prems(1) by (simp add: unat_drop_bit less_mult_imp_div_less power_add mult.commute)
    then show ?thesis using Suc.IH [OF _ k] False by (subst leb128_ops.simps) (simp add: Let_def)
  qed
qed simp

lemma length_leb128_5: "length (ops_bytes (leb128_ops v)) \<le> 5"
  by (rule length_leb128) (use unat_u32_lt [of v] in simp_all)

lemma length_pc2line: "length (ops_bytes (pc2line_ops pc line xs)) \<le> 11 * length xs"
proof (induction xs arbitrary: pc line)
  case (Cons x xs)
  have "length (ops_bytes (leb128_ops (slot_pc x - pc))) + length (ops_bytes (leb128_ops (zigzag (slot_line x - line)))) \<le> 10"
    using length_leb128_5 [of "slot_pc x - pc"] length_leb128_5 [of "zigzag (slot_line x - line)"] by simp
  then show ?case
    using Cons.IH [of pc line] Cons.IH [of "slot_pc x" "slot_line x"] by (simp add: Let_def)
qed simp

section \<open>Properties\<close>

text \<open>
  C17. A 32 bit number written by \<open>dbuf_put_leb128\<close> or, signed, by \<open>dbuf_put_sleb128\<close> is read back by \<open>get_leb128\<close>
  and \<open>get_sleb128\<close> from the buffer, whatever bytes follow, and exactly its bytes, at most five, are consumed;
  unless the buffer reports that memory ran out.
\<close>

theorem leb128_roundtrip:
  "(\<exists>h' s. dbuf_put_leb128 (js_realloc_rt 1) h dbuf_init2 v = Some (h', s) \<and>
      (db_error s \<or> get_leb128 (dbuf_bytes s @ rest) = Some (v, db_size s) \<and> db_size s \<le> 5))
   \<and> (\<exists>h' s. dbuf_put_sleb128 (js_realloc_rt 1) h dbuf_init2 v = Some (h', s) \<and>
      (db_error s \<or> get_sleb128 (dbuf_bytes s @ rest) = Some (v, db_size s) \<and> db_size s \<le> 5))"
proof -
  have "\<exists>h' s. dbuf_put_leb128 (js_realloc_rt 1) h dbuf_init2 w = Some (h', s) \<and>
      (db_error s \<or> dbuf_bytes s = ops_bytes (leb128_ops w) \<and> db_size s = length (ops_bytes (leb128_ops w)))" for w
  proof -
    obtain h' s where "dbuf_run (js_realloc_rt 1) h dbuf_init2 (leb128_ops w) = Some (h', s)" "dbuf_ok s"
        "\<not> db_error s \<longrightarrow> dbuf_bytes s = dbuf_bytes dbuf_init2 @ ops_bytes (leb128_ops w)"
      using js_db.dbuf_run_spec [OF dbuf_ok_init, of "leb128_ops w" h] length_leb128_5 [of w] by (auto simp: dbuf_init2_def)
    then show ?thesis using length_dbuf_bytes [of s] by (auto simp: dbuf_put_leb128_def)
  qed
  from this [of v] this [of "zigzag v"] show ?thesis
    using get_leb128_ops [of v rest] get_sleb128_ops [of v rest] length_leb128_5 unfolding dbuf_put_sleb128_def by metis
qed

text \<open>
  C16. Line numbers of stack traces: the compiler records positions and lines by \<open>add_pc2line_info\<close> and writes them
  with \<open>compute_pc2line_info\<close>; \<open>find_line_num\<close> on this table answers, for every program counter, the line that was
  recorded last at or before it, and the line of the function before the first record.
\<close>

theorem line_numbers_found:
  assumes "slots_ok 0 calls" "length calls \<le> line_number_size s" "11 * length calls + 1 < 2 ^ 64"
    and "js_mode s AND JS_MODE_STRIP = 0"
    and "line_number_slots s = Some []" "line_number_last s = fd_line_num s" "line_number_last_pc s = 0"
  shows "\<exists>h' s'. compute_pc2line_info (js_realloc_rt 1) h (record_lines calls s) = Some (h', s')
    \<and> (db_error (pc2line s') \<or>
        find_line_num (Some (dbuf_bytes (pc2line s'), fd_line_num s')) pc = line_at (fd_line_num s) calls pc)"
proof -
  let ?line = "fd_line_num s"
  let ?xs = "changed ?line calls"
  have slots: "line_number_slots (record_lines calls s) = Some ?xs" "fd_line_num (record_lines calls s) = ?line"
      "js_mode (record_lines calls s) = js_mode s"
    by (subst record_lines_slots [of s calls "[]"]; use assms in simp)+
  have "length ?xs \<le> length calls" by (rule length_changed)
  then have "length (ops_bytes (pc2line_ops 0 ?line ?xs)) + 1 < 2 ^ 64" using length_pc2line [of 0 ?line ?xs] assms(3) by simp
  then obtain h' d where "dbuf_run (js_realloc_rt 1) h dbuf_init2 (pc2line_ops 0 ?line ?xs) = Some (h', d)"
      "\<not> db_error d \<longrightarrow> dbuf_bytes d = ops_bytes (pc2line_ops 0 ?line ?xs)"
    using js_db.dbuf_run_spec [OF dbuf_ok_init, of "pc2line_ops 0 ?line ?xs" h] by (auto simp: dbuf_init2_def dbuf_bytes_def)
  then show ?thesis
    using find_line_pc2line [OF changed_ok [OF assms(1)]] changed_line_at [OF assms(1)]
    using assms(4) by (auto simp: slots compute_pc2line_info_def find_line_num_def)
qed

theorem line_numbers_found_witness:
  "\<exists>h' s'. compute_pc2line_info (js_realloc_rt 1) sample_state
      (record_lines [\<lparr>slot_pc = 3, slot_line = 2\<rparr>, \<lparr>slot_pc = 900, slot_line = 40\<rparr>]
        \<lparr>js_mode = 0, line_number_slots = Some [], line_number_size = 2, line_number_last = 1, line_number_last_pc = 0,
          fd_line_num = 1, pc2line = dbuf_init2\<rparr>) = Some (h', s')
    \<and> (db_error (pc2line s') \<or> find_line_num (Some (dbuf_bytes (pc2line s'), fd_line_num s')) 899 = 2)"
  using line_numbers_found [of "[\<lparr>slot_pc = 3, slot_line = 2\<rparr>, \<lparr>slot_pc = 900, slot_line = 40\<rparr>]"
      "\<lparr>js_mode = 0, line_number_slots = Some [], line_number_size = 2, line_number_last = 1, line_number_last_pc = 0,
          fd_line_num = 1, pc2line = dbuf_init2\<rparr>" sample_state 899]
  by (simp add: line_at_def)

end
