(* ===== verification/QJS_String.thy ===== *)
theory QJS_String
  imports QJS_Malloc "HOL-Library.Signed_Division"
begin

text \<open>
  Strings and string buffers of \<open>quickjs.c\<close> (\<open>js_alloc_string\<close>, the \<open>string_buffer_*\<close> functions, \<open>string_get\<close>,
  \<open>string_getc\<close>) over the accounting allocator.

  A string is a heap block of bytes: the \<open>sizeof(JSString)\<close> bytes of the header, whose fields are the fields of the
  records below, and the union \<open>u\<close>, read as bytes (\<open>str8\<close>) or as little endian 16 bit units (\<open>str16\<close>). Every access
  is checked against the block. The operations return \<open>None\<close> for an access outside the block, otherwise the return
  value (0 or -1), the allocator state and the buffer. Sizes have the C type \<open>int\<close>: arithmetic on them wraps to 32 bits
  (\<open>s32\<close>), and a request for memory converts to the 64 bits of \<open>size_t\<close>.
\<close>

section \<open>Memory of a string\<close>

definition sizeof_JSString :: nat where
  "sizeof_JSString = 16"

definition s32 :: "int \<Rightarrow> int" where
  "s32 x = sint (word_of_int x :: u32)"

text \<open>\<open>sizeof(JSString) + (n << is_wide_char) + 1 - is_wide_char\<close> as \<open>size_t\<close>.\<close>

definition string_bytes :: "bool \<Rightarrow> int \<Rightarrow> nat" where
  "string_bytes w n =
     unat (word_of_nat sizeof_JSString + word_of_int (if w then s32 (2 * n) else n + 1) :: u64)"

text \<open>\<open>u.str16[i]\<close> or \<open>u.str8[i]\<close>.\<close>

definition get_unit :: "bool \<Rightarrow> u8 list \<Rightarrow> nat \<Rightarrow> u16 option" where
  "get_unit w m i =
     (if w then do { a \<leftarrow> rd m (sizeof_JSString + 2 * i); b \<leftarrow> rd m (sizeof_JSString + 2 * i + 1);
                     Some (ucast a OR push_bit 8 (ucast b)) }
      else map_option ucast (rd m (sizeof_JSString + i)))"

definition put_unit :: "bool \<Rightarrow> u8 list \<Rightarrow> nat \<Rightarrow> u16 \<Rightarrow> u8 list option" where
  "put_unit w m i c =
     (if w then blit m (sizeof_JSString + 2 * i) [to_u8 c, to_u8 (drop_bit 8 c)]
      else blit m (sizeof_JSString + i) [to_u8 c])"

text \<open>A loop of assignments, or a \<open>memcpy\<close> of units of the width of the string.\<close>

fun put_units :: "bool \<Rightarrow> u8 list \<Rightarrow> nat \<Rightarrow> u16 list \<Rightarrow> u8 list option" where
  "put_units w m i [] = Some m"
| "put_units w m i (c # cs) = do { m' \<leftarrow> put_unit w m i c; put_units w m' (Suc i) cs }"

text \<open>The loop of \<open>string_buffer_widen\<close>, from the last unit to the first.\<close>

fun widen_loop :: "u8 list \<Rightarrow> nat \<Rightarrow> u8 list option" where
  "widen_loop m 0 = Some m"
| "widen_loop m (Suc i) = do { c \<leftarrow> get_unit False m i; m' \<leftarrow> put_unit True m i c; widen_loop m' i }"

section \<open>Allocation\<close>

text \<open>
  \<open>js_realloc2\<close> as the string buffers use it: the bytes up to \<open>malloc_usable_size\<close> belong to the block, with contents
  that the C library chose.
\<close>

definition slack_cells :: "'a JSMallocState \<Rightarrow> nat \<Rightarrow> nat \<Rightarrow> 'a list" where
  "slack_cells h n k = (case libc h 0 of Refuse \<Rightarrow> [] | Grant _ g \<Rightarrow> map g [n..<n + k])"

definition js_realloc_usable ::
  "u8 JSMallocState \<Rightarrow> u8 block option \<Rightarrow> nat \<Rightarrow> (u8 block \<times> nat) option \<times> u8 JSMallocState" where
  "js_realloc_usable h ptr n =
     (case js_realloc2 1 h ptr n of
        ((None, slack), h') \<Rightarrow> (None, h')
      | ((Some b, slack), h') \<Rightarrow> (Some (Block (cells b @ slack_cells h n (unat slack)) (usable b), unat slack), h'))"

record JSString =
  str_mem :: "u8 block"
  str_wide :: bool
  str_len :: nat

definition js_alloc_string ::
  "u8 JSMallocState \<Rightarrow> int \<Rightarrow> bool \<Rightarrow> (JSString option \<times> u8 JSMallocState) option" where
  "js_alloc_string h max_len w =
     (case js_def_malloc 1 h (string_bytes w max_len) of
        None \<Rightarrow> None
      | Some (None, h') \<Rightarrow> Some (None, h')
      | Some (Some b, h') \<Rightarrow> Some (Some \<lparr>str_mem = b, str_wide = w, str_len = nat max_len\<rparr>, h'))"

section \<open>String buffers\<close>

record StringBuffer =
  sb_str :: "u8 block option"
  sb_len :: nat
  sb_size :: int
  sb_wide :: bool
  sb_error :: bool

type_synonym sb_result = "(int \<times> u8 JSMallocState \<times> StringBuffer) option"

definition JS_STRING_LEN_MAX :: int where
  "JS_STRING_LEN_MAX = 2 ^ 30 - 1"

definition string_buffer_init2 :: "u8 JSMallocState \<Rightarrow> int \<Rightarrow> bool \<Rightarrow> sb_result" where
  "string_buffer_init2 h sz w =
     (case js_alloc_string h sz w of
        None \<Rightarrow> None
      | Some (None, h') \<Rightarrow> Some (-1, h', \<lparr>sb_str = None, sb_len = 0, sb_size = 0, sb_wide = w, sb_error = True\<rparr>)
      | Some (Some p, h') \<Rightarrow>
          Some (0, h', \<lparr>sb_str = Some (str_mem p), sb_len = 0, sb_size = sz, sb_wide = w, sb_error = False\<rparr>))"

definition string_buffer_init :: "u8 JSMallocState \<Rightarrow> int \<Rightarrow> sb_result" where
  "string_buffer_init h sz = string_buffer_init2 h sz False"

definition string_buffer_free :: "u8 JSMallocState \<Rightarrow> StringBuffer \<Rightarrow> u8 JSMallocState \<times> StringBuffer" where
  "string_buffer_free h s = (js_def_free h (sb_str s), s\<lparr>sb_str := None\<rparr>)"

definition string_buffer_set_error :: "u8 JSMallocState \<Rightarrow> StringBuffer \<Rightarrow> int \<times> u8 JSMallocState \<times> StringBuffer" where
  "string_buffer_set_error h s =
     (-1, js_def_free h (sb_str s), s\<lparr>sb_str := None, sb_size := 0, sb_len := 0, sb_error := True\<rparr>)"

definition string_buffer_widen :: "u8 JSMallocState \<Rightarrow> StringBuffer \<Rightarrow> int \<Rightarrow> sb_result" where
  "string_buffer_widen h s sz =
     (if sb_error s then Some (-1, h, s)
      else case js_realloc_usable h (sb_str s) (string_bytes True sz) of
        (None, h') \<Rightarrow> Some (string_buffer_set_error h' s)
      | (Some (b, slack), h') \<Rightarrow>
          (case widen_loop (cells b) (sb_len s) of
             None \<Rightarrow> None
           | Some m \<Rightarrow>
               Some (0, h', s\<lparr>sb_wide := True, sb_size := s32 (sz + int (slack div 2)), sb_str := Some (Block m (usable b))\<rparr>)))"

definition string_buffer_realloc :: "u8 JSMallocState \<Rightarrow> StringBuffer \<Rightarrow> nat \<Rightarrow> u32 \<Rightarrow> sb_result" where
  "string_buffer_realloc h s new_len c =
     (if sb_error s then Some (-1, h, s)
      else if int new_len > JS_STRING_LEN_MAX then Some (string_buffer_set_error h s)
      else
        let new_size = min (max (int new_len) (s32 (sb_size s * 3) sdiv 2)) JS_STRING_LEN_MAX in
        if \<not> sb_wide s \<and> c \<ge> 0x100 then string_buffer_widen h s new_size
        else case js_realloc_usable h (sb_str s) (string_bytes (sb_wide s) new_size) of
          (None, h') \<Rightarrow> Some (string_buffer_set_error h' s)
        | (Some (b, slack), h') \<Rightarrow>
            Some (0, h', s\<lparr>sb_size := min (s32 (new_size + int (if sb_wide s then slack div 2 else slack))) JS_STRING_LEN_MAX,
              sb_str := Some b\<rparr>))"

text \<open>Store units at the end of the buffer and advance \<open>len\<close>. A null pointer is not dereferenced when nothing is stored.\<close>

definition sb_store :: "u8 JSMallocState \<Rightarrow> StringBuffer \<Rightarrow> u16 list \<Rightarrow> sb_result" where
  "sb_store h s cs =
     (case sb_str s of
        None \<Rightarrow> if cs = [] then Some (0, h, s) else None
      | Some b \<Rightarrow>
          (case put_units (sb_wide s) (cells b) (sb_len s) cs of
             None \<Rightarrow> None
           | Some m \<Rightarrow> Some (0, h, s\<lparr>sb_str := Some (Block m (usable b)), sb_len := sb_len s + length cs\<rparr>)))"

text \<open>\<open>if (f(...)) return -1;\<close> followed by the rest.\<close>

definition sb_seq :: "sb_result \<Rightarrow> (u8 JSMallocState \<Rightarrow> StringBuffer \<Rightarrow> sb_result) \<Rightarrow> sb_result" where
  "sb_seq r f = (case r of None \<Rightarrow> None | Some (e, h, s) \<Rightarrow> if e \<noteq> 0 then Some (-1, h, s) else f h s)"

text \<open>\<open>if (s->len + n > s->size) if (string_buffer_realloc(...)) return -1;\<close>.\<close>

definition sb_claim :: "u8 JSMallocState \<Rightarrow> StringBuffer \<Rightarrow> nat \<Rightarrow> u32 \<Rightarrow> sb_result" where
  "sb_claim h s n c =
     (if int (sb_len s + n) > sb_size s then string_buffer_realloc h s (sb_len s + n) c else Some (0, h, s))"

definition string_buffer_putc_slow :: "u8 JSMallocState \<Rightarrow> StringBuffer \<Rightarrow> u32 \<Rightarrow> sb_result" where
  "string_buffer_putc_slow h s c =
     sb_seq (sb_claim h s 1 c) (\<lambda>h s.
       if sb_wide s \<or> c < 0x100 then sb_store h s [ucast c]
       else sb_seq (string_buffer_widen h s (sb_size s)) (\<lambda>h s. sb_store h s [ucast c]))"

definition string_buffer_putc8 :: "u8 JSMallocState \<Rightarrow> StringBuffer \<Rightarrow> u32 \<Rightarrow> sb_result" where
  "string_buffer_putc8 h s c = sb_seq (sb_claim h s 1 c) (\<lambda>h s. sb_store h s [ucast c])"

definition string_buffer_putc16 :: "u8 JSMallocState \<Rightarrow> StringBuffer \<Rightarrow> u32 \<Rightarrow> sb_result" where
  "string_buffer_putc16 h s c =
     (if int (sb_len s) < sb_size s \<and> (sb_wide s \<or> c < 0x100) then sb_store h s [ucast c]
      else string_buffer_putc_slow h s c)"

definition string_buffer_putc :: "u8 JSMallocState \<Rightarrow> StringBuffer \<Rightarrow> u32 \<Rightarrow> sb_result" where
  "string_buffer_putc h s c =
     (if c \<ge> 0x10000 then
        let c = c - 0x10000 in
        sb_seq (string_buffer_putc16 h s (drop_bit 10 c + 0xd800)) (\<lambda>h s.
          string_buffer_putc16 h s ((c AND 0x3ff) + 0xdc00))
      else string_buffer_putc16 h s c)"

definition string_buffer_write8 :: "u8 JSMallocState \<Rightarrow> StringBuffer \<Rightarrow> u8 list \<Rightarrow> sb_result" where
  "string_buffer_write8 h s p = sb_seq (sb_claim h s (length p) 0) (\<lambda>h s. sb_store h s (map ucast p))"

definition string_buffer_write16 :: "u8 JSMallocState \<Rightarrow> StringBuffer \<Rightarrow> u16 list \<Rightarrow> sb_result" where
  "string_buffer_write16 h s p =
     (let c = foldl (\<lambda>c u. c OR ucast u) (0 :: u32) p in
      sb_seq
        (if int (sb_len s + length p) > sb_size s then string_buffer_realloc h s (sb_len s + length p) c
         else if \<not> sb_wide s \<and> c \<ge> 0x100 then string_buffer_widen h s (sb_size s)
         else Some (0, h, s))
        (\<lambda>h s. sb_store h s p))"

definition string_buffer_puts8 :: "u8 JSMallocState \<Rightarrow> StringBuffer \<Rightarrow> u8 list \<Rightarrow> sb_result" where
  "string_buffer_puts8 h s str = string_buffer_write8 h s str"

text \<open>The units \<open>[from, to)\<close> of a string.\<close>

definition string_slice :: "JSString \<Rightarrow> nat \<Rightarrow> nat \<Rightarrow> u16 list option" where
  "string_slice p from to = those (map (get_unit (str_wide p) (cells (str_mem p))) [from..<to])"

definition string_buffer_concat :: "u8 JSMallocState \<Rightarrow> StringBuffer \<Rightarrow> JSString \<Rightarrow> nat \<Rightarrow> nat \<Rightarrow> sb_result" where
  "string_buffer_concat h s p from to =
     (if to \<le> from then Some (0, h, s)
      else case string_slice p from to of
        None \<Rightarrow> None
      | Some us \<Rightarrow> if str_wide p then string_buffer_write16 h s us else string_buffer_write8 h s (map to_u8 us))"

fun fill_loop :: "u8 JSMallocState \<Rightarrow> StringBuffer \<Rightarrow> u32 \<Rightarrow> nat \<Rightarrow> sb_result" where
  "fill_loop h s c 0 = Some (0, h, s)"
| "fill_loop h s c (Suc n) = sb_seq (string_buffer_putc16 h s c) (\<lambda>h s. fill_loop h s c n)"

definition string_buffer_fill :: "u8 JSMallocState \<Rightarrow> StringBuffer \<Rightarrow> u32 \<Rightarrow> nat \<Rightarrow> sb_result" where
  "string_buffer_fill h s c n = sb_seq (sb_claim h s n c) (\<lambda>h s. fill_loop h s c n)"

text \<open>The predefined atom of the empty string.\<close>

definition empty_string_atom :: JSString where
  "empty_string_atom = \<lparr>str_mem = Block (replicate 17 0) 17, str_wide = False, str_len = 0\<rparr>"

text \<open>\<open>Some (None, h)\<close> is \<open>JS_EXCEPTION\<close>.\<close>

definition string_buffer_end ::
  "u8 JSMallocState \<Rightarrow> StringBuffer \<Rightarrow> (JSString option \<times> u8 JSMallocState) option" where
  "string_buffer_end h s =
     (if sb_error s then Some (None, h)
      else if sb_len s = 0 then Some (Some empty_string_atom, js_def_free h (sb_str s))
      else
        let (r, h') = (if int (sb_len s) < sb_size s then js_realloc_rt 1 h (sb_str s) (string_bytes (sb_wide s) (int (sb_len s)))
                       else (sb_str s, h));
            str = (case r of None \<Rightarrow> sb_str s | Some b \<Rightarrow> Some b)
        in case str of
             None \<Rightarrow> None
           | Some b \<Rightarrow>
               (case (if sb_wide s then Some (cells b) else put_unit False (cells b) (sb_len s) 0) of
                  None \<Rightarrow> None
                | Some m \<Rightarrow> Some (Some \<lparr>str_mem = Block m (usable b), str_wide = sb_wide s, str_len = sb_len s\<rparr>, h')))"

subsection \<open>Reading\<close>

definition string_get :: "JSString \<Rightarrow> nat \<Rightarrow> u16 option" where
  "string_get p idx = get_unit (str_wide p) (cells (str_mem p)) idx"

text \<open>The code point at \<open>idx\<close> and the next index; a surrogate pair is one code point.\<close>

definition is_hi :: "u32 \<Rightarrow> bool" where
  "is_hi c \<longleftrightarrow> 0xd800 \<le> c \<and> c < 0xdc00"

definition is_lo :: "u32 \<Rightarrow> bool" where
  "is_lo c \<longleftrightarrow> 0xdc00 \<le> c \<and> c < 0xe000"

definition pair_char :: "u32 \<Rightarrow> u32 \<Rightarrow> u32" where
  "pair_char c c1 = (push_bit 10 (c AND 0x3ff) OR (c1 AND 0x3ff)) + 0x10000"

definition string_getc :: "JSString \<Rightarrow> nat \<Rightarrow> (u32 \<times> nat) option" where
  "string_getc p idx =
     (case string_get p idx of
        None \<Rightarrow> None
      | Some u \<Rightarrow>
          let c = to_u32 u in
          if str_wide p \<and> is_hi c \<and> idx + 1 < str_len p then
            (case string_get p (idx + 1) of
               None \<Rightarrow> None
             | Some u1 \<Rightarrow>
                 let c1 = to_u32 u1 in
                 if is_lo c1 then Some (pair_char c c1, idx + 2) else Some (c, idx + 1))
          else Some (c, idx + 1))"

section \<open>Contents\<close>

text \<open>The units of a string: what the accesses above read, as a list.\<close>

definition unit_at :: "bool \<Rightarrow> u8 list \<Rightarrow> nat \<Rightarrow> u16" where
  "unit_at w m i =
     (if w then ucast (m ! (sizeof_JSString + 2 * i)) OR push_bit 8 (ucast (m ! (sizeof_JSString + 2 * i + 1)))
      else ucast (m ! (sizeof_JSString + i)))"

definition units :: "bool \<Rightarrow> u8 list \<Rightarrow> nat \<Rightarrow> u16 list" where
  "units w m n = map (unit_at w m) [0..<n]"

text \<open>The bytes that \<open>n\<close> units need.\<close>

definition room :: "bool \<Rightarrow> nat \<Rightarrow> nat" where
  "room w n = sizeof_JSString + (if w then 2 * n else n)"

text \<open>What is left of a unit stored in a string.\<close>

definition fit :: "bool \<Rightarrow> u16 \<Rightarrow> u16" where
  "fit w c = (if w then c else ucast (to_u8 c))"

lemma length_units [simp]: "length (units w m n) = n"
  by (simp add: units_def)

lemma units_Suc: "units w m (Suc n) = units w m n @ [unit_at w m n]"
  by (simp add: units_def)

lemma units_cong: "take (room w n) m = take (room w n) m' \<Longrightarrow> units w m n = units w m' n"
proof -
  assume eq: "take (room w n) m = take (room w n) m'"
  have "m ! j = m' ! j" if "j < room w n" for j
    using arg_cong [OF eq, of "\<lambda>xs. xs ! j"] that by simp
  then show ?thesis by (auto simp: units_def unit_at_def room_def)
qed

lemma room_mono: "n \<le> k \<Longrightarrow> room w n \<le> room w k"
  by (simp add: room_def)

lemma room_narrow_le: "room False n \<le> room True n"
  by (simp add: room_def)

lemma get_unit_Some: "room w (Suc i) \<le> length m \<Longrightarrow> get_unit w m i = Some (unit_at w m i)"
  by (auto simp: get_unit_def unit_at_def room_def mem_simps)

lemma join_bytes: "ucast (to_u8 c) OR push_bit 8 (ucast (to_u8 (drop_bit 8 c))) = (c :: u16)"
  by (rule bit_word_eqI) (auto simp: bit_simps)

lemma unit_at_cong:
  "(\<And>j. room w i \<le> j \<Longrightarrow> j < room w (Suc i) \<Longrightarrow> m ! j = m' ! j) \<Longrightarrow> unit_at w m i = unit_at w m' i"
  by (simp add: unit_at_def room_def)

lemma put_unit_spec:
  assumes "room w (Suc i) \<le> length m"
  obtains m' where "put_unit w m i c = Some m'" "unit_at w m' i = fit w c" "length m' = length m"
    "drop (room w (Suc i)) m' = drop (room w (Suc i)) m" "take (room w i) m' = take (room w i) m"
proof -
  let ?src = "if w then [to_u8 c, to_u8 (drop_bit 8 c)] else [to_u8 c]"
  let ?m = "take (room w i) m @ ?src @ drop (room w (Suc i)) m"
  have len: "room w i + length ?src = room w (Suc i)" by (simp add: room_def)
  have "put_unit w m i c = Some ?m"
    using assms by (auto simp: put_unit_def room_def blit_Some)
  moreover have "unit_at w ?m i = fit w c"
    using assms by (auto simp: unit_at_def room_def fit_def nth_append join_bytes)
  moreover have "length ?m = length m" "drop (room w (Suc i)) ?m = drop (room w (Suc i)) m"
    using assms len by (cases w; auto simp: room_def min_def)+
  moreover have "take (room w i) ?m = take (room w i) m" using assms by (cases w) (simp_all add: room_def)
  ultimately show thesis by (rule that)
qed

lemma put_units_spec:
  "room w (i + length cs) \<le> length m \<Longrightarrow>
   \<exists>m'. put_units w m i cs = Some m' \<and> length m' = length m \<and> units w m' (i + length cs) = units w m i @ map (fit w) cs"
proof (induction cs arbitrary: i m)
  case (Cons c cs)
  have "room w (Suc i) \<le> length m" using Cons.prems by (simp add: room_def split: if_splits)
  then obtain m1 where m1: "put_unit w m i c = Some m1" "length m1 = length m" "unit_at w m1 i = fit w c"
      "take (room w i) m1 = take (room w i) m" by (rule put_unit_spec)
  have "units w m1 i = units w m i" using m1(4) by (rule units_cong)
  moreover obtain m' where "put_units w m1 (Suc i) cs = Some m'" "length m' = length m1"
      "units w m' (Suc i + length cs) = units w m1 (Suc i) @ map (fit w) cs"
    using Cons.IH [of "Suc i" m1] Cons.prems m1(2) by auto
  ultimately show ?case using m1 by (simp add: units_Suc)
qed simp

lemma fit_narrow_wide [simp]: "fit True c = c"
  by (simp add: fit_def)

lemma fit_small: "c < 0x100 \<Longrightarrow> fit w c = c"
proof -
  assume "c < 0x100"
  then have "unat c < 256" by (simp add: word_less_nat_alt)
  then have "ucast (to_u8 c) = c" by (intro word_unat_eq_iff [THEN iffD2]) (simp add: unat_ucast)
  then show ?thesis by (simp add: fit_def)
qed

lemma unit_at_narrow: "unit_at False m i < 0x100"
proof -
  have "unat (m ! (16 + i)) < 256" by (rule unat_u8_lt)
  then show ?thesis by (simp add: unit_at_def sizeof_JSString_def word_less_nat_alt unat_ucast)
qed

lemma widen_loop_spec:
  "room True n \<le> length m \<Longrightarrow>
   \<exists>m'. widen_loop m n = Some m' \<and> length m' = length m \<and> units True m' n = units False m n
     \<and> drop (room True n) m' = drop (room True n) m"
proof (induction n arbitrary: m)
  case (Suc n)
  have get: "get_unit False m n = Some (unit_at False m n)"
    using Suc.prems by (intro get_unit_Some) (simp add: room_def)
  obtain m1 where m1: "put_unit True m n (unit_at False m n) = Some m1" "length m1 = length m"
      "unit_at True m1 n = unit_at False m n"
      "take (room True n) m1 = take (room True n) m" "drop (room True (Suc n)) m1 = drop (room True (Suc n)) m"
    using put_unit_spec [OF Suc.prems, of "unit_at False m n"] by auto
  have "take (room False n) m1 = take (room False n) m"
    using arg_cong [OF m1(4), of "take (room False n)"] room_narrow_le [of n] by (simp add: min_absorb1)
  then have low: "units False m1 n = units False m n" by (rule units_cong)
  obtain m' where m': "widen_loop m1 n = Some m'" "length m' = length m1" "units True m' n = units False m1 n"
      "drop (room True n) m' = drop (room True n) m1"
    using Suc.IH [of m1] Suc.prems m1(2) by (auto simp: room_def)
  have high: "m' ! j = m1 ! j" if "room True n \<le> j" "j < length m" for j
    using arg_cong [OF m'(4), of "\<lambda>xs. xs ! (j - room True n)"] that m1(2) m'(2) by simp
  have "unit_at True m' n = unit_at True m1 n"
    by (rule unit_at_cong) (use high Suc.prems in auto)
  moreover have "drop (room True (Suc n)) m' = drop (room True (Suc n)) m"
    using arg_cong [OF m'(4), of "drop 2"] m1(5) by (simp add: room_def add.commute)
  ultimately show ?case using get m1 m' low by (simp add: units_Suc)
qed (simp add: units_def)

section \<open>The allocator\<close>

text \<open>
  The C library leaves less than a gigabyte of slack in a block. A heap grants everything when it has no limit and the C
  library refuses nothing.
\<close>

definition heap_ok :: "u8 JSMallocState \<Rightarrow> bool" where
  "heap_ok h \<longleftrightarrow> slack_le (2 ^ 30) (libc h)"

definition granting :: "u8 JSMallocState \<Rightarrow> bool" where
  "granting h \<longleftrightarrow> malloc_limit h = - 1 \<and> (\<forall>i. libc h i \<noteq> Refuse)"

lemma granting_no_limit: "granting h \<Longrightarrow> \<not> x > malloc_limit h"
  by (simp add: granting_def not_less word_order.extremum)

lemma slack_le_libc: "slack_le K lc \<Longrightarrow> lc i = Grant slack g \<Longrightarrow> slack \<le> K"
  unfolding slack_le_def by (drule spec [of _ i]) simp

lemma heap_ok_free [simp]: "heap_ok (js_def_free h p) = heap_ok h" "granting (js_def_free h p) = granting h"
  by (auto simp: heap_ok_def granting_def js_def_free_def split: option.splits)

lemma size_t_pos: "0 < n \<Longrightarrow> n < 2 ^ 63 \<Longrightarrow> (word_of_nat n :: u64) \<noteq> 0"
proof
  assume n: "0 < n" "n < 2 ^ 63" and "(word_of_nat n :: u64) = 0"
  then have "unat (word_of_nat n :: u64) = 0" by simp
  moreover have "unat (word_of_nat n :: u64) = n" using n(2) by (intro unat_of_nat_eq) simp
  ultimately show False using n(1) by simp
qed

lemma js_malloc_spec:
  assumes "heap_ok h" "0 < n" "n < 2 ^ 63"
  obtains b h' where "js_def_malloc 1 h n = Some (b, h')" "heap_ok h'" "granting h \<longrightarrow> granting h' \<and> b \<noteq> None"
    "\<forall>x. b = Some x \<longrightarrow> length (cells x) = n"
proof -
  note nz = size_t_pos [OF assms(2,3)]
  have "\<exists>b h'. js_def_malloc 1 h n = Some (b, h') \<and> heap_ok h' \<and> (granting h \<longrightarrow> granting h' \<and> b \<noteq> None)
      \<and> (\<forall>x. b = Some x \<longrightarrow> length (cells x) = n)"
  proof (cases "malloc_size h + word_of_nat n > malloc_limit h")
    case True
    then have "\<not> granting h" using granting_no_limit by blast
    then show ?thesis using nz True assms(1) by (auto simp: js_def_malloc_def Let_def)
  next
    case False
    have "slack_le (2 ^ 30) (libc h \<circ> Suc)" using assms(1) by (auto simp: heap_ok_def intro: slack_le_Suc)
    then show ?thesis using nz False
      by (cases "libc h 0") (auto simp: js_def_malloc_def Let_def libc_malloc_def heap_ok_def granting_def)
  qed
  then show thesis using that by blast
qed

lemma js_realloc_rt_spec:
  assumes "heap_ok h" "0 < n" "n < 2 ^ 63"
  obtains r h' where "js_realloc_rt 1 h (Some p) n = (r, h')" "heap_ok h'" "granting h \<longrightarrow> granting h' \<and> r \<noteq> None"
    "\<forall>b. r = Some b \<longrightarrow> (\<exists>slack g. libc h 0 = Grant slack g \<and> usable b = n + slack \<and> length (cells b) = n
      \<and> (\<forall>k. k \<le> n \<and> k \<le> length (cells p) \<longrightarrow> take k (cells b) = take k (cells p)))"
proof -
  note nz = size_t_pos [OF assms(2,3)]
  have "\<exists>r h'. js_realloc_rt 1 h (Some p) n = (r, h') \<and> heap_ok h' \<and> (granting h \<longrightarrow> granting h' \<and> r \<noteq> None)
      \<and> (\<forall>b. r = Some b \<longrightarrow> (\<exists>slack g. libc h 0 = Grant slack g \<and> usable b = n + slack \<and> length (cells b) = n
          \<and> (\<forall>k. k \<le> n \<and> k \<le> length (cells p) \<longrightarrow> take k (cells b) = take k (cells p))))"
  proof (cases "malloc_size h + word_of_nat n - js_def_malloc_usable_size p > malloc_limit h")
    case True
    then have "\<not> granting h" using granting_no_limit by blast
    then show ?thesis using nz True assms(1) by (auto simp: js_realloc_rt_def js_def_realloc_def Let_def)
  next
    case False
    have "slack_le (2 ^ 30) (libc h \<circ> Suc)" using assms(1) by (auto simp: heap_ok_def intro: slack_le_Suc)
    then show ?thesis using nz False
      by (cases "libc h 0")
        (auto simp: js_realloc_rt_def js_def_realloc_def Let_def libc_realloc_def heap_ok_def granting_def min_absorb1)
  qed
  then show thesis using that by blast
qed

lemma js_realloc_usable_spec:
  assumes "heap_ok h" "0 < n" "n < 2 ^ 63"
  obtains r h' where "js_realloc_usable h (Some p) n = (r, h')" "heap_ok h'" "granting h \<longrightarrow> granting h' \<and> r \<noteq> None"
    "\<forall>b slack. r = Some (b, slack) \<longrightarrow> slack \<le> 2 ^ 30 \<and> length (cells b) = n + slack
      \<and> (\<forall>k. k \<le> n \<and> k \<le> length (cells p) \<longrightarrow> take k (cells b) = take k (cells p))"
proof -
  obtain r h' where r: "js_realloc_rt 1 h (Some p) n = (r, h')" "heap_ok h'" "granting h \<longrightarrow> granting h' \<and> r \<noteq> None"
    "\<forall>b. r = Some b \<longrightarrow> (\<exists>slack g. libc h 0 = Grant slack g \<and> usable b = n + slack \<and> length (cells b) = n
      \<and> (\<forall>k. k \<le> n \<and> k \<le> length (cells p) \<longrightarrow> take k (cells b) = take k (cells p)))"
    using js_realloc_rt_spec [OF assms] by blast
  show thesis
  proof (cases r)
    case None
    then show thesis using r that [of None h'] by (auto simp: js_realloc_usable_def js_realloc2_def Let_def)
  next
    case (Some b)
    then obtain slack g where b: "libc h 0 = Grant slack g" "usable b = n + slack" "length (cells b) = n"
        "\<forall>k. k \<le> n \<and> k \<le> length (cells p) \<longrightarrow> take k (cells b) = take k (cells p)" using r(4) by auto
    have sl: "slack \<le> 2 ^ 30" using assms(1) b(1) by (auto simp: heap_ok_def intro: slack_le_libc)
    have n: "unat (word_of_nat n :: u64) = n" "unat (word_of_nat (n + slack) :: u64) = n + slack"
      using assms(3) sl by (intro unat_of_nat_eq, simp)+
    have "slack \<noteq> 0 \<Longrightarrow> (word_of_nat n :: u64) < word_of_nat (n + slack)" using n by (simp only: word_less_nat_alt)
    moreover have "unat (word_of_nat slack :: u64) = slack" using sl by (intro unat_of_nat_eq) simp
    ultimately have "js_realloc_usable h (Some p) n = (Some (Block (cells b @ map g [n..<n + slack]) (usable b), slack), h')"
      using r(1) Some b by (cases "slack = 0")
        (simp_all add: js_realloc_usable_def js_realloc2_def Let_def js_def_malloc_usable_size_def slack_cells_def)
    then show thesis using that r(2,3) Some b sl by auto
  qed
qed

section \<open>The contract of a string buffer\<close>

definition sb_ok :: "StringBuffer \<Rightarrow> bool" where
  "sb_ok s \<longleftrightarrow>
     (if sb_error s then sb_str s = None \<and> sb_len s = 0 \<and> sb_size s = 0
      else int (sb_len s) \<le> sb_size s \<and> sb_size s \<le> (if sb_wide s then 2 ^ 31 - 1 else JS_STRING_LEN_MAX)
        \<and> (\<exists>b. sb_str s = Some b \<and> room (sb_wide s) (nat (sb_size s)) + (if sb_wide s then 0 else 1) \<le> length (cells b)))"

definition sb_units :: "StringBuffer \<Rightarrow> u16 list" where
  "sb_units s = (case sb_str s of None \<Rightarrow> [] | Some b \<Rightarrow> units (sb_wide s) (cells b) (sb_len s))"

text \<open>
  What a call that appends \<open>cs\<close> and leaves room for \<open>n\<close> more units promises. \<open>W\<close> says whether it widens the buffer.
  An error sticks, frees the contents and is reported unless there was nothing to do; without it the units are appended.
  It happens only when memory is refused or the string becomes too long.
\<close>

definition after ::
  "u8 JSMallocState \<Rightarrow> StringBuffer \<Rightarrow> nat \<Rightarrow> bool \<Rightarrow> u16 list \<Rightarrow> int \<Rightarrow> u8 JSMallocState \<Rightarrow> StringBuffer \<Rightarrow> bool" where
  "after h s n W cs e h' s' \<longleftrightarrow>
     heap_ok h' \<and> sb_ok s' \<and> (sb_error s \<longrightarrow> sb_error s') \<and> (e \<noteq> 0 \<longrightarrow> sb_error s')
     \<and> (granting h \<and> \<not> sb_error s \<and> int (sb_len s + n + length cs) \<le> JS_STRING_LEN_MAX \<longrightarrow> granting h' \<and> \<not> sb_error s')
     \<and> (sb_error s' \<and> e = 0 \<longrightarrow> sb_error s \<and> n = 0 \<and> cs = [])
     \<and> (\<not> sb_error s' \<longrightarrow> sb_units s' = sb_units s @ cs \<and> (sb_wide s' \<longleftrightarrow> sb_wide s \<or> W) \<and> int (sb_len s' + n) \<le> sb_size s')"

definition post ::
  "u8 JSMallocState \<Rightarrow> StringBuffer \<Rightarrow> nat \<Rightarrow> bool \<Rightarrow> u16 list \<Rightarrow> sb_result \<Rightarrow> bool" where
  "post h s n W cs r \<longleftrightarrow> (case r of None \<Rightarrow> False | Some (e, h', s') \<Rightarrow> after h s n W cs e h' s')"

lemma postE:
  assumes "post h s n W cs r"
  obtains e h' s' where "r = Some (e, h', s')" "after h s n W cs e h' s'"
  using assms by (auto simp: post_def split: option.splits)

lemma sb_ok_block:
  assumes "sb_ok s" "\<not> sb_error s"
  obtains b where "sb_str s = Some b" "int (sb_len s) \<le> sb_size s"
    "room (sb_wide s) (nat (sb_size s)) + (if sb_wide s then 0 else 1) \<le> length (cells b)"
    "sb_units s = units (sb_wide s) (cells b) (sb_len s)" "room (sb_wide s) (sb_len s) \<le> length (cells b)"
proof -
  obtain b where b: "sb_str s = Some b" "int (sb_len s) \<le> sb_size s"
      "room (sb_wide s) (nat (sb_size s)) + (if sb_wide s then 0 else 1) \<le> length (cells b)"
    using assms by (auto simp: sb_ok_def)
  have "room (sb_wide s) (sb_len s) \<le> room (sb_wide s) (nat (sb_size s))" using b(2) by (intro room_mono) simp
  then show thesis using b by (intro that [of b]) (auto simp: sb_units_def)
qed

lemma sb_len_units: "sb_ok s \<Longrightarrow> length (sb_units s) = sb_len s"
  by (auto simp: sb_ok_def sb_units_def split: if_splits option.splits)

lemma s32_id: "- (2 ^ 31) \<le> x \<Longrightarrow> x < 2 ^ 31 \<Longrightarrow> s32 x = x"
  by (simp add: s32_def signed_of_int signed_take_bit_int_eq_self)

lemma string_bytes_eq:
  assumes "0 \<le> n" "n \<le> JS_STRING_LEN_MAX"
  shows "string_bytes w n = room w (nat n) + (if w then 0 else 1)" "0 < string_bytes w n" "string_bytes w n < 2 ^ 63"
proof -
  let ?k = "nat (if w then 2 * n else n + 1)"
  have "(if w then s32 (2 * n) else n + 1) = int ?k" using assms by (auto simp: s32_id JS_STRING_LEN_MAX_def)
  then have "string_bytes w n = unat (word_of_nat (16 + ?k) :: u64)"
    by (simp only: string_bytes_def sizeof_JSString_def of_int_of_nat_eq of_nat_add)
  also have "\<dots> = 16 + ?k" using assms by (intro unat_of_nat_eq) (auto simp: JS_STRING_LEN_MAX_def)
  finally show "string_bytes w n = room w (nat n) + (if w then 0 else 1)" "0 < string_bytes w n" "string_bytes w n < 2 ^ 63"
    using assms by (auto simp: room_def sizeof_JSString_def JS_STRING_LEN_MAX_def nat_mult_distrib nat_add_distrib)
qed

lemma post_error:
  "heap_ok h' \<Longrightarrow> \<not> granting h \<or> JS_STRING_LEN_MAX < int (sb_len s + n + length cs) \<or> sb_error s \<Longrightarrow>
   post h s n W cs (Some (string_buffer_set_error h' s))"
  by (auto simp: post_def after_def string_buffer_set_error_def sb_ok_def)

lemma post_stuck: "heap_ok h \<Longrightarrow> sb_ok s \<Longrightarrow> sb_error s \<Longrightarrow> post h s n W cs (Some (- 1, h, s))"
  by (auto simp: post_def after_def)

lemma widen_post:
  assumes "heap_ok h" "sb_ok s" "\<not> sb_error s \<Longrightarrow> \<not> sb_wide s" "int (sb_len s + n) \<le> sz" "sz \<le> JS_STRING_LEN_MAX"
  shows "post h s n True [] (string_buffer_widen h s sz)"
proof (cases "sb_error s")
  case True
  then show ?thesis using post_stuck [OF assms(1,2)] by (simp add: string_buffer_widen_def)
next
  case False
  then have narrow: "\<not> sb_wide s" using assms(3) by simp
  obtain b where b: "sb_str s = Some b" "sb_units s = units False (cells b) (sb_len s)" "room False (sb_len s) \<le> length (cells b)"
    using sb_ok_block [OF assms(2) False] narrow by auto
  have sz: "0 \<le> sz" using assms(4) by simp
  note bytes = string_bytes_eq [OF sz assms(5), of True]
  obtain r h' where r: "js_realloc_usable h (Some b) (string_bytes True sz) = (r, h')" "heap_ok h'"
      "granting h \<longrightarrow> granting h' \<and> r \<noteq> None"
      "\<forall>b' slack. r = Some (b', slack) \<longrightarrow> slack \<le> 2 ^ 30 \<and> length (cells b') = string_bytes True sz + slack
        \<and> (\<forall>k. k \<le> string_bytes True sz \<and> k \<le> length (cells b) \<longrightarrow> take k (cells b') = take k (cells b))"
    by (rule js_realloc_usable_spec [OF assms(1) bytes(2,3), of b])
  show ?thesis
  proof (cases r)
    case None
    then have "\<not> granting h" using r(3) by auto
    then show ?thesis using post_error [OF r(2)] r(1) b(1) None False by (simp add: string_buffer_widen_def)
  next
    case (Some p)
    obtain b' slack where p: "p = (b', slack)" by (cases p)
    have len: "room True (sb_len s) \<le> string_bytes True sz" "room False (sb_len s) \<le> string_bytes True sz"
      using bytes(1) assms(4) by (auto simp: room_def)
    have b': "slack \<le> 2 ^ 30" "length (cells b') = string_bytes True sz + slack"
        "take (room False (sb_len s)) (cells b') = take (room False (sb_len s)) (cells b)"
      using r(4) Some p len(2) b(3) by auto
    obtain m where m: "widen_loop (cells b') (sb_len s) = Some m" "length m = length (cells b')"
        "units True m (sb_len s) = units False (cells b') (sb_len s)"
      using widen_loop_spec [of "sb_len s" "cells b'"] len(1) b'(2) by auto
    have sz': "s32 (sz + int (slack div 2)) = sz + int (slack div 2)"
      using assms(5) sz b'(1) by (intro s32_id) (auto simp: JS_STRING_LEN_MAX_def)
    let ?s = "s\<lparr>sb_wide := True, sb_size := sz + int (slack div 2), sb_str := Some (Block m (usable b'))\<rparr>"
    have "sb_ok ?s"
      using False assms(4,5) b'(1,2) m(2) bytes(1) sz
      by (auto simp: sb_ok_def room_def JS_STRING_LEN_MAX_def nat_add_distrib)
    moreover have "sb_units ?s = sb_units s" using m(3) units_cong [OF b'(3)] b(2) by (simp add: sb_units_def)
    ultimately show ?thesis
      using r(1-3) Some p b(1) False m(1) sz' assms(4) by (auto simp: post_def after_def string_buffer_widen_def)
  qed
qed

lemma realloc_post:
  assumes "heap_ok h" "sb_ok s" "sb_size s < int (sb_len s + n)"
  shows "post h s n (c \<ge> 0x100) [] (string_buffer_realloc h s (sb_len s + n) c)"
proof (cases "sb_error s")
  case True
  then show ?thesis using post_stuck [OF assms(1,2)] by (simp add: string_buffer_realloc_def)
next
  case False
  define z where "z = min (max (int (sb_len s + n)) (s32 (sb_size s * 3) sdiv 2)) JS_STRING_LEN_MAX"
  show ?thesis
  proof (cases "int (sb_len s + n) > JS_STRING_LEN_MAX")
    case True
    then show ?thesis using False post_error [OF assms(1), of h s n "[]"] by (simp add: string_buffer_realloc_def)
  next
    case fits: False
    then have sz: "int (sb_len s + n) \<le> z" "z \<le> JS_STRING_LEN_MAX" "0 \<le> z" by (auto simp: z_def)
    show ?thesis
    proof (cases "\<not> sb_wide s \<and> c \<ge> 0x100")
      case True
      then show ?thesis using widen_post [OF assms(1,2) _ sz(1,2)] False fits unfolding string_buffer_realloc_def Let_def z_def [symmetric] by simp
    next
      case keep: False
      obtain b where b: "sb_str s = Some b" "sb_units s = units (sb_wide s) (cells b) (sb_len s)"
          "room (sb_wide s) (sb_len s) \<le> length (cells b)"
        using sb_ok_block [OF assms(2) False] by auto
      note bytes = string_bytes_eq [OF sz(3,2), of "sb_wide s"]
      obtain r h' where r: "js_realloc_usable h (Some b) (string_bytes (sb_wide s) z) = (r, h')" "heap_ok h'"
          "granting h \<longrightarrow> granting h' \<and> r \<noteq> None"
          "\<forall>b' slack. r = Some (b', slack) \<longrightarrow> slack \<le> 2 ^ 30 \<and> length (cells b') = string_bytes (sb_wide s) z + slack
            \<and> (\<forall>k. k \<le> string_bytes (sb_wide s) z \<and> k \<le> length (cells b) \<longrightarrow> take k (cells b') = take k (cells b))"
        by (rule js_realloc_usable_spec [OF assms(1) bytes(2,3), of b])
      have eq: "string_buffer_realloc h s (sb_len s + n) c =
          (case js_realloc_usable h (Some b) (string_bytes (sb_wide s) z) of
             (None, h') \<Rightarrow> Some (string_buffer_set_error h' s)
           | (Some (b', slack), h') \<Rightarrow> Some (0, h',
               s\<lparr>sb_size := min (s32 (z + int (if sb_wide s then slack div 2 else slack))) JS_STRING_LEN_MAX, sb_str := Some b'\<rparr>))"
        unfolding string_buffer_realloc_def Let_def z_def [symmetric] if_not_P [OF False] if_not_P [OF fits] if_not_P [OF keep] b(1) by (rule refl)
      show ?thesis
      proof (cases r)
        case None
        then have "\<not> granting h" using r(3) by auto
        then show ?thesis unfolding eq r(1) using post_error [OF r(2)] None by simp
      next
        case (Some p)
        obtain b' slack where p: "p = (b', slack)" by (cases p)
        have len: "room (sb_wide s) (sb_len s) \<le> string_bytes (sb_wide s) z"
        proof -
          have "sb_len s \<le> nat z" using sz(1) by linarith
          then show ?thesis using room_mono [of "sb_len s" "nat z" "sb_wide s"] bytes(1) by linarith
        qed
        have b': "slack \<le> 2 ^ 30" "length (cells b') = string_bytes (sb_wide s) z + slack"
            "take (room (sb_wide s) (sb_len s)) (cells b') = take (room (sb_wide s) (sb_len s)) (cells b)"
          using r(4) Some p len b(3) by auto
        define k where "k = (if sb_wide s then slack div 2 else slack)"
        have k: "k \<le> slack" "sb_wide s \<Longrightarrow> 2 * k \<le> slack" by (auto simp: k_def)
        have s32: "s32 (z + int k) = z + int k"
          using sz b'(1) k(1) by (intro s32_id) (auto simp: JS_STRING_LEN_MAX_def)
        let ?s = "s\<lparr>sb_size := min (z + int k) JS_STRING_LEN_MAX, sb_str := Some b'\<rparr>"
        have "room (sb_wide s) (nat (min (z + int k) JS_STRING_LEN_MAX)) + (if sb_wide s then 0 else 1) \<le> length (cells b')"
        proof -
          have "nat (min (z + int k) JS_STRING_LEN_MAX) \<le> nat z + k" using sz(3) by linarith
          then show ?thesis using room_mono [of _ "nat z + k" "sb_wide s"] b'(2) k bytes(1) by (force simp: room_def)
        qed
        then have "sb_ok ?s" using False sz by (auto simp: sb_ok_def JS_STRING_LEN_MAX_def)
        moreover have "sb_units ?s = sb_units s" using units_cong [OF b'(3)] b(2) by (simp add: sb_units_def)
        moreover have "int (sb_len s + n) \<le> min (z + int k) JS_STRING_LEN_MAX" using sz fits by simp
        ultimately show ?thesis
          unfolding eq r(1) Some p using r(2,3) Some False keep s32 by (auto simp: post_def after_def k_def)
      qed
    qed
  qed
qed

lemma afterI:
  "\<lbrakk>heap_ok h'; sb_ok s'; sb_error s \<Longrightarrow> sb_error s'; e \<noteq> 0 \<Longrightarrow> sb_error s';
    \<lbrakk>granting h; \<not> sb_error s; int (sb_len s + n + length cs) \<le> JS_STRING_LEN_MAX\<rbrakk> \<Longrightarrow> granting h' \<and> \<not> sb_error s';
    \<lbrakk>sb_error s'; e = 0\<rbrakk> \<Longrightarrow> sb_error s \<and> n = 0 \<and> cs = [];
    \<not> sb_error s' \<Longrightarrow> sb_units s' = sb_units s @ cs \<and> (sb_wide s' \<longleftrightarrow> sb_wide s \<or> W) \<and> int (sb_len s' + n) \<le> sb_size s'\<rbrakk>
   \<Longrightarrow> after h s n W cs e h' s'"
  unfolding after_def by blast

lemma afterD:
  assumes "after h s n W cs e h' s'"
  shows "heap_ok h'" "sb_ok s'" "sb_error s \<Longrightarrow> sb_error s'" "e \<noteq> 0 \<Longrightarrow> sb_error s'"
    "\<lbrakk>granting h; \<not> sb_error s; int (sb_len s + n + length cs) \<le> JS_STRING_LEN_MAX\<rbrakk> \<Longrightarrow> granting h' \<and> \<not> sb_error s'"
    "\<lbrakk>sb_error s'; e = 0\<rbrakk> \<Longrightarrow> sb_error s \<and> n = 0 \<and> cs = []"
    "\<not> sb_error s' \<Longrightarrow> sb_units s' = sb_units s @ cs \<and> (sb_wide s' \<longleftrightarrow> sb_wide s \<or> W) \<and> int (sb_len s' + n) \<le> sb_size s'"
  using assms unfolding after_def by blast+

lemma after_len: "after h s n W cs e h' s' \<Longrightarrow> sb_ok s \<Longrightarrow> \<not> sb_error s' \<Longrightarrow> sb_len s' = sb_len s + length cs"
  using sb_len_units [of s] sb_len_units [of s'] afterD(2,7) [of h s n W cs e h' s'] by simp

lemma after_trans:
  assumes one: "after h s n W1 cs 0 h' s'" and two: "after h' s' n2 W2 ds e h2 s2"
    and n: "n \<le> n2 + length ds" and ok: "sb_ok s"
  shows "after h s n2 (W1 \<or> W2) (cs @ ds) e h2 s2"
proof (rule afterI)
  note len = after_len [OF one ok]
  note one = afterD [OF one] and two = afterD [OF two]
  show "heap_ok h2" "sb_ok s2" by (fact two)+
  show "sb_error s2" if "sb_error s" using that one(3) two(3) by blast
  show "sb_error s2" if "e \<noteq> 0" using that by (rule two(4))
  show "granting h2 \<and> \<not> sb_error s2"
    if g: "granting h" "\<not> sb_error s" "int (sb_len s + n2 + length (cs @ ds)) \<le> JS_STRING_LEN_MAX"
  proof -
    have "granting h' \<and> \<not> sb_error s'" using g n by (intro one(5)) simp_all
    moreover from this have "int (sb_len s' + n2 + length ds) \<le> JS_STRING_LEN_MAX" using len g(3) by simp
    ultimately show ?thesis using two(5) by blast
  qed
  show "sb_error s \<and> n2 = 0 \<and> cs @ ds = []" if "sb_error s2" "e = 0" using one(6) two(6) that by simp
  show "sb_units s2 = sb_units s @ cs @ ds \<and> (sb_wide s2 \<longleftrightarrow> sb_wide s \<or> W1 \<or> W2) \<and> int (sb_len s2 + n2) \<le> sb_size s2"
    if err: "\<not> sb_error s2"
  proof -
    have "\<not> sb_error s'" using err two(3) by blast
    then show ?thesis using one(7) two(7) err by simp
  qed
qed

lemma seq_post:
  assumes r: "post h s n W1 cs r" and n: "n \<le> n2 + length ds" and ok: "sb_ok s"
    and step: "\<And>h' s'. heap_ok h' \<Longrightarrow> sb_ok s' \<Longrightarrow> (\<not> sb_error s' \<Longrightarrow> int (sb_len s' + n) \<le> sb_size s' \<and> (sb_wide s' \<longleftrightarrow> sb_wide s \<or> W1))
      \<Longrightarrow> (sb_error s' \<Longrightarrow> n = 0) \<Longrightarrow> post h' s' n2 W2 ds (f h' s')"
  shows "post h s n2 (W1 \<or> W2) (cs @ ds) (sb_seq r f)"
proof -
  obtain e h' s' where r': "r = Some (e, h', s')" and one: "after h s n W1 cs e h' s'" using r by (rule postE)
  note D = afterD [OF one]
  show ?thesis
  proof (cases "e = 0")
    case False
    have "sb_error s \<or> \<not> granting h \<or> \<not> int (sb_len s + n2 + length (cs @ ds)) \<le> JS_STRING_LEN_MAX"
      using D(4) [OF False] D(5) n by force
    then have "after h s n2 (W1 \<or> W2) (cs @ ds) (- 1) h' s'" using D(1,2) D(4) [OF False] by (intro afterI) auto
    then show ?thesis using r' False by (simp add: post_def sb_seq_def)
  next
    case True
    have "post h' s' n2 W2 ds (f h' s')" using D True by (intro step) simp_all
    then obtain e2 h2 s2 where "f h' s' = Some (e2, h2, s2)" "after h' s' n2 W2 ds e2 h2 s2" by (rule postE)
    then show ?thesis using after_trans [OF _ _ n ok] one r' True by (simp add: sb_seq_def post_def)
  qed
qed

lemma seq_assoc: "sb_seq (sb_seq r f) g = sb_seq r (\<lambda>h s. sb_seq (f h s) g)"
  by (auto simp: sb_seq_def split: option.splits)

lemma seq_done: "sb_seq (Some (0, h, s)) f = f h s"
  by (simp add: sb_seq_def)

lemma post_wide: "post h s n W cs r \<Longrightarrow> sb_wide s \<or> (W \<longleftrightarrow> W') \<Longrightarrow> post h s n W' cs r"
  by (cases "sb_wide s") (auto simp: post_def after_def split: option.splits)

lemma nothing_post:
  "heap_ok h \<Longrightarrow> sb_ok s \<Longrightarrow> int (sb_len s + n) \<le> sb_size s \<Longrightarrow> post h s n False [] (Some (0, h, s))"
  by (auto simp: post_def after_def sb_ok_def)

lemma sb_ok_le: "sb_ok s \<Longrightarrow> int (sb_len s) \<le> sb_size s"
  by (auto simp: sb_ok_def split: if_splits)

lemma claim_post:
  "heap_ok h \<Longrightarrow> sb_ok s \<Longrightarrow> post h s n (c \<ge> 0x100 \<and> sb_size s < int (sb_len s + n)) [] (sb_claim h s n c)"
  using realloc_post [of h s n c] nothing_post [of h s n] by (auto simp: sb_claim_def)

lemma store_post:
  assumes "heap_ok h" "sb_ok s" "\<not> sb_error s \<Longrightarrow> int (sb_len s + length cs) \<le> sb_size s" "sb_error s \<Longrightarrow> cs = []"
    "\<not> sb_wide s \<Longrightarrow> \<forall>c\<in>set cs. c < 0x100"
  shows "post h s 0 False cs (sb_store h s cs)"
proof (cases "sb_error s")
  case True
  then have "sb_store h s cs = Some (0, h, s)" using assms(2,4) by (simp add: sb_store_def sb_ok_def)
  then show ?thesis using True assms(1,2,4) by (auto simp: post_def after_def)
next
  case False
  obtain b where b: "sb_str s = Some b" "room (sb_wide s) (nat (sb_size s)) + (if sb_wide s then 0 else 1) \<le> length (cells b)"
      "sb_units s = units (sb_wide s) (cells b) (sb_len s)" "int (sb_len s) \<le> sb_size s"
    using sb_ok_block [OF assms(2) False] by metis
  have "sb_len s + length cs \<le> nat (sb_size s)" using assms(3) [OF False] by linarith
  then have "room (sb_wide s) (sb_len s + length cs) \<le> length (cells b)" using room_mono b(2) by (meson add_leD1 order_trans)
  then obtain m where m: "put_units (sb_wide s) (cells b) (sb_len s) cs = Some m" "length m = length (cells b)"
      "units (sb_wide s) m (sb_len s + length cs) = sb_units s @ map (fit (sb_wide s)) cs"
    using put_units_spec b(3) by metis
  have "map (fit (sb_wide s)) cs = cs" using assms(5) by (cases "sb_wide s") (auto intro: map_idI simp: fit_small)
  moreover have "sb_ok (s\<lparr>sb_str := Some (Block m (usable b)), sb_len := sb_len s + length cs\<rparr>)"
    using assms(2,3) False b(1) m(2) by (auto simp: sb_ok_def)
  ultimately show ?thesis using b(1) m assms(1,3) False by (simp add: sb_store_def post_def after_def sb_units_def)
qed

lemma seq_store:
  assumes "post h s (length cs) W [] r" "sb_ok s" "(\<forall>c\<in>set cs. c < 0x100) \<or> W \<or> sb_wide s"
  shows "post h s 0 W cs (sb_seq r (\<lambda>h s. sb_store h s cs))"
proof -
  have "post h' s' 0 False cs (sb_store h' s' cs)"
    if "heap_ok h'" "sb_ok s'" "\<not> sb_error s' \<Longrightarrow> int (sb_len s' + length cs) \<le> sb_size s' \<and> (sb_wide s' \<longleftrightarrow> sb_wide s \<or> W)"
      "sb_error s' \<Longrightarrow> length cs = 0" for h' s'
    using that assms(3) by (intro store_post) (cases "sb_error s'"; auto)+
  then show ?thesis using seq_post [OF assms(1) _ assms(2), of 0 cs False] by simp
qed

subsection \<open>The operations\<close>

text \<open>The units an operation appends.\<close>

datatype sb_op = Putc8 u32 | Putc16 u32 | Putc u32 | Write8 "u8 list" | Write16 "u16 list" | Concat JSString nat nat | Fill u32 nat

fun sb_do :: "u8 JSMallocState \<Rightarrow> StringBuffer \<Rightarrow> sb_op \<Rightarrow> sb_result" where
  "sb_do h s (Putc8 c) = string_buffer_putc8 h s c"
| "sb_do h s (Putc16 c) = string_buffer_putc16 h s c"
| "sb_do h s (Putc c) = string_buffer_putc h s c"
| "sb_do h s (Write8 p) = string_buffer_write8 h s p"
| "sb_do h s (Write16 p) = string_buffer_write16 h s p"
| "sb_do h s (Concat p from to) = string_buffer_concat h s p from to"
| "sb_do h s (Fill c n) = string_buffer_fill h s c n"

definition utf16 :: "u32 \<Rightarrow> u16 list" where
  "utf16 c = (if c < 0x10000 then [ucast c]
    else [ucast (drop_bit 10 (c - 0x10000) + 0xd800), ucast (((c - 0x10000) AND 0x3ff) + 0xdc00)])"

definition string_ok :: "JSString \<Rightarrow> bool" where
  "string_ok p \<longleftrightarrow> room (str_wide p) (str_len p) + (if str_wide p then 0 else 1) \<le> length (cells (str_mem p))
     \<and> (\<not> str_wide p \<longrightarrow> unit_at False (cells (str_mem p)) (str_len p) = 0)"

definition js_units :: "JSString \<Rightarrow> u16 list" where
  "js_units p = units (str_wide p) (cells (str_mem p)) (str_len p)"

fun op_units :: "sb_op \<Rightarrow> u16 list" where
  "op_units (Putc8 c) = [ucast c]"
| "op_units (Putc16 c) = [ucast c]"
| "op_units (Putc c) = utf16 c"
| "op_units (Write8 p) = map ucast p"
| "op_units (Write16 p) = p"
| "op_units (Concat p from to) = drop from (take to (js_units p))"
| "op_units (Fill c n) = replicate n (ucast c)"

fun op_ok :: "sb_op \<Rightarrow> bool" where
  "op_ok (Putc8 c) = (c \<le> 0xff)"
| "op_ok (Putc16 c) = (c \<le> 0xffff)"
| "op_ok (Putc c) = (c \<le> 0x10ffff)"
| "op_ok (Concat p from to) = (string_ok p \<and> to \<le> str_len p)"
| "op_ok (Fill c n) = (c \<le> 0xffff)"
| "op_ok _ = True"

definition wide_units :: "u16 list \<Rightarrow> bool" where
  "wide_units us \<longleftrightarrow> (\<exists>u\<in>set us. u \<ge> 0x100)"

lemma wide_units_simps [simp]:
  "wide_units [] = False" "wide_units (u # us) = (u \<ge> 0x100 \<or> wide_units us)"
  "wide_units (us @ vs) = (wide_units us \<or> wide_units vs)" "wide_units (replicate n u) = (0 < n \<and> u \<ge> 0x100)"
  by (auto simp: wide_units_def)

lemma unit_wide: "c \<le> 0xffff \<Longrightarrow> (ucast c :: u16) \<ge> 0x100 \<longleftrightarrow> (c :: u32) \<ge> 0x100"
  by (simp add: word_le_nat_alt unat_ucast)

lemma byte_narrow: "(ucast (b :: u8) :: u16) < 0x100"
  using unat_u8_lt [of b] by (simp add: word_less_nat_alt unat_ucast)

lemma or_narrow: "(a :: u32) OR b < 0x100 \<longleftrightarrow> a < 0x100 \<and> b < 0x100"
proof -
  have "c < 0x100 \<longleftrightarrow> drop_bit 8 c = 0" for c :: u32
    by (simp add: word_less_nat_alt word_unat_eq_iff unat_drop_bit div_eq_0_iff)
  then show ?thesis by (simp add: or_eq_0_iff)
qed

lemma foldl_or_wide: "foldl (\<lambda>c u. c OR ucast u) (a :: u32) us \<ge> 0x100 \<longleftrightarrow> a \<ge> 0x100 \<or> wide_units us"
proof (induction us arbitrary: a)
  case (Cons u us)
  have "unat u < 65536" using unsigned_less [of u, where 'a = nat] by simp
  then have "(ucast u :: u32) < 0x100 \<longleftrightarrow> u < 0x100" by (simp add: word_less_nat_alt unat_ucast)
  then show ?case using Cons.IH or_narrow [of a "ucast u"] by (auto simp: not_less [symmetric])
qed simp

lemma putc_slow_post:
  assumes "heap_ok h" "sb_ok s" "c \<le> 0xffff"
  shows "post h s 0 (c \<ge> 0x100) [ucast c] (string_buffer_putc_slow h s c)"
proof -
  let ?f = "\<lambda>h s. if sb_wide s \<or> c < 0x100 then Some (0, h, s) else string_buffer_widen h s (sb_size s)"
  have step: "post h' s' 1 (c \<ge> 0x100) [] (?f h' s')"
    if "heap_ok h'" "sb_ok s'" "\<not> sb_error s' \<Longrightarrow> int (sb_len s' + 1) \<le> sb_size s'" "\<not> sb_error s'" for h' s'
  proof (cases "sb_wide s' \<or> c < 0x100")
    case True
    have "int (sb_len s' + 1) \<le> sb_size s'" using that(3,4) by auto
    moreover have "sb_wide s' \<or> (False \<longleftrightarrow> c \<ge> 0x100)" using True by (auto simp only: not_le [symmetric])
    ultimately show ?thesis using post_wide [OF nothing_post [OF that(1,2)]] True by simp
  next
    case False
    have "sb_size s' \<le> JS_STRING_LEN_MAX" using that(2,4) False by (auto simp: sb_ok_def split: if_splits)
    moreover have "int (sb_len s' + 1) \<le> sb_size s'" "c \<ge> 0x100" using that(3,4) False by auto
    ultimately show ?thesis using widen_post [OF that(1,2), of 1 "sb_size s'"] False by simp
  qed
  have "post h s 1 ((c \<ge> 0x100 \<and> sb_size s < int (sb_len s + 1)) \<or> c \<ge> 0x100) ([] @ []) (sb_seq (sb_claim h s 1 c) ?f)"
    by (rule seq_post [OF claim_post [OF assms(1,2)] _ assms(2)], simp, rule step) auto
  then have "post h s (length [ucast c :: u16]) (c \<ge> 0x100) [] (sb_seq (sb_claim h s 1 c) ?f)" unfolding length_Cons list.size One_nat_def unfolding append_Nil by (rule post_wide) blast
  moreover have "(\<forall>u\<in>set [ucast c :: u16]. u < 0x100) \<or> c \<ge> 0x100 \<or> sb_wide s"
    using unit_wide [OF assms(3)] by (auto simp only: list.set not_le [symmetric])
  ultimately have "post h s 0 (c \<ge> 0x100) [ucast c] (sb_seq (sb_seq (sb_claim h s 1 c) ?f) (\<lambda>h s. sb_store h s [ucast c]))"
    by (intro seq_store assms(2))
  also have "sb_seq (sb_seq (sb_claim h s 1 c) ?f) (\<lambda>h s. sb_store h s [ucast c]) = string_buffer_putc_slow h s c"
    unfolding string_buffer_putc_slow_def seq_assoc by (intro arg_cong2 [where f = sb_seq] refl ext) (simp add: seq_done)
  finally show ?thesis .
qed

lemma putc16_post:
  assumes "heap_ok h" "sb_ok s" "c \<le> 0xffff"
  shows "post h s 0 (c \<ge> 0x100) [ucast c] (string_buffer_putc16 h s c)"
proof (cases "int (sb_len s) < sb_size s \<and> (sb_wide s \<or> c < 0x100)")
  case True
  have ok: "\<not> sb_error s" using True assms(2) by (auto simp: sb_ok_def)
  have narrow: "sb_wide s \<or> (False \<longleftrightarrow> c \<ge> 0x100)" using True by (auto simp only: not_le [symmetric])
  then have "sb_wide s \<or> (ucast c :: u16) < 0x100" using unit_wide [OF assms(3)] by (auto simp only: not_le [symmetric])
  then have "post h s 0 False [ucast c] (sb_store h s [ucast c])"
    using assms(1,2) True ok by (intro store_post) simp_all
  from post_wide [OF this narrow] show ?thesis using True by (simp add: string_buffer_putc16_def)
next
  case False
  then show ?thesis unfolding string_buffer_putc16_def if_not_P [OF False] by (intro putc_slow_post assms)
qed

lemma putc8_post:
  assumes "heap_ok h" "sb_ok s" "c \<le> 0xff"
  shows "post h s 0 False [ucast c] (string_buffer_putc8 h s c)"
proof -
  have c: "c \<le> 0xffff" "c < 0x100" using assms(3) by (simp_all add: word_le_nat_alt word_less_nat_alt)
  then have u: "(ucast c :: u16) < 0x100" using unit_wide [OF c(1)] by (simp only: not_le [symmetric]) simp
  have "\<not> c \<ge> 0x100" using c(2) by (simp only: not_le)
  then have "post h s 1 False [] (sb_claim h s 1 c)" using claim_post [OF assms(1,2), of 1 c] by simp
  from seq_store [OF _ assms(2), of h "[ucast c]"] this u show ?thesis by (simp add: string_buffer_putc8_def)
qed

lemma low10: "(c :: u32) AND 0x3ff = take_bit 10 c"
proof -
  have "(0x3ff :: u32) = mask 10" by (simp add: mask_eq_exp_minus_1)
  then show ?thesis by (simp add: take_bit_eq_mask)
qed

lemma surrogates:
  assumes "0x10000 \<le> c" "c \<le> 0x10ffff"
  shows "unat (drop_bit 10 (c - 0x10000) + 0xd800 :: u32) = 0xd800 + (unat c - 0x10000) div 1024"
    "unat (((c - 0x10000) AND 0x3ff) + 0xdc00) = 0xdc00 + (unat c - 0x10000) mod 1024"
    "(unat c - 0x10000) div 1024 < 1024"
proof -
  have c: "0x10000 \<le> unat c" "unat c \<le> 0x10ffff" using assms by (simp_all add: word_le_nat_alt)
  then have d: "unat (c - 0x10000) = unat c - 0x10000" using assms(1) by (simp add: unat_sub)
  show q: "(unat c - 0x10000) div 1024 < 1024" using c by linarith
  have "(unat c - 0x10000) mod 1024 < 1024" by simp
  with q c d show "unat (drop_bit 10 (c - 0x10000) + 0xd800 :: u32) = 0xd800 + (unat c - 0x10000) div 1024"
      "unat (((c - 0x10000) AND 0x3ff) + 0xdc00) = 0xdc00 + (unat c - 0x10000) mod 1024"
    by (simp_all only: low10 unat_word_ariths unat_simps d) simp_all
qed

lemma putc_post:
  assumes "heap_ok h" "sb_ok s" "c \<le> 0x10ffff"
  shows "post h s 0 (wide_units (utf16 c)) (utf16 c) (string_buffer_putc h s c)"
proof (cases "c \<ge> 0x10000")
  case False
  then have "c \<le> 0xffff" by (simp add: word_le_nat_alt)
  moreover have "c < 0x10000" using False by (simp only: not_le)
  ultimately show ?thesis using putc16_post [OF assms(1,2)] unit_wide [of c]
    unfolding string_buffer_putc_def utf16_def if_not_P [OF False] by simp
next
  case True
  let ?a = "drop_bit 10 (c - 0x10000) + 0xd800 :: u32" and ?b = "((c - 0x10000) AND 0x3ff) + 0xdc00 :: u32"
  note su = surrogates [OF True assms(3)]
  have a: "?a \<le> 0xffff" "?a \<ge> 0x100" using su(1,3) by (simp_all add: word_le_nat_alt)
  have "(unat c - 0x10000) mod 1024 < 1024" by simp
  then have b: "?b \<le> 0xffff" "?b \<ge> 0x100" using su(2) by (simp_all add: word_le_nat_alt)
  have "post h s 0 (?a \<ge> 0x100 \<or> ?b \<ge> 0x100) ([ucast ?a] @ [ucast ?b])
      (sb_seq (string_buffer_putc16 h s ?a) (\<lambda>h s. string_buffer_putc16 h s ?b))"
    by (rule seq_post [OF putc16_post [OF assms(1,2) a(1)] _ assms(2)]) (simp, rule putc16_post [OF _ _ b(1)])
  moreover have "\<not> c < 0x10000" using True by (simp only: not_less)
  ultimately show ?thesis using True a b unit_wide [OF a(1)] unit_wide [OF b(1)]
    by (simp add: string_buffer_putc_def utf16_def Let_def)
qed

lemma write8_post:
  assumes "heap_ok h" "sb_ok s"
  shows "post h s 0 False (map ucast p) (string_buffer_write8 h s p)"
proof -
  have "post h s (length (map ucast p :: u16 list)) False [] (sb_claim h s (length p) 0)" using claim_post [OF assms, of "length p" 0] by simp
  from seq_store [OF this assms(2)] show ?thesis by (simp add: string_buffer_write8_def byte_narrow)
qed

lemma write16_post:
  assumes "heap_ok h" "sb_ok s"
  shows "post h s 0 (wide_units p) p (string_buffer_write16 h s p)"
proof -
  define c where "c = foldl (\<lambda>c u. c OR ucast u) (0 :: u32) p"
  have c: "c \<ge> 0x100 \<longleftrightarrow> wide_units p" using foldl_or_wide [of 0 p] by (simp add: c_def)
  define r where "r = (if int (sb_len s + length p) > sb_size s then string_buffer_realloc h s (sb_len s + length p) c
     else if \<not> sb_wide s \<and> c \<ge> 0x100 then string_buffer_widen h s (sb_size s) else Some (0, h, s))"
  have "post h s (length p) (wide_units p) [] r"
  proof (cases "int (sb_len s + length p) > sb_size s")
    case True
    then show ?thesis using realloc_post [OF assms, of "length p" c] c by (simp add: r_def)
  next
    case fits: False
    show ?thesis
    proof (cases "\<not> sb_wide s \<and> c \<ge> 0x100")
      case True
      then have "p \<noteq> []" using c by auto
      then have "\<not> sb_error s" using assms(2) fits by (auto simp: sb_ok_def)
      then have "sb_size s \<le> JS_STRING_LEN_MAX" using assms(2) True by (auto simp: sb_ok_def)
      then have "post h s (length p) True [] (string_buffer_widen h s (sb_size s))" using True fits by (intro widen_post assms) auto
      then show ?thesis using True fits c by (simp add: r_def)
    next
      case False
      then have "post h s (length p) (wide_units p) [] (Some (0, h, s))"
        using c fits by (intro post_wide [OF nothing_post [OF assms]]) auto
      then show ?thesis using False fits by (simp only: r_def if_False)
    qed
  qed
  moreover have "(\<forall>u\<in>set p. u < 0x100) \<or> wide_units p \<or> sb_wide s" by (auto simp only: wide_units_def not_le [symmetric])
  ultimately have "post h s 0 (wide_units p) p (sb_seq r (\<lambda>h s. sb_store h s p))" by (intro seq_store assms(2))
  then show ?thesis unfolding string_buffer_write16_def Let_def c_def [symmetric] r_def [symmetric] .
qed

lemma those_map: "\<forall>x\<in>set xs. f x = Some (g x) \<Longrightarrow> those (map f xs) = Some (map g xs)"
  by (induction xs) auto

lemma concat_post:
  assumes "heap_ok h" "sb_ok s" "string_ok p" "to \<le> str_len p"
  shows "post h s 0 (wide_units (op_units (Concat p from to))) (op_units (Concat p from to)) (string_buffer_concat h s p from to)"
proof (cases "to \<le> from")
  case True
  then show ?thesis using nothing_post [OF assms(1,2), of 0] sb_ok_le [OF assms(2)] by (simp add: string_buffer_concat_def)
next
  case False
  let ?us = "map (unit_at (str_wide p) (cells (str_mem p))) [from..<to]"
  have us: "op_units (Concat p from to) = ?us"
    using assms(4) False by (simp add: js_units_def units_def take_map drop_map)
  have "get_unit (str_wide p) (cells (str_mem p)) i = Some (unit_at (str_wide p) (cells (str_mem p)) i)" if "i < to" for i
    using that assms(3,4) room_mono [of "Suc i" "str_len p" "str_wide p"] by (intro get_unit_Some) (auto simp: string_ok_def)
  then have slice: "string_slice p from to = Some ?us" unfolding string_slice_def by (intro those_map) simp
  show ?thesis
  proof (cases "str_wide p")
    case True
    then show ?thesis unfolding us using slice False write16_post [OF assms(1,2), of ?us] by (simp add: string_buffer_concat_def)
  next
    case narrow: False
    have "ucast (to_u8 u) = u" if "u \<in> set ?us" for u
      using that narrow fit_small [of u False] unit_at_narrow by (auto simp: fit_def)
    then have "map ucast (map to_u8 ?us) = ?us" by (intro nth_equalityI) (simp_all del: map_map)
    moreover have "\<not> wide_units ?us" using narrow unit_at_narrow by (auto simp: wide_units_def not_le)
    ultimately show ?thesis
      unfolding us using slice False narrow write8_post [OF assms(1,2), of "map to_u8 ?us"]
      by (simp add: string_buffer_concat_def del: map_map)
  qed
qed

lemma fill_loop_post:
  "heap_ok h \<Longrightarrow> sb_ok s \<Longrightarrow> c \<le> 0xffff \<Longrightarrow> post h s 0 (0 < n \<and> c \<ge> 0x100) (replicate n (ucast c)) (fill_loop h s c n)"
proof (induction n arbitrary: h s)
  case 0
  then show ?case using nothing_post [of h s 0] sb_ok_le by simp
next
  case (Suc n)
  have "post h s 0 (c \<ge> 0x100 \<or> (0 < n \<and> c \<ge> 0x100)) ([ucast c] @ replicate n (ucast c)) (fill_loop h s c (Suc n))"
    unfolding fill_loop.simps
    by (rule seq_post [OF putc16_post [OF Suc.prems] _ Suc.prems(2)]) (simp, rule Suc.IH [OF _ _ Suc.prems(3)])
  then show ?case by (auto intro: post_wide)
qed

lemma fill_post:
  assumes "heap_ok h" "sb_ok s" "c \<le> 0xffff"
  shows "post h s 0 (0 < n \<and> c \<ge> 0x100) (replicate n (ucast c)) (string_buffer_fill h s c n)"
proof -
  have "post h s 0 ((c \<ge> 0x100 \<and> sb_size s < int (sb_len s + n)) \<or> (0 < n \<and> c \<ge> 0x100)) ([] @ replicate n (ucast c)) (string_buffer_fill h s c n)"
    (is "post h s 0 ?W _ _") unfolding string_buffer_fill_def
    by (rule seq_post [OF claim_post [OF assms(1,2)] _ assms(2)]) (simp, rule fill_loop_post [OF _ _ assms(3)])
  moreover have "?W \<longleftrightarrow> 0 < n \<and> c \<ge> 0x100" using sb_ok_le [OF assms(2)] by (cases n) auto
  ultimately show ?thesis by simp
qed

lemma sb_do_post:
  "heap_ok h \<Longrightarrow> sb_ok s \<Longrightarrow> op_ok op \<Longrightarrow> post h s 0 (wide_units (op_units op)) (op_units op) (sb_do h s op)"
proof (cases op)
  case (Putc8 c)
  assume a: "heap_ok h" "sb_ok s" "op_ok op"
  then have c: "c \<le> 0xff" "c \<le> 0xffff" using Putc8 by (simp_all add: word_le_nat_alt)
  then have "\<not> (ucast c :: u16) \<ge> 0x100" using unit_wide [OF c(2)] by (simp add: word_le_nat_alt)
  then show ?thesis using putc8_post [OF a(1,2) c(1)] Putc8 by simp
next
  case (Write8 p)
  assume a: "heap_ok h" "sb_ok s" "op_ok op"
  have "\<not> wide_units (map ucast p)" using byte_narrow by (auto simp: wide_units_def not_le)
  then show ?thesis using write8_post [OF a(1,2), of p] Write8 by simp
next
  case (Concat p i j)
  assume a: "heap_ok h" "sb_ok s" "op_ok op"
  then show ?thesis unfolding Concat sb_do.simps using Concat by (intro concat_post) simp_all
qed (auto simp: putc16_post putc_post write16_post fill_post unit_wide)

subsection \<open>Sequences of operations\<close>

text \<open>A sequence of calls that leaves at the first error, and one that ignores the return values.\<close>

fun sb_try :: "u8 JSMallocState \<Rightarrow> StringBuffer \<Rightarrow> sb_op list \<Rightarrow> sb_result" where
  "sb_try h s [] = Some (0, h, s)"
| "sb_try h s (op # ops) = sb_seq (sb_do h s op) (\<lambda>h s. sb_try h s ops)"

fun sb_run :: "u8 JSMallocState \<Rightarrow> StringBuffer \<Rightarrow> sb_op list \<Rightarrow> (u8 JSMallocState \<times> StringBuffer) option" where
  "sb_run h s [] = Some (h, s)"
| "sb_run h s (op # ops) = (case sb_do h s op of None \<Rightarrow> None | Some (_, h', s') \<Rightarrow> sb_run h' s' ops)"

definition ops_units :: "sb_op list \<Rightarrow> u16 list" where
  "ops_units ops = concat (map op_units ops)"

lemma ops_units_simps [simp]:
  "ops_units [] = []" "ops_units (op # ops) = op_units op @ ops_units ops" "ops_units (xs @ ys) = ops_units xs @ ops_units ys"
  by (simp_all add: ops_units_def)

lemma sb_try_post:
  "heap_ok h \<Longrightarrow> sb_ok s \<Longrightarrow> list_all op_ok ops \<Longrightarrow> post h s 0 (wide_units (ops_units ops)) (ops_units ops) (sb_try h s ops)"
proof (induction ops arbitrary: h s)
  case Nil
  then show ?case using nothing_post [of h s 0] sb_ok_le by simp
next
  case (Cons op ops)
  have op: "op_ok op" "list_all op_ok ops" using Cons.prems(3) by simp_all
  have "post h s 0 (wide_units (op_units op) \<or> wide_units (ops_units ops)) (op_units op @ ops_units ops) (sb_try h s (op # ops))"
    unfolding sb_try.simps
    by (rule seq_post [OF sb_do_post [OF Cons.prems(1,2) op(1)] _ Cons.prems(2)]) (simp, rule Cons.IH [OF _ _ op(2)])
  then show ?case by simp
qed

definition status :: "StringBuffer \<Rightarrow> int" where
  "status s = (if sb_error s then - 1 else 0)"

lemma sb_run_after:
  "heap_ok h \<Longrightarrow> sb_ok s \<Longrightarrow> list_all op_ok ops \<Longrightarrow>
   \<exists>h' s'. sb_run h s ops = Some (h', s') \<and> after h s 0 (wide_units (ops_units ops)) (ops_units ops) (status s') h' s'"
proof (induction ops arbitrary: h s)
  case Nil
  then show ?case using sb_ok_le [of s] by (auto simp: after_def status_def)
next
  case (Cons op ops)
  have ok: "op_ok op" "list_all op_ok ops" using Cons.prems(3) by simp_all
  obtain e h1 s1 where one: "sb_do h s op = Some (e, h1, s1)" "after h s 0 (wide_units (op_units op)) (op_units op) e h1 s1"
    using sb_do_post [OF Cons.prems(1,2) ok(1)] by (rule postE)
  note D1 = afterD [OF one(2)]
  obtain h2 s2 where two: "sb_run h1 s1 ops = Some (h2, s2)"
      "after h1 s1 0 (wide_units (ops_units ops)) (ops_units ops) (status s2) h2 s2"
    using Cons.IH [OF D1(1,2) ok(2)] by blast
  note D2 = afterD [OF two(2)]
  have "after h s 0 (wide_units (op_units op) \<or> wide_units (ops_units ops)) (op_units op @ ops_units ops) (status s2) h2 s2"
  proof (cases "sb_error s1")
    case False
    then have "e = 0" using D1(4) by blast
    then show ?thesis using after_trans [OF _ two(2) _ Cons.prems(2)] one(2) by simp
  next
    case True
    then have err: "sb_error s2" by (rule D2(3))
    have "sb_error s \<or> \<not> granting h \<or> \<not> int (sb_len s + 0 + length (op_units op @ ops_units ops)) \<le> JS_STRING_LEN_MAX"
      using D1(5) True by force
    then show ?thesis using D2(1,2) err by (intro afterI) (auto simp: status_def)
  qed
  then show ?case using one(1) two(1) by simp
qed

lemma init_spec:
  assumes "heap_ok h" "0 \<le> sz" "sz \<le> JS_STRING_LEN_MAX"
  obtains e h' s' where "string_buffer_init h sz = Some (e, h', s')" "heap_ok h'" "sb_ok s'" "granting h \<longrightarrow> granting h' \<and> \<not> sb_error s'"
    "e = status s'" "sb_units s' = []" "\<not> sb_wide s'" "sb_len s' = 0"
proof -
  note bytes = string_bytes_eq [OF assms(2,3), of False]
  obtain b h' where m: "js_def_malloc 1 h (string_bytes False sz) = Some (b, h')" "heap_ok h'" "granting h \<longrightarrow> granting h' \<and> b \<noteq> None"
      "\<forall>x. b = Some x \<longrightarrow> length (cells x) = string_bytes False sz"
    by (rule js_malloc_spec [OF assms(1) bytes(2,3)])
  show thesis
  proof (cases b)
    case None
    let ?s = "\<lparr>sb_str = None, sb_len = 0, sb_size = 0, sb_wide = False, sb_error = True\<rparr>"
    have "string_buffer_init h sz = Some (- 1, h', ?s)"
      using m(1) None by (simp add: string_buffer_init_def string_buffer_init2_def js_alloc_string_def)
    then show thesis using m(2,3) None by (intro that [of "- 1" h' ?s]) (simp_all add: sb_ok_def status_def sb_units_def)
  next
    case (Some x)
    let ?s = "\<lparr>sb_str = Some x, sb_len = 0, sb_size = sz, sb_wide = False, sb_error = False\<rparr>"
    have "string_buffer_init h sz = Some (0, h', ?s)"
      using m(1) Some by (simp add: string_buffer_init_def string_buffer_init2_def js_alloc_string_def)
    moreover have "sb_ok ?s" using m(4) Some bytes(1) assms(2,3) by (simp add: sb_ok_def)
    ultimately show thesis using m(2,3) Some by (intro that [of 0 h' ?s]) (simp_all add: status_def sb_units_def units_def)
  qed
qed

lemma empty_string_ok: "string_ok empty_string_atom" "js_units empty_string_atom = []" "\<not> str_wide empty_string_atom"
  by (simp_all add: string_ok_def js_units_def empty_string_atom_def room_def sizeof_JSString_def unit_at_def units_def)

lemma end_error: "sb_error s \<Longrightarrow> string_buffer_end h s = Some (None, h)"
  by (simp add: string_buffer_end_def)

lemma end_spec:
  assumes "heap_ok h" "sb_ok s" "\<not> sb_error s" "int (sb_len s) \<le> JS_STRING_LEN_MAX"
  obtains p h' where "string_buffer_end h s = Some (Some p, h')" "heap_ok h'" "string_ok p" "js_units p = sb_units s"
    "str_wide p \<longleftrightarrow> sb_wide s \<and> sb_units s \<noteq> []" "granting h \<longrightarrow> granting h'"
proof (cases "sb_len s = 0")
  case True
  then have "sb_units s = []" using sb_len_units [OF assms(2)] by simp
  moreover have "string_buffer_end h s = Some (Some empty_string_atom, js_def_free h (sb_str s))"
    using True assms(3) by (simp add: string_buffer_end_def)
  ultimately show thesis using assms(1) empty_string_ok that [of empty_string_atom "js_def_free h (sb_str s)"] by simp
next
  case False
  let ?w = "sb_wide s" and ?n = "sb_len s"
  obtain b where b: "sb_str s = Some b" "int ?n \<le> sb_size s"
      "room ?w (nat (sb_size s)) + (if ?w then 0 else 1) \<le> length (cells b)" "sb_units s = units ?w (cells b) ?n"
    using sb_ok_block [OF assms(2,3)] by metis
  have old: "room ?w ?n + (if ?w then 0 else 1) \<le> length (cells b)"
  proof -
    have "?n \<le> nat (sb_size s)" using b(2) by linarith
    then show ?thesis using room_mono [of ?n "nat (sb_size s)" ?w] b(3) by linarith
  qed
  note bytes = string_bytes_eq [OF of_nat_0_le_iff assms(4), of ?w]
  obtain r h1 where r: "js_realloc_rt 1 h (Some b) (string_bytes ?w (int ?n)) = (r, h1)" "heap_ok h1" "granting h \<longrightarrow> granting h1 \<and> r \<noteq> None"
      "\<forall>x. r = Some x \<longrightarrow> (\<exists>slack g. libc h 0 = Grant slack g \<and> usable x = string_bytes ?w (int ?n) + slack \<and> length (cells x) = string_bytes ?w (int ?n)
        \<and> (\<forall>k. k \<le> string_bytes ?w (int ?n) \<and> k \<le> length (cells b) \<longrightarrow> take k (cells x) = take k (cells b)))"
    by (rule js_realloc_rt_spec [OF assms(1) bytes(2,3), of b])
  define q where "q = (if int ?n < sb_size s then js_realloc_rt 1 h (sb_str s) (string_bytes ?w (int ?n)) else (sb_str s, h))"
  obtain x h' where x: "(case fst q of None \<Rightarrow> sb_str s | Some b \<Rightarrow> Some b) = Some x" "snd q = h'" "heap_ok h' \<and> (granting h \<longrightarrow> granting h')"
      "room ?w ?n + (if ?w then 0 else 1) \<le> length (cells x)" "units ?w (cells x) ?n = sb_units s"
  proof (cases "int ?n < sb_size s \<and> r \<noteq> None")
    case True
    then obtain x where x: "r = Some x" by auto
    have x': "length (cells x) = string_bytes ?w (int ?n)"
        "\<And>k. k \<le> string_bytes ?w (int ?n) \<Longrightarrow> k \<le> length (cells b) \<Longrightarrow> take k (cells x) = take k (cells b)"
      using r(4) x by auto
    have "take (room ?w ?n) (cells x) = take (room ?w ?n) (cells b)" using old bytes(1) by (intro x'(2)) auto
    from units_cong [OF this] show thesis using that [of x h1] True x x'(1) r b bytes(1) by (simp add: q_def)
  next
    case False
    then show thesis using that [of b "snd q"] r b old assms(1) by (cases "int ?n < sb_size s") (auto simp: q_def)
  qed
  obtain m where m: "(if ?w then Some (cells x) else put_unit False (cells x) ?n 0) = Some m" "length m = length (cells x)"
      "units ?w m ?n = sb_units s" "\<not> ?w \<longrightarrow> unit_at False m ?n = 0"
  proof (cases ?w)
    case True
    then show thesis using that [of "cells x"] x(5) by simp
  next
    case narrow: False
    have "room False (Suc ?n) \<le> length (cells x)" using x(4) narrow by (simp add: room_def)
    then obtain m where m: "put_unit False (cells x) ?n 0 = Some m" "unit_at False m ?n = fit False 0" "length m = length (cells x)"
        "take (room False ?n) m = take (room False ?n) (cells x)" by (rule put_unit_spec)
    from units_cong [OF m(4)] show thesis using that [of m] m(1-3) narrow x(5) by (simp add: fit_def)
  qed
  let ?p = "\<lparr>str_mem = Block m (usable x), str_wide = ?w, str_len = ?n\<rparr>"
  have "string_buffer_end h s = Some (Some ?p, h')"
    unfolding string_buffer_end_def if_not_P [OF assms(3)] if_not_P [OF False] q_def [symmetric]
    using x(1,2) m(1) by (cases q) (simp add: Let_def)
  moreover have "string_ok ?p" using x(4) m(2,4) by (simp add: string_ok_def)
  moreover have "sb_units s \<noteq> []" using False sb_len_units [OF assms(2)] by auto
  ultimately show thesis using x(3) m(3) that [of ?p h'] by (simp add: js_units_def)
qed

subsection \<open>From the first call to the last\<close>

definition fresh :: "StringBuffer \<Rightarrow> bool" where
  "fresh s \<longleftrightarrow> sb_ok s \<and> sb_units s = [] \<and> \<not> sb_wide s \<and> sb_len s = 0"

definition is_string :: "u16 list \<Rightarrow> JSString \<Rightarrow> bool" where
  "is_string us p \<longleftrightarrow> string_ok p \<and> js_units p = us \<and> (str_wide p \<longleftrightarrow> wide_units us)"

lemma init_fresh:
  assumes "heap_ok h" "0 \<le> sz" "sz \<le> JS_STRING_LEN_MAX"
  obtains h' s' where "string_buffer_init h sz = Some (status s', h', s')" "heap_ok h'" "fresh s'"
    "granting h \<longrightarrow> granting h' \<and> \<not> sb_error s'"
  using init_spec [OF assms] unfolding fresh_def by metis

lemma end_after:
  assumes "after h s 0 (wide_units us) us e h' s'" "fresh s" "int (length us) \<le> JS_STRING_LEN_MAX"
  shows "\<exists>r h''. string_buffer_end h' s' = Some (r, h'') \<and> heap_ok h''
    \<and> (case r of None \<Rightarrow> sb_error s' \<and> \<not> (granting h \<and> \<not> sb_error s) | Some p \<Rightarrow> is_string us p)"
proof -
  note D = afterD [OF assms(1)]
  show ?thesis
  proof (cases "sb_error s'")
    case True
    then show ?thesis using D(1,5) assms(2,3) end_error [OF True] by (auto simp: fresh_def)
  next
    case False
    have u: "sb_units s' = us" "sb_wide s' \<longleftrightarrow> wide_units us" using D(7) [OF False] assms(2) by (auto simp: fresh_def)
    have "int (sb_len s') \<le> JS_STRING_LEN_MAX" using sb_len_units [OF D(2)] u(1) assms(3) by simp
    then obtain p h'' where p: "string_buffer_end h' s' = Some (Some p, h'')" "heap_ok h''" "string_ok p" "js_units p = sb_units s'"
        "str_wide p \<longleftrightarrow> sb_wide s' \<and> sb_units s' \<noteq> []" "granting h' \<longrightarrow> granting h''"
      by (rule end_spec [OF D(1,2) False])
    have "is_string us p" using p(3-5) u by (auto simp: is_string_def wide_units_def)
    then show ?thesis using p(1,2) by (intro exI [of _ "Some p"] exI [of _ h'']) simp
  qed
qed

lemma run_end:
  assumes "heap_ok h" "fresh s" "list_all op_ok ops" "int (length (ops_units ops)) \<le> JS_STRING_LEN_MAX"
  shows "\<exists>h' s' r h''. sb_run h s ops = Some (h', s') \<and> string_buffer_end h' s' = Some (r, h'') \<and> heap_ok h''
    \<and> (case r of None \<Rightarrow> \<not> (granting h \<and> \<not> sb_error s) | Some p \<Rightarrow> is_string (ops_units ops) p)"
proof -
  have "sb_ok s" using assms(2) by (simp add: fresh_def)
  from sb_run_after [OF assms(1) this assms(3)] obtain h' s' where
    r: "sb_run h s ops = Some (h', s')" "after h s 0 (wide_units (ops_units ops)) (ops_units ops) (status s') h' s'" by blast
  obtain q h'' where q: "string_buffer_end h' s' = Some (q, h'')" "heap_ok h''"
      "case q of None \<Rightarrow> sb_error s' \<and> \<not> (granting h \<and> \<not> sb_error s) | Some p \<Rightarrow> is_string (ops_units ops) p"
    using end_after [OF r(2) assms(2,4)] by blast
  then show ?thesis using r(1) by (intro exI [of _ h'] exI [of _ s'] exI [of _ q] exI [of _ h'']) (simp split: option.splits)
qed

section \<open>Property\<close>

text \<open>
  C4. The contract stated above \<open>string_buffer_init2\<close>: all functions may be called on a string buffer whatever the earlier
  calls returned. For every sequence of operations no access leaves the memory of the buffer; the result is a string
  with exactly the units of the operations, 16 bits wide if and only if one of them needs it and terminated by a null
  byte otherwise; or the exception, which needs a refused allocation.
\<close>

theorem string_buffer_contract:
  assumes "heap_ok h" "0 \<le> sz" "sz \<le> JS_STRING_LEN_MAX" "list_all op_ok ops" "int (length (ops_units ops)) \<le> JS_STRING_LEN_MAX"
  shows "\<exists>e h1 s1 h2 s2 r h3. string_buffer_init h sz = Some (e, h1, s1) \<and> sb_run h1 s1 ops = Some (h2, s2)
    \<and> string_buffer_end h2 s2 = Some (r, h3)
    \<and> (case r of
         None \<Rightarrow> \<not> granting h
       | Some p \<Rightarrow> string_ok p \<and> js_units p = ops_units ops \<and> (str_wide p \<longleftrightarrow> wide_units (ops_units ops)))"
proof -
  obtain h1 s1 where i: "string_buffer_init h sz = Some (status s1, h1, s1)" "heap_ok h1" "fresh s1"
      "granting h \<longrightarrow> granting h1 \<and> \<not> sb_error s1"
    by (rule init_fresh [OF assms(1-3)])
  from run_end [OF i(2,3) assms(4,5)] show ?thesis using i(1,4) by (fastforce simp: is_string_def split: option.splits)
qed

definition roomy :: "u8 JSMallocState" where
  "roomy = \<lparr>malloc_count = 0, malloc_size = 0, malloc_limit = - 1, libc = (\<lambda>_. Grant 7 (\<lambda>_. 0xa5))\<rparr>"

lemma roomy_ok: "heap_ok roomy" "granting roomy"
  by (simp_all add: roomy_def heap_ok_def granting_def slack_le_def)

lemma sample_units:
  "ops_units [Putc8 0x61, Fill 0x62 2, Putc 0x1f600, Write8 [0x63]] = [0x61, 0x62, 0x62, 0xd83d, 0xde00, 0x63]"
  by code_simp

theorem string_buffer_contract_witness:
  "\<exists>e h1 s1 h2 s2 p h3. string_buffer_init roomy 2 = Some (e, h1, s1)
    \<and> sb_run h1 s1 [Putc8 0x61, Fill 0x62 2, Putc 0x1f600, Write8 [0x63]] = Some (h2, s2)
    \<and> string_buffer_end h2 s2 = Some (Some p, h3)
    \<and> js_units p = [0x61, 0x62, 0x62, 0xd83d, 0xde00, 0x63] \<and> str_wide p"
proof -
  let ?ops = "[Putc8 0x61, Fill 0x62 2, Putc 0x1f600, Write8 [0x63]]"
  have ok: "list_all op_ok ?ops" "int (length (ops_units ?ops)) \<le> JS_STRING_LEN_MAX" "(2 :: int) \<le> JS_STRING_LEN_MAX"
    unfolding sample_units by (simp_all add: JS_STRING_LEN_MAX_def)
  obtain e h1 s1 h2 s2 r h3 where run: "string_buffer_init roomy 2 = Some (e, h1, s1)" "sb_run h1 s1 ?ops = Some (h2, s2)"
      "string_buffer_end h2 s2 = Some (r, h3)"
      "case r of None \<Rightarrow> \<not> granting roomy
       | Some p \<Rightarrow> string_ok p \<and> js_units p = ops_units ?ops \<and> (str_wide p \<longleftrightarrow> wide_units (ops_units ?ops))"
    using string_buffer_contract [OF roomy_ok(1) _ ok(3,1,2)] by auto
  then obtain p where "r = Some p" "js_units p = ops_units ?ops" "str_wide p \<longleftrightarrow> wide_units (ops_units ?ops)"
    using roomy_ok(2) by (cases r) auto
  then show ?thesis using run(1-3) unfolding sample_units by simp
qed

end
