(* ===== verification/QJS_CString.thy ===== *)
theory QJS_CString
  imports QJS_String CUtils_UTF8
begin

text \<open>
  Strings and UTF-8 in \<open>quickjs.c\<close>: \<open>js_new_string8\<close>, \<open>JS_NewStringLen\<close>, which decodes a UTF-8 buffer, and
  \<open>JS_ToCStringLen2\<close>, which encodes a string. A C string is the list of its bytes without the terminator. Results are
  as in \<open>QJS_String\<close>: \<open>None\<close> is an access outside a block, \<open>Some (None, h)\<close> the exception.
\<close>

section \<open>Model\<close>

definition js_new_string8 :: "u8 JSMallocState \<Rightarrow> u8 list \<Rightarrow> (JSString option \<times> u8 JSMallocState) option" where
  "js_new_string8 h buf =
     (if buf = [] then Some (Some empty_string_atom, h)
      else case js_alloc_string h (int (length buf)) False of
        None \<Rightarrow> None
      | Some (None, h') \<Rightarrow> Some (None, h')
      | Some (Some str, h') \<Rightarrow>
          (case blit (cells (str_mem str)) sizeof_JSString (buf @ [0]) of
             None \<Rightarrow> None
           | Some m \<Rightarrow> Some (Some (str\<lparr>str_mem := Block m (usable (str_mem str))\<rparr>), h')))"

definition skip_cont :: "u8 list \<Rightarrow> u8 list" where
  "skip_cont p = dropWhile (\<lambda>b. 0x80 \<le> b \<and> b < 0xc0) p"

definition skip_invalid :: "u8 list \<Rightarrow> u8 list" where
  "skip_invalid p = (case skip_cont p of [] \<Rightarrow> [] | b # q \<Rightarrow> skip_cont q)"

lemma skip_cont_le: "length (skip_cont p) \<le> length p"
  by (simp add: skip_cont_def length_dropWhile_le)

lemma skip_invalid_less: "length (skip_invalid (b # p)) < Suc (length p)"
proof -
  have "length (skip_cont (b # p)) \<le> Suc (length p)" using skip_cont_le [of "b # p"] by simp
  then show ?thesis
    using skip_cont_le [of "tl (skip_cont (b # p))"] by (cases "skip_cont (b # p)") (auto simp: skip_invalid_def)
qed

lemma length_utf8_pos: "unat c < 2 ^ 31 \<Longrightarrow> 0 < length (unicode_to_utf8 c)"
  by (erule unicode_to_utf8_cases) (simp_all add: utf8_form_def)

lemma decode_UTF8_pos: "unicode_from_utf8 p n = Some (Some (c, k)) \<Longrightarrow> 0 < k"
  using utf8_decode_sound [of p n c k] length_utf8_pos [of c] by simp

text \<open>The calls that the loop of \<open>JS_NewStringLen\<close> makes on its string buffer, from \<open>p\<close> to \<open>p_end\<close>.\<close>

function newstring_ops :: "u8 list \<Rightarrow> sb_op list option" where
  "newstring_ops [] = Some []"
| "newstring_ops (b # p) =
     (if b < 128 then map_option ((#) (Putc8 (to_u32 b))) (newstring_ops p)
      else case unicode_from_utf8 (b # p) (int (length (b # p))) of
        None \<Rightarrow> None
      | Some None \<Rightarrow> map_option ((#) (Putc16 0xfffd)) (newstring_ops (skip_invalid (b # p)))
      | Some (Some (c, n)) \<Rightarrow>
          if c < 0x10000 then map_option ((#) (Putc16 c)) (newstring_ops (drop n (b # p)))
          else if c \<le> 0x10FFFF then
            map_option (\<lambda>ops. Putc16 (drop_bit 10 (c - 0x10000) + 0xd800) # Putc16 (((c - 0x10000) AND 0x3ff) + 0xdc00) # ops)
              (newstring_ops (drop n (b # p)))
          else map_option ((#) (Putc16 0xfffd)) (newstring_ops (skip_invalid (b # p))))"
  by pat_completeness auto
termination
  by (relation "measure length") (auto dest: decode_UTF8_pos intro: skip_invalid_less)

definition JS_NewStringLen :: "u8 JSMallocState \<Rightarrow> u8 list \<Rightarrow> (JSString option \<times> u8 JSMallocState) option" where
  "JS_NewStringLen h buf =
     (let pre = takeWhile (\<lambda>b. b < 128) buf; rest = dropWhile (\<lambda>b. b < 128) buf in
      if int (length pre) > JS_STRING_LEN_MAX then Some (None, h)
      else if rest = [] then js_new_string8 h buf
      else case string_buffer_init h (s32 (int (length buf))) of
        None \<Rightarrow> None
      | Some (e, h', s) \<Rightarrow>
          if e \<noteq> 0 then Some (None, fst (string_buffer_free h' s))
          else do {
            ops \<leftarrow> newstring_ops rest;
            (h'', s') \<leftarrow> sb_run h' s (Write8 pre # ops);
            string_buffer_end h'' s'
          })"

text \<open>One 16 bit unit or code point, as the branch for ASCII and \<open>unicode_to_utf8\<close> write it.\<close>

definition put_char :: "u32 \<Rightarrow> u8 list" where
  "put_char c = (if c < 0x80 then [to_u8 c] else unicode_to_utf8 c)"

fun utf8_units :: "bool \<Rightarrow> u16 list \<Rightarrow> u8 list" where
  "utf8_units cesu8 [] = []"
| "utf8_units cesu8 [u] = put_char (to_u32 u)"
| "utf8_units cesu8 (u # u1 # us) =
     (let c = to_u32 u; c1 = to_u32 u1 in
      if is_hi c \<and> \<not> cesu8 \<and> is_lo c1 then unicode_to_utf8 (pair_char c c1) @ utf8_units cesu8 us
      else put_char c @ utf8_units cesu8 (u1 # us))"

definition latin1_utf8 :: "u8 \<Rightarrow> u8 list" where
  "latin1_utf8 c = (if c < 0x80 then [c] else [drop_bit 6 c OR 0xc0, (c AND 0x3f) OR 0x80])"

text \<open>The new string of at most \<open>max_len\<close> bytes that receives the bytes \<open>bs\<close> and the terminator.\<close>

definition store_cstring :: "u8 JSMallocState \<Rightarrow> int \<Rightarrow> u8 list \<Rightarrow> (u8 list option \<times> u8 JSMallocState) option" where
  "store_cstring h max_len bs =
     (case js_alloc_string h max_len False of
        None \<Rightarrow> None
      | Some (None, h') \<Rightarrow> Some (None, h')
      | Some (Some str, h') \<Rightarrow>
          (case blit (cells (str_mem str)) sizeof_JSString (bs @ [0]) of
             None \<Rightarrow> None
           | Some m \<Rightarrow> Some (Some bs, h')))"

definition JS_ToCStringLen2 ::
  "u8 JSMallocState \<Rightarrow> JSString \<Rightarrow> bool \<Rightarrow> (u8 list option \<times> u8 JSMallocState) option" where
  "JS_ToCStringLen2 h p cesu8 =
     (case string_slice p 0 (str_len p) of
        None \<Rightarrow> None
      | Some us \<Rightarrow>
          if \<not> str_wide p then
            let src = map to_u8 us; n = sum_list (map (\<lambda>c. unat (drop_bit 7 c)) src) in
            if n = 0 then Some (Some src, h)
            else store_cstring h (int (str_len p + n)) (concat (map latin1_utf8 src))
          else store_cstring h (s32 (int (str_len p) * 3)) (utf8_units cesu8 us))"

section \<open>Code points\<close>

text \<open>The code points of a string, with surrogate pairs joined unless \<open>cesu8\<close>.\<close>

fun code_points :: "bool \<Rightarrow> u16 list \<Rightarrow> u32 list" where
  "code_points cesu8 [] = []"
| "code_points cesu8 [u] = [to_u32 u]"
| "code_points cesu8 (u # u1 # us) =
     (if is_hi (to_u32 u) \<and> \<not> cesu8 \<and> is_lo (to_u32 u1) then pair_char (to_u32 u) (to_u32 u1) # code_points cesu8 us
      else to_u32 u # code_points cesu8 (u1 # us))"

lemma put_char_eq: "put_char c = unicode_to_utf8 c"
  by (simp add: put_char_def unicode_to_utf8_def)

lemma utf8_units_eq: "utf8_units z us = concat (map unicode_to_utf8 (code_points z us))"
  by (induction z us rule: utf8_units.induct) (simp_all add: put_char_eq Let_def)

lemma unat_u16_lt: "unat (u :: u16) < 65536"
  using unsigned_less [of u, where 'a = nat] by simp

lemma unat_to_u32 [simp]: "unat (to_u32 (u :: u16)) = unat u"
  using unat_u16_lt [of u] by (simp add: unat_ucast)

lemma unat_pair_char:
  assumes "is_hi c" "is_lo c1"
  shows "unat (pair_char c c1) = 1024 * (unat c - 0xd800) + (unat c1 - 0xdc00) + 0x10000"
proof -
  have b: "0xd800 \<le> unat c" "unat c < 0xdc00" "0xdc00 \<le> unat c1" "unat c1 < 0xe000"
    using assms by (simp_all add: is_hi_def is_lo_def word_le_nat_alt word_less_nat_alt)
  have m: "unat c mod 1024 = unat c - 0xd800" "unat c1 mod 1024 = unat c1 - 0xdc00"
    using b mod_offset [of 1024 "0xd800" "unat c - 0xd800"] mod_offset [of 1024 "0xdc00" "unat c1 - 0xdc00"] by simp_all
  let ?a = "take_bit 10 c1" and ?b = "push_bit 10 (take_bit 10 c)"
  have a: "unat ?a = unat c1 - 0xdc00" "unat ?b = 1024 * (unat c - 0xd800)" using b m by (simp_all add: unat_simps)
  have "take_bit 10 ?b = 0" by (rule bit_word_eqI) (auto simp: bit_simps)
  then have "?b OR ?a = ?a + ?b" using unat_or_disjoint [of ?a 10 ?b] a b by (simp add: or.commute)
  then have "pair_char c c1 = ?a + ?b + 0x10000" by (simp add: pair_char_def low10)
  then show ?thesis using a b by (simp add: unat_word_ariths)
qed

lemma utf16_pair:
  assumes "is_hi (to_u32 u)" "is_lo (to_u32 u1)"
  shows "utf16 (pair_char (to_u32 u) (to_u32 u1)) = [u, u1]"
proof -
  let ?c = "pair_char (to_u32 u) (to_u32 u1)"
  have b: "0xd800 \<le> unat u" "unat u < 0xdc00" "0xdc00 \<le> unat u1" "unat u1 < 0xe000"
    using assms by (simp_all add: is_hi_def is_lo_def word_le_nat_alt word_less_nat_alt)
  note c = unat_pair_char [OF assms, unfolded unat_to_u32]
  have r: "0x10000 \<le> ?c" "?c \<le> 0x10ffff" using c b by (simp_all add: word_le_nat_alt)
  note su = surrogates [OF r]
  have d: "unat ?c - 0x10000 = 1024 * (unat u - 0xd800) + (unat u1 - 0xdc00)" using c by simp
  have split: "(1024 * x + y) div 1024 = x \<and> (1024 * x + y) mod 1024 = y" if "y < 1024" for x y :: nat using that by simp
  have q: "(unat ?c - 0x10000) div 1024 = unat u - 0xd800" "(unat ?c - 0x10000) mod 1024 = unat u1 - 0xdc00"
    unfolding d using split [of "unat u1 - 0xdc00" "unat u - 0xd800"] b by simp_all
  have "(ucast (drop_bit 10 (?c - 0x10000) + 0xd800 :: u32) :: u16) = u" "(ucast (((?c - 0x10000) AND 0x3ff) + 0xdc00 :: u32) :: u16) = u1"
    using su q b by (simp_all add: word_unat_eq_iff unat_ucast)
  moreover have "\<not> ?c < 0x10000" using r(1) by (simp only: not_less)
  ultimately show ?thesis by (simp add: utf16_def)
qed

lemma utf16_unit: "utf16 (to_u32 (u :: u16)) = [u]"
  using unat_u16_lt [of u] by (simp add: utf16_def word_less_nat_alt word_unat_eq_iff unat_ucast)

lemma utf16_code_points: "concat (map utf16 (code_points z us)) = us"
  by (induction z us rule: code_points.induct) (simp_all add: utf16_unit utf16_pair)

lemma code_points_range: "c \<in> set (code_points z us) \<Longrightarrow> c \<le> 0x10ffff"
proof (induction z us rule: code_points.induct)
  case (2 z u)
  then show ?case using unat_u16_lt [of u] by (simp add: word_le_nat_alt)
next
  case (3 z u u1 us)
  show ?case
  proof (cases "is_hi (to_u32 u) \<and> \<not> z \<and> is_lo (to_u32 u1)")
    case True
    then have "unat u < 0xdc00" "unat u1 < 0xe000" by (simp_all add: is_hi_def is_lo_def word_less_nat_alt)
    then have "unat (pair_char (to_u32 u) (to_u32 u1)) \<le> 0x10ffff"
      unfolding unat_pair_char [OF conjunct1 [OF True] conjunct2 [OF conjunct2 [OF True]]] by (simp del: diff_diff_left)
    then show ?thesis using 3 True by (auto simp: word_le_nat_alt)
  next
    case False
    then show ?thesis using 3 unat_u16_lt [of u] by (auto simp: word_le_nat_alt)
  qed
qed simp

section \<open>Decoding what was encoded\<close>

lemma utf8_cons:
  assumes "c \<le> 0x10ffff"
  obtains b q where "unicode_to_utf8 c = b # q" "c < 0x80 \<Longrightarrow> q = [] \<and> to_u32 b = c" "b < 128 \<longleftrightarrow> c < 0x80"
    "\<And>rest. unicode_from_utf8 (b # q @ rest) (int (length (b # q @ rest))) = Some (Some (c, Suc (length q)))"
proof -
  have c: "unat c < 2 ^ 31" using assms by (simp add: word_le_nat_alt)
  obtain b q where bq: "unicode_to_utf8 c = b # q" using length_utf8_pos [OF c] by (cases "unicode_to_utf8 c") auto
  have dec: "unicode_from_utf8 (b # q @ rest) n = Some (Some (c, Suc (length q)))" if "int (Suc (length q)) \<le> n" for rest n
    using utf8_roundtrip_31 [OF c, of n rest] that bq by simp
  have small: "q = [] \<and> to_u32 b = c" if "c < 0x80"
  proof -
    have "unat c < 128" using that by (simp add: word_less_nat_alt)
    then show ?thesis using bq that by (auto simp: unicode_to_utf8_def word_unat_eq_iff unat_ucast)
  qed
  have "b < 128 \<longleftrightarrow> c < 0x80"
  proof
    assume "b < 128"
    then have "unicode_from_utf8 (b # q @ []) 6 = Some (Some (to_u32 b, 1))" by (simp add: unicode_from_utf8_def rd_def)
    moreover have "int (Suc (length q)) \<le> 6" using c bq by (cases rule: unicode_to_utf8_cases) (auto simp: utf8_form_def)
    ultimately have "c = to_u32 b" using dec [of 6 "[]"] by simp
    then show "c < 0x80" using \<open>b < 128\<close> by (simp add: word_less_nat_alt unat_ucast)
  next
    assume "c < 0x80"
    then show "b < 128" using small unat_u8_lt [of b] by (auto simp: word_less_nat_alt unat_ucast)
  qed
  then show thesis using bq small dec by (intro that [of b q]) auto
qed

lemma newstring_encoded:
  "\<forall>c\<in>set cs. c \<le> 0x10ffff \<Longrightarrow>
   \<exists>ops. newstring_ops (concat (map unicode_to_utf8 cs)) = Some ops \<and> ops_units ops = concat (map utf16 cs) \<and> list_all op_ok ops"
proof (induction cs)
  case (Cons c cs)
  then obtain ops where ops: "newstring_ops (concat (map unicode_to_utf8 cs)) = Some ops" "ops_units ops = concat (map utf16 cs)"
      "list_all op_ok ops" by auto
  have c: "c \<le> 0x10ffff" using Cons.prems by simp
  let ?rest = "concat (map unicode_to_utf8 cs)"
  obtain b q where bq: "unicode_to_utf8 c = b # q" "c < 0x80 \<Longrightarrow> q = [] \<and> to_u32 b = c" "b < 128 \<longleftrightarrow> c < 0x80"
      "unicode_from_utf8 (b # q @ ?rest) (int (length (b # q @ ?rest))) = Some (Some (c, Suc (length q)))"
    using utf8_cons [OF c] by metis
  show ?case
  proof (cases "c < 0x80")
    case True
    then have "unat b < 128" using bq(3) by (simp add: word_less_nat_alt)
    moreover have "utf16 c = [ucast c]" using True by (simp add: utf16_def word_less_nat_alt)
    ultimately show ?thesis using bq(1) bq(2) [OF True] bq(3) ops True
      by (auto simp: word_le_nat_alt unat_ucast)
  next
    case big: False
    have step: "newstring_ops (concat (map unicode_to_utf8 (c # cs))) =
        (if c < 0x10000 then Some (Putc16 c # ops)
         else Some (Putc16 (drop_bit 10 (c - 0x10000) + 0xd800) # Putc16 (((c - 0x10000) AND 0x3ff) + 0xdc00) # ops))"
      using bq big ops(1) c by (simp add: newstring_ops.simps(2))
    show ?thesis
    proof (cases "c < 0x10000")
      case True
      then have "utf16 c = [ucast c]" "c \<le> 0xffff" by (simp_all add: utf16_def word_less_nat_alt word_le_nat_alt)
      then show ?thesis using step ops(2,3) True by auto
    next
      case False
      then have lo: "0x10000 \<le> c" by (simp only: not_less)
      have "drop_bit 10 (c - 0x10000) + 0xd800 \<le> (0xffff :: u32)" using surrogates(1,3) [OF lo c] by (simp add: word_le_nat_alt)
      moreover have "((c - 0x10000) AND 0x3ff) + 0xdc00 \<le> (0xffff :: u32)"
        using surrogates(2) [OF lo c] mod_less_divisor [of 1024 "unat c - 0x10000"] by (simp add: word_le_nat_alt del: mod_less_divisor)
      moreover have "utf16 c = [ucast (drop_bit 10 (c - 0x10000) + 0xd800), ucast (((c - 0x10000) AND 0x3ff) + 0xdc00)]"
        using False by (simp add: utf16_def)
      ultimately show ?thesis using step ops(2,3) False by auto
    qed
  qed
qed simp

lemma newstring_ascii:
  "\<forall>b\<in>set pre. b < 128 \<Longrightarrow> newstring_ops (pre @ rest) = map_option ((@) (map (\<lambda>b. Putc8 (to_u32 b)) pre)) (newstring_ops rest)"
proof (induction pre)
  case Nil
  then show ?case by (cases "newstring_ops rest") simp_all
next
  case (Cons b pre)
  then show ?case by (cases "newstring_ops rest") simp_all
qed

lemma ascii_units: "ops_units (map (\<lambda>b. Putc8 (to_u32 b)) pre) = map ucast (pre :: u8 list)"
proof (induction pre)
  case (Cons b pre)
  have "(ucast (to_u32 b) :: u16) = ucast b" using unat_u8_lt [of b] by (simp add: word_unat_eq_iff unat_ucast)
  then show ?case using Cons by simp
qed simp

lemma utf8_long: "c < 0x80000000 \<Longrightarrow> length (utf16 c) \<le> length (unicode_to_utf8 c)"
  by (simp add: utf16_def unicode_to_utf8_def word_less_nat_alt)

lemma newstring_total:
  "\<exists>ops. newstring_ops p = Some ops \<and> list_all op_ok ops \<and> length (ops_units ops) \<le> length p"
proof (induction p rule: newstring_ops.induct)
  case (2 b p)
  show ?case
  proof (cases "b < 128")
    case True
    then have "to_u32 b \<le> 0xff" by (simp add: word_le_nat_alt word_less_nat_alt unat_ucast)
    then show ?thesis using 2(1) [OF True] True by auto
  next
    case False
    have "unicode_from_utf8 (b # p) (int (length (b # p))) \<noteq> None" by (rule unicode_from_utf8_in_bounds) simp_all
    then obtain d where d: "unicode_from_utf8 (b # p) (int (length (b # p))) = Some d" by blast
    have bad: ?thesis if "newstring_ops (b # p) = map_option ((#) (Putc16 0xfffd)) (newstring_ops (skip_invalid (b # p)))"
      "\<exists>ops. newstring_ops (skip_invalid (b # p)) = Some ops \<and> list_all op_ok ops \<and> length (ops_units ops) \<le> length (skip_invalid (b # p))"
      using that skip_invalid_less [of b p] by auto
    show ?thesis
    proof (cases d)
      case None
      then show ?thesis using 2(2) [OF False d None] d False by (intro bad) simp_all
    next
      case (Some cn)
      obtain c n where cn: "cn = (c, n)" by (cases cn)
      have n: "take n (b # p) = unicode_to_utf8 c" "n = length (unicode_to_utf8 c)" "unat c < 2 ^ 31"
        using utf8_decode_sound [of "b # p" _ c n] d Some cn by auto
      have "length (unicode_to_utf8 c) \<le> length (b # p)" using n(1,2) by (metis length_take min.cobounded1 min_def)
      moreover have "length (utf16 c) \<le> n" using utf8_long [of c] n(2,3) by (simp add: word_less_nat_alt)
      ultimately have fit: "length (utf16 c) + length (drop n (b # p)) \<le> length (b # p)" using n(2) by simp
      have c: "c < 0x10000 \<Longrightarrow> utf16 c = [ucast c] \<and> c \<le> 0xffff"
        by (simp add: utf16_def word_le_nat_alt word_less_nat_alt)
      consider "c < 0x10000" | "\<not> c < 0x10000" "c \<le> 0x10FFFF" | "\<not> c < 0x10000" "\<not> c \<le> 0x10FFFF" by blast
      then show ?thesis
      proof cases
        case 1
        then show ?thesis using 2(3) [OF False d Some cn [symmetric] 1] c [OF 1] d Some cn False fit by auto
      next
        case c2: 2
        then have lo: "0x10000 \<le> c" by (simp only: not_less)
        have "drop_bit 10 (c - 0x10000) + 0xd800 \<le> (0xffff :: u32)"
          using surrogates(1,3) [OF lo c2(2)] by (simp add: word_le_nat_alt)
        moreover have "((c - 0x10000) AND 0x3ff) + 0xdc00 \<le> (0xffff :: u32)"
          using surrogates(2) [OF lo c2(2)] mod_less_divisor [of 1024 "unat c - 0x10000"] by (simp add: word_le_nat_alt del: mod_less_divisor)
        moreover have "length (utf16 c) = 2" using c2(1) by (simp add: utf16_def)
        ultimately show ?thesis using 2(4) [OF False d Some cn [symmetric] c2] d Some cn c2 False fit by auto
      next
        case 3
        then show ?thesis using 2(5) [OF False d Some cn [symmetric] 3] d Some cn False by (intro bad) simp_all
      qed
    qed
  qed
qed simp

section \<open>Correctness\<close>

lemma alloc_string_spec:
  assumes "heap_ok h" "0 \<le> n" "n \<le> JS_STRING_LEN_MAX"
  obtains r h' where "js_alloc_string h n w = Some (r, h')" "heap_ok h'" "granting h \<longrightarrow> granting h' \<and> r \<noteq> None"
    "\<And>p. r = Some p \<Longrightarrow> str_wide p = w \<and> str_len p = nat n \<and> length (cells (str_mem p)) = room w (nat n) + (if w then 0 else 1)"
proof -
  note bytes = string_bytes_eq [OF assms(2,3), of w]
  obtain b h' where m: "js_def_malloc 1 h (string_bytes w n) = Some (b, h')" "heap_ok h'" "granting h \<longrightarrow> granting h' \<and> b \<noteq> None"
      "\<forall>x. b = Some x \<longrightarrow> length (cells x) = string_bytes w n"
    by (rule js_malloc_spec [OF assms(1) bytes(2,3)])
  then show thesis using bytes(1)
    by (intro that [of "map_option (\<lambda>x. \<lparr>str_mem = x, str_wide = w, str_len = nat n\<rparr>) b" h'])
      (auto simp: js_alloc_string_def split: option.splits)
qed

lemma blit_units:
  assumes "length m = sizeof_JSString + length bs + 1"
  obtains m' where "blit m sizeof_JSString (bs @ [0]) = Some m'" "length m' = length m" "units False m' (length bs) = map ucast bs"
    "unit_at False m' (length bs) = 0"
proof -
  let ?m = "take sizeof_JSString m @ bs @ [0]"
  have "blit m sizeof_JSString (bs @ [0]) = Some ?m" using assms by (simp add: blit_def)
  moreover have "units False ?m (length bs) = map ucast bs"
    using assms by (intro nth_equalityI) (simp_all add: units_def unit_at_def nth_append)
  ultimately show thesis using assms by (intro that [of ?m]) (simp_all add: unit_at_def nth_append)
qed

lemma new_string8_spec:
  assumes "heap_ok h" "int (length buf) \<le> JS_STRING_LEN_MAX"
  shows "\<exists>r h'. js_new_string8 h buf = Some (r, h') \<and> heap_ok h'
    \<and> (case r of None \<Rightarrow> \<not> granting h | Some p \<Rightarrow> is_string (map ucast buf) p)"
proof (cases "buf = []")
  case True
  then show ?thesis using assms(1) empty_string_ok by (auto simp: js_new_string8_def is_string_def)
next
  case False
  obtain r h' where r: "js_alloc_string h (int (length buf)) False = Some (r, h')" "heap_ok h'" "granting h \<longrightarrow> granting h' \<and> r \<noteq> None"
      "\<And>p. r = Some p \<Longrightarrow> \<not> str_wide p \<and> str_len p = length buf \<and> length (cells (str_mem p)) = room False (length buf) + 1"
    using alloc_string_spec [OF assms(1) of_nat_0_le_iff assms(2), of False] by auto
  show ?thesis
  proof (cases r)
    case None
    then show ?thesis using r(1-3) False by (auto simp: js_new_string8_def)
  next
    case (Some p)
    note p = r(4) [OF Some]
    have "length (cells (str_mem p)) = sizeof_JSString + length buf + 1" using p by (simp add: room_def)
    then obtain m where m: "blit (cells (str_mem p)) sizeof_JSString (buf @ [0]) = Some m" "length m = length (cells (str_mem p))"
        "units False m (length buf) = map ucast buf" "unit_at False m (length buf) = 0"
      by (rule blit_units)
    have "\<not> wide_units (map ucast buf)" using byte_narrow by (auto simp: wide_units_def not_le)
    then have "is_string (map ucast buf) (p\<lparr>str_mem := Block m (usable (str_mem p))\<rparr>)"
      using m p by (simp add: is_string_def string_ok_def js_units_def)
    then show ?thesis using r(1,2) Some m(1) False by (simp add: js_new_string8_def)
  qed
qed

lemma s32_length: "int n \<le> JS_STRING_LEN_MAX \<Longrightarrow> s32 (int n) = int n"
  by (simp add: s32_id JS_STRING_LEN_MAX_def)

lemma ascii_prefix:
  assumes "newstring_ops buf = Some all" "newstring_ops (dropWhile (\<lambda>b. b < 128) buf) = Some ops"
  shows "ops_units (Write8 (takeWhile (\<lambda>b. b < 128) buf) # ops) = ops_units all"
proof -
  let ?pre = "takeWhile (\<lambda>b. b < 128) buf" and ?rest = "dropWhile (\<lambda>b. b < 128) buf"
  have "\<forall>b\<in>set ?pre. b < 128" by (auto dest: set_takeWhileD)
  from newstring_ascii [OF this, of ?rest] have "all = map (\<lambda>b. Putc8 (to_u32 b)) ?pre @ ops" using assms by simp
  then show ?thesis using ascii_units [of ?pre] by simp
qed

lemma new_string_len_spec:
  assumes "heap_ok h" "int (length buf) \<le> JS_STRING_LEN_MAX"
  shows "\<exists>ops r h'. newstring_ops buf = Some ops \<and> JS_NewStringLen h buf = Some (r, h') \<and> heap_ok h'
    \<and> (case r of None \<Rightarrow> \<not> granting h | Some p \<Rightarrow> is_string (ops_units ops) p)"
proof -
  let ?pre = "takeWhile (\<lambda>b. b < 128) buf" and ?rest = "dropWhile (\<lambda>b. b < 128) buf"
  obtain all where all: "newstring_ops buf = Some all" "length (ops_units all) \<le> length buf" using newstring_total by blast
  obtain ops where ops: "newstring_ops ?rest = Some ops" "list_all op_ok ops" using newstring_total by blast
  note units = ascii_prefix [OF all(1) ops(1)]
  have "length ?pre \<le> length buf" by (rule length_takeWhile_le)
  then have pre: "\<not> int (length ?pre) > JS_STRING_LEN_MAX" using assms(2) by linarith
  show ?thesis
  proof (cases "?rest = []")
    case True
    then have p: "?pre = buf" using takeWhile_dropWhile_id [of "\<lambda>b. b < 128" buf] by simp
    have o: "ops = []" using ops(1) unfolding True by simp
    have "ops_units all = map ucast buf" using units unfolding p o by simp
    moreover have "JS_NewStringLen h buf = js_new_string8 h buf" using pre True by (simp add: JS_NewStringLen_def Let_def)
    ultimately show ?thesis using new_string8_spec [OF assms] all(1) by metis
  next
    case False
    obtain h1 s1 where i: "string_buffer_init h (int (length buf)) = Some (status s1, h1, s1)" "heap_ok h1" "fresh s1"
        "granting h \<longrightarrow> granting h1 \<and> \<not> sb_error s1"
      by (rule init_fresh [OF assms(1) of_nat_0_le_iff assms(2)])
    note eq = JS_NewStringLen_def [of h buf, unfolded Let_def if_not_P [OF pre] if_not_P [OF False] s32_length [OF assms(2)] i(1)]
    show ?thesis
    proof (cases "sb_error s1")
      case True
      then have "JS_NewStringLen h buf = Some (None, js_def_free h1 (sb_str s1))"
        unfolding eq by (simp add: status_def string_buffer_free_def)
      then show ?thesis using all(1) i(2,4) True by simp
    next
      case ok: False
      have "list_all op_ok (Write8 ?pre # ops)" "int (length (ops_units (Write8 ?pre # ops))) \<le> JS_STRING_LEN_MAX"
        using ops(2) units all(2) assms(2) by simp_all
      from run_end [OF i(2,3) this] obtain h2 s2 r h3 where e: "sb_run h1 s1 (Write8 ?pre # ops) = Some (h2, s2)"
          "string_buffer_end h2 s2 = Some (r, h3)" "heap_ok h3"
          "case r of None \<Rightarrow> \<not> (granting h1 \<and> \<not> sb_error s1) | Some p \<Rightarrow> is_string (ops_units (Write8 ?pre # ops)) p"
        by blast
      have "JS_NewStringLen h buf = Some (r, h3)" unfolding eq using ok ops(1) e(1,2) by (simp add: status_def)
      then show ?thesis using all(1) e(3,4) units i(4) by (auto split: option.splits)
    qed
  qed
qed

lemma store_cstring_spec:
  assumes "heap_ok h" "int (length bs) \<le> n" "n \<le> JS_STRING_LEN_MAX"
  obtains r h' where "store_cstring h n bs = Some (r, h')" "heap_ok h'" "granting h \<longrightarrow> granting h' \<and> r \<noteq> None" "r = None \<or> r = Some bs"
proof -
  have "0 \<le> n" using assms(2) by linarith
  then obtain r h' where r: "js_alloc_string h n False = Some (r, h')" "heap_ok h'" "granting h \<longrightarrow> granting h' \<and> r \<noteq> None"
      "\<And>p. r = Some p \<Longrightarrow> length (cells (str_mem p)) = room False (nat n) + 1"
    using alloc_string_spec [OF assms(1) \<open>0 \<le> n\<close> assms(3), of False] by (metis (no_types, lifting))
  show thesis
  proof (cases r)
    case None
    then show thesis using r(1-3) that [of None h'] by (simp add: store_cstring_def)
  next
    case (Some p)
    have "sizeof_JSString + length (bs @ [0]) \<le> length (cells (str_mem p))" using r(4) [OF Some] assms(2) by (simp add: room_def)
    then obtain m where "blit (cells (str_mem p)) sizeof_JSString (bs @ [0]) = Some m" using blit_Some by blast
    then show thesis using r(1-3) Some that [of "Some bs" h'] by (simp add: store_cstring_def)
  qed
qed

lemma latin1_utf8_eq: "latin1_utf8 b = unicode_to_utf8 (to_u32 b)"
proof -
  have u: "unat (to_u32 b) = unat b" using unat_u8_lt [of b] by (simp add: unat_ucast)
  have "to_u8 (drop_bit 6 (to_u32 b) OR 0xc0) = drop_bit 6 b OR 0xc0"
  proof (rule bit_word_eqI)
    fix n
    assume n: "n < LENGTH(8)"
    have "bit (0xc0 :: u32) n = bit (0xc0 :: u8) n" using n by (cases n; simp add: numeral_eq_Suc less_Suc_eq)
    then show "bit (to_u8 (drop_bit 6 (to_u32 b) OR 0xc0)) n = bit (drop_bit 6 b OR 0xc0) n"
      using n by (auto simp: bit_simps)
  qed
  moreover have "cont_byte 0 (to_u32 b) = (b AND 0x3f) OR 0x80"
    unfolding cont_byte_bits by (rule bit_word_eqI) (auto simp: bit_simps mask_simps)
  moreover have "to_u8 (to_u32 b) = b" by (rule bit_word_eqI) (auto simp: bit_simps)
  moreover have "b < 0x80 \<longleftrightarrow> to_u32 b < 0x80" "to_u32 b < 0x800" using u unat_u8_lt [of b] by (simp_all add: word_less_nat_alt)
  ultimately show ?thesis by (simp add: latin1_utf8_def unicode_to_utf8_def)
qed

lemma length_latin1: "length (latin1_utf8 b) = Suc (unat (drop_bit 7 b))"
proof -
  have "unat b div 128 = (if unat b < 128 then 0 else 1)" using unat_u8_lt [of b] by (cases "unat b < 128") auto
  then show ?thesis by (simp add: latin1_utf8_def unat_drop_bit word_less_nat_alt)
qed

lemma latin1_ascii: "unat (drop_bit 7 b) = 0 \<Longrightarrow> latin1_utf8 b = [b]"
  using length_latin1 [of b] by (auto simp: latin1_utf8_def split: if_splits)

lemma code_points_narrow: "\<forall>u\<in>set us. u < 0x100 \<Longrightarrow> code_points z us = map to_u32 us"
  by (induction z us rule: code_points.induct) (auto simp: is_hi_def word_le_nat_alt word_less_nat_alt)

lemma length_utf8_units: "length (utf8_units z us) \<le> 3 * length us"
proof (induction z us rule: utf8_units.induct)
  have put: "length (put_char (to_u32 u)) \<le> 3" for u :: u16
    using unat_u16_lt [of u] by (simp add: put_char_def unicode_to_utf8_def word_less_nat_alt)
  { case (2 z u) show ?case using put by simp }
  case (3 z u u1 us)
  show ?case
  proof (cases "is_hi (to_u32 u) \<and> \<not> z \<and> is_lo (to_u32 u1)")
    case True
    have "pair_char (to_u32 u) (to_u32 u1) \<le> 0x10ffff"
      using True code_points_range [of "pair_char (to_u32 u) (to_u32 u1)" z "u # u1 # us"] by simp
    then have "length (unicode_to_utf8 (pair_char (to_u32 u) (to_u32 u1))) \<le> 6"
      by (simp add: unicode_to_utf8_def)
    then show ?thesis using 3(1) [OF refl refl True] True by (simp add: Let_def)
  next
    case False
    then show ?thesis using 3(2) [OF refl refl False] put [of u] by (auto simp: Let_def)
  qed
qed simp

lemma whole_slice: "string_ok p \<Longrightarrow> string_slice p 0 (str_len p) = Some (js_units p)"
  unfolding string_slice_def js_units_def units_def
proof (intro those_map ballI)
  fix i assume "string_ok p" "i \<in> set [0..<str_len p]"
  then show "get_unit (str_wide p) (cells (str_mem p)) i = Some (unit_at (str_wide p) (cells (str_mem p)) i)"
    using room_mono [of "Suc i" "str_len p" "str_wide p"] by (intro get_unit_Some) (auto simp: string_ok_def)
qed

lemma to_cstring_spec:
  assumes "heap_ok h" "string_ok p" "3 * int (str_len p) \<le> JS_STRING_LEN_MAX"
  obtains r h' where "JS_ToCStringLen2 h p z = Some (r, h')" "heap_ok h'" "granting h \<longrightarrow> granting h' \<and> r \<noteq> None"
    "r = None \<or> r = Some (concat (map unicode_to_utf8 (code_points z (js_units p))))"
    "length (concat (map unicode_to_utf8 (code_points z (js_units p)))) \<le> 3 * str_len p"
proof -
  let ?us = "js_units p" and ?bs = "concat (map unicode_to_utf8 (code_points z (js_units p)))"
  have len: "length ?us = str_len p" by (simp add: js_units_def)
  have le: "length ?bs \<le> 3 * str_len p" using length_utf8_units [of z ?us] len by (simp add: utf8_units_eq)
  show thesis
  proof (cases "str_wide p")
    case True
    have "s32 (int (str_len p) * 3) = 3 * int (str_len p)"
      using assms(3) by (subst s32_id) (simp_all add: JS_STRING_LEN_MAX_def)
    then have "JS_ToCStringLen2 h p z = store_cstring h (3 * int (str_len p)) ?bs"
      using True by (simp add: JS_ToCStringLen2_def whole_slice [OF assms(2)] utf8_units_eq)
    then show thesis using store_cstring_spec [OF assms(1) _ assms(3), of ?bs] le that by (auto simp: of_nat_le_iff [symmetric] simp del: of_nat_le_iff)
  next
    case False
    let ?src = "map to_u8 ?us" and ?n = "sum_list (map (\<lambda>c. unat (drop_bit 7 c)) (map to_u8 ?us))"
    have narrow: "\<forall>u\<in>set ?us. u < 0x100" using False unit_at_narrow by (auto simp: js_units_def units_def)
    have "to_u32 u = to_u32 (to_u8 u)" if "u \<in> set ?us" for u
      using narrow that by (simp add: word_unat_eq_iff unat_ucast word_less_nat_alt less_trans [of _ 256])
    then have src: "concat (map latin1_utf8 ?src) = ?bs"
      by (simp add: code_points_narrow [OF narrow] latin1_utf8_eq comp_def cong: map_cong)
    have "length (concat (map latin1_utf8 xs)) = length xs + sum_list (map (\<lambda>c. unat (drop_bit 7 c)) xs)" for xs
      by (induction xs) (simp_all add: length_latin1)
    from this [of ?src] have n: "length ?bs = str_len p + ?n" using src len by simp
    show thesis
    proof (cases "?n = 0")
      case True
      have "concat (map latin1_utf8 xs) = xs" if "\<forall>b\<in>set xs. unat (drop_bit 7 b) = 0" for xs
        using that by (induction xs) (simp_all add: latin1_ascii)
      from this [of ?src] have "?src = ?bs" using True src by simp
      then have "JS_ToCStringLen2 h p z = Some (Some ?bs, h)"
        using False True by (simp add: JS_ToCStringLen2_def whole_slice [OF assms(2)] Let_def)
      then show thesis using that assms(1) le by blast
    next
      case big: False
      have eq: "JS_ToCStringLen2 h p z = store_cstring h (int (str_len p + ?n)) ?bs"
        unfolding JS_ToCStringLen2_def whole_slice [OF assms(2)] option.case if_P [OF False] Let_def if_not_P [OF big] src by (rule refl)
      have "int (length ?bs) \<le> int (str_len p + ?n)" "int (str_len p + ?n) \<le> JS_STRING_LEN_MAX" using n le assms(3) by linarith+
      from store_cstring_spec [OF assms(1) this] show thesis using that eq le by metis
    qed
  qed
qed

section \<open>Property\<close>

text \<open>
  C9. \<open>JS_NewStringLen\<close> undoes \<open>JS_ToCStringLen2\<close>: every string, with unpaired surrogates, with or without \<open>cesu8\<close>, narrow or
  wide, comes back with the same 16 bit units, unless memory is refused; neither function leaves its buffers.
\<close>

theorem cstring_roundtrip:
  assumes "heap_ok h" "string_ok p" "3 * int (str_len p) \<le> JS_STRING_LEN_MAX"
  shows "\<exists>r h'. JS_ToCStringLen2 h p cesu8 = Some (r, h')
    \<and> (case r of
         None \<Rightarrow> \<not> granting h
       | Some bs \<Rightarrow> (\<exists>r2 h2. JS_NewStringLen h' bs = Some (r2, h2)
           \<and> (case r2 of None \<Rightarrow> \<not> granting h | Some q \<Rightarrow> string_ok q \<and> js_units q = js_units p)))"
proof -
  let ?cs = "code_points cesu8 (js_units p)"
  obtain r h' where r: "JS_ToCStringLen2 h p cesu8 = Some (r, h')" "heap_ok h'" "granting h \<longrightarrow> granting h' \<and> r \<noteq> None"
      "r = None \<or> r = Some (concat (map unicode_to_utf8 ?cs))" "length (concat (map unicode_to_utf8 ?cs)) \<le> 3 * str_len p"
    by (rule to_cstring_spec [OF assms])
  obtain ops where ops: "newstring_ops (concat (map unicode_to_utf8 ?cs)) = Some ops" "ops_units ops = js_units p"
    using newstring_encoded [of ?cs] code_points_range utf16_code_points [of cesu8 "js_units p"] by auto
  have "int (length (concat (map unicode_to_utf8 ?cs))) \<le> JS_STRING_LEN_MAX" using r(5) assms(3) by linarith
  from new_string_len_spec [OF r(2) this] obtain r2 h2 where
    "JS_NewStringLen h' (concat (map unicode_to_utf8 ?cs)) = Some (r2, h2)"
    "case r2 of None \<Rightarrow> \<not> granting h' | Some q \<Rightarrow> is_string (js_units p) q" using ops by (metis option.inject)
  then have "\<exists>r2 h2. JS_NewStringLen h' (concat (map unicode_to_utf8 ?cs)) = Some (r2, h2)
      \<and> (case r2 of None \<Rightarrow> \<not> granting h | Some q \<Rightarrow> string_ok q \<and> js_units q = js_units p)"
    using r(3) by (auto simp: is_string_def split: option.splits)
  then show ?thesis using r(1,3,4) by auto
qed

definition sample_string :: JSString where
  "sample_string = \<lparr>str_mem = Block (replicate 16 0 @ [0x41, 0, 0x3d, 0xd8, 0x00, 0xde, 0x00, 0xd8]) 24, str_wide = True, str_len = 4\<rparr>"

lemma sample_string_units: "string_ok sample_string" "js_units sample_string = [0x41, 0xd83d, 0xde00, 0xd800]"
  by code_simp+

theorem cstring_roundtrip_witness:
  "\<exists>r h'. JS_ToCStringLen2 roomy sample_string False = Some (r, h')
    \<and> (case r of
         None \<Rightarrow> \<not> granting roomy
       | Some bs \<Rightarrow> (\<exists>r2 h2. JS_NewStringLen h' bs = Some (r2, h2)
           \<and> (case r2 of None \<Rightarrow> \<not> granting roomy | Some q \<Rightarrow> string_ok q \<and> js_units q = [0x41, 0xd83d, 0xde00, 0xd800])))"
  using cstring_roundtrip [OF roomy_ok(1) sample_string_units(1), of False] unfolding sample_string_units(2)
  by (simp add: sample_string_def JS_STRING_LEN_MAX_def)

end
