(* ===== verification/QJS_Quote.thy ===== *)
theory QJS_Quote
  imports QJS_CString CUtils_String
begin

text \<open>
  String literals: \<open>JS_ToQuotedString\<close> of \<open>quickjs.c\<close>, which \<open>JSON.stringify\<close> and error messages use, the lexer
  \<open>js_parse_string\<close> for literals, templates and JSON, and the escape sequences of \<open>libregexp.c\<close> (\<open>lre_parse_escape\<close>).

  The source text is the memory from the current position to the null byte at \<open>buf_end\<close>; a pointer into it is the list
  of the bytes that follow, and every read is checked.
\<close>

section \<open>Model\<close>

subsection \<open>Quoting\<close>

definition hex_digit :: "u32 \<Rightarrow> u8" where
  "hex_digit d = (if d < 10 then to_u8 d + 48 else to_u8 d + 87)"

text \<open>\<open>snprintf(buf, sizeof(buf), "\\u%04x", c)\<close> for a unit \<open>c\<close> of 16 bits.\<close>

definition escape_u :: "u32 \<Rightarrow> u8 list" where
  "escape_u c = [92, 117, hex_digit (drop_bit 12 c AND 15), hex_digit (drop_bit 8 c AND 15),
     hex_digit (drop_bit 4 c AND 15), hex_digit (c AND 15)]"

definition quote_char :: "u32 \<Rightarrow> sb_op list" where
  "quote_char c =
     (if c = 9 then [Putc8 92, Putc8 116]
      else if c = 13 then [Putc8 92, Putc8 114]
      else if c = 10 then [Putc8 92, Putc8 110]
      else if c = 8 then [Putc8 92, Putc8 98]
      else if c = 12 then [Putc8 92, Putc8 102]
      else if c = 34 \<or> c = 92 then [Putc8 92, Putc8 c]
      else if c < 32 \<or> (0xd800 \<le> c \<and> c < 0xe000) then [Write8 (escape_u c)]
      else [Putc c])"

lemma string_getc_less: "string_getc p i = Some (c, i') \<Longrightarrow> i < i'"
  by (auto simp: string_getc_def Let_def split: option.splits if_splits)

text \<open>The calls of the loop, from index \<open>i\<close>.\<close>

function quote_ops :: "JSString \<Rightarrow> nat \<Rightarrow> sb_op list option" where
  "quote_ops p i =
     (if i < str_len p then
        (case string_getc p i of
           None \<Rightarrow> None
         | Some (c, i') \<Rightarrow> map_option ((@) (quote_char c)) (quote_ops p i'))
      else Some [])"
  by pat_completeness auto
termination
  by (relation "measure (\<lambda>(p, i). str_len p - i)") (auto dest: string_getc_less)

declare quote_ops.simps [simp del]

definition JS_ToQuotedString :: "u8 JSMallocState \<Rightarrow> JSString \<Rightarrow> (JSString option \<times> u8 JSMallocState) option" where
  "JS_ToQuotedString h p =
     (case string_buffer_init h (s32 (int (str_len p) + 2)) of
        None \<Rightarrow> None
      | Some (e, h', b) \<Rightarrow>
          if e \<noteq> 0 then Some (None, fst (string_buffer_free h' b))
          else do {
            ops \<leftarrow> quote_ops p 0;
            (e, h', b) \<leftarrow> sb_try h' b (Putc8 34 # ops @ [Putc8 34]);
            if e \<noteq> 0 then Some (None, fst (string_buffer_free h' b)) else string_buffer_end h' b
          })"

subsection \<open>Escape sequences\<close>

text \<open>
  The return value -1, the return value -2, or the character with the number of bytes by which \<open>*pp\<close> moves.
\<close>

datatype escape = Malformed | Unrecognized | Esc u32 nat

text \<open>\<open>n\<close> hexadecimal digits at \<open>i\<close>; \<open>Some None\<close> when one is missing.\<close>

fun hex_run :: "u8 list \<Rightarrow> nat \<Rightarrow> nat \<Rightarrow> u32 \<Rightarrow> u32 option option" where
  "hex_run p i 0 c = Some (Some c)"
| "hex_run p i (Suc n) c =
     (case rd p i of
        None \<Rightarrow> None
      | Some b \<Rightarrow>
          let h = from_hex (uint b) in
          if h < 0 then Some None else hex_run p (i + 1) n (push_bit 4 c OR word_of_int h))"

function hex_brace :: "u8 list \<Rightarrow> nat \<Rightarrow> u32 \<Rightarrow> escape option" where
  "hex_brace p i c =
     (if i < length p then
        let h = from_hex (uint (p ! i)) in
        if h < 0 then Some Malformed
        else
          let c = push_bit 4 c OR word_of_int h in
          if c > 0x10FFFF then Some Malformed
          else case rd p (i + 1) of
            None \<Rightarrow> None
          | Some b \<Rightarrow> if b = 125 then Some (Esc c (i + 2)) else hex_brace p (i + 1) c
      else None)"
  by pat_completeness auto
termination
  by (relation "measure (\<lambda>(p, i, c). length p - i)") auto

declare hex_brace.simps [simp del]

text \<open>The second half of an escaped surrogate pair, \<open>i\<close> being the position after the first.\<close>

definition escaped_pair :: "u8 list \<Rightarrow> nat \<Rightarrow> u32 \<Rightarrow> escape option" where
  "escaped_pair p i c =
     (case rd p i of
        None \<Rightarrow> None
      | Some a \<Rightarrow>
          if a \<noteq> 92 then Some (Esc c i)
          else case rd p (i + 1) of
            None \<Rightarrow> None
          | Some b \<Rightarrow>
              if b \<noteq> 117 then Some (Esc c i)
              else case hex_run p (i + 2) 4 0 of
                None \<Rightarrow> None
              | Some None \<Rightarrow> Some (Esc c i)
              | Some (Some c1) \<Rightarrow> if is_lo c1 then Some (Esc (pair_char c c1) (i + 6)) else Some (Esc c i))"

definition parse_hex_escape :: "u8 list \<Rightarrow> nat \<Rightarrow> u8 \<Rightarrow> escape option" where
  "parse_hex_escape p allow_utf16 c =
     (case rd p 1 of
        None \<Rightarrow> None
      | Some d \<Rightarrow>
          if d = 123 \<and> allow_utf16 \<noteq> 0 then hex_brace p 2 0
          else
            let n = (if c = 120 then 2 else 4) in
            (case hex_run p 1 n 0 of
               None \<Rightarrow> None
             | Some None \<Rightarrow> Some Malformed
             | Some (Some c) \<Rightarrow>
                 if is_hi c \<and> allow_utf16 = 2 then escaped_pair p (n + 1) c else Some (Esc c (n + 1))))"

text \<open>\<open>*p - '0'\<close> as \<open>uint32_t\<close>.\<close>

definition digit_val :: "u8 \<Rightarrow> u32" where
  "digit_val b = to_u32 b - 48"

definition parse_octal_escape :: "u8 list \<Rightarrow> nat \<Rightarrow> u8 \<Rightarrow> escape option" where
  "parse_octal_escape p allow_utf16 b =
     (let c = digit_val b in
      if allow_utf16 = 2 then
        (if c \<noteq> 0 then Some Malformed
         else case rd p 1 of
           None \<Rightarrow> None
         | Some d \<Rightarrow> if 48 \<le> d \<and> d \<le> 57 then Some Malformed else Some (Esc c 1))
      else case rd p 1 of
        None \<Rightarrow> None
      | Some d \<Rightarrow>
          if digit_val d > 7 then Some (Esc c 1)
          else
            let c = push_bit 3 c OR digit_val d in
            if c \<ge> 32 then Some (Esc c 2)
            else case rd p 2 of
              None \<Rightarrow> None
            | Some d2 \<Rightarrow> if digit_val d2 > 7 then Some (Esc c 2) else Some (Esc (push_bit 3 c OR digit_val d2) 3))"

definition lre_parse_escape :: "u8 list \<Rightarrow> nat \<Rightarrow> escape option" where
  "lre_parse_escape p allow_utf16 =
     (case rd p 0 of
        None \<Rightarrow> None
      | Some c \<Rightarrow>
          if c = 98 then Some (Esc 8 1)
          else if c = 102 then Some (Esc 12 1)
          else if c = 110 then Some (Esc 10 1)
          else if c = 114 then Some (Esc 13 1)
          else if c = 116 then Some (Esc 9 1)
          else if c = 118 then Some (Esc 11 1)
          else if c = 120 \<or> c = 117 then parse_hex_escape p allow_utf16 c
          else if 48 \<le> c \<and> c \<le> 55 then parse_octal_escape p allow_utf16 c
          else Some Unrecognized)"

subsection \<open>The lexer for string literals\<close>

datatype parse_error = Invalid_JSON_char | Unexpected_end | Invalid_octal | Malformed_escape | Invalid_UTF8 | Out_of_memory

text \<open>
  One turn of the loop: an error, the end of the literal with the last character, a line continuation with the number
  of lines it adds, or a character for the buffer; and the position after it.
\<close>

datatype step = Stop parse_error | Close u32 "u8 list" | Skip nat "u8 list" | Emit u32 "u8 list"

definition UTF8_CHAR_LEN_MAX :: int where
  "UTF8_CHAR_LEN_MAX = 6"

definition lex_escape :: "u8 list \<Rightarrow> step option" where
  "lex_escape p =
     (case rd p 0 of
        None \<Rightarrow> None
      | Some c \<Rightarrow>
          (case lre_parse_escape p 1 of
             None \<Rightarrow> None
           | Some Malformed \<Rightarrow> Some (Stop Malformed_escape)
           | Some Unrecognized \<Rightarrow> Some (Emit (to_u32 c) (drop 1 p))
           | Some (Esc c' n) \<Rightarrow> Some (Emit c' (drop n p))))"

definition lex_utf8 :: "u8 list \<Rightarrow> (u32 \<Rightarrow> u8 list \<Rightarrow> step) \<Rightarrow> step option" where
  "lex_utf8 p k =
     (case unicode_from_utf8 p UTF8_CHAR_LEN_MAX of
        None \<Rightarrow> None
      | Some None \<Rightarrow> Some (Stop Invalid_UTF8)
      | Some (Some (c, n)) \<Rightarrow> if c > 0x10FFFF then Some (Stop Invalid_UTF8) else Some (k c (drop n p)))"

text \<open>
  After a backslash. \<open>cur_func\<close> is \<open>None\<close> for JSON, otherwise whether the function is in strict mode; 96 is the
  separator of templates.
\<close>

definition lex_backslash :: "bool option \<Rightarrow> u32 \<Rightarrow> u8 list \<Rightarrow> step option" where
  "lex_backslash cur_func sep p =
     (case rd p 0 of
        None \<Rightarrow> None
      | Some c \<Rightarrow>
          if c = 0 then (if length p \<le> 1 then Some (Stop Unexpected_end) else Some (Emit 0 (drop 1 p)))
          else if c = 39 \<or> c = 34 \<or> c = 92 then Some (Emit (to_u32 c) (drop 1 p))
          else if c = 13 then
            map_option (\<lambda>d. Skip (if sep \<noteq> 96 then 1 else 0) (drop (if d = 10 then 2 else 1) p)) (rd p 1)
          else if c = 10 then Some (Skip (if sep \<noteq> 96 then 1 else 0) (drop 1 p))
          else if 48 \<le> c \<and> c \<le> 55 then
            (case cur_func of
               None \<Rightarrow> Some (Stop Invalid_octal)
             | Some strict \<Rightarrow>
                 if \<not> strict \<and> sep \<noteq> 96 then lex_escape p
                 else if c \<noteq> 48 then Some (Stop Invalid_octal)
                 else map_option (\<lambda>d. if 48 \<le> d \<and> d \<le> 57 then Stop Invalid_octal else Emit 0 (drop 1 p)) (rd p 1))
          else if c \<ge> 0x80 then
            lex_utf8 p (\<lambda>c q. if c = 0x2028 \<or> c = 0x2029 then Skip 0 q else Emit c q)
          else lex_escape p)"

text \<open>The rest of a turn, with the character \<open>c\<close> at \<open>p\<close>.\<close>

definition lex_char :: "bool option \<Rightarrow> u32 \<Rightarrow> u32 \<Rightarrow> u8 list \<Rightarrow> step option" where
  "lex_char cur_func sep c p =
     (if c = sep then Some (Close c (drop 1 p))
      else do {
        brace \<leftarrow> (if c = 36 then map_option (\<lambda>d. d = 123) (rd p 1) else Some False);
        if brace \<and> sep = 96 then Some (Close c (drop 2 p))
        else if c = 92 then lex_backslash cur_func sep (drop 1 p)
        else if c \<ge> 0x80 then lex_utf8 p Emit
        else Some (Emit c (drop 1 p))
      })"

definition lex_step :: "bool option \<Rightarrow> u32 \<Rightarrow> u8 list \<Rightarrow> step option" where
  "lex_step cur_func sep p =
     (if length p \<le> 1 then Some (Stop Unexpected_end)
      else do {
        c \<leftarrow> rd p 0;
        if c < 0x20 \<and> cur_func = None then Some (Stop Invalid_JSON_char)
        else if c < 0x20 \<and> sep \<noteq> 96 \<and> (c = 10 \<or> c = 13) then Some (Stop Unexpected_end)
        else if sep = 96 \<and> c = 13 then do {
          d \<leftarrow> rd p 1;
          lex_char cur_func sep 10 (if d = 10 then drop 1 p else p)
        }
        else lex_char cur_func sep (to_u32 c) p
      })"

lemma hex_brace_pos: "hex_brace p i c = Some (Esc c' n) \<Longrightarrow> 0 < n"
proof (induction p i c rule: hex_brace.induct)
  case (1 p i c)
  then show ?case by (subst (asm) (2) hex_brace.simps) (auto simp: Let_def split: if_splits option.splits)
qed

lemma lre_pos: "lre_parse_escape p u = Some (Esc c n) \<Longrightarrow> 0 < n"
  by (auto simp: lre_parse_escape_def parse_hex_escape_def parse_octal_escape_def escaped_pair_def Let_def
      dest: hex_brace_pos split: if_splits option.splits)

fun step_rest :: "step \<Rightarrow> u8 list option" where
  "step_rest (Stop e) = None"
| "step_rest (Close c q) = Some q"
| "step_rest (Skip k q) = Some q"
| "step_rest (Emit c q) = Some q"

lemma lex_escape_shorter: "lex_escape p = Some st \<Longrightarrow> step_rest st = Some q \<Longrightarrow> length q < length p"
  by (auto simp: lex_escape_def rd_eq_Some_iff split: option.splits escape.splits intro!: diff_less) (rule lre_pos)

lemma lex_utf8_shorter:
  assumes "lex_utf8 p k = Some st" "step_rest st = Some q" "\<And>c q. step_rest (k c q) = Some q"
  shows "length q < length p"
proof -
  have "p \<noteq> []" using assms(1) by (auto simp: lex_utf8_def unicode_from_utf8_def rd_def)
  then show ?thesis using assms by (auto simp: lex_utf8_def split: option.splits if_splits intro!: diff_less) (rule decode_UTF8_pos)
qed

lemma lex_backslash_shorter: "lex_backslash f sep p = Some st \<Longrightarrow> step_rest st = Some q \<Longrightarrow> length q < length p"
  unfolding lex_backslash_def
  by (auto simp: rd_eq_Some_iff split: option.splits if_splits dest: lex_escape_shorter lex_utf8_shorter intro!: diff_less)

lemma lex_char_shorter:
  assumes "lex_char f sep c p = Some st" "step_rest st = Some q" "p \<noteq> []"
  shows "length q < length p"
proof -
  have 1: "length q < length p" if "lex_backslash f sep (drop 1 p) = Some st" using lex_backslash_shorter [OF that assms(2)] by simp
  have 2: "length q < length p" if "lex_utf8 p Emit = Some st" using lex_utf8_shorter [OF that assms(2)] by simp
  from assms 1 2 show ?thesis
    by (auto simp: lex_char_def bind_eq_Some_conv split: if_splits intro!: diff_less)
qed

lemma lex_step_cases:
  assumes "lex_step f sep p = Some st"
  obtains "st = Stop Unexpected_end \<or> st = Stop Invalid_JSON_char"
    | c where "p \<noteq> []" "lex_char f sep c p = Some st"
    | c where "drop 1 p \<noteq> []" "lex_char f sep c (drop 1 p) = Some st"
proof (cases "length p \<le> 1")
  case True
  then show thesis using assms that(1) by (simp add: lex_step_def)
next
  case False
  then have "p \<noteq> []" "drop 1 p \<noteq> []" by auto
  then show thesis using assms that False unfolding lex_step_def bind_eq_Some_conv by (auto split: if_splits simp: bind_eq_Some_conv)
qed

lemma lex_step_shorter:
  assumes "lex_step f sep p = Some st" "step_rest st = Some q"
  shows "length q < length p"
  using assms(1)
proof (cases rule: lex_step_cases)
  case 1
  then show ?thesis using assms(2) by auto
next
  case (2 c)
  then show ?thesis using lex_char_shorter [OF 2(2) assms(2)] by simp
next
  case (3 c)
  have "length q < length (drop 1 p)" by (rule lex_char_shorter [OF 3(2) assms(2) 3(1)])
  then show ?thesis by simp
qed

text \<open>The loop, with the string buffer and \<open>line_num\<close>.\<close>

function string_loop ::
  "bool option \<Rightarrow> u32 \<Rightarrow> u8 JSMallocState \<Rightarrow> StringBuffer \<Rightarrow> nat \<Rightarrow> u8 list \<Rightarrow>
     ((parse_error + u32 \<times> u8 list) \<times> u8 JSMallocState \<times> StringBuffer \<times> nat) option" where
  "string_loop f sep h b line p =
     (case lex_step f sep p of
        None \<Rightarrow> None
      | Some (Stop e) \<Rightarrow> Some (Inl e, h, b, line)
      | Some (Close c q) \<Rightarrow> Some (Inr (c, q), h, b, line)
      | Some (Skip k q) \<Rightarrow> string_loop f sep h b (line + k) q
      | Some (Emit c q) \<Rightarrow>
          (case string_buffer_putc h b c of
             None \<Rightarrow> None
           | Some (e, h', b') \<Rightarrow> if e \<noteq> 0 then Some (Inl Out_of_memory, h', b', line) else string_loop f sep h' b' line q))"
  by pat_completeness auto
termination
  by (relation "measure (\<lambda>(f, sep, h, b, line, p). length p)") (auto dest: lex_step_shorter)

declare string_loop.simps [simp del]

text \<open>The token: the character that ended the literal, the string and the position after it.\<close>

record string_token =
  tok_sep :: u32
  tok_str :: "JSString option"
  tok_rest :: "u8 list"

definition js_parse_string ::
  "bool option \<Rightarrow> u32 \<Rightarrow> u8 JSMallocState \<Rightarrow> nat \<Rightarrow> u8 list \<Rightarrow> ((parse_error + string_token) \<times> u8 JSMallocState \<times> nat) option" where
  "js_parse_string cur_func sep h line p =
     (case string_buffer_init h 32 of
        None \<Rightarrow> None
      | Some (e, h, b) \<Rightarrow>
          if e \<noteq> 0 then Some (Inl Out_of_memory, fst (string_buffer_free h b), line)
          else case string_loop cur_func sep h b line p of
            None \<Rightarrow> None
          | Some (Inl err, h, b, line) \<Rightarrow> Some (Inl err, fst (string_buffer_free h b), line)
          | Some (Inr (c, q), h, b, line) \<Rightarrow>
              map_option (\<lambda>(str, h). (Inr \<lparr>tok_sep = c, tok_str = str, tok_rest = q\<rparr>, h, line)) (string_buffer_end h b))"

section \<open>The lexer stays inside the text\<close>

definition nul_end :: "u8 list \<Rightarrow> bool" where
  "nul_end p \<longleftrightarrow> p \<noteq> [] \<and> last p = 0"

definition nonzero :: "u8 list \<Rightarrow> nat \<Rightarrow> bool" where
  "nonzero p i \<longleftrightarrow> (\<forall>j < min i (length p). p ! j \<noteq> 0)"

lemma nul_bound: "nul_end p \<Longrightarrow> nonzero p i \<Longrightarrow> i < length p"
proof (rule ccontr)
  assume a: "nul_end p" "nonzero p i" "\<not> i < length p"
  then have "p ! (length p - 1) \<noteq> 0" unfolding nonzero_def nul_end_def by (cases p) auto
  then show False using a(1) last_conv_nth [of p] by (simp add: nul_end_def)
qed

lemma nonzero_Suc: "nonzero p i \<Longrightarrow> i < length p \<Longrightarrow> p ! i \<noteq> 0 \<Longrightarrow> nonzero p (Suc i)"
  by (auto simp: nonzero_def less_Suc_eq)

lemma nonzero_0 [simp]: "nonzero p 0"
  by (simp add: nonzero_def)

lemma nul_end_drop: "nul_end p \<Longrightarrow> n < length p \<Longrightarrow> nul_end (drop n p)"
  by (simp add: nul_end_def)

lemma from_hex_cases: "0 \<le> from_hex (uint b) \<Longrightarrow> from_hex (uint b) < 16 \<and> (b :: u8) \<noteq> 0"
  by (auto simp: from_hex_def)

lemma hex_step:
  assumes "unat c < 2 ^ 28" "0 \<le> h" "h < 16"
  shows "unat (push_bit 4 c OR word_of_int h :: u32) = 16 * unat c + nat h"
proof -
  let ?h = "word_of_int h :: u32"
  have h: "unat ?h = nat h" using assms(2,3) by (simp add: unat_eq_nat_uint uint_word_of_int_eq take_bit_int_eq_self)
  have "take_bit 4 (push_bit 4 c) = 0" by (rule bit_word_eqI) (auto simp: bit_simps)
  then have "?h OR push_bit 4 c = ?h + push_bit 4 c" using unat_or_disjoint [of ?h 4 "push_bit 4 c"] h assms(2,3) by simp
  then show ?thesis using h assms by (simp add: or.commute unat_word_ariths unat_simps nat_less_iff)
qed

lemma hex_run_safe:
  "nul_end p \<Longrightarrow> nonzero p i \<Longrightarrow> (unat c + 1) * 16 ^ n \<le> 2 ^ 32 \<Longrightarrow>
   \<exists>r. hex_run p i n c = Some r \<and> (\<forall>c'. r = Some c' \<longrightarrow> nonzero p (i + n) \<and> unat c' < (unat c + 1) * 16 ^ n)"
proof (induction n arbitrary: i c)
  case (Suc n)
  have i: "i < length p" using nul_bound [OF Suc.prems(1,2)] .
  show ?case
  proof (cases "from_hex (uint (p ! i)) < 0")
    case True
    then show ?thesis using i by (simp add: rd_Some Let_def)
  next
    case False
    let ?h = "from_hex (uint (p ! i))"
    have h: "0 \<le> ?h" "?h < 16" "p ! i \<noteq> 0" using False from_hex_cases [of "p ! i"] by auto
    have le: "(unat c + 1) * (16 * 16 ^ n) \<le> 2 ^ 32" using Suc.prems(3) by simp
    have "(unat c + 1) * (16 * 1) \<le> (unat c + 1) * (16 * 16 ^ n)" by (intro mult_le_mono) simp_all
    from order_trans [OF this le] have "unat c < 2 ^ 28" by simp
    then have u: "unat (push_bit 4 c OR word_of_int ?h :: u32) = 16 * unat c + nat ?h" using h by (intro hex_step)
    have "nat ?h < 16" using h(2) by (simp add: nat_less_iff [OF h(1)])
    then have "16 * unat c + nat ?h + 1 \<le> 16 * (unat c + 1)" by simp
    then have mono: "(unat (push_bit 4 c OR word_of_int ?h :: u32) + 1) * 16 ^ n \<le> (unat c + 1) * (16 * 16 ^ n)"
      unfolding u using mult_le_mono1 [of "16 * unat c + nat ?h + 1" "16 * (unat c + 1)" "16 ^ n"] by (simp add: algebra_simps)
    have "nonzero p (Suc i)" using nonzero_Suc Suc.prems(2) i h(3) by blast
    from Suc.IH [OF Suc.prems(1) this, of "push_bit 4 c OR word_of_int ?h"] mono le
    obtain r where "hex_run p (Suc i) n (push_bit 4 c OR word_of_int ?h) = Some r"
        "\<forall>c'. r = Some c' \<longrightarrow> nonzero p (Suc i + n) \<and> unat c' < (unat (push_bit 4 c OR word_of_int ?h :: u32) + 1) * 16 ^ n"
      by (meson order_trans)
    then show ?thesis using i False mono by (auto simp: rd_Some Let_def)
  qed
qed simp

text \<open>An escape sequence ends before the final null byte and gives a code point.\<close>

definition esc_ok :: "u8 list \<Rightarrow> escape \<Rightarrow> bool" where
  "esc_ok p r \<longleftrightarrow> (case r of Esc c n \<Rightarrow> n < length p \<and> c \<le> 0x10ffff | _ \<Rightarrow> True)"

lemma hex_brace_safe:
  "nul_end p \<Longrightarrow> nonzero p i \<Longrightarrow> \<exists>r. hex_brace p i c = Some r \<and> esc_ok p r"
proof (induction p i c rule: hex_brace.induct)
  case (1 p i c)
  have i: "i < length p" using nul_bound 1(2,3) .
  let ?h = "from_hex (uint (p ! i))"
  let ?c = "push_bit 4 c OR word_of_int ?h :: u32"
  show ?case
  proof (cases "?h < 0 \<or> ?c > 0x10FFFF")
    case True
    then show ?thesis using i by (subst hex_brace.simps) (auto simp: Let_def esc_ok_def)
  next
    case False
    have "p ! i \<noteq> 0" using False from_hex_cases [of "p ! i"] by auto
    then have nz: "nonzero p (i + 1)" using nonzero_Suc [OF 1(3) i] by simp
    have i1: "i + 1 < length p" using nul_bound [OF 1(2) nz] .
    show ?thesis
    proof (cases "p ! (i + 1) = 125")
      case True
      then have "nonzero p (i + 2)" using nonzero_Suc [OF nz i1] by simp
      then have "i + 2 < length p" using nul_bound 1(2) by blast
      then show ?thesis using i i1 False True by (subst hex_brace.simps) (auto simp: Let_def esc_ok_def rd_Some not_less)
    next
      case more: False
      have "rd p (i + 1) = Some (p ! (i + 1))" using i1 by (rule rd_Some)
      from 1(1) [OF i refl _ refl _ this more 1(2) nz] show ?thesis
        using i i1 False more by (subst hex_brace.simps) (auto simp: Let_def rd_Some)
    qed
  qed
qed

lemma shift_or:
  fixes c v :: u32
  assumes "unat v < 2 ^ k" "(unat c + 1) * 2 ^ k \<le> 2 ^ 32"
  shows "unat (push_bit k c OR v) = 2 ^ k * unat c + unat v"
proof -
  have "take_bit k (push_bit k c) = 0" by (rule bit_word_eqI) (auto simp: bit_simps)
  from unat_or_disjoint [OF assms(1) this] have "push_bit k c OR v = v + push_bit k c" by (simp only: or.commute)
  moreover have "unat c * 2 ^ k + unat v < 2 ^ 32" using assms by simp
  ultimately show ?thesis by (simp add: unat_word_ariths unat_simps mult.commute)
qed

lemma escaped_pair_safe:
  assumes "nul_end p" "nonzero p i" "is_hi c"
  shows "\<exists>r. escaped_pair p i c = Some r \<and> esc_ok p r"
proof -
  have i: "i < length p" using nul_bound assms(1,2) .
  have c: "c \<le> 0x10ffff" using assms(3) by (simp add: is_hi_def word_le_nat_alt word_less_nat_alt)
  show ?thesis
  proof (cases "p ! i = 92")
    case False
    then show ?thesis using i c by (simp add: escaped_pair_def rd_Some esc_ok_def)
  next
    case a: True
    then have nz: "nonzero p (i + 1)" using nonzero_Suc [OF assms(2) i] by simp
    then have i1: "i + 1 < length p" using nul_bound assms(1) by blast
    show ?thesis
    proof (cases "p ! (i + 1) = 117")
      case False
      then show ?thesis using i i1 a c by (simp add: escaped_pair_def rd_Some esc_ok_def)
    next
      case True
      then have "nonzero p (i + 2)" using nonzero_Suc [OF nz i1] by simp
      from hex_run_safe [OF assms(1) this, of 0 4] obtain r where r: "hex_run p (i + 2) 4 0 = Some r"
          "\<And>c'. r = Some c' \<Longrightarrow> nonzero p (i + 2 + 4)" by auto
      have "pair_char c c1 \<le> 0x10ffff" if "is_lo c1" for c1
        using unat_pair_char [OF assms(3) that] assms(3) that by (simp add: is_hi_def is_lo_def word_le_nat_alt word_less_nat_alt) linarith
      moreover have "i + 6 < length p" if "r = Some c'" for c' using nul_bound [OF assms(1) r(2) [OF that]] by simp
      ultimately show ?thesis using i i1 a True c r(1) by (cases r) (auto simp: escaped_pair_def rd_Some esc_ok_def)
    qed
  qed
qed

lemma parse_hex_escape_safe:
  assumes "nul_end p" "nonzero p 1"
  shows "\<exists>r. parse_hex_escape p u b = Some r \<and> esc_ok p r"
proof -
  have i: "1 < length p" using nul_bound assms .
  show ?thesis
  proof (cases "p ! 1 = 123 \<and> u \<noteq> 0")
    case True
    then have "p ! 1 \<noteq> 0" by auto
    from nonzero_Suc [OF assms(2) i this] have "nonzero p 2" by (simp only: Suc_1)
    from hex_brace_safe [OF assms(1) this, of 0] show ?thesis using True i by (simp add: parse_hex_escape_def rd_Some)
  next
    case False
    define n :: nat where "n = (if b = 120 then 2 else 4)"
    have "(unat (0 :: u32) + 1) * 16 ^ n \<le> 2 ^ 16" by (simp add: n_def)
    then obtain r where r: "hex_run p 1 n 0 = Some r" "\<And>c'. r = Some c' \<Longrightarrow> nonzero p (1 + n) \<and> unat c' < 2 ^ 16"
      using hex_run_safe [OF assms, of 0 n] by fastforce
    have eq: "parse_hex_escape p u b = (case r of None \<Rightarrow> Some Malformed
        | Some c \<Rightarrow> if is_hi c \<and> u = 2 then escaped_pair p (n + 1) c else Some (Esc c (n + 1)))"
      using False i r(1) by (auto simp: parse_hex_escape_def rd_Some n_def [symmetric] Let_def split: option.splits)
    show ?thesis
    proof (cases r)
      case None
      then show ?thesis unfolding eq by (simp add: esc_ok_def)
    next
      case (Some c)
      have nz: "nonzero p (n + 1)" "c \<le> 0x10ffff" using r(2) [OF Some] by (simp_all add: word_le_nat_alt)
      then show ?thesis unfolding eq Some using escaped_pair_safe [OF assms(1) nz(1)] nul_bound [OF assms(1) nz(1)] by (simp add: esc_ok_def)
    qed
  qed
qed

lemma digit_val_le: "digit_val d \<le> 7 \<Longrightarrow> d \<noteq> 0"
  by (auto simp: digit_val_def word_le_nat_alt)

lemma parse_octal_escape_safe:
  assumes "nul_end p" "nonzero p 1" "digit_val b \<le> 7"
  shows "\<exists>r. parse_octal_escape p u b = Some r \<and> esc_ok p r"
proof -
  let ?c = "digit_val b"
  have i: "1 < length p" using nul_bound assms(1,2) .
  have c: "unat ?c < 8" "?c \<le> 0x10ffff" using assms(3) by (simp_all add: word_le_nat_alt)
  show ?thesis
  proof (cases "u = 2 \<or> digit_val (p ! 1) > 7")
    case True
    then show ?thesis using i c by (auto simp: parse_octal_escape_def Let_def rd_Some esc_ok_def)
  next
    case False
    then have d: "digit_val (p ! 1) \<le> 7" by (simp add: not_less)
    from nonzero_Suc [OF assms(2) i digit_val_le [OF d]] have nz: "nonzero p 2" by (simp only: Suc_1)
    have i2: "2 < length p" using nul_bound [OF assms(1) nz] .
    let ?e = "push_bit 3 ?c OR digit_val (p ! 1)"
    have "unat ?e = 2 ^ 3 * unat ?c + unat (digit_val (p ! 1))" using c d by (intro shift_or) (simp_all add: word_le_nat_alt)
    then have e: "unat ?e < 64" "?e \<le> 0x10ffff" using c d by (simp_all add: word_le_nat_alt)
    show ?thesis
    proof (cases "?e \<ge> 32 \<or> digit_val (p ! 2) > 7")
      case True
      then show ?thesis using i i2 False e by (auto simp: parse_octal_escape_def Let_def rd_Some esc_ok_def)
    next
      case small: False
      then have d2: "digit_val (p ! 2) \<le> 7" by (simp add: not_less)
      from nonzero_Suc [OF nz i2 digit_val_le [OF d2]] have "nonzero p 3" by (simp only: Suc_numeral add_num_simps)
      then have i3: "3 < length p" using nul_bound assms(1) by blast
      have "unat (push_bit 3 ?e OR digit_val (p ! 2)) = 2 ^ 3 * unat ?e + unat (digit_val (p ! 2))"
        using e d2 by (intro shift_or) (simp_all add: word_le_nat_alt)
      then have "push_bit 3 ?e OR digit_val (p ! 2) \<le> 0x10ffff" using e d2 by (simp add: word_le_nat_alt)
      then show ?thesis using i i2 i3 False small by (auto simp: parse_octal_escape_def Let_def rd_Some esc_ok_def)
    qed
  qed
qed

lemma nul_end_hd: "nul_end p \<Longrightarrow> p ! 0 \<noteq> 0 \<Longrightarrow> nonzero p 1 \<and> 1 < length p"
  using nonzero_Suc [of p 0] nul_bound [of p 1] by (auto simp: nul_end_def)

lemma lre_safe:
  assumes "nul_end p"
  shows "\<exists>r. lre_parse_escape p u = Some r \<and> esc_ok p r"
proof -
  have rd: "rd p 0 = Some (p ! 0)" using assms by (simp add: nul_end_def rd_Some)
  show ?thesis
  proof (cases "p ! 0 = 0")
    case True
    then show ?thesis using rd by (simp add: lre_parse_escape_def esc_ok_def)
  next
    case False
    note hd = nul_end_hd [OF assms False]
    have oct: "digit_val (p ! 0) \<le> 7" if "48 \<le> p ! 0" "p ! 0 \<le> 55"
    proof -
      have b: "48 \<le> unat (p ! 0)" "unat (p ! 0) \<le> 55" using that by (simp_all add: word_le_nat_alt)
      then have "unat (to_u32 (p ! 0)) = unat (p ! 0)" by (simp add: unat_ucast)
      then show ?thesis using b by (simp add: digit_val_def word_le_nat_alt unat_sub)
    qed
    have simple: "esc_ok p (Esc c 1)" if "c \<le> 0x10ffff" for c using that hd by (simp add: esc_ok_def)
    show ?thesis
      unfolding lre_parse_escape_def rd option.case
      using simple parse_hex_escape_safe [OF assms, of u "p ! 0"] parse_octal_escape_safe [OF assms, of "p ! 0" u] oct hd
      by (simp add: esc_ok_def)
  qed
qed

lemma utf8_cont_safe:
  "nul_end p \<Longrightarrow> nonzero p i \<Longrightarrow> \<exists>r. utf8_cont p i k c = Some r \<and> (r \<noteq> None \<longrightarrow> nonzero p (i + k))"
proof (induction p i k c rule: utf8_cont.induct)
  case (2 p i k c)
  have i: "i < length p" using nul_bound 2(2,3) .
  show ?case
  proof (cases "p ! i < 0x80 \<or> p ! i \<ge> 0xc0")
    case True
    then show ?thesis using i by (simp add: rd_Some)
  next
    case False
    then have "p ! i \<noteq> 0" by auto
    then have "nonzero p (Suc i)" using nonzero_Suc 2(3) i by blast
    from 2(1) [OF _ False 2(2) this] show ?thesis using i False by (simp add: rd_Some)
  qed
qed simp

text \<open>A step ends before the final null byte.\<close>

definition ahead :: "u8 list \<Rightarrow> u8 list \<Rightarrow> bool" where
  "ahead p q \<longleftrightarrow> (\<exists>n. 0 < n \<and> n < length p \<and> q = drop n p)"

definition step_ok :: "u8 list \<Rightarrow> step \<Rightarrow> bool" where
  "step_ok p st \<longleftrightarrow> (case st of Stop e \<Rightarrow> True | Close c q \<Rightarrow> ahead p q | Skip k q \<Rightarrow> ahead p q | Emit c q \<Rightarrow> ahead p q \<and> c \<le> 0x10ffff)"

lemma ahead_drop: "0 < n \<Longrightarrow> n < length p \<Longrightarrow> ahead p (drop n p)"
  unfolding ahead_def by blast

lemma ahead_more: "ahead (drop k p) q \<Longrightarrow> ahead p q"
  unfolding ahead_def by (metis add_pos_nonneg drop_drop less_diff_conv length_drop zero_le)

lemma ahead_trans: "ahead p q \<Longrightarrow> ahead q r \<Longrightarrow> ahead p r"
proof -
  assume a: "ahead p q" "ahead q r"
  then obtain n where "q = drop n p" by (auto simp: ahead_def)
  then show ?thesis using ahead_more a(2) by simp
qed

lemma ahead_nul_end: "ahead p q \<Longrightarrow> nul_end p \<Longrightarrow> nul_end q"
  unfolding ahead_def using nul_end_drop by blast

lemma step_ok_more: "step_ok (drop k p) st \<Longrightarrow> step_ok p st"
  by (cases st) (auto simp: step_ok_def intro: ahead_more)

lemma lex_utf8_safe:
  assumes "nul_end p" "p ! 0 \<ge> 0x80" "\<And>c q. c \<le> 0x10ffff \<Longrightarrow> ahead p q \<Longrightarrow> step_ok p (k c q)"
  shows "\<exists>st. lex_utf8 p k = Some st \<and> step_ok p st"
proof -
  have "p ! 0 \<noteq> 0" using assms(2) by auto
  note hd = nul_end_hd [OF assms(1) this]
  have rd: "rd p 0 = Some (p ! 0)" using hd by (intro rd_Some) linarith
  have big: "\<not> p ! 0 < 0x80" using assms(2) by (simp only: not_less)
  have "\<exists>r. unicode_from_utf8 p UTF8_CHAR_LEN_MAX = Some r \<and> (\<forall>c n. r = Some (c, n) \<longrightarrow> n < length p)"
  proof (cases "utf8_seq_len (p ! 0)")
    case None
    then show ?thesis using rd big by (simp add: unicode_from_utf8_def)
  next
    case (Some l)
    obtain r where r: "utf8_cont p 1 l (to_u32 (p ! 0 AND utf8_first_code_mask ! (l - 1))) = Some r" "r \<noteq> None \<longrightarrow> nonzero p (1 + l)"
      using utf8_cont_safe [OF assms(1) conjunct1 [OF hd]] by blast
    have "l + 1 < length p" if "r \<noteq> None" using nul_bound [OF assms(1), of "1 + l"] r(2) that by simp
    then show ?thesis using rd Some r(1) big by (cases r) (auto simp: unicode_from_utf8_def)
  qed
  then obtain r where r: "unicode_from_utf8 p UTF8_CHAR_LEN_MAX = Some r" "\<And>c n. r = Some (c, n) \<Longrightarrow> n < length p" by blast
  show ?thesis
  proof (cases r)
    case None
    then show ?thesis using r(1) by (simp add: lex_utf8_def step_ok_def)
  next
    case (Some cn)
    obtain c n where cn: "cn = (c, n)" by (cases cn)
    have "ahead p (drop n p)" using r decode_UTF8_pos Some cn by (intro ahead_drop) auto
    then show ?thesis using r(1) Some cn assms(3) [of c] by (auto simp: lex_utf8_def step_ok_def not_less)
  qed
qed

lemma byte_code_point: "to_u32 (b :: u8) \<le> 0x10ffff"
  using unat_u8_lt [of b] by (simp add: word_le_nat_alt unat_ucast)

lemma lex_escape_safe:
  assumes "nul_end p" "p ! 0 \<noteq> 0"
  shows "\<exists>st. lex_escape p = Some st \<and> step_ok p st"
proof -
  obtain r where r: "lre_parse_escape p 1 = Some r" "esc_ok p r" using lre_safe [OF assms(1)] by blast
  have rd: "rd p 0 = Some (p ! 0)" using assms(1) by (simp add: nul_end_def rd_Some)
  show ?thesis
    using r rd nul_end_hd [OF assms] byte_code_point lre_pos [of p 1]
    by (cases r) (auto simp: lex_escape_def step_ok_def esc_ok_def intro!: ahead_drop)
qed

lemma lex_backslash_safe:
  assumes "nul_end p"
  shows "\<exists>st. lex_backslash f sep p = Some st \<and> step_ok p st"
proof -
  have rd: "rd p 0 = Some (p ! 0)" using assms by (simp add: nul_end_def rd_Some)
  show ?thesis
  proof (cases "p ! 0 = 0")
    case True
    then show ?thesis using rd by (auto simp: lex_backslash_def step_ok_def intro!: ahead_drop)
  next
    case nz: False
    note hd = nul_end_hd [OF assms nz]
    have rd1: "rd p 1 = Some (p ! 1)" using hd by (intro rd_Some) simp
    have one: "ahead p (drop 1 p)" using hd by (intro ahead_drop) simp_all
    have two: "ahead p (drop 2 p)" if "p ! 1 = 10"
    proof -
      have "p ! 1 \<noteq> 0" using that by auto
      then have "nonzero p (Suc 1)" using hd by (intro nonzero_Suc) auto
      then have "2 < length p" using nul_bound [OF assms] by (simp only: Suc_1)
      then show ?thesis by (intro ahead_drop) simp_all
    qed
    have utf8: "\<exists>st. lex_utf8 p (\<lambda>c q. if c = 0x2028 \<or> c = 0x2029 then Skip 0 q else Emit c q) = Some st \<and> step_ok p st" if "p ! 0 \<ge> 0x80"
      by (rule lex_utf8_safe [OF assms that]) (simp add: step_ok_def)
    show ?thesis
      unfolding lex_backslash_def rd option.case if_not_P [OF nz]
      using one two utf8 lex_escape_safe [OF assms nz] rd1 byte_code_point
      by (cases f) (auto simp: step_ok_def)
  qed
qed

lemma nul_end_next: "nul_end p \<Longrightarrow> i < length p \<Longrightarrow> p ! i \<noteq> 0 \<Longrightarrow> Suc i < length p"
  unfolding nul_end_def by (metis Suc_lessI diff_Suc_1 last_conv_nth)

lemma lex_char_safe:
  assumes "nul_end p" "1 < length p" "c \<ge> 0x80 \<Longrightarrow> c = to_u32 (p ! 0)" "c \<le> 0x10ffff"
  shows "\<exists>st. lex_char f sep c p = Some st \<and> step_ok p st"
proof -
  have rd1: "rd p 1 = Some (p ! 1)" using assms(2) by (rule rd_Some)
  have one: "ahead p (drop 1 p)" using assms(2) by (intro ahead_drop) simp_all
  have two: "ahead p (drop 2 p)" if "p ! 1 = 123"
  proof -
    have "p ! 1 \<noteq> 0" using that by auto
    from nul_end_next [OF assms(1,2) this] have "2 < length p" by (simp only: Suc_1)
    then show ?thesis by (intro ahead_drop) simp_all
  qed
  have utf8: "\<exists>st. lex_utf8 p Emit = Some st \<and> step_ok p st" if "c \<ge> 0x80"
  proof (rule lex_utf8_safe [OF assms(1)])
    show "p ! 0 \<ge> 0x80" using assms(3) [OF that] that unat_u8_lt [of "p ! 0"] by (simp add: word_le_nat_alt unat_ucast)
  qed (simp add: step_ok_def)
  have "\<exists>st. lex_backslash f sep (drop 1 p) = Some st \<and> step_ok p st"
    using lex_backslash_safe [OF nul_end_drop [OF assms(1,2)]] step_ok_more by blast
  then show ?thesis
    unfolding lex_char_def using one two utf8 rd1 assms(4) by (auto simp: step_ok_def)
qed

lemma lex_step_safe:
  assumes "nul_end p"
  shows "\<exists>st. lex_step f sep p = Some st \<and> step_ok p st"
proof (cases "length p \<le> 1")
  case True
  then show ?thesis by (simp add: lex_step_def step_ok_def)
next
  case False
  then have p: "1 < length p" by simp
  have rd: "rd p 0 = Some (p ! 0)" "rd p 1 = Some (p ! 1)" using p by (auto intro: rd_Some)
  have plain: "\<exists>st. lex_char f sep (to_u32 (p ! 0)) p = Some st \<and> step_ok p st"
    using lex_char_safe [OF assms p _ byte_code_point] by blast
  have newline: "\<exists>st. lex_char f sep 10 (if p ! 1 = 10 then drop 1 p else p) = Some st \<and> step_ok p st"
  proof (cases "p ! 1 = 10")
    case True
    then have "p ! 1 \<noteq> 0" by auto
    then have "1 < length (drop 1 p)" using nul_end_next [OF assms p] by simp
    from lex_char_safe [OF nul_end_drop [OF assms p] this, of 10 f sep] step_ok_more True show ?thesis by auto
  next
    case False
    then show ?thesis using lex_char_safe [OF assms p, of 10 f sep] by simp
  qed
  show ?thesis using False rd plain newline unfolding lex_step_def by (auto simp: step_ok_def)
qed

lemma after_len_le:
  assumes "after h s 0 W cs e h' s'" "sb_ok s"
  shows "sb_len s' \<le> sb_len s + length cs"
proof (cases "sb_error s'")
  case True
  then show ?thesis using afterD(2) [OF assms(1)] by (simp add: sb_ok_def)
next
  case False
  then show ?thesis using after_len [OF assms] by simp
qed

lemma utf16_le_2: "length (utf16 c) \<le> 2"
  by (simp add: utf16_def)

lemma string_loop_safe:
  "heap_ok h \<Longrightarrow> sb_ok b \<Longrightarrow> nul_end p \<Longrightarrow>
   \<exists>r h' b' line'. string_loop f sep h b line p = Some (r, h', b', line') \<and> heap_ok h' \<and> sb_ok b'
     \<and> (\<forall>c q. r = Inr (c, q) \<longrightarrow> ahead p q) \<and> sb_len b' \<le> sb_len b + 2 * length p"
proof (induction f sep h b line p rule: string_loop.induct)
  case (1 f sep h b line p)
  obtain st where st: "lex_step f sep p = Some st" "step_ok p st" using lex_step_safe [OF 1(5)] by blast
  have more: "\<forall>c q'. r = Inr (c, q') \<longrightarrow> ahead p q'" if "ahead p q" "\<forall>c q'. r = Inr (c, q') \<longrightarrow> ahead q q'" for q and r :: "parse_error + u32 \<times> u8 list"
    using that ahead_trans by blast
  have less: "length q + 1 \<le> length p" if "ahead p q" for q using that by (auto simp: ahead_def)
  show ?case
  proof (cases st)
    case (Stop e)
    then show ?thesis using st(1) 1(3,4) by (subst string_loop.simps) simp
  next
    case (Close c q)
    then show ?thesis using st 1(3,4) by (subst string_loop.simps) (simp add: step_ok_def)
  next
    case (Skip k q)
    then have a: "ahead p q" using st(2) by (simp add: step_ok_def)
    obtain r h' b' line' where r: "string_loop f sep h b (line + k) q = Some (r, h', b', line')" "heap_ok h'" "sb_ok b'"
        "\<forall>c q'. r = Inr (c, q') \<longrightarrow> ahead q q'" "sb_len b' \<le> sb_len b + 2 * length q"
      using 1(1) [OF st(1) Skip 1(3,4) ahead_nul_end [OF a 1(5)]] by blast
    have "string_loop f sep h b line p = Some (r, h', b', line')" using st(1) Skip r(1) by (subst string_loop.simps) simp
    then show ?thesis using r(2,3,5) more [OF a r(4)] less [OF a] by auto
  next
    case (Emit c q)
    then have a: "ahead p q" "c \<le> 0x10ffff" using st(2) by (simp_all add: step_ok_def)
    obtain e h1 b1 where put: "string_buffer_putc h b c = Some (e, h1, b1)" "after h b 0 (wide_units (utf16 c)) (utf16 c) e h1 b1"
      using putc_post [OF 1(3,4) a(2)] by (rule postE)
    note D = afterD [OF put(2)]
    have len: "sb_len b1 \<le> sb_len b + 2" using after_len_le [OF put(2) 1(4)] utf16_le_2 [of c] by linarith
    show ?thesis
    proof (cases "e = 0")
      case False
      then have "string_loop f sep h b line p = Some (Inl Out_of_memory, h1, b1, line)" using st(1) Emit put(1) by (subst string_loop.simps) simp
      then show ?thesis using D(1,2) len less [OF a(1)] by auto
    next
      case True
      obtain r h' b' line' where r: "string_loop f sep h1 b1 line q = Some (r, h', b', line')" "heap_ok h'" "sb_ok b'"
          "\<forall>c q'. r = Inr (c, q') \<longrightarrow> ahead q q'" "sb_len b' \<le> sb_len b1 + 2 * length q"
        using 1(2) [OF st(1) Emit put(1) refl refl _ D(1,2) ahead_nul_end [OF a(1) 1(5)]] True by blast
      have "string_loop f sep h b line p = Some (r, h', b', line')" using st(1) Emit put(1) True r(1) by (subst string_loop.simps) simp
      then show ?thesis using r(2,3,5) more [OF a(1) r(4)] less [OF a(1)] len by auto
    qed
  qed
qed

section \<open>Reading back what was quoted\<close>

text \<open>The code points that stand for the code point \<open>c\<close> in a quoted string.\<close>

definition quoted :: "u32 \<Rightarrow> u32 list" where
  "quoted c =
     (if c = 9 then [92, 116] else if c = 13 then [92, 114] else if c = 10 then [92, 110]
      else if c = 8 then [92, 98] else if c = 12 then [92, 102] else if c = 34 \<or> c = 92 then [92, c]
      else if c < 32 \<or> (0xd800 \<le> c \<and> c < 0xe000) then map to_u32 (escape_u c) else [c])"

lemma hex_digit_lt: "unat d < 16 \<Longrightarrow> unat (hex_digit d) = (if unat d < 10 then unat d + 48 else unat d + 87)"
  by (auto simp: hex_digit_def word_less_nat_alt unat_word_ariths unat_ucast)

lemma hex_digit_range: "unat d < 16 \<Longrightarrow> 48 \<le> unat (hex_digit d) \<and> unat (hex_digit d) < 103"
  by (simp add: hex_digit_lt)

lemma from_hex_nat: "n < 16 \<Longrightarrow> from_hex (int (if n < 10 then n + 48 else n + 87)) = int n"
  by (simp add: from_hex_def)

lemma from_hex_digit: "unat d < 16 \<Longrightarrow> from_hex (uint (hex_digit d)) = int (unat d)"
  unfolding uint_nat hex_digit_lt by (rule from_hex_nat)

lemma low4: "(c :: u32) AND 15 = take_bit 4 c" "unat (take_bit 4 c) < 16"
  by (simp add: take_bit_eq_mask mask_numerals, simp add: unat_take_bit)

lemma hex_of: "nat (int (unat d)) = unat d" "word_of_int (int (unat d)) = (d :: u32)"
  by simp_all

lemma hex_run_digit:
  "rd p i = Some (hex_digit d) \<Longrightarrow> unat d < 16 \<Longrightarrow> hex_run p i (Suc n) c = hex_run p (i + 1) n (push_bit 4 c OR d)"
  by (simp add: from_hex_digit Let_def)

lemma nibbles:
  fixes c :: u32
  assumes "c < 0x10000"
  shows "push_bit 4 (push_bit 4 (push_bit 4 (push_bit 4 0 OR take_bit 4 (drop_bit 12 c)) OR take_bit 4 (drop_bit 8 c))
    OR take_bit 4 (drop_bit 4 c)) OR take_bit 4 c = c" (is "?l = c")
proof (rule bit_word_eqI)
  fix n
  have "c = take_bit 16 c" using assms by (intro take_bit_eq_self_word [symmetric]) (simp add: word_less_nat_alt)
  then have hi: "\<not> bit c n" if "16 \<le> n" using that by (metis bit_take_bit_iff not_less)
  assume "n < LENGTH(32)"
  consider "n < 4" | "4 \<le> n" "n < 8" | "8 \<le> n" "n < 12" | "12 \<le> n" "n < 16" | "16 \<le> n" by linarith
  then show "bit ?l n = bit c n"
    using \<open>n < LENGTH(32)\<close> hi by cases (auto simp: bit_simps)
qed

lemma hex_run_4:
  assumes "rd p 1 = Some (hex_digit a)" "rd p 2 = Some (hex_digit b)" "rd p 3 = Some (hex_digit d)" "rd p 4 = Some (hex_digit e)"
    "unat a < 16" "unat b < 16" "unat d < 16" "unat e < 16"
  shows "hex_run p 1 4 0 = Some (Some (push_bit 4 (push_bit 4 (push_bit 4 (push_bit 4 0 OR a) OR b) OR d) OR e))"
proof -
  note step = hex_run_digit [of p]
  have "hex_run p 1 4 0 = hex_run p 2 3 (push_bit 4 0 OR a)" using step [OF assms(1,5), of 3 0] by (simp only: Suc_numeral add_num_simps one_add_one)
  also have "\<dots> = hex_run p 3 2 (push_bit 4 (push_bit 4 0 OR a) OR b)"
    using step [OF assms(2,6), of 2] by (simp only: Suc_numeral add_num_simps numeral_plus_one)
  also have "\<dots> = hex_run p 4 1 (push_bit 4 (push_bit 4 (push_bit 4 0 OR a) OR b) OR d)"
    using step [OF assms(3,7), of 1] by (simp only: Suc_1 add_num_simps numeral_plus_one)
  also have "\<dots> = Some (Some (push_bit 4 (push_bit 4 (push_bit 4 (push_bit 4 0 OR a) OR b) OR d) OR e))"
    using step [OF assms(4,8), of 0] by (simp only: One_nat_def hex_run.simps(1))
  finally show ?thesis .
qed

lemma hex_run_escape:
  assumes "c < 0x10000"
  shows "hex_run (117 # hex_digit (drop_bit 12 c AND 15) # hex_digit (drop_bit 8 c AND 15) # hex_digit (drop_bit 4 c AND 15)
    # hex_digit (c AND 15) # tail) 1 4 0 = Some (Some c)"
proof -
  let ?p = "117 # hex_digit (take_bit 4 (drop_bit 12 c)) # hex_digit (take_bit 4 (drop_bit 8 c)) # hex_digit (take_bit 4 (drop_bit 4 c))
    # hex_digit (take_bit 4 c) # tail"
  have "rd ?p 1 = Some (hex_digit (take_bit 4 (drop_bit 12 c)))" "rd ?p 2 = Some (hex_digit (take_bit 4 (drop_bit 8 c)))"
      "rd ?p 3 = Some (hex_digit (take_bit 4 (drop_bit 4 c)))" "rd ?p 4 = Some (hex_digit (take_bit 4 c))"
    by (simp_all add: rd_def)
  from hex_run_4 [OF this low4(2) low4(2) low4(2) low4(2)] show ?thesis unfolding low4(1) nibbles [OF assms] .
qed

lemma utf8_ascii: "b < 128 \<Longrightarrow> unicode_to_utf8 (to_u32 (b :: u8)) = [b]"
proof -
  assume "b < 128"
  then have "unat (to_u32 b) < 128" by (simp add: word_less_nat_alt unat_ucast)
  moreover have "to_u8 (to_u32 b) = b" by (rule bit_word_eqI) (auto simp: bit_simps)
  ultimately show ?thesis by (simp add: unicode_to_utf8_def word_less_nat_alt)
qed

lemma escape_u_ascii: "b \<in> set (escape_u c) \<Longrightarrow> b < 128"
proof -
  have "hex_digit (take_bit 4 d) < 128" for d using hex_digit_range [OF low4(2), of d] by (simp add: word_less_nat_alt)
  then show "b \<in> set (escape_u c) \<Longrightarrow> b < 128" by (auto simp: escape_u_def low4(1))
qed

lemma escape_u_bytes: "concat (map unicode_to_utf8 (map to_u32 (escape_u c))) = escape_u c"
proof -
  have "concat (map unicode_to_utf8 (map to_u32 bs)) = bs" if "\<forall>b\<in>set bs. b < 128" for bs :: "u8 list"
    using that by (induction bs) (simp_all add: utf8_ascii)
  then show ?thesis using escape_u_ascii by blast
qed

lemma lex_escape_u:
  assumes "c < 0x10000" "tail \<noteq> []"
  shows "lex_step None 34 (escape_u c @ tail) = Some (Emit c tail)"
proof -
  let ?d = "\<lambda>k. hex_digit (drop_bit k c AND 15)"
  let ?p = "117 # ?d 12 # ?d 8 # ?d 4 # hex_digit (c AND 15) # tail"
  have "unat (?d 12) < 103" using hex_digit_range [OF low4(2)] by (simp add: low4(1))
  then have "?d 12 \<noteq> 123" by auto
  then have "parse_hex_escape ?p 1 117 = Some (Esc c 5)"
    using hex_run_escape [OF assms(1), of tail] by (simp add: parse_hex_escape_def rd_def Let_def)
  then have "lex_backslash None 34 ?p = Some (Emit c tail)"
    by (simp add: lex_backslash_def rd_def lex_escape_def lre_parse_escape_def)
  then show ?thesis by (simp add: escape_u_def lex_step_def lex_char_def rd_def)
qed

lemma lex_short_escape:
  assumes "(x, c) \<in> {(116, 9), (114, 13), (110, 10), (98, 8), (102, 12), (34, 34), (92, 92)}"
  shows "lex_step None 34 (92 # x # tail) = Some (Emit c tail)"
  using assms by (auto simp: lex_step_def lex_char_def lex_backslash_def lex_escape_def lre_parse_escape_def rd_def)

lemma lex_backslashes: "lex_step f 34 (92 # 92 # tail) = Some (Emit 92 tail)"
  by (simp add: lex_step_def lex_char_def lex_backslash_def rd_def)

lemma lex_plain:
  assumes "32 \<le> c" "c \<le> 0x10ffff" "c \<noteq> 34" "c \<noteq> 92" "tail \<noteq> []"
  shows "lex_step f 34 (unicode_to_utf8 c @ tail) = Some (Emit c tail)"
proof -
  obtain b q where bq: "unicode_to_utf8 c = b # q" "c < 0x80 \<Longrightarrow> q = [] \<and> to_u32 b = c" "b < 128 \<longleftrightarrow> c < 0x80"
    using utf8_cons [OF assms(2)] by metis
  have c: "unat c < 2 ^ 31" using assms(2) by (simp add: word_le_nat_alt)
  have len: "\<not> length (b # q @ tail) \<le> 1" using assms(5) by (cases tail) simp_all
  have "int (length (unicode_to_utf8 c)) \<le> 6" using c by (cases rule: unicode_to_utf8_cases) (auto simp: utf8_form_def)
  from utf8_roundtrip_31 [OF c this, of tail] have dec: "unicode_from_utf8 (b # q @ tail) 6 = Some (Some (c, Suc (length q)))"
    using bq(1) by simp
  have big: "\<not> 0x10FFFF < c" using assms(2) by (simp only: not_less)
  have b32: "\<not> b < 0x20"
  proof (cases "c < 0x80")
    case True
    have "32 \<le> unat (to_u32 b)" using assms(1) bq(2) [OF True] by (simp add: word_le_nat_alt)
    then show ?thesis using unat_u8_lt [of b] by (simp add: unat_ucast word_less_nat_alt)
  next
    case False
    then have "\<not> b < 128" using bq(3) by blast
    then show ?thesis by (simp add: word_less_nat_alt)
  qed
  have step: "lex_step f 34 (b # q @ tail) = lex_char f 34 (to_u32 b) (b # q @ tail)"
    unfolding lex_step_def if_not_P [OF len] using b32 by (simp add: rd_def)
  show ?thesis
  proof (cases "c < 0x80")
    case True
    have "\<not> c \<ge> 0x80" using True by (simp only: not_le)
    then have "lex_char f 34 c (b # tail) = Some (Emit c tail)"
      using assms(3-5) by (cases tail) (auto simp: lex_char_def rd_def)
    then show ?thesis using step bq(1) bq(2) [OF True] by simp
  next
    case False
    have "unat b \<ge> 128" using False bq(3) by (simp add: word_less_nat_alt)
    then have u: "to_u32 b \<ge> 0x80" "to_u32 b \<noteq> 34" "to_u32 b \<noteq> 36" "to_u32 b \<noteq> 92"
      using unat_u8_lt [of b] by (auto simp: word_le_nat_alt word_unat_eq_iff unat_ucast)
    then have "lex_char f 34 (to_u32 b) (b # q @ tail) = lex_utf8 (b # q @ tail) Emit" by (simp add: lex_char_def)
    also have "\<dots> = Some (Emit c tail)" using dec big by (simp add: lex_utf8_def UTF8_CHAR_LEN_MAX_def)
    finally show ?thesis using step bq(1) by simp
  qed
qed

lemma lex_quoted:
  assumes "c \<le> 0x10ffff" "tail \<noteq> []"
  shows "lex_step None 34 (concat (map unicode_to_utf8 (quoted c)) @ tail) = Some (Emit c tail)"
proof -
  have ascii: "unicode_to_utf8 92 = [92]" "unicode_to_utf8 116 = [116]" "unicode_to_utf8 114 = [114]" "unicode_to_utf8 110 = [110]"
      "unicode_to_utf8 98 = [98]" "unicode_to_utf8 102 = [102]" "unicode_to_utf8 34 = [34]"
    by (simp_all add: unicode_to_utf8_def)
  consider "c \<in> {9, 13, 10, 8, 12, 34, 92}" | "c \<notin> {9, 13, 10, 8, 12, 34, 92}" "c < 32 \<or> (0xd800 \<le> c \<and> c < 0xe000)"
    | "c \<notin> {9, 13, 10, 8, 12, 34, 92}" "\<not> (c < 32 \<or> (0xd800 \<le> c \<and> c < 0xe000))" by blast
  then show ?thesis
  proof cases
    case 1
    then show ?thesis by (auto simp: quoted_def ascii lex_short_escape)
  next
    case 2
    then have "c < 0x10000" by (auto simp: word_less_nat_alt)
    moreover have "quoted c = map to_u32 (escape_u c)" using 2 by (simp add: quoted_def)
    ultimately show ?thesis using lex_escape_u assms(2) escape_u_bytes by simp
  next
    case 3
    then have "quoted c = [c]" "32 \<le> c" by (auto simp: quoted_def not_less)
    then show ?thesis using lex_plain assms 3(1) by simp
  qed
qed

lemma lex_close: "rest \<noteq> [] \<Longrightarrow> lex_step f 34 (34 # rest) = Some (Close 34 rest)"
  by (cases rest) (simp_all add: lex_step_def lex_char_def rd_def)

lemma string_loop_emit:
  "lex_step f sep p = Some (Emit c q) \<Longrightarrow> string_buffer_putc h b c = Some (0, h1, b1) \<Longrightarrow>
    string_loop f sep h b line p = string_loop f sep h1 b1 line q"
  by (subst string_loop.simps) simp

text \<open>A literal whose pieces \<open>enc c\<close> the lexer reads as the characters \<open>c\<close>.\<close>

definition reads_as :: "bool option \<Rightarrow> (u32 \<Rightarrow> u8 list) \<Rightarrow> u32 list \<Rightarrow> bool" where
  "reads_as f enc cs \<longleftrightarrow> (\<forall>c\<in>set cs. c \<le> 0x10ffff \<and> (\<forall>tail. tail \<noteq> [] \<longrightarrow> lex_step f 34 (enc c @ tail) = Some (Emit c tail)))"

lemma string_loop_reads:
  assumes "reads_as f enc cs" "rest \<noteq> []" "heap_ok h" "granting h" "sb_ok b" "\<not> sb_error b"
    "int (sb_len b + length (concat (map utf16 cs))) \<le> JS_STRING_LEN_MAX"
  shows "\<exists>h' b'. string_loop f 34 h b line (concat (map enc cs) @ 34 # rest) = Some (Inr (34, rest), h', b', line)
    \<and> after h b 0 (wide_units (concat (map utf16 cs))) (concat (map utf16 cs)) 0 h' b' \<and> granting h' \<and> \<not> sb_error b'"
  using assms
proof (induction cs arbitrary: h b)
  case Nil
  have "after h b 0 False [] 0 h b" using nothing_post [of h b 0] Nil sb_ok_le [of b] by (simp add: post_def)
  then show ?case using Nil lex_close [OF Nil(2)] by (simp add: string_loop.simps)
next
  case (Cons c cs)
  let ?us = "concat (map utf16 cs)" and ?tail = "concat (map enc cs) @ 34 # rest"
  have c: "c \<le> 0x10ffff" and step: "lex_step f 34 (enc c @ ?tail) = Some (Emit c ?tail)" and cs: "reads_as f enc cs"
    using Cons.prems(1) by (auto simp: reads_as_def)
  obtain e h1 b1 where put: "string_buffer_putc h b c = Some (e, h1, b1)" "after h b 0 (wide_units (utf16 c)) (utf16 c) e h1 b1"
    using putc_post [OF Cons.prems(3,5) c] by (rule postE)
  note D = afterD [OF put(2)]
  have ok: "granting h1 \<and> \<not> sb_error b1" using Cons.prems(4,6,7) by (intro D(5)) simp_all
  then have e: "e = 0" using D(4) by blast
  note len = after_len [OF put(2) Cons.prems(5) conjunct2 [OF ok]]
  have "int (sb_len b1 + length ?us) \<le> JS_STRING_LEN_MAX" using len Cons.prems(7) by simp
  then obtain h2 b2 where two: "string_loop f 34 h1 b1 line ?tail = Some (Inr (34, rest), h2, b2, line)"
      "after h1 b1 0 (wide_units ?us) ?us 0 h2 b2" "granting h2" "\<not> sb_error b2"
    using Cons.IH [OF cs, of h1 b1] Cons.prems(2) D(1,2) ok by auto
  have "string_loop f 34 h b line (enc c @ ?tail) = Some (Inr (34, rest), h2, b2, line)"
    using string_loop_emit [OF step] put(1) e two(1) by simp
  moreover have "after h b 0 (wide_units (utf16 c) \<or> wide_units ?us) (utf16 c @ ?us) 0 h2 b2"
    using after_trans [OF put(2) [unfolded e] two(2) _ Cons.prems(5)] by simp
  ultimately show ?case using two(3,4) by simp
qed

lemma parse_reads:
  assumes "reads_as f enc cs" "rest \<noteq> []" "heap_ok h" "granting h" "int (length (concat (map utf16 cs))) \<le> JS_STRING_LEN_MAX"
  obtains s h' where "js_parse_string f 34 h line (concat (map enc cs) @ 34 # rest) =
      Some (Inr \<lparr>tok_sep = 34, tok_str = Some s, tok_rest = rest\<rparr>, h', line)" "is_string (concat (map utf16 cs)) s"
proof -
  let ?us = "concat (map utf16 cs)"
  obtain h1 b where i: "string_buffer_init h 32 = Some (status b, h1, b)" "heap_ok h1" "fresh b" "granting h \<longrightarrow> granting h1 \<and> \<not> sb_error b"
    by (rule init_fresh [OF assms(3), of 32]) (simp_all add: JS_STRING_LEN_MAX_def)
  have b: "granting h1" "\<not> sb_error b" "sb_ok b" "sb_len b = 0" using i(3,4) assms(4) by (simp_all add: fresh_def)
  have "int (sb_len b + length ?us) \<le> JS_STRING_LEN_MAX" using b(4) assms(5) by simp
  from string_loop_reads [OF assms(1,2) i(2) b(1,3,2) this]
  obtain h2 b2 where l: "string_loop f 34 h1 b line (concat (map enc cs) @ 34 # rest) = Some (Inr (34, rest), h2, b2, line)"
      "after h1 b 0 (wide_units ?us) ?us 0 h2 b2" "\<not> sb_error b2"
    by blast
  obtain r h3 where r: "string_buffer_end h2 b2 = Some (r, h3)"
      "case r of None \<Rightarrow> sb_error b2 \<and> \<not> (granting h1 \<and> \<not> sb_error b) | Some s \<Rightarrow> is_string ?us s"
    using end_after [OF l(2) i(3) assms(5)] by blast
  then obtain s where s: "r = Some s" "is_string ?us s" using l(3) by (cases r) auto
  have "js_parse_string f 34 h line (concat (map enc cs) @ 34 # rest) =
      Some (Inr \<lparr>tok_sep = 34, tok_str = Some s, tok_rest = rest\<rparr>, h3, line)"
    unfolding js_parse_string_def i(1) using b(2) l(1) r(1) s(1) by (simp add: status_def)
  then show thesis using s(2) that by blast
qed

subsection \<open>The quoted string\<close>

definition not_surrogate :: "u32 \<Rightarrow> bool" where
  "not_surrogate c \<longleftrightarrow> c \<le> 0x10ffff \<and> \<not> (0xd800 \<le> c \<and> c < 0xe000)"

lemma utf16_not_surrogate:
  assumes "not_surrogate c"
  obtains u where "utf16 c = [u]" "to_u32 u = c" "\<not> is_hi (to_u32 u)"
    | u u1 where "utf16 c = [u, u1]" "is_hi (to_u32 u)" "is_lo (to_u32 u1)" "pair_char (to_u32 u) (to_u32 u1) = c"
proof (cases "c < 0x10000")
  case True
  then have "unat c < 65536" by (simp add: word_less_nat_alt)
  then have "to_u32 (ucast c :: u16) = c" by (simp add: word_unat_eq_iff unat_ucast)
  moreover have "\<not> is_hi c" using assms by (auto simp: not_surrogate_def is_hi_def word_less_nat_alt word_le_nat_alt)
  ultimately show thesis using that(1) True by (simp add: utf16_def)
next
  case False
  then have lo: "0x10000 \<le> c" by (simp only: not_less)
  have c: "c \<le> 0x10ffff" using assms by (simp add: not_surrogate_def)
  let ?a = "drop_bit 10 (c - 0x10000) + 0xd800 :: u32" and ?b = "((c - 0x10000) AND 0x3ff) + 0xdc00 :: u32"
  let ?u = "ucast ?a :: u16" and ?v = "ucast ?b :: u16"
  note su = surrogates [OF lo c]
  have m: "(unat c - 0x10000) mod 1024 < 1024" by simp
  have u: "unat ?u = 0xd800 + (unat c - 0x10000) div 1024" "unat ?v = 0xdc00 + (unat c - 0x10000) mod 1024"
    using su m by (simp_all add: unat_ucast)
  have hl: "is_hi (to_u32 ?u)" "is_lo (to_u32 ?v)"
    using u su(3) m by (simp_all add: is_hi_def is_lo_def word_le_nat_alt word_less_nat_alt del: mod_less_divisor)
  have "unat (pair_char (to_u32 ?u) (to_u32 ?v)) = 1024 * ((unat c - 0x10000) div 1024) + (unat c - 0x10000) mod 1024 + 0x10000"
    unfolding unat_pair_char [OF hl] unat_to_u32 u by simp
  also have "\<dots> = unat c" using lo by (simp add: word_le_nat_alt)
  finally have "pair_char (to_u32 ?u) (to_u32 ?v) = c" by (simp add: word_unat_eq_iff)
  then show thesis using that(2) hl False by (simp add: utf16_def)
qed

lemma code_points_utf16: "list_all not_surrogate cs \<Longrightarrow> code_points False (concat (map utf16 cs)) = cs"
proof (induction cs)
  case (Cons c cs)
  then have IH: "code_points False (concat (map utf16 cs)) = cs" and c: "not_surrogate c" by simp_all
  from c show ?case
  proof (cases rule: utf16_not_surrogate)
    case (1 u)
    then show ?thesis using IH by (cases "concat (map utf16 cs)") auto
  next
    case (2 u u1)
    then show ?thesis using IH by simp
  qed
qed simp

lemma quote_cases:
  obtains x where "x \<le> 0xff" "quoted c = [92, x]" "quote_char c = [Putc8 92, Putc8 x]"
    | "quoted c = map to_u32 (escape_u c)" "quote_char c = [Write8 (escape_u c)]"
    | "quoted c = [c]" "quote_char c = [Putc c]" "\<not> (0xd800 \<le> c \<and> c < 0xe000)"
proof -
  consider "c \<in> {9, 13, 10, 8, 12, 34, 92}" | "c \<notin> {9, 13, 10, 8, 12, 34, 92}" "c < 32 \<or> (0xd800 \<le> c \<and> c < 0xe000)"
    | "c \<notin> {9, 13, 10, 8, 12, 34, 92}" "\<not> (c < 32 \<or> (0xd800 \<le> c \<and> c < 0xe000))" by blast
  then show thesis
  proof cases
    case 1
    then show thesis using that(1) [of 116] that(1) [of 114] that(1) [of 110] that(1) [of 98] that(1) [of 102] that(1) [of c]
      by (auto simp: quoted_def quote_char_def)
  next
    case 2
    then show thesis by (intro that(2)) (simp_all add: quoted_def quote_char_def)
  next
    case 3
    then have "quoted c = [c]" "quote_char c = [Putc c]" unfolding quoted_def quote_char_def by auto
    then show thesis using 3(2) by (intro that(3)) blast+
  qed
qed

lemma quoted_not_surrogate: "c \<le> 0x10ffff \<Longrightarrow> list_all not_surrogate (quoted c)"
proof -
  assume c: "c \<le> 0x10ffff"
  have small: "not_surrogate x" if "x \<le> 0xff" for x
    using that by (simp add: not_surrogate_def word_le_nat_alt word_less_nat_alt)
  have byte: "to_u32 b \<le> 0xff" for b :: u8 using unat_u8_lt [of b] by (simp add: word_le_nat_alt unat_ucast)
  show ?thesis
  proof (cases rule: quote_cases [of c])
    case (1 x)
    then show ?thesis using small [of 92] small [of x] by simp
  next
    case 2
    then show ?thesis using small [OF byte] by (simp add: list_all_iff)
  next
    case 3
    then show ?thesis using c by (simp add: not_surrogate_def)
  qed
qed

lemma utf16_bytes: "concat (map utf16 (map to_u32 bs)) = map ucast (bs :: u8 list)"
proof (induction bs)
  case (Cons x bs)
  have "unat (to_u32 x) < 256" using unat_u8_lt [of x] by (simp add: unat_ucast)
  then have "utf16 (to_u32 x) = [ucast x]"
    using unat_u8_lt [of x] by (simp add: utf16_def word_less_nat_alt word_unat_eq_iff unat_ucast)
  then show ?case using Cons by simp
qed simp

lemma quote_char_units:
  assumes "c \<le> 0x10ffff"
  shows "ops_units (quote_char c) = concat (map utf16 (quoted c)) \<and> list_all op_ok (quote_char c)
    \<and> length (concat (map utf16 (quoted c))) \<le> 6"
proof (cases rule: quote_cases [of c])
  case (1 x)
  have low: "utf16 y = [ucast y]" if "y \<le> 0xff" for y :: u32 using that by (simp add: utf16_def word_le_nat_alt word_less_nat_alt)
  then show ?thesis using 1 low [of 92] low [of x] by simp
next
  case 2
  then show ?thesis using utf16_bytes [of "escape_u c"] by (simp add: escape_u_def del: map_map)
next
  case 3
  then show ?thesis using assms by (simp add: utf16_def)
qed

lemma getc_code_points:
  assumes "string_ok p" "i < str_len p"
  shows "\<exists>c i'. string_getc p i = Some (c, i') \<and> i' \<le> str_len p
    \<and> code_points False (drop i (js_units p)) = c # code_points False (drop i' (js_units p))"
proof -
  let ?us = "js_units p"
  have len: "length ?us = str_len p" by (simp add: js_units_def)
  have get: "string_get p j = Some (?us ! j)" if "j < str_len p" for j
    unfolding string_get_def using that assms(1) room_mono [of "Suc j" "str_len p" "str_wide p"]
    by (subst get_unit_Some) (auto simp: string_ok_def js_units_def units_def)
  have drop: "drop i ?us = ?us ! i # drop (Suc i) ?us" using assms(2) len by (simp add: Cons_nth_drop_Suc)
  have narrow: "\<not> is_hi (to_u32 (?us ! j))" if "\<not> str_wide p" "j < str_len p" for j
    using that unit_at_narrow [of "cells (str_mem p)" j] by (auto simp: js_units_def units_def is_hi_def word_le_nat_alt word_less_nat_alt)
  show ?thesis
  proof (cases "str_wide p \<and> is_hi (to_u32 (?us ! i)) \<and> i + 1 < str_len p")
    case True
    have "drop (Suc i) ?us = ?us ! Suc i # drop (Suc (Suc i)) ?us" using True len by (simp add: Cons_nth_drop_Suc)
    then show ?thesis using True get [OF assms(2)] get [of "Suc i"] drop by (auto simp: string_getc_def Let_def)
  next
    case False
    have "code_points False (drop i ?us) = to_u32 (?us ! i) # code_points False (drop (Suc i) ?us)"
    proof (cases "drop (Suc i) ?us")
      case Nil
      then show ?thesis using drop by simp
    next
      case (Cons u1 us)
      then have "Suc i < str_len p" using len by (metis drop_eq_Nil list.distinct(1) not_less)
      then show ?thesis using False drop Cons narrow [OF _ assms(2)] by auto
    qed
    then show ?thesis using False get [OF assms(2)] assms(2) by (auto simp: string_getc_def Let_def)
  qed
qed

lemma quote_ops_eq:
  "string_ok p \<Longrightarrow> i \<le> str_len p \<Longrightarrow> quote_ops p i = Some (concat (map quote_char (code_points False (drop i (js_units p)))))"
proof (induction p i rule: quote_ops.induct)
  case (1 p i)
  show ?case
  proof (cases "i < str_len p")
    case False
    then show ?thesis using 1(3) by (subst quote_ops.simps) (simp add: js_units_def)
  next
    case True
    obtain c i' where g: "string_getc p i = Some (c, i')" "i' \<le> str_len p"
        "code_points False (drop i (js_units p)) = c # code_points False (drop i' (js_units p))"
      using getc_code_points [OF 1(2) True] by blast
    from 1(1) [OF True g(1) refl 1(2) g(2)] show ?thesis using True g by (subst quote_ops.simps) simp
  qed
qed

lemma quoted_string:
  assumes "heap_ok h" "granting h" "string_ok p" "6 * int (str_len p) + 2 \<le> JS_STRING_LEN_MAX"
  obtains q h' where "JS_ToQuotedString h p = Some (Some q, h')" "heap_ok h'" "granting h'" "string_ok q"
    "js_units q = concat (map utf16 (34 # concat (map quoted (code_points False (js_units p))) @ [34]))"
    "str_len q \<le> 6 * str_len p + 2"
proof -
  let ?cs = "code_points False (js_units p)"
  let ?qs = "concat (map quoted ?cs)"
  define ops where "ops = Putc8 34 # concat (map quote_char ?cs) @ [Putc8 34]"
  have cs: "\<forall>c\<in>set ?cs. c \<le> 0x10ffff" using code_points_range by blast
  have quotes: "ops_units (concat (map quote_char cs)) = concat (map utf16 (concat (map quoted cs)))
      \<and> list_all op_ok (concat (map quote_char cs)) \<and> length (concat (map utf16 (concat (map quoted cs)))) \<le> 6 * length cs"
    if "\<forall>c\<in>set cs. c \<le> 0x10ffff" for cs
    using that by (induction cs) (use quote_char_units in \<open>fastforce+\<close>)
  have q34: "utf16 34 = [34]" by (simp add: utf16_def)
  have units: "ops_units ops = concat (map utf16 (34 # ?qs @ [34]))" and ok: "list_all op_ok ops"
    using quotes [OF cs] q34 by (simp_all add: ops_def)
  have "length (code_points z us) \<le> length us" for z us by (induction z us rule: code_points.induct) auto
  then have "length ?cs \<le> str_len p" using length_units by (metis js_units_def)
  then have len: "length (ops_units ops) \<le> 6 * str_len p + 2" using quotes [OF cs] units q34 by simp
  then have max: "int (length (ops_units ops)) \<le> JS_STRING_LEN_MAX" using assms(4) by linarith
  have n: "0 \<le> int (str_len p) + 2" "int (str_len p) + 2 \<le> JS_STRING_LEN_MAX" using assms(4) by linarith+
  then have s32: "s32 (int (str_len p) + 2) = int (str_len p) + 2" by (intro s32_id) (simp_all add: JS_STRING_LEN_MAX_def)
  obtain h1 b where i: "string_buffer_init h (int (str_len p) + 2) = Some (status b, h1, b)" "heap_ok h1" "fresh b"
      "granting h \<longrightarrow> granting h1 \<and> \<not> sb_error b"
    by (rule init_fresh [OF assms(1) n])
  have b: "granting h1" "\<not> sb_error b" "sb_ok b" "sb_len b = 0" using i(3,4) assms(2) by (simp_all add: fresh_def)
  obtain e h2 b2 where t: "sb_try h1 b ops = Some (e, h2, b2)" "after h1 b 0 (wide_units (ops_units ops)) (ops_units ops) e h2 b2"
    using sb_try_post [OF i(2) b(3) ok] by (rule postE)
  have g: "granting h2 \<and> \<not> sb_error b2" using b max by (intro afterD(5) [OF t(2)]) simp_all
  then have e: "e = 0" using afterD(4) [OF t(2)] by blast
  have l2: "int (sb_len b2) \<le> JS_STRING_LEN_MAX" using after_len [OF t(2) b(3)] g b(4) max by simp
  obtain q h3 where q: "string_buffer_end h2 b2 = Some (Some q, h3)" "heap_ok h3" "string_ok q" "js_units q = sb_units b2"
      "str_wide q \<longleftrightarrow> sb_wide b2 \<and> sb_units b2 \<noteq> []" "granting h2 \<longrightarrow> granting h3"
    by (rule end_spec [OF afterD(1,2) [OF t(2)] conjunct2 [OF g] l2])
  have "sb_units b2 = ops_units ops" using afterD(7) [OF t(2)] g i(3) by (simp add: fresh_def)
  moreover have "quote_ops p 0 = Some (concat (map quote_char ?cs))" using quote_ops_eq [OF assms(3), of 0] by simp
  then have "JS_ToQuotedString h p = Some (Some q, h3)"
    unfolding JS_ToQuotedString_def s32 i(1) using b(2) t(1) [unfolded ops_def] e q(1) by (simp add: status_def del: sb_try.simps)
  moreover have "granting h3" using q(6) g by blast
  ultimately show thesis using that q(2-4) units len by (metis js_units_def length_units)
qed

lemma quoted_bytes:
  "concat (map unicode_to_utf8 (concat (map quoted cs))) = concat (map (\<lambda>c. concat (map unicode_to_utf8 (quoted c))) cs)"
  by (induction cs) simp_all

section \<open>Properties\<close>

text \<open>
  C2. Quoting and reading back: the text that \<open>JS_ToQuotedString\<close> makes of a string, as UTF-8, is read by the lexer in JSON
  mode up to its closing quote as a string with the same 16 bit units, for every string, control characters and
  unpaired surrogates included, when no allocation is refused.
\<close>

theorem quote_parse_roundtrip:
  assumes "heap_ok h" "granting h" "string_ok p" "18 * int (str_len p) + 6 \<le> JS_STRING_LEN_MAX"
  shows "\<exists>q h1 bs h2 tok h3 r. JS_ToQuotedString h p = Some (Some q, h1)
    \<and> JS_ToCStringLen2 h1 q False = Some (Some (34 # bs), h2)
    \<and> js_parse_string None 34 h2 line (bs @ [0]) = Some (Inr tok, h3, line)
    \<and> tok_rest tok = [0] \<and> tok_str tok = Some r \<and> string_ok r \<and> js_units r = js_units p"
proof -
  let ?cs = "code_points False (js_units p)"
  let ?bs = "concat (map unicode_to_utf8 (concat (map quoted ?cs)))"
  have "6 * int (str_len p) + 2 \<le> JS_STRING_LEN_MAX" using assms(4) by linarith
  then obtain q h1 where q: "JS_ToQuotedString h p = Some (Some q, h1)" "heap_ok h1" "granting h1" "string_ok q"
      "js_units q = concat (map utf16 (34 # concat (map quoted ?cs) @ [34]))" "str_len q \<le> 6 * str_len p + 2"
    by (rule quoted_string [OF assms(1-3)])
  have cs: "\<forall>c\<in>set ?cs. c \<le> 0x10ffff" using code_points_range by blast
  have ns: "list_all not_surrogate (34 # concat (map quoted ?cs) @ [34])"
  proof -
    have "list_all not_surrogate (concat (map quoted cs))" if "\<forall>c\<in>set cs. c \<le> 0x10ffff" for cs
      using that by (induction cs) (simp_all add: quoted_not_surrogate)
    then show ?thesis using cs by (simp add: not_surrogate_def)
  qed
  have "3 * int (str_len q) \<le> JS_STRING_LEN_MAX" using q(6) assms(4) by linarith
  from to_cstring_spec [OF q(2,4) this, of False] obtain h2 where
    c: "JS_ToCStringLen2 h1 q False = Some (Some (concat (map unicode_to_utf8 (code_points False (js_units q)))), h2)" "heap_ok h2" "granting h2"
    using q(3) by (metis (no_types, lifting))
  have bytes: "concat (map unicode_to_utf8 (code_points False (js_units q))) = 34 # ?bs @ [34]"
    unfolding q(5) code_points_utf16 [OF ns] by (simp add: unicode_to_utf8_def)
  let ?enc = "\<lambda>c. concat (map unicode_to_utf8 (quoted c))"
  have reads: "reads_as None ?enc ?cs" using cs lex_quoted by (auto simp: reads_as_def)
  have enc: "?bs = concat (map ?enc ?cs)" by (rule quoted_bytes)
  have us: "concat (map utf16 ?cs) = js_units p" by (rule utf16_code_points)
  have max: "int (length (concat (map utf16 ?cs))) \<le> JS_STRING_LEN_MAX" using assms(4) unfolding us by (simp add: js_units_def)
  obtain s h3 where s: "js_parse_string None 34 h2 line (concat (map ?enc ?cs) @ 34 # [0]) =
      Some (Inr \<lparr>tok_sep = 34, tok_str = Some s, tok_rest = [0]\<rparr>, h3, line)" "is_string (concat (map utf16 ?cs)) s"
    using parse_reads [OF reads list.distinct(2) c(2,3) max] by blast
  have "js_parse_string None 34 h2 line ((?bs @ [34]) @ [0]) = Some (Inr \<lparr>tok_sep = 34, tok_str = Some s, tok_rest = [0]\<rparr>, h3, line)"
    using s(1) unfolding enc by simp
  then show ?thesis using q(1) c(1) s(2) unfolding bytes us is_string_def by fastforce
qed

theorem quote_parse_roundtrip_witness:
  "\<exists>q h1 bs h2 tok h3 r. JS_ToQuotedString roomy sample_string = Some (Some q, h1)
    \<and> JS_ToCStringLen2 h1 q False = Some (Some (34 # bs), h2)
    \<and> js_parse_string None 34 h2 1 (bs @ [0]) = Some (Inr tok, h3, 1)
    \<and> tok_rest tok = [0] \<and> tok_str tok = Some r \<and> string_ok r \<and> js_units r = [0x41, 0xd83d, 0xde00, 0xd800]"
  using quote_parse_roundtrip [OF roomy_ok sample_string_units(1), of 1] unfolding sample_string_units(2)
  by (simp add: sample_string_def JS_STRING_LEN_MAX_def)

text \<open>
  C8. The lexer for string literals returns for every source text, valid or not, in every mode and for every separator, and
  never reads past the null byte that ends the text nor writes outside its buffer; a token ends inside the text.
\<close>

theorem parse_string_safe:
  assumes "heap_ok h" "2 * int (length src) + 2 \<le> JS_STRING_LEN_MAX"
  shows "\<exists>r h' line'. js_parse_string cur_func sep h line (src @ [0]) = Some (r, h', line')
    \<and> (case r of Inl e \<Rightarrow> True | Inr tok \<Rightarrow> (\<exists>n. 0 < n \<and> n \<le> length src \<and> tok_rest tok = drop n src @ [0]))"
proof -
  obtain h1 b where i: "string_buffer_init h 32 = Some (status b, h1, b)" "heap_ok h1" "fresh b"
    by (rule init_fresh [OF assms(1), of 32]) (simp_all add: JS_STRING_LEN_MAX_def)
  have b: "sb_ok b" "sb_len b = 0" using i(3) by (simp_all add: fresh_def)
  show ?thesis
  proof (cases "sb_error b")
    case True
    then show ?thesis using i(1) by (simp add: js_parse_string_def status_def)
  next
    case False
    have "nul_end (src @ [0])" by (simp add: nul_end_def)
    from string_loop_safe [OF i(2) b(1) this] obtain r h2 b2 line' where l:
      "string_loop cur_func sep h1 b line (src @ [0]) = Some (r, h2, b2, line')" "heap_ok h2" "sb_ok b2"
      "\<forall>c q. r = Inr (c, q) \<longrightarrow> ahead (src @ [0]) q" "sb_len b2 \<le> sb_len b + 2 * length (src @ [0])" by blast
    show ?thesis
    proof (cases r)
      case (Inl e)
      then show ?thesis using i(1) False l(1) by (simp add: js_parse_string_def status_def)
    next
      case (Inr cq)
      obtain c q where cq: "cq = (c, q)" by (cases cq)
      have "int (sb_len b2) \<le> JS_STRING_LEN_MAX" using l(5) b(2) assms(2) by simp
      then have "\<exists>x. string_buffer_end h2 b2 = Some x"
        using end_spec [OF l(2,3)] end_error by (cases "sb_error b2") blast+
      then obtain str h3 where e: "string_buffer_end h2 b2 = Some (str, h3)" by auto
      have "ahead (src @ [0]) q" using l(4) Inr cq by blast
      then have "\<exists>n. 0 < n \<and> n \<le> length src \<and> q = drop n src @ [0]" by (auto simp: ahead_def)
      then show ?thesis using i(1) False l(1) Inr cq e by (simp add: js_parse_string_def status_def)
    qed
  qed
qed

theorem parse_string_safe_witness:
  "\<exists>r h' line'. js_parse_string (Some False) 34 roomy 1 ([0x5c, 0x75, 0x7b, 0x31] @ [0]) = Some (r, h', line')
    \<and> (case r of Inl e \<Rightarrow> True | Inr tok \<Rightarrow> (\<exists>n. 0 < n \<and> n \<le> length [0x5c, 0x75, 0x7b, 0x31 :: u8] \<and> tok_rest tok = drop n [0x5c, 0x75, 0x7b, 0x31] @ [0]))"
  by (rule parse_string_safe [OF roomy_ok(1)]) (simp add: JS_STRING_LEN_MAX_def)

end
