(* ===== verification/Harness.thy ===== *)
theory Harness
  imports QJS_Quote
begin

text \<open>
  The program's own C++ code: the class \<open>JS\<close> of \<open>js.cpp\<close> and \<open>js.h\<close>, the libFuzzer entry points of \<open>harness.cpp\<close> and
  \<open>JS_JSStringToChar\<close>, which the harness adds to \<open>quickjs.c\<close>.

  The file system and the compiler (\<open>JS_Eval\<close> with \<open>JS_WriteObject\<close>) are arguments. The engine that runs the script is the
  argument \<open>eng\<close>, a record of the calls that \<open>Run\<close> makes. A call that ends the process is a value: \<open>Exit\<close> for \<open>exit\<close>, \<open>Throw\<close>
  for an exception that nobody catches.
\<close>

section \<open>Model\<close>

definition ascii :: "string \<Rightarrow> u8 list" where
  "ascii s = map of_char s"

datatype 'a outcome = Return 'a | Exit int | Throw

subsection \<open>The class JS\<close>

record JS =
  bytecode :: "u8 list"
  memoryLimit :: u64

definition JS_new :: JS where
  "JS_new = \<lparr>bytecode = [], memoryLimit = 0\<rparr>"

definition SetBytecode :: "JS \<Rightarrow> u8 list \<Rightarrow> JS" where
  "SetBytecode js bc = js\<lparr>bytecode := bc\<rparr>"

definition SetMemoryLimit :: "JS \<Rightarrow> u64 \<Rightarrow> JS" where
  "SetMemoryLimit js limit = js\<lparr>memoryLimit := limit\<rparr>"

text \<open>\<open>None\<close>: the file cannot be opened. An empty file is an error too.\<close>

type_synonym files = "u8 list \<Rightarrow> u8 list option"
type_synonym compiler = "u8 list \<Rightarrow> u8 list \<Rightarrow> u8 list option"

definition LoadFile :: "files \<Rightarrow> u8 list \<Rightarrow> u8 list outcome" where
  "LoadFile fs fn = (case fs fn of None \<Rightarrow> Throw | Some buffer \<Rightarrow> if buffer = [] then Throw else Return buffer)"

definition CompileJavascript :: "files \<Rightarrow> compiler \<Rightarrow> u8 list \<Rightarrow> u8 list outcome" where
  "CompileJavascript fs compile fn =
     (case LoadFile fs fn of
        Throw \<Rightarrow> Exit 1
      | Exit n \<Rightarrow> Exit n
      | Return buffer \<Rightarrow> (case compile fn buffer of None \<Rightarrow> Exit 1 | Some bc \<Rightarrow> Return bc))"

subsection \<open>The input script\<close>

text \<open>\<open>std::to_string\<close> of a byte and \<open>sprintf("%02X")\<close>.\<close>

definition dec_digit :: "nat \<Rightarrow> u8" where
  "dec_digit k = word_of_nat (48 + k mod 10)"

definition to_string :: "u8 \<Rightarrow> u8 list" where
  "to_string b =
     (let n = unat b in
      if n < 10 then [dec_digit n] else if n < 100 then [dec_digit (n div 10), dec_digit n]
      else [dec_digit (n div 100), dec_digit (n div 10), dec_digit n])"

definition hex_upper :: "u8 \<Rightarrow> u8" where
  "hex_upper d = (if d < 10 then d + 48 else d + 55)"

definition escape_x :: "u8 \<Rightarrow> u8 list" where
  "escape_x b = [92, 92, 120, hex_upper (drop_bit 4 b), hex_upper (b AND 15)]"

fun scriptBody :: "bool \<Rightarrow> u8 list \<Rightarrow> u8 list" where
  "scriptBody asString [] = []"
| "scriptBody asString (b # bs) =
     (if asString then escape_x b else to_string b @ (if bs = [] then [] else [44])) @ scriptBody asString bs"

definition scriptHeader :: "bool \<Rightarrow> u8 list" where
  "scriptHeader asString =
     (if asString then ascii ''var FuzzerOutput; var FuzzerInput = '' @ [34]
      else ascii ''var FuzzerOutput; var FuzzerInput = new Uint8Array(['')"

definition scriptFooter :: "bool \<Rightarrow> u8 list" where
  "scriptFooter asString = (if asString then [34, 59] else ascii '']);'')"

definition script :: "bool \<Rightarrow> u8 list \<Rightarrow> u8 list" where
  "script asString input = scriptHeader asString @ scriptBody asString input @ scriptFooter asString"

subsection \<open>The output\<close>

text \<open>\<open>JS_JSStringToChar\<close> on a string: the length without a buffer, and the buffer with it. \<open>None\<close> is an access outside.\<close>

definition JS_JSStringToChar_len :: "JSString \<Rightarrow> nat" where
  "JS_JSStringToChar_len p = str_len p"

definition JS_JSStringToChar :: "JSString \<Rightarrow> u8 list \<Rightarrow> u8 list option" where
  "JS_JSStringToChar p out =
     do {
       bs \<leftarrow> slice (cells (str_mem p)) sizeof_JSString (str_len p);
       out \<leftarrow> blit out 0 bs;
       wr out (str_len p) 0
     }"

text \<open>\<open>std::string(s)\<close>: the bytes up to the null byte.\<close>

definition c_str :: "u8 list \<Rightarrow> u8 list option" where
  "c_str m = (if 0 \<in> set m then Some (takeWhile (\<lambda>b. b \<noteq> 0) m) else None)"

datatype js_value = JS_Exception | JS_Other | JS_Str JSString

text \<open>The memory that \<open>malloc\<close> returns holds \<open>junk\<close>.\<close>

definition extract_output :: "(nat \<Rightarrow> u8) \<Rightarrow> js_value \<Rightarrow> u8 list option outcome option" where
  "extract_output junk val =
     (case val of
        JS_Exception \<Rightarrow> Some (Exit 1)
      | JS_Other \<Rightarrow> Some (Return None)
      | JS_Str p \<Rightarrow>
          let sz = JS_JSStringToChar_len p in
          if sz > 0 then
            do {
              out \<leftarrow> JS_JSStringToChar p (map junk [0..<sz + 1]);
              s \<leftarrow> c_str out;
              Some (Return (Some s))
            }
          else Some (Return None))"

subsection \<open>Running\<close>

record 'e engine =
  eng_new :: 'e
  eng_set_memory_limit :: "u64 \<Rightarrow> 'e \<Rightarrow> 'e"
  eng_set_gc_threshold :: "u64 \<Rightarrow> 'e \<Rightarrow> 'e"
  eng_add_helpers :: "'e \<Rightarrow> 'e"
  eng_eval :: "u8 list \<Rightarrow> 'e \<Rightarrow> bool \<times> 'e"
  eng_eval_binary :: "u8 list \<Rightarrow> 'e \<Rightarrow> 'e"
  eng_loop :: "'e \<Rightarrow> 'e"
  eng_output :: "'e \<Rightarrow> js_value"

definition Run :: "(nat \<Rightarrow> u8) \<Rightarrow> 'e engine \<Rightarrow> JS \<Rightarrow> u8 list \<Rightarrow> bool \<Rightarrow> u8 list option outcome option" where
  "Run junk eng js input asString =
     (if bytecode js = [] then Some (Exit 1)
      else
        let e = eng_new eng;
            e = (if memoryLimit js \<noteq> 0 then eng_set_memory_limit eng (memoryLimit js) e else e);
            e = eng_add_helpers eng (eng_set_gc_threshold eng (- 1) e);
            (exception, e) = eng_eval eng (script asString input) e
        in if exception then Some (Exit 1)
           else extract_output junk (eng_output eng (eng_loop eng (eng_eval_binary eng (bytecode js) e))))"

subsection \<open>libFuzzer entry points\<close>

definition starts :: "string \<Rightarrow> u8 list \<Rightarrow> bool" where
  "starts pre s = (take (length pre) s = ascii pre)"

fun read_args :: "files \<Rightarrow> compiler \<Rightarrow> JS \<Rightarrow> bool \<Rightarrow> u8 list list \<Rightarrow> (JS \<times> bool) outcome" where
  "read_args fs compile js haveCode [] = Return (js, haveCode)"
| "read_args fs compile js haveCode (curArg # argv) =
     (if starts ''--js='' curArg then
        (case CompileJavascript fs compile (drop 5 curArg) of
           Return bc \<Rightarrow> read_args fs compile (SetBytecode js bc) True argv
         | Exit n \<Rightarrow> Exit n
         | Throw \<Rightarrow> Throw)
      else if starts ''--bc='' curArg then
        (case LoadFile fs (drop 5 curArg) of
           Return bc \<Rightarrow> read_args fs compile (SetBytecode js bc) True argv
         | Exit n \<Rightarrow> Exit n
         | Throw \<Rightarrow> Throw)
      else read_args fs compile js haveCode argv)"

definition LLVMFuzzerInitialize :: "files \<Rightarrow> compiler \<Rightarrow> u8 list list \<Rightarrow> JS outcome" where
  "LLVMFuzzerInitialize fs compile argv =
     (case read_args fs compile JS_new False argv of
        Exit n \<Rightarrow> Exit n
      | Throw \<Rightarrow> Throw
      | Return (js, haveCode) \<Rightarrow>
          if haveCode then Return (SetMemoryLimit js (1024 * 1024 * 10)) else Exit 1)"

definition LLVMFuzzerTestOneInput :: "(nat \<Rightarrow> u8) \<Rightarrow> 'e engine \<Rightarrow> JS \<Rightarrow> u8 list \<Rightarrow> int outcome option" where
  "LLVMFuzzerTestOneInput junk eng js input =
     (case Run junk eng js input False of
        None \<Rightarrow> None
      | Some (Return r) \<Rightarrow> Some (Return 0)
      | Some (Exit n) \<Rightarrow> Some (Exit n)
      | Some Throw \<Rightarrow> Some Throw)"

section \<open>Arguments\<close>

text \<open>The code that an argument names.\<close>

definition code_of :: "files \<Rightarrow> compiler \<Rightarrow> u8 list \<Rightarrow> u8 list outcome option" where
  "code_of fs compile a =
     (if starts ''--js='' a then Some (CompileJavascript fs compile (drop 5 a))
      else if starts ''--bc='' a then Some (LoadFile fs (drop 5 a)) else None)"

fun failed :: "'a outcome \<Rightarrow> bool" where
  "failed (Return x) = False"
| "failed (Exit n) = True"
| "failed Throw = True"

fun cast :: "'a \<Rightarrow> 'b outcome \<Rightarrow> 'a outcome" where
  "cast y (Return x) = Return y"
| "cast y (Exit n) = Exit n"
| "cast y Throw = Throw"

fun the_code :: "u8 list outcome \<Rightarrow> u8 list" where
  "the_code (Return bc) = bc"
| "the_code _ = []"

definition sources :: "files \<Rightarrow> compiler \<Rightarrow> u8 list list \<Rightarrow> u8 list outcome list" where
  "sources fs compile argv = List.map_filter (code_of fs compile) argv"

lemma read_args_sources:
  "read_args fs compile js found argv =
     (case find failed (sources fs compile argv) of
        Some r \<Rightarrow> cast (js, found) r
      | None \<Rightarrow>
          if sources fs compile argv = [] then Return (js, found)
          else Return (SetBytecode js (the_code (last (sources fs compile argv))), True))"
proof (induction argv arbitrary: js found)
  case (Cons a argv)
  have cast: "failed r \<Longrightarrow> cast x r = cast y r" for x y :: "JS \<times> bool" and r :: "u8 list outcome" by (cases r) auto
  have failed: "find failed xs = Some r \<Longrightarrow> failed r" for xs :: "u8 list outcome list" and r by (auto simp: find_Some_iff)
  show ?case
  proof (cases "code_of fs compile a")
    case None
    then have src: "sources fs compile (a # argv) = sources fs compile argv" by (simp add: sources_def List.map_filter_simps)
    have "read_args fs compile js found (a # argv) = read_args fs compile js found argv" using None by (auto simp: code_of_def split: if_splits)
    then show ?thesis unfolding src using Cons.IH by simp
  next
    case (Some r)
    have src: "sources fs compile (a # argv) = r # sources fs compile argv" using Some by (simp add: sources_def List.map_filter_simps)
    have step: "read_args fs compile js found (a # argv) =
        (case r of Return bc \<Rightarrow> read_args fs compile (SetBytecode js bc) True argv | Exit n \<Rightarrow> Exit n | Throw \<Rightarrow> Throw)"
      using Some by (auto simp: code_of_def split: if_splits)
    show ?thesis
    proof (cases r)
      case (Return bc)
      have "SetBytecode (SetBytecode js bc) x = SetBytecode js x" for x by (simp add: SetBytecode_def)
      then show ?thesis unfolding step src using Return Cons.IH [of "SetBytecode js bc" True] cast failed
        by (auto split: option.splits)
    next
      case (Exit n)
      then show ?thesis unfolding step src by simp
    next
      case Throw
      then show ?thesis unfolding step src by simp
    qed
  qed
qed (simp add: sources_def List.map_filter_simps)

section \<open>The input as a string\<close>

definition literal_chars :: "u8 \<Rightarrow> u32 list" where
  "literal_chars b = [92, 120, to_u32 (hex_upper (drop_bit 4 b)), to_u32 (hex_upper (b AND 15))]"

definition enc_char :: "u32 \<Rightarrow> u8 list" where
  "enc_char c = (if c = 92 then [92, 92] else [to_u8 c])"

lemma hex_upper_range: "unat d < 16 \<Longrightarrow> 48 \<le> unat (hex_upper d) \<and> unat (hex_upper d) < 71"
  by (auto simp: hex_upper_def word_less_nat_alt unat_word_ariths)

lemma nibble_range: "unat (drop_bit 4 (b :: u8)) < 16" "unat (b AND 15) < 16"
  using unat_u8_lt [of b] by (simp add: unat_drop_bit, simp add: mask_numerals unat_and_mask)

lemma literal_range: "c \<in> set (literal_chars b) \<Longrightarrow> c = 92 \<or> (48 \<le> unat c \<and> unat c < 128 \<and> c \<noteq> 92)"
  using hex_upper_range [OF nibble_range(1), of b] hex_upper_range [OF nibble_range(2), of b]
  by (auto simp: literal_chars_def unat_ucast)

lemma literal_reads: "reads_as f enc_char (concat (map literal_chars bs))"
  unfolding reads_as_def
proof (intro ballI conjI allI impI)
  fix c and tail :: "u8 list"
  assume "c \<in> set (concat (map literal_chars bs))"
  then have c: "c = 92 \<or> (48 \<le> unat c \<and> unat c < 128 \<and> c \<noteq> 92)" using literal_range by auto
  then show max: "c \<le> 0x10ffff" by (auto simp: word_le_nat_alt)
  assume tail: "tail \<noteq> []"
  show "lex_step f 34 (enc_char c @ tail) = Some (Emit c tail)"
  proof (cases "c = 92")
    case True
    then show ?thesis using lex_backslashes [of f tail] by (simp add: enc_char_def)
  next
    case False
    then have u: "48 \<le> unat c" "unat c < 128" using c by auto
    then have "32 \<le> c" "c \<noteq> 34" "unicode_to_utf8 c = [to_u8 c]"
      by (auto simp: word_le_nat_alt unicode_to_utf8_def word_less_nat_alt)
    then show ?thesis using lex_plain [OF _ max _ False tail] False by (simp add: enc_char_def)
  qed
qed

lemma escape_x_enc: "escape_x b = concat (map enc_char (literal_chars b))"
proof -
  have "to_u8 (to_u32 x) = x" for x :: u8 by (rule bit_word_eqI) (auto simp: bit_simps)
  moreover have "to_u32 (hex_upper d) \<noteq> 92" if "unat d < 16" for d
    using hex_upper_range [OF that] by (auto simp: word_unat_eq_iff unat_ucast)
  ultimately show ?thesis using nibble_range [of b] by (simp add: escape_x_def literal_chars_def enc_char_def)
qed

lemma scriptBody_string: "scriptBody True bs = concat (map enc_char (concat (map literal_chars bs)))"
  by (induction bs) (simp_all add: escape_x_enc)

definition literal_units :: "u8 \<Rightarrow> u16 list" where
  "literal_units b = [92, 120, ucast (hex_upper (drop_bit 4 b)), ucast (hex_upper (b AND 15))]"

lemma literal_utf16: "concat (map utf16 (concat (map literal_chars bs))) = concat (map literal_units bs)"
proof (induction bs)
  case (Cons b bs)
  have "utf16 (to_u32 x) = [ucast x]" for x :: u8 using utf16_bytes [of "[x]"] by simp
  moreover have "utf16 92 = [92]" "utf16 120 = [120]" by (simp_all add: utf16_def)
  ultimately have "concat (map utf16 (literal_chars b)) = literal_units b" by (simp add: literal_chars_def literal_units_def)
  then show ?case using Cons by simp
qed simp

section \<open>The input as an array\<close>

text \<open>The elements of an array literal of decimal numbers.\<close>

fun split_commas :: "u8 list \<Rightarrow> u8 list list" where
  "split_commas [] = [[]]"
| "split_commas (c # cs) = (if c = 44 then [] # split_commas cs else (c # hd (split_commas cs)) # tl (split_commas cs))"

definition decimal :: "u8 list \<Rightarrow> nat" where
  "decimal ds = foldl (\<lambda>a d. 10 * a + (unat d - 48)) 0 ds"

definition array_elements :: "u8 list \<Rightarrow> nat list" where
  "array_elements t = (if t = [] then [] else map decimal (split_commas t))"

lemma unat_digit: "unat (dec_digit k) = 48 + k mod 10"
proof -
  have "48 + k mod 10 < 58" by simp
  then show ?thesis unfolding dec_digit_def by (intro unat_of_nat_eq) simp
qed

lemma to_string_digits: "44 \<notin> set (to_string b)" "to_string b \<noteq> []"
proof -
  have "dec_digit k \<noteq> 44" for k
  proof
    assume "dec_digit k = 44"
    then have "48 + k mod 10 = unat (44 :: u8)" using unat_digit [of k] by metis
    then show False by simp
  qed
  from this [symmetric] show "44 \<notin> set (to_string b)" "to_string b \<noteq> []" by (simp_all add: to_string_def Let_def)
qed

lemma decimal_to_string: "decimal (to_string b) = unat b"
proof -
  let ?n = "unat b"
  have n: "?n < 256" by (rule unat_u8_lt)
  have m: "10 * (?n div 10) + ?n mod 10 = ?n" "10 * (?n div 100) + ?n div 10 mod 10 = ?n div 10" by (simp_all add: div_mult2_eq [of _ 10 10, simplified])
  have "?n < 10 \<Longrightarrow> ?n mod 10 = ?n" "?n < 100 \<Longrightarrow> ?n div 10 mod 10 = ?n div 10" "?n div 100 mod 10 = ?n div 100" using n by simp_all
  then show ?thesis using m
    by (simp add: to_string_def decimal_def Let_def unat_digit)
qed

lemma split_commas_app: "44 \<notin> set s \<Longrightarrow> split_commas (s @ 44 # t) = s # split_commas t"
  by (induction s) auto

lemma split_commas_one: "44 \<notin> set s \<Longrightarrow> split_commas s = [s]"
  by (induction s) auto

lemma array_body: "array_elements (scriptBody False bs) = map unat bs"
proof (induction bs)
  case (Cons b bs)
  show ?case
  proof (cases bs)
    case Nil
    then show ?thesis using to_string_digits [of b] by (simp add: array_elements_def split_commas_one decimal_to_string)
  next
    case (Cons c cs)
    then have "scriptBody False bs \<noteq> []" using to_string_digits(2) [of c] by simp
    then have "array_elements (scriptBody False (b # bs)) = unat b # array_elements (scriptBody False bs)"
      using Cons to_string_digits(1) [of b] by (simp add: array_elements_def split_commas_app decimal_to_string del: scriptBody.simps(2) add: scriptBody.simps(2) [of False b])
    then show ?thesis using Cons.IH by simp
  qed
qed (simp add: array_elements_def)

section \<open>The output\<close>

definition le_units :: "u16 list \<Rightarrow> u8 list" where
  "le_units us = concat (map (\<lambda>u. [to_u8 u, to_u8 (drop_bit 8 u)]) us)"

text \<open>The bytes of a string in memory.\<close>

definition string_memory :: "JSString \<Rightarrow> u8 list" where
  "string_memory p = (if str_wide p then le_units (js_units p) else map to_u8 (js_units p))"

lemma length_le_units [simp]: "length (le_units us) = 2 * length us"
  by (induction us) (simp_all add: le_units_def)

lemma memory_narrow:
  assumes "room False n \<le> length m"
  shows "take n (drop sizeof_JSString m) = map to_u8 (units False m n)"
proof (rule nth_equalityI)
  fix i assume "i < length (take n (drop sizeof_JSString m))"
  moreover have "to_u8 (ucast b :: u16) = b" for b :: u8 by (rule bit_word_eqI) (auto simp: bit_simps)
  ultimately show "take n (drop sizeof_JSString m) ! i = map to_u8 (units False m n) ! i"
    using assms by (simp add: units_def unit_at_def room_def)
qed (use assms in \<open>simp add: room_def\<close>)

lemma memory_wide:
  assumes "room True n \<le> length m"
  shows "take (2 * n) (drop sizeof_JSString m) = le_units (units True m n)"
  using assms
proof (induction n)
  case (Suc n)
  let ?d = "drop sizeof_JSString m"
  have len: "2 * n + 1 < length ?d" using Suc.prems by (simp add: room_def)
  have "take (2 * Suc n) ?d = take (2 * n) ?d @ [?d ! (2 * n), ?d ! (2 * n + 1)]"
    using len take_Suc_conv_app_nth [of "2 * n" ?d] take_Suc_conv_app_nth [of "2 * n + 1" ?d] by simp
  moreover have "to_u8 (ucast a OR push_bit 8 (ucast b) :: u16) = a" "to_u8 (drop_bit 8 (ucast a OR push_bit 8 (ucast b) :: u16)) = b" for a b :: u8
    by (rule bit_word_eqI, auto simp: bit_simps dest: bit_imp_le_length)+
  ultimately show ?case using Suc len by (simp add: units_Suc le_units_def unit_at_def room_def add.commute)
qed (simp add: units_def le_units_def)

lemma memory_slice:
  assumes "string_ok p"
  shows "slice (cells (str_mem p)) sizeof_JSString (str_len p) = Some (take (str_len p) (string_memory p))"
proof -
  let ?m = "cells (str_mem p)"
  have room: "room (str_wide p) (str_len p) \<le> length ?m" using assms by (simp add: string_ok_def)
  have "take (str_len p) (drop sizeof_JSString ?m) = take (str_len p) (string_memory p)"
  proof (cases "str_wide p")
    case True
    then have "string_memory p = take (2 * str_len p) (drop sizeof_JSString ?m)"
      using room memory_wide [of "str_len p" ?m] by (simp add: string_memory_def js_units_def)
    then show ?thesis by (simp add: min_def)
  next
    case False
    then show ?thesis using room memory_narrow [of "str_len p" ?m] by (simp add: string_memory_def js_units_def)
  qed
  then show ?thesis using room by (simp add: slice_def room_def split: if_splits)
qed

lemma output_copied:
  assumes "string_ok p"
  shows "JS_JSStringToChar p (map junk [0..<str_len p + 1]) = Some (take (str_len p) (string_memory p) @ [0])"
proof -
  let ?bs = "take (str_len p) (string_memory p)"
  have len: "length ?bs = str_len p" by (simp add: string_memory_def js_units_def)
  have "blit (map junk [0..<str_len p + 1]) 0 ?bs = Some (?bs @ [junk (str_len p)])"
    using len by (simp add: blit_def drop_map)
  moreover have "wr (?bs @ [junk (str_len p)]) (str_len p) 0 = Some (?bs @ [0])"
    using len list_update_append [of ?bs "[junk (str_len p)]" "str_len p" 0] by (simp add: wr_def)
  ultimately show ?thesis using memory_slice [OF assms] by (simp add: JS_JSStringToChar_def)
qed

section \<open>The memory limit\<close>

lemma alloc_step_slack: "alloc_step esz req p q \<Longrightarrow> slack_le K (libc (fst p)) \<Longrightarrow> slack_le K (libc (fst q))"
proof (induction rule: alloc_step.induct)
  case (realloc_ok b L s n b' s')
  then show ?case using libc_realloc_usable [of K "libc s" esz b n]
    by (auto simp: js_def_realloc_def Let_def split: if_splits prod.splits option.splits)
next
  case (realloc_null b L s n s')
  then show ?case using libc_realloc_usable [of K "libc s" esz b n]
    by (auto simp: js_def_realloc_def Let_def split: if_splits prod.splits option.splits)
next
  case (malloc_ok s n b s' L)
  then show ?case using libc_malloc_usable [of K "libc s" esz n]
    by (auto simp: js_def_malloc_def Let_def split: if_splits prod.splits option.splits)
next
  case (malloc_null s n s' L)
  then show ?case using libc_malloc_usable [of K "libc s" esz n]
    by (auto simp: js_def_malloc_def Let_def split: if_splits prod.splits option.splits)
qed (auto simp: js_def_free_def)

lemma sum_charge_live: "\<Sum>\<^sub># (image_mset charge L) = (word_of_nat (live_bytes L) :: u64)"
  by (induction L) (simp_all add: live_bytes_def charge_def nat_charge_def js_def_malloc_usable_size_def MALLOC_OVERHEAD_def)

lemma unlimited_start:
  assumes "(alloc_step esz req)\<^sup>*\<^sup>* (init_malloc_state lc, {#}) (s, L)" "slack_le K lc"
  shows "slack_le K (libc s)" "malloc_size s = word_of_nat (live_bytes L)"
proof -
  have "accounted q \<and> slack_le K (libc (fst q))" if "(alloc_step esz req)\<^sup>*\<^sup>* (init_malloc_state lc, {#}) q" for q
    using that
  proof (induction rule: rtranclp_induct)
    case base
    then show ?case using assms(2) by (simp add: accounted_def init_malloc_state_def)
  next
    case (step p q)
    then show ?case using alloc_step_accounted alloc_step_slack by blast
  qed
  from this [OF assms(1)] show "slack_le K (libc s)" "malloc_size s = word_of_nat (live_bytes L)"
    by (simp_all add: accounted_def sum_charge_live)
qed

section \<open>Properties\<close>


text \<open>
  C37. The input as libFuzzer gives it: the script that \<open>LLVMFuzzerTestOneInput\<close> runs first builds the array whose elements are
  the bytes of the input.
\<close>

theorem fuzzer_input_array:
  "\<exists>body. script False input = scriptHeader False @ body @ scriptFooter False \<and> array_elements body = map unat input"
  using array_body [of input] by (auto simp: script_def)

text \<open>
  C38. The input given as a string: the engine's lexer reads the literal in the script up to its closing quote, and the
  string \<open>FuzzerInput\<close> has four characters for every byte, a backslash, an x and two hexadecimal digits: it is the text of
  the escape sequences and not the input.
\<close>

theorem fuzzer_input_string:
  assumes "heap_ok h" "granting h" "4 * int (length input) \<le> JS_STRING_LEN_MAX"
  shows "\<exists>literal tok h' r. script True input = scriptHeader True @ literal
    \<and> js_parse_string (Some False) 34 h line (literal @ [0]) = Some (Inr tok, h', line)
    \<and> tok_rest tok = [59, 0] \<and> tok_str tok = Some r \<and> js_units r = concat (map literal_units input)"
proof -
  let ?cs = "concat (map literal_chars input)"
  have "length (concat (map literal_units bs)) = 4 * length bs" for bs by (induction bs) (simp_all add: literal_units_def)
  then have max: "int (length (concat (map utf16 ?cs))) \<le> JS_STRING_LEN_MAX" using assms(3) unfolding literal_utf16 by simp
  obtain s h' where s: "js_parse_string (Some False) 34 h line (concat (map enc_char ?cs) @ 34 # [59, 0]) =
      Some (Inr \<lparr>tok_sep = 34, tok_str = Some s, tok_rest = [59, 0]\<rparr>, h', line)" "is_string (concat (map utf16 ?cs)) s"
    using parse_reads [OF literal_reads list.distinct(2) assms(1,2) max] by blast
  have "script True input = scriptHeader True @ (scriptBody True input @ [34, 59])" by (simp add: script_def scriptFooter_def)
  moreover have "js_parse_string (Some False) 34 h line ((scriptBody True input @ [34, 59]) @ [0]) =
      Some (Inr \<lparr>tok_sep = 34, tok_str = Some s, tok_rest = [59, 0]\<rparr>, h', line)"
    using s(1) unfolding scriptBody_string by simp
  ultimately show ?thesis using s(2) unfolding literal_utf16 is_string_def by fastforce
qed

theorem fuzzer_input_string_witness:
  "\<exists>literal tok h' r. script True [0xff, 0x0a] = scriptHeader True @ literal
    \<and> js_parse_string (Some False) 34 roomy 1 (literal @ [0]) = Some (Inr tok, h', 1)
    \<and> tok_rest tok = [59, 0] \<and> tok_str tok = Some r
    \<and> js_units r = concat (map literal_units [0xff, 0x0a])"
  by (rule fuzzer_input_string [OF roomy_ok]) (simp add: JS_STRING_LEN_MAX_def)



text \<open>
  C5. The harness and the allocator: \<open>JS::Run\<close> creates the runtime without a limit and then sets the 10 MiB that
  \<open>LLVMFuzzerInitialize\<close> chose. If the new runtime is smaller than that, the blocks that are live at any later time take at
  most 10 MiB, plus what the C library rounds up the last one.
\<close>

theorem harness_memory_limit:
  assumes "LLVMFuzzerInitialize fs compile argv = Return js" "slack_le K lc" "K \<le> 2 ^ 40"
    and "(alloc_step esz (2 ^ 62))\<^sup>*\<^sup>* (init_malloc_state lc, {#}) (s, L)" "live_bytes L \<le> 10485760"
    and "(alloc_step esz (2 ^ 62))\<^sup>*\<^sup>* (JS_SetMemoryLimit s (memoryLimit js), L) (s', L')"
  shows "live_bytes L' \<le> 10485760 + K + 8"
proof -
  have limit: "memoryLimit js = 10485760"
    using assms(1) unfolding LLVMFuzzerInitialize_def
    by (auto simp: SetMemoryLimit_def split: outcome.splits prod.splits if_splits)
  note start = unlimited_start [OF assms(4,2)]
  have "unat (word_of_nat (live_bytes L) :: u64) = live_bytes L" using assms(5) by (intro unat_of_nat_eq) simp
  then have "limited K 10485760 (JS_SetMemoryLimit s (memoryLimit js), L)"
    using start assms(5) by (simp add: limited_def JS_SetMemoryLimit_def limit)
  from alloc_run_limited [OF assms(6) this] show ?thesis using assms(3) by (simp add: limited_def)
qed

definition sample_files :: files where
  "sample_files fn = (if fn = [0x61] then Some [0x31] else None)"

theorem harness_memory_limit_witness: "live_bytes {#sample_block#} \<le> 10485760 + 4 + 8"
proof (rule harness_memory_limit)
  let ?s = "JS_SetMemoryLimit sample_state (- 1)"
  show "LLVMFuzzerInitialize sample_files (\<lambda>_. Some) [ascii ''fuzz'', ascii ''--bc=a''] = Return \<lparr>bytecode = [0x31], memoryLimit = 10485760\<rparr>"
    by code_simp
  show "slack_le 4 sample_libc" by (simp add: slack_le_def sample_libc_def)
  have "js_def_malloc 1 (init_malloc_state sample_libc) 3 = Some (Some sample_block, ?s)"
    by (simp add: js_def_malloc_def init_malloc_state_def libc_malloc_def JS_SetMemoryLimit_def sample_libc_def sample_block_def sample_state_def
        js_def_malloc_usable_size_def MALLOC_OVERHEAD_def upt_rec comp_def Let_def word_order.extremum not_less)
  from malloc_ok [OF this, of "2 ^ 62" "{#}"] show "(alloc_step 1 (2 ^ 62))\<^sup>*\<^sup>* (init_malloc_state sample_libc, {#}) (?s, {#sample_block#})"
    by (intro r_into_rtranclp) simp
  show "(alloc_step 1 (2 ^ 62))\<^sup>*\<^sup>* (JS_SetMemoryLimit ?s (memoryLimit \<lparr>bytecode = [0x31], memoryLimit = 10485760\<rparr>), {#sample_block#})
      (JS_SetMemoryLimit ?s 10485760, {#sample_block#})" by simp
qed (simp_all add: live_bytes_def nat_charge_def sample_block_def)

end
