(* ===== verification/Spec2Isabelle.thy ===== *)
theory Spec2Isabelle
  imports CUtils_UTF8 QJS_Malloc CUtils_DynBuf CUtils_String CUtils_Exchange Sort_Order
    Unicode_Script QJS_Date_Text QJS_GC_Sweep QJS_PC2Line Harness
begin

text \<open>
  A verification library for libfuzzer-js, a libFuzzer harness around the QuickJS JavaScript engine.

  \<^bold>\<open>The program.\<close> \<open>src/harness.cpp\<close> holds the two entry points that libFuzzer calls. \<open>LLVMFuzzerInitialize\<close> reads the
  arguments, loads a script or compiled bytecode and builds an object of the class \<open>JS\<close> (\<open>src/js.h\<close>, \<open>src/js.cpp\<close>);
  \<open>LLVMFuzzerTestOneInput\<close> hands every input to \<open>JS::Run\<close>, which wraps it in a script as \<open>FuzzerInput\<close>, evaluates it
  in a fresh QuickJS runtime with a memory limit and reads \<open>FuzzerOutput\<close> back. The engine is \<open>src/quickjs\<close>:
  \<open>quickjs.c\<close> (runtime, parser, interpreter, built-ins), \<open>cutils.c\<close> (buffers, UTF-8, sort), \<open>libunicode.c\<close> with its
  generated tables (identifiers, case conversion, properties) and \<open>libregexp.c\<close>. The parts interact through the
  allocator, whose limit every other part must survive: a refused allocation is an ordinary branch of each operation
  below, never an assumption.

  \<^bold>\<open>Conventions.\<close> C memory is a list with checked accesses; an access out of bounds, a failed assertion and a call of
  \<open>abort\<close> are the value \<open>None\<close>, so that a theorem of the form \<open>\<exists>r. f x = Some r\<close> is memory safety and termination at
  once. Return codes (0, -1, -2) are kept. Machine integers are words where the code relies on their width; where a C
  \<open>int\<close> is modelled by an integer or natural number the wrap-around is written out (\<open>s32\<close>, \<open>size_t\<close>) or the bound is
  part of the invariant. The C library is a stream of answers to allocation requests (refusal, or a block with some slack
  and arbitrary contents) and every theorem holds for all streams. Code outside the sources (the C library's
  \<open>localtime_r\<close>, \<open>printf\<close>, the file system) is an argument; so is, for the harness, the engine that runs a script.

  \<^bold>\<open>Theories, in the order of their imports.\<close>

  \<^item> \<open>Prelude\<close>: types, checked memory (\<open>rd\<close>, \<open>wr\<close>, \<open>blit\<close>, \<open>slice\<close>), facts on lists and words.
  \<^item> \<open>CUtils_UTF8\<close> (\<open>unicode_to_utf8\<close>, \<open>unicode_from_utf8\<close>): the round trip of every code point below \<open>2 ^ 31\<close>, and that
    only the shortest form is accepted.
  \<^item> \<open>QJS_Malloc\<close> (\<open>js_def_malloc\<close>, \<open>js_def_realloc\<close>, \<open>js_def_free\<close>, \<open>JS_SetMemoryLimit\<close>): runs of the allocator as a
    step relation, the accounting invariant, the bound on live memory, and the locale \<open>realloc_contract\<close> that the
    users of a reallocation callback rely on, interpreted for the C library and for the engine's allocator.
  \<^item> \<open>CUtils_DynBuf\<close> (\<open>dbuf_*\<close>) over \<open>realloc_contract\<close>: appending, and that checking the error flag once at the end is enough.
    \<open>CUtils_String\<close>: string and byte helpers of \<open>cutils\<close>.
  \<^item> \<open>CUtils_Exchange\<close>, \<open>CUtils_Sort\<close>, \<open>Sort_Order\<close> (\<open>exchange_*\<close>, \<open>heapsortx\<close>, \<open>med3\<close>, \<open>rqsort\<close> and the comparison callbacks
    of typed arrays): termination and memory safety for every callback, with the explicit stack of 50 entries, which is
    enough because the depth of an entry is at least the number of entries below it and from depth 50 on the code
    turns to \<open>heapsortx\<close>; the sorted result for every
    callback that satisfies the locale \<open>comparator\<close>.
  \<^item> \<open>CharRange\<close> (\<open>cr_*\<close>) over \<open>realloc_contract\<close>: set operations on sorted ranges.
  \<^item> \<open>Unicode_Tables\<close>, \<open>Unicode_Prop_Tables\<close>: the tables of \<open>libunicode-table.h\<close>. \<open>Unicode_Index\<close>, \<open>Unicode_Case\<close>: the indexed
    lookups and case conversion. \<open>Unicode_Prop\<close>: names, \<open>unicode_prop\<close>, \<open>unicode_general_category\<close>, \<open>unicode_script\<close> and the
    stack machine \<open>unicode_prop_ops\<close>. \<open>Unicode_Ranges\<close>, \<open>Unicode_Sets\<close>, \<open>Unicode_Case_Sets\<close>, \<open>Unicode_Machine\<close>, \<open>Unicode_Script\<close>: the
    refinement of these functions to sets of code points, through the locales \<open>run_decoder\<close>, \<open>run_adder\<close>, \<open>cr_alloc\<close> and \<open>cr_grant\<close>.
  \<^item> \<open>QJS_Date\<close>, \<open>QJS_Date_Text\<close> (\<open>days_in_year\<close> to \<open>js_Date_parse\<close>): calendar arithmetic, setters, printing and parsing, with
    the round trips between time values, fields and texts.
  \<^item> \<open>QJS_GC\<close>, \<open>QJS_GC_Sweep\<close> (\<open>gc_decref\<close>, \<open>gc_scan\<close>, \<open>gc_free_cycles\<close>, \<open>JS_RunGC\<close>): the three marking passes, instances of the
    locale \<open>gc_pass\<close>, and the sweep. The recursion of the marking functions is bounded by fuel; more fuel than nodes is
    enough, because each call marks its node first. A collection frees exactly the unreachable objects and restores the
    well-formed heap.
  \<^item> \<open>QJS_PC2Line\<close> (\<open>dbuf_put_leb128\<close> to \<open>find_line_num\<close>): variable length integers and the line number table.
  \<^item> \<open>QJS_String\<close>, \<open>QJS_CString\<close>, \<open>QJS_Quote\<close>: string buffers as a byte-level refinement of lists of 16 bit units, UTF-8
    conversion, quoting and the lexer of string literals. The heap condition \<open>heap_ok\<close> bounds the slack of one block by
    \<open>2 ^ 30\<close> bytes, so that sizes fit the C type \<open>int\<close>; lengths are at most \<open>JS_STRING_LEN_MAX\<close>, as in the code.
  \<^item> \<open>Harness\<close>: the class \<open>JS\<close>, the entry points and \<open>JS_JSStringToChar\<close>; what the script sees of the input and what
    \<open>Run\<close> returns.

  \<^bold>\<open>Not modelled.\<close> The parser apart from string literals, the interpreter, objects, shapes and properties, and the
  built-ins that call back into JavaScript: they depend on each other through the whole object model and the opcode
  table. Serialised bytecode, modules and promises, the compiler and matcher of regular expressions, Unicode
  normalisation, arbitrary precision numbers (not compiled into the harness), the host library, the command line tools,
  the test runner and the generators of tables. In the modelled parts: the class specific finalizers of the collector
  (their effect is the list of values they release), weak references, \<open>Date.now\<close> and the conversions that call
  JavaScript, float32 and BigInt comparison callbacks, and debug output.
\<close>

end
